(* ===== verification/Prelude.thy ===== *)
theory Prelude
  imports Main "HOL-Library.Word"
begin

text \<open>
  The shared vocabulary of the development.

  A Go call either returns a value, panics, or (for the fuelled models of loops) has not
  finished within the fuel given to it; \<open>go\<close> is the type of these outcomes and
  \<open>go_bind\<close> sequences two calls.  A Go error is an ordinary result value and therefore
  lives inside \<open>Ret\<close>; only run-time panics (index out of range, nil dereference, an
  impossible allocation) are \<open>Panic\<close>.

  Bytes are 8-bit words, \<open>uint32\<close> and \<open>uint64\<close> are 32- and 64-bit words, and the
  conversions Go writes as \<open>int(x)\<close> are \<open>sint\<close> of a 64-bit word.  The rest of
  the theory collects facts on lists and little-endian words that the components share.
\<close>

unbundle bit_operations_syntax

type_synonym byte = "8 word"
type_synonym bytes = "byte list"
type_synonym u16 = "16 word"
type_synonym u32 = "32 word"
type_synonym u64 = "64 word"

named_theorems go_simps \<open>rewrite rules for sequencing Go calls\<close>

datatype 'a go = Ret 'a | Panic | Diverge

primrec go_bind :: "'a go \<Rightarrow> ('a \<Rightarrow> 'b go) \<Rightarrow> 'b go" where
  "go_bind (Ret x) f = f x"
| "go_bind Panic f = Panic"
| "go_bind Diverge f = Diverge"

primrec go_map :: "('a \<Rightarrow> 'b) \<Rightarrow> 'a go \<Rightarrow> 'b go" where
  "go_map f (Ret x) = Ret (f x)"
| "go_map f Panic = Panic"
| "go_map f Diverge = Diverge"

definition returns :: "'a go \<Rightarrow> bool" where
  "returns m \<longleftrightarrow> (\<exists>x. m = Ret x)"

text \<open>Two's complement reading of an integer at 64 bits: what a Go \<open>int\<close> holds after
  an operation whose mathematical result is \<open>z\<close>.\<close>

definition wrap64 :: "int \<Rightarrow> int" where
  "wrap64 z = sint (word_of_int z :: u64)"

text \<open>\<open>b[i:j]\<close> on a list, when the bounds are in range.\<close>

definition subseg :: "nat \<Rightarrow> nat \<Rightarrow> 'a list \<Rightarrow> 'a list" where
  "subseg i j xs = take (j - i) (drop i xs)"

text \<open>Overwriting a part of a list from position \<open>i\<close> on: the effect of Go's
  \<open>copy(b[i:], src)\<close>, which stops at the end of the destination.\<close>

definition blit :: "nat \<Rightarrow> 'a list \<Rightarrow> 'a list \<Rightarrow> 'a list" where
  "blit i src xs =
     (let n = min (length src) (length xs - i) in take i xs @ take n src @ drop (i + n) xs)"

text \<open>The \<open>n\<close> bytes of a word, least significant first, and the word they stand for.\<close>

fun le_bytes :: "nat \<Rightarrow> 'a::len word \<Rightarrow> bytes" where
  "le_bytes 0 x = []"
| "le_bytes (Suc n) x = ucast x # le_bytes n (drop_bit 8 x)"

fun le_word :: "bytes \<Rightarrow> 'a::len word" where
  "le_word [] = 0"
| "le_word (b # bs) = ucast b OR push_bit 8 (le_word bs)"


subsection \<open>Sequencing\<close>

lemma go_bind_Ret_iff [go_simps]:
  "go_bind m f = Ret y \<longleftrightarrow> (\<exists>x. m = Ret x \<and> f x = Ret y)"
  by (cases m) auto

lemma go_bind_assoc [go_simps]: "go_bind (go_bind m f) g = go_bind m (\<lambda>x. go_bind (f x) g)"
  by (cases m) auto

lemma go_bind_Ret_right [simp]: "go_bind m Ret = m"
  by (cases m) auto

lemma go_bind_Diverge_iff:
  "go_bind m f = Diverge \<longleftrightarrow> m = Diverge \<or> (\<exists>x. m = Ret x \<and> f x = Diverge)"
  by (cases m) auto

lemma go_bind_Panic_iff:
  "go_bind m f = Panic \<longleftrightarrow> m = Panic \<or> (\<exists>x. m = Ret x \<and> f x = Panic)"
  by (cases m) auto

lemma go_map_iff [simp]:
  "go_map f m = Ret y \<longleftrightarrow> (\<exists>x. m = Ret x \<and> f x = y)"
  "go_map f m = Panic \<longleftrightarrow> m = Panic"
  "go_map f m = Diverge \<longleftrightarrow> m = Diverge"
  by (cases m; auto)+


subsection \<open>Lists\<close>

lemma length_subseg [simp]: "length (subseg i j xs) = min (j - i) (length xs - i)"
  by (simp add: subseg_def)

lemma length_blit [simp]: "i \<le> length xs \<Longrightarrow> length (blit i src xs) = length xs"
  by (auto simp: blit_def Let_def)

lemma drop_eq_append_nth:
  "drop i xs = y # ys \<Longrightarrow> i < length xs \<and> xs ! i = y \<and> drop (Suc i) xs = ys"
  by (metis Cons_nth_drop_Suc drop_eq_Nil list.distinct(1) list.inject not_less)

lemma drop_append_drop: "drop i xs = ys @ zs \<Longrightarrow> drop (i + length ys) xs = zs"
  by (metis append_eq_conv_conj drop_drop add.commute)

lemma drop_eq_append_le: "drop i xs = ys @ zs \<Longrightarrow> ys \<noteq> [] \<Longrightarrow> i + length ys \<le> length xs"
proof -
  assume d: "drop i xs = ys @ zs" and "ys \<noteq> []"
  then have "i < length xs" by (metis append_is_Nil_conv drop_eq_Nil not_less)
  moreover from d have "length ys \<le> length xs - i"
    by (metis le_add1 length_append length_drop)
  ultimately show ?thesis by simp
qed


subsection \<open>Words\<close>

lemma wrap64_id: "- (2 ^ 63) \<le> z \<Longrightarrow> z < 2 ^ 63 \<Longrightarrow> wrap64 z = z"
  by (simp add: wrap64_def sint_sbintrunc' signed_take_bit_int_eq_self)

lemma length_le_bytes [simp]: "length (le_bytes n x) = n"
  by (induction n arbitrary: x) auto

lemma le_word_le_bytes: "le_word (le_bytes n x) = take_bit (8 * n) x"
  for x :: "'a::len word"
proof (induction n arbitrary: x)
  case 0
  then show ?case by simp
next
  case (Suc n)
  have "ucast (ucast x :: byte) OR push_bit 8 (take_bit (8 * n) (drop_bit 8 x))
      = take_bit (8 * Suc n) x"
    by (rule bit_word_eqI) (auto simp: bit_simps)
  with Suc show ?case by simp
qed

lemma take_bit_less_self: "unat w < 2 ^ n \<Longrightarrow> take_bit n w = w" for w :: "'a::len word"
  by (rule unsigned_word_eqI [where ?'a = nat])
    (simp add: unsigned_take_bit_eq take_bit_nat_eq_self)

lemma unat_byte_less: "unat b < 256" for b :: byte
  using unsigned_less [of b, where ?'a = nat] by simp

lemma ucast_up_down: "LENGTH('a) \<le> LENGTH('b) \<Longrightarrow> ucast (ucast x :: 'b::len word) = x"
  for x :: "'a::len word"
  by (rule bit_word_eqI) (auto simp: bit_simps)

end
