(* ===== verification/Spb.thy ===== *)
theory Spb
  imports Prelude "HOL-Library.AList"
begin

text \<open>
  The self-describing binary format of \<^verbatim>\<open>src/stnet/spb.go\<close>.

  Go values reach the codec through \<open>reflect\<close>; the model has a datatype of Go types and a
  datatype of typed Go values.  A slice, map or pointer value carries its element types, so
  that the type of every value (and the zero value of every type) is computable.  A nil and
  an empty slice (or map) are one value: the code only looks at their length.  A map is the
  list of its entries in the order \<open>MapKeys\<close> happens to give them.  Floats are their bit
  patterns.  Struct fields are exported and carry the two struct tags the code reads.  The
  basic kinds are the predeclared types (on a defined type such as \<open>type T int\<close> the type
  assertions of \<open>pack\<close> panic).  \<open>TOther\<close>/\<open>VOther\<close> stand for the kinds
  that have no case in the \<open>switch\<close> of \<open>pack\<close> (arrays, channels, functions).

  The Spb struct is the record \<open>spb\<close>; methods take it and return it updated.  The decoder
  recurses on the input, so it is modelled with fuel; \<open>Spb_Total\<close> shows that one unit
  per byte is enough.
\<close>

datatype spberr =
    ErrNoEnoughData | ErrOverflow | ErrInvalidType | ErrStructEnd | ErrNeedPtr
  | ErrUnexpectedEOF | ErrMarshalNil

record stag =
  stag_tag :: string
  stag_require :: string

datatype gotype =
    TBool | TInt | TInt8 | TInt16 | TInt32 | TInt64
  | TUint | TUint8 | TUint16 | TUint32 | TUint64 | TFloat32 | TFloat64 | TString
  | TSlice gotype | TMap gotype gotype | TPtr gotype | TStruct "(stag \<times> gotype) list" | TOther

datatype goval =
    VBool bool | VInt u64 | VInt8 byte | VInt16 u16 | VInt32 u32 | VInt64 u64
  | VUint u64 | VUint8 byte | VUint16 u16 | VUint32 u32 | VUint64 u64
  | VFloat32 u32 | VFloat64 u64 | VString bytes
  | VSlice gotype "goval list" | VMap gotype gotype "(goval \<times> goval) list"
  | VPtr gotype "goval option" | VStruct "(stag \<times> goval) list" | VOther

record spb =
  buf :: bytes
  index :: nat

abbreviation (input) Integer_Positive :: byte where "Integer_Positive \<equiv> 0"
abbreviation (input) Integer_Negative :: byte where "Integer_Negative \<equiv> 1"
abbreviation (input) Wire_Float :: byte where "Wire_Float \<equiv> 2"
abbreviation (input) Wire_Double :: byte where "Wire_Double \<equiv> 3"
abbreviation (input) Wire_String :: byte where "Wire_String \<equiv> 4"
abbreviation (input) Wire_Vector :: byte where "Wire_Vector \<equiv> 5"
abbreviation (input) Wire_Map :: byte where "Wire_Map \<equiv> 6"
abbreviation (input) StructBegin :: byte where "StructBegin \<equiv> 7"
abbreviation (input) StructEnd :: byte where "StructEnd \<equiv> 8"


subsection \<open>What the code uses of the Go library\<close>

text \<open>\<open>strconv.Atoi\<close> on a 64-bit platform: an optional sign, at least one decimal digit,
  and an error outside the range of \<open>int\<close>.\<close>

definition digit_val :: "char \<Rightarrow> nat option" where
  "digit_val c = (let n = (of_char c :: nat) in if 48 \<le> n \<and> n \<le> 57 then Some (n - 48) else None)"

fun atoi_digits :: "nat \<Rightarrow> string \<Rightarrow> nat option" where
  "atoi_digits acc [] = Some acc"
| "atoi_digits acc (c # cs) =
     (case digit_val c of None \<Rightarrow> None | Some d \<Rightarrow> atoi_digits (10 * acc + d) cs)"

definition atoi :: "string \<Rightarrow> int option" where
  "atoi s =
     (let neg = (s \<noteq> [] \<and> hd s = CHR ''-'');
          ds = (if s \<noteq> [] \<and> (hd s = CHR ''-'' \<or> hd s = CHR ''+'') then tl s else s)
      in if ds = [] then None
         else case atoi_digits 0 ds of
           None \<Rightarrow> None
         | Some n \<Rightarrow>
             let z = (if neg then - int n else int n)
             in if - (2 ^ 63) \<le> z \<and> z < 2 ^ 63 then Some z else None)"

text \<open>The types of values, and the zero value \<open>reflect.New\<close> allocates for a type.\<close>

fun type_of :: "goval \<Rightarrow> gotype" where
  "type_of (VBool _) = TBool"
| "type_of (VInt _) = TInt"
| "type_of (VInt8 _) = TInt8"
| "type_of (VInt16 _) = TInt16"
| "type_of (VInt32 _) = TInt32"
| "type_of (VInt64 _) = TInt64"
| "type_of (VUint _) = TUint"
| "type_of (VUint8 _) = TUint8"
| "type_of (VUint16 _) = TUint16"
| "type_of (VUint32 _) = TUint32"
| "type_of (VUint64 _) = TUint64"
| "type_of (VFloat32 _) = TFloat32"
| "type_of (VFloat64 _) = TFloat64"
| "type_of (VString _) = TString"
| "type_of (VSlice t _) = TSlice t"
| "type_of (VMap k v _) = TMap k v"
| "type_of (VPtr t _) = TPtr t"
| "type_of (VStruct fs) = TStruct (map (\<lambda>(g, v). (g, type_of v)) fs)"
| "type_of VOther = TOther"

fun zero_of :: "gotype \<Rightarrow> goval" where
  "zero_of TBool = VBool False"
| "zero_of TInt = VInt 0"
| "zero_of TInt8 = VInt8 0"
| "zero_of TInt16 = VInt16 0"
| "zero_of TInt32 = VInt32 0"
| "zero_of TInt64 = VInt64 0"
| "zero_of TUint = VUint 0"
| "zero_of TUint8 = VUint8 0"
| "zero_of TUint16 = VUint16 0"
| "zero_of TUint32 = VUint32 0"
| "zero_of TUint64 = VUint64 0"
| "zero_of TFloat32 = VFloat32 0"
| "zero_of TFloat64 = VFloat64 0"
| "zero_of TString = VString []"
| "zero_of (TSlice t) = VSlice t []"
| "zero_of (TMap k v) = VMap k v []"
| "zero_of (TPtr t) = VPtr t None"
| "zero_of (TStruct fs) = VStruct (map (\<lambda>(g, t). (g, zero_of t)) fs)"
| "zero_of TOther = VOther"

text \<open>The conversion \<open>float32(f)\<close> inside \<open>reflect.Value.SetFloat\<close>, on bit patterns:
  round to nearest, ties to even, with overflow to infinity and gradual underflow.\<close>

definition round_even :: "nat \<Rightarrow> nat \<Rightarrow> nat" where
  "round_even m k =
     (let q = m div 2 ^ k; r = m mod 2 ^ k in
      if k = 0 then m
      else if 2 * r > 2 ^ k \<or> (2 * r = 2 ^ k \<and> odd q) then q + 1 else q)"

definition f64_to_f32 :: "u64 \<Rightarrow> u32" where
  "f64_to_f32 w =
     (let s = unat (drop_bit 63 w) * 2 ^ 31;
          e = unat (drop_bit 52 w AND 0x7ff);
          m = unat (w AND 0xfffffffffffff)
      in if e = 0x7ff then
           (if m = 0 then of_nat (s + 0x7f800000)
            else of_nat s OR 0x7fc00000 OR of_nat (m div 2 ^ 29))
         else if e = 0 then of_nat s
         else if e \<ge> 897 then
           of_nat (s + min 0x7f800000 ((e - 897) * 2 ^ 23 + round_even (m + 2 ^ 52) 29))
         else of_nat (s + round_even (m + 2 ^ 52) (29 + (897 - e))))"

text \<open>\<open>reflect.Value.SetUint\<close>, \<open>SetInt\<close>, \<open>SetBool\<close>, \<open>SetFloat\<close>: they
  truncate to the width of the destination.\<close>

fun setUint :: "goval \<Rightarrow> u64 \<Rightarrow> goval" where
  "setUint (VUint _) v = VUint v"
| "setUint (VUint8 _) v = VUint8 (ucast v)"
| "setUint (VUint16 _) v = VUint16 (ucast v)"
| "setUint (VUint32 _) v = VUint32 (ucast v)"
| "setUint (VUint64 _) v = VUint64 v"
| "setUint x v = x"

fun setInt :: "goval \<Rightarrow> u64 \<Rightarrow> goval" where
  "setInt (VInt _) v = VInt v"
| "setInt (VInt8 _) v = VInt8 (ucast v)"
| "setInt (VInt16 _) v = VInt16 (ucast v)"
| "setInt (VInt32 _) v = VInt32 (ucast v)"
| "setInt (VInt64 _) v = VInt64 v"
| "setInt x v = x"

fun setFloat :: "goval \<Rightarrow> u64 \<Rightarrow> goval" where
  "setFloat (VFloat32 _) v = VFloat32 (f64_to_f32 v)"
| "setFloat (VFloat64 _) v = VFloat64 v"
| "setFloat x v = x"

text \<open>\<open>make([]reflect.Value, 0, n)\<close> panics when the capacity (24 bytes an element) does
  not fit the 48-bit address space; smaller allocations are taken to succeed.\<close>

definition max_values :: nat where
  "max_values = 2 ^ 48 div 24"


subsection \<open>Encoding\<close>

definition packData :: "spb \<Rightarrow> bytes \<Rightarrow> spb" where
  "packData s data = s\<lparr>buf := buf s @ data\<rparr>"

definition packByte :: "spb \<Rightarrow> byte \<Rightarrow> spb" where
  "packByte s x = s\<lparr>buf := buf s @ [x]\<rparr>"

lemma drop_bit_7_less: "128 \<le> x \<Longrightarrow> unat (drop_bit 7 x) < unat x" for x :: u64
proof -
  assume "128 \<le> x"
  then have "128 \<le> unat x" by (simp add: word_le_nat_alt)
  moreover have "unat (drop_bit 7 x) = unat x div 128"
    by (simp add: unat_drop_bit_eq drop_bit_eq_div [of 7 "unat x"])
  ultimately show ?thesis by simp
qed

function packNumber :: "spb \<Rightarrow> u64 \<Rightarrow> spb" where
  "packNumber s x =
     (if x \<ge> 128
      then packNumber (s\<lparr>buf := buf s @ [ucast ((x AND 0x7f) OR 0x80)]\<rparr>) (drop_bit 7 x)
      else s\<lparr>buf := buf s @ [ucast x]\<rparr>)"
  by pat_completeness auto
termination
  by (relation "measure (\<lambda>(s, x). unat x)") (auto simp: drop_bit_7_less)

declare packNumber.simps [simp del]

definition packHeader :: "spb \<Rightarrow> u32 \<Rightarrow> byte \<Rightarrow> spb" where
  "packHeader s tag typ =
     (let header = push_bit 4 typ in
      if tag < 15 then packByte s (header OR ucast tag)
      else packNumber (packByte s (header OR 0xf)) (ucast tag))"

text \<open>The five signed cases of \<open>pack\<close> differ only in the width of the variable \<open>v\<close>:
  the sign is taken off at that width and the result converted to \<open>uint64\<close>.\<close>

definition signed_val :: "'a::len word \<Rightarrow> byte \<times> u64" where
  "signed_val v = (if sint v < 0 then (Integer_Negative, scast (- v)) else (Integer_Positive, scast v))"

fun scalar_val :: "goval \<Rightarrow> (byte \<times> u64) option" where
  "scalar_val (VBool b) = Some (Integer_Positive, if b then 1 else 0)"
| "scalar_val (VInt v) = Some (signed_val v)"
| "scalar_val (VInt8 v) = Some (signed_val v)"
| "scalar_val (VInt16 v) = Some (signed_val v)"
| "scalar_val (VInt32 v) = Some (signed_val v)"
| "scalar_val (VInt64 v) = Some (signed_val v)"
| "scalar_val (VUint v) = Some (Integer_Positive, v)"
| "scalar_val (VUint8 v) = Some (Integer_Positive, ucast v)"
| "scalar_val (VUint16 v) = Some (Integer_Positive, ucast v)"
| "scalar_val (VUint32 v) = Some (Integer_Positive, ucast v)"
| "scalar_val (VUint64 v) = Some (Integer_Positive, v)"
| "scalar_val (VFloat32 v) = Some (Integer_Positive, ucast v)"
| "scalar_val (VFloat64 v) = Some (Integer_Positive, v)"
| "scalar_val _ = None"

text \<open>The tag \<open>packStruct\<close> gives the field at position \<open>i\<close>.\<close>

definition field_tag :: "nat \<Rightarrow> stag \<Rightarrow> int" where
  "field_tag i g =
     (if stag_tag g \<noteq> '''' then (case atoi (stag_tag g) of Some z \<Rightarrow> z | None \<Rightarrow> int i) else int i)"

text \<open>\<open>pack\<close> dereferences a pointer once (a nil pointer panics) and switches on
  the kind of what it finds; \<open>packSlice\<close>, \<open>packMap\<close> and \<open>packStruct\<close>
  loop over their parts and stop at the first error.\<close>

fun deref :: "goval \<Rightarrow> goval option" where
  "deref (VPtr t p) = p"
| "deref x = Some x"

lemma size_deref: "deref i = Some x \<Longrightarrow> size x \<le> size i"
  by (cases i) auto

function (sequential) pack :: "spb \<Rightarrow> u32 \<Rightarrow> goval \<Rightarrow> bool \<Rightarrow> bool \<Rightarrow> (spb \<times> spberr option) go"
and packSliceLoop :: "spb \<Rightarrow> goval list \<Rightarrow> (spb \<times> spberr option) go"
and packMapLoop :: "spb \<Rightarrow> (goval \<times> goval) list \<Rightarrow> (spb \<times> spberr option) go"
and packStructLoop :: "spb \<Rightarrow> nat \<Rightarrow> (stag \<times> goval) list \<Rightarrow> (spb \<times> spberr option) go" where
  "pack s tag i packHead require =
     (case deref i of
        None \<Rightarrow> Panic
      | Some (VString v) \<Rightarrow>
          (if length v = 0 \<and> \<not> require then Ret (s, None)
           else let s1 = (if packHead then packHeader s tag Wire_String else s)
                in Ret (packData (packNumber s1 (of_nat (length v))) v, None))
      | Some (VSlice t vs) \<Rightarrow>
          (if length vs = 0 \<and> \<not> require then Ret (s, None)
           else packSliceLoop (packNumber (packHeader s tag Wire_Vector) (of_nat (length vs))) vs)
      | Some (VMap k t es) \<Rightarrow>
          (if length es = 0 \<and> \<not> require then Ret (s, None)
           else packMapLoop (packNumber (packHeader s tag Wire_Map) (of_nat (length es))) es)
      | Some (VStruct fs) \<Rightarrow>
          go_bind (packStructLoop (packHeader s tag StructBegin) 0 fs)
            (\<lambda>(s1, err). if err \<noteq> None then Ret (s1, err) else Ret (packHeader s1 0 StructEnd, None))
      | Some x \<Rightarrow>
          (case scalar_val x of
             None \<Rightarrow> Ret (s, Some ErrInvalidType)
           | Some (typ, val) \<Rightarrow>
               if val = 0 \<and> \<not> require then Ret (s, None)
               else let s1 = (if packHead then packHeader s tag typ else s)
                    in Ret (packNumber s1 val, None)))"
| "packSliceLoop s [] = Ret (s, None)"
| "packSliceLoop s (v # vs) =
     go_bind (pack s 0 v True True)
       (\<lambda>(s1, err). if err \<noteq> None then Ret (s1, err) else packSliceLoop s1 vs)"
| "packMapLoop s [] = Ret (s, None)"
| "packMapLoop s ((k, v) # es) =
     go_bind (pack s 0 k True True)
       (\<lambda>(s1, err). if err \<noteq> None then Ret (s1, err)
          else go_bind (pack s1 0 v True True)
            (\<lambda>(s2, err2). if err2 \<noteq> None then Ret (s2, err2) else packMapLoop s2 es))"
| "packStructLoop s i [] = Ret (s, None)"
| "packStructLoop s i ((g, v) # fs) =
     go_bind (pack s (word_of_int (field_tag i g)) v True (stag_require g = ''true''))
       (\<lambda>(s1, err). if err \<noteq> None then Ret (s1, err) else packStructLoop s1 (Suc i) fs)"
  by pat_completeness auto
termination
  by (relation "measure (\<lambda>a. case a of
        Inl (Inl (s, tag, i, h, r)) \<Rightarrow> size i
      | Inl (Inr (s, vs)) \<Rightarrow> size_list size vs
      | Inr (Inl (s, es)) \<Rightarrow> size_list (size_prod size size) es
      | Inr (Inr (s, i, fs)) \<Rightarrow> size_list (size_prod (\<lambda>_. 0) size) fs)")
    (auto dest!: size_deref)

declare pack.simps [simp del]

definition SpbEncode :: "goval \<Rightarrow> (bytes \<times> spberr option) go" where
  "SpbEncode data =
     go_bind (pack \<lparr>buf = [], index = 0\<rparr> 0 data True True) (\<lambda>(s, e). Ret (buf s, e))"


subsection \<open>Decoding: bytes, numbers, headers\<close>

text \<open>The sum \<open>spb.index+n\<close> may wrap around and pass the check; \<open>make\<close> then
  panics (its limit is the 48-bit address space), and so would the slice expression.\<close>

definition unpackByte :: "spb \<Rightarrow> int \<Rightarrow> (spb \<times> bytes \<times> spberr option) go" where
  "unpackByte s n =
     (if n \<le> 0 then Ret (s, [], None)
      else let stop = wrap64 (int (index s) + n) in
           if stop > int (length (buf s)) then Ret (s, [], Some ErrNoEnoughData)
           else if n > 2 ^ 48 \<or> int (index s) + n > int (length (buf s)) then Panic
           else Ret (s\<lparr>index := index s + nat n\<rparr>, subseg (index s) (index s + nat n) (buf s), None))"

function unpackNumberLoop :: "spb \<Rightarrow> nat \<Rightarrow> nat \<Rightarrow> u64 \<Rightarrow> spb \<times> u64 \<times> spberr option" where
  "unpackNumberLoop s i shift x =
     (if shift < 64 then
        if i \<ge> length (buf s) then (s, x, Some ErrUnexpectedEOF)
        else let b = buf s ! i;
                 x' = x OR push_bit shift (ucast b AND 0x7F)
             in if b < 0x80 then (s\<lparr>index := Suc i\<rparr>, x', None)
                else unpackNumberLoop s (Suc i) (shift + 7) x'
      else (s, x, Some ErrOverflow))"
  by pat_completeness auto
termination
  by (relation "measure (\<lambda>(s, i, shift, x). 64 - shift)") auto

declare unpackNumberLoop.simps [simp del]

definition unpackNumber :: "spb \<Rightarrow> spb \<times> u64 \<times> spberr option" where
  "unpackNumber s = unpackNumberLoop s (index s) 0 0"

definition unpackHeader :: "spb \<Rightarrow> spb \<times> u32 \<times> byte \<times> spberr option" where
  "unpackHeader s =
     (if length (buf s) \<le> index s then (s, 0, 0, Some ErrNoEnoughData)
      else let b = buf s ! index s;
               typ = drop_bit 4 b;
               tag = (ucast (b AND 0xf) :: u32);
               s1 = s\<lparr>index := Suc (index s)\<rparr>
           in if tag = 0xf
              then let (s2, tag1, err1) = unpackNumber s1 in (s2, ucast tag1, typ, err1)
              else (s1, tag, typ, None))"

text \<open>A \<open>reflect.Value\<close> that may be invalid (no field has the tag read) is an
  option; every valid value the decoder reaches is addressable and exported.\<close>

fun CanSetBool :: "goval option \<Rightarrow> bool" where
  "CanSetBool (Some (VBool _)) = True"
| "CanSetBool _ = False"

fun CanSetFloat :: "goval option \<Rightarrow> bool" where
  "CanSetFloat (Some (VFloat32 _)) = True"
| "CanSetFloat (Some (VFloat64 _)) = True"
| "CanSetFloat _ = False"

fun CanSetInt :: "goval option \<Rightarrow> bool" where
  "CanSetInt (Some (VInt _)) = True"
| "CanSetInt (Some (VInt8 _)) = True"
| "CanSetInt (Some (VInt16 _)) = True"
| "CanSetInt (Some (VInt32 _)) = True"
| "CanSetInt (Some (VInt64 _)) = True"
| "CanSetInt _ = False"

fun CanSetUint :: "goval option \<Rightarrow> bool" where
  "CanSetUint (Some (VUint _)) = True"
| "CanSetUint (Some (VUint8 _)) = True"
| "CanSetUint (Some (VUint16 _)) = True"
| "CanSetUint (Some (VUint32 _)) = True"
| "CanSetUint (Some (VUint64 _)) = True"
| "CanSetUint _ = False"


subsection \<open>Skipping what the destination does not know\<close>

text \<open>\<open>skipHeads\<close> is the counting loop of the vector case; the map case runs it for two
  fields an entry.  Errors of the readers are dropped, as in the code; a panic is not.\<close>

fun skipHeadField :: "nat \<Rightarrow> spb \<Rightarrow> spb go"
and skipHeads :: "nat \<Rightarrow> nat \<Rightarrow> spb \<Rightarrow> spb go"
and skipField :: "nat \<Rightarrow> byte \<Rightarrow> spb \<Rightarrow> spb go"
and skipToStructEnd :: "nat \<Rightarrow> spb \<Rightarrow> spb go" where
  "skipHeadField 0 s = Diverge"
| "skipHeadField (Suc f) s =
     (let (s1, tag, typ, err) = unpackHeader s in
      if err \<noteq> None then Ret s1 else skipField f typ s1)"
| "skipHeads f 0 s = Ret s"
| "skipHeads f (Suc n) s = go_bind (skipHeadField f s) (skipHeads f n)"
| "skipField f typ s =
     (if typ \<in> {Integer_Positive, Integer_Negative, Wire_Float, Wire_Double} then Ret (fst (unpackNumber s))
      else if typ = Wire_String then
        (let (s1, ln, err) = unpackNumber s in
         if err \<noteq> None then Ret s1 else go_map fst (unpackByte s1 (sint ln)))
      else if typ = Wire_Vector then
        (let (s1, ln, err) = unpackNumber s in
         if err \<noteq> None then Ret s1 else skipHeads f (nat (sint ln)) s1)
      else if typ = Wire_Map then
        (let (s1, ln, err) = unpackNumber s in
         if err \<noteq> None then Ret s1 else skipHeads f (2 * nat (sint ln)) s1)
      else if typ = StructBegin then skipToStructEnd f s
      else Ret s)"
| "skipToStructEnd 0 s = Diverge"
| "skipToStructEnd (Suc f) s =
     (let (s1, tag, typ, err) = unpackHeader s in
      if err \<noteq> None then Ret s1
      else if typ = StructEnd then Ret s1
      else go_bind (skipField f typ s1) (skipToStructEnd f))"

declare skipField.simps [simp del]


subsection \<open>Decoding into a destination\<close>

text \<open>\<open>newValByType\<close> returns a pointer to a fresh zero value of the type, or of the
  type pointed to when the type is itself a pointer.\<close>

fun newValByType :: "gotype \<Rightarrow> goval" where
  "newValByType (TPtr t) = VPtr t (Some (zero_of t))"
| "newValByType t = VPtr t (Some (zero_of t))"

text \<open>What is appended for an element of type \<open>t\<close>: the pointer itself, or what it points to.\<close>

definition elem_of :: "gotype \<Rightarrow> goval \<Rightarrow> goval" where
  "elem_of t x =
     (case t of TPtr _ \<Rightarrow> x | _ \<Rightarrow> (case x of VPtr _ (Some y) \<Rightarrow> y | _ \<Rightarrow> x))"

text \<open>The field a wire tag selects: the first field whose \<open>tag\<close> string is that number,
  else the field at that position if it has no \<open>tag\<close> string.\<close>

fun find_tagged :: "nat \<Rightarrow> (stag \<times> 'v) list \<Rightarrow> u32 \<Rightarrow> nat option" where
  "find_tagged i [] tag = None"
| "find_tagged i ((g, v) # fs) tag =
     (if stag_tag g \<noteq> '''' \<and> atoi (stag_tag g) = Some (uint tag) then Some i
      else find_tagged (Suc i) fs tag)"

definition find_field :: "(stag \<times> 'v) list \<Rightarrow> u32 \<Rightarrow> nat option" where
  "find_field fs tag =
     (case find_tagged 0 fs tag of
        Some i \<Rightarrow> Some i
      | None \<Rightarrow>
          if unat tag < length fs \<and> stag_tag (fst (fs ! unat tag)) = '''' then Some (unat tag)
          else None)"

text \<open>\<open>unpack\<close> reads a header and hands the value over to \<open>unpackVal\<close>, the \<open>switch\<close>
  on the wire type; its destination is \<open>x\<close> itself when \<open>first\<close> holds and else the
  field of \<open>x\<close> the tag selects (\<open>None\<close> when there is none).  The other functions are
  the loops of the vector, map and struct cases.\<close>

function (sequential) unpack :: "nat \<Rightarrow> spb \<Rightarrow> goval \<Rightarrow> bool \<Rightarrow> (spb \<times> goval \<times> spberr option) go"
and unpackVal :: "nat \<Rightarrow> spb \<Rightarrow> byte \<Rightarrow> goval option \<Rightarrow> (spb \<times> goval option \<times> spberr option) go"
and unpackElems :: "nat \<Rightarrow> nat \<Rightarrow> spb \<Rightarrow> gotype \<Rightarrow> (spb \<times> goval list \<times> spberr option) go"
and unpackPairs :: "nat \<Rightarrow> nat \<Rightarrow> spb \<Rightarrow> gotype \<Rightarrow> gotype \<Rightarrow> (spb \<times> (goval \<times> goval) list \<times> spberr option) go"
and unpackFields :: "nat \<Rightarrow> spb \<Rightarrow> goval \<Rightarrow> (spb \<times> goval \<times> spberr option) go" where
  "unpack 0 s x first = Diverge"
| "unpack (Suc f) s x first =
     (if index s \<ge> length (buf s) then Ret (s, x, Some ErrNoEnoughData)
      else let (s1, tag, typ, err) = unpackHeader s in
           if err \<noteq> None then Ret (s1, x, err)
           else case deref x of
             None \<Rightarrow> Panic
           | Some y \<Rightarrow>
               let wrap = (\<lambda>y'. case x of VPtr t p \<Rightarrow> VPtr t (Some y') | _ \<Rightarrow> y') in
               if first then
                 go_bind (unpackVal f s1 typ (Some y))
                   (\<lambda>(s2, r, e). Ret (s2, wrap (case r of Some y' \<Rightarrow> y' | None \<Rightarrow> y), e))
               else (case y of
                   VStruct fs \<Rightarrow>
                     (case find_field fs tag of
                        Some j \<Rightarrow>
                          go_bind (unpackVal f s1 typ (Some (snd (fs ! j))))
                            (\<lambda>(s2, r, e). Ret (s2, wrap (case r of
                                 Some v \<Rightarrow> VStruct (fs[j := (fst (fs ! j), v)]) | None \<Rightarrow> y), e))
                      | None \<Rightarrow>
                          go_bind (unpackVal f s1 typ None) (\<lambda>(s2, r, e). Ret (s2, x, e)))
                 | _ \<Rightarrow> go_bind (unpackVal f s1 typ None) (\<lambda>(s2, r, e). Ret (s2, x, e))))"
| "unpackVal f s typ x =
     (if typ = Integer_Positive then
        (let (s1, v, err) = unpackNumber s in
         if err \<noteq> None then Ret (s1, x, err)
         else if CanSetUint x then Ret (s1, map_option (\<lambda>y. setUint y v) x, None)
         else if CanSetInt x then Ret (s1, map_option (\<lambda>y. setInt y v) x, None)
         else if CanSetBool x then Ret (s1, Some (VBool (v > 0)), None)
         else Ret (s1, x, None))
      else if typ = Integer_Negative then
        (let (s1, v, err) = unpackNumber s in
         if err \<noteq> None then Ret (s1, x, err)
         else if CanSetInt x then Ret (s1, map_option (\<lambda>y. setInt y (- v)) x, None)
         else Ret (s1, x, None))
      else if typ = Wire_Float \<or> typ = Wire_Double then
        (let (s1, v, err) = unpackNumber s in
         if err \<noteq> None then Ret (s1, x, err)
         else if CanSetFloat x then Ret (s1, map_option (\<lambda>y. setFloat y v) x, None)
         else Ret (s1, x, None))
      else if typ = Wire_String then
        (let (s1, ln, err) = unpackNumber s in
         if err \<noteq> None then Ret (s1, x, err)
         else go_bind (unpackByte s1 (sint ln))
           (\<lambda>(s2, bt, er). if er \<noteq> None then Ret (s2, x, er)
              else Ret (s2, (case x of Some (VString _) \<Rightarrow> Some (VString bt) | _ \<Rightarrow> x), None)))
      else if typ = Wire_Vector then
        (let (s1, ln, err) = unpackNumber s in
         if err \<noteq> None then Ret (s1, x, err)
         else case x of
           Some (VSlice t vs) \<Rightarrow>
             if unat ln > max_values then Panic
             else go_bind (unpackElems f (unat ln) s1 t)
               (\<lambda>(s2, vals, er). if er \<noteq> None then Ret (s2, Some (VSlice t []), er)
                  else Ret (s2, Some (VSlice t vals), None))
         | _ \<Rightarrow> go_bind (skipHeads f (nat (sint ln)) s1) (\<lambda>s2. Ret (s2, x, None)))
      else if typ = Wire_Map then
        (let (s1, ln, err) = unpackNumber s in
         if err \<noteq> None then Ret (s1, x, err)
         else case x of
           Some (VMap k t es) \<Rightarrow>
             if unat ln > max_values then Panic
             else go_bind (unpackPairs f (unat ln) s1 k t)
               (\<lambda>(s2, kvs, er). if er \<noteq> None then Ret (s2, x, er)
                  else Ret (s2, Some (VMap k t (foldl (\<lambda>m (a, b). AList.update a b m) [] kvs)), None))
         | _ \<Rightarrow> go_bind (skipHeads f (2 * nat (sint ln)) s1) (\<lambda>s2. Ret (s2, x, None)))
      else if typ = StructBegin then
        (case x of
           Some (VStruct fs) \<Rightarrow>
             go_bind (unpackFields f s (VStruct fs)) (\<lambda>(s1, y, er). Ret (s1, Some y, er))
         | _ \<Rightarrow> go_bind (skipToStructEnd f s) (\<lambda>s1. Ret (s1, x, None)))
      else if typ = StructEnd then Ret (s, x, Some ErrStructEnd)
      else Ret (s, x, Some ErrInvalidType))"
| "unpackElems f 0 s t = Ret (s, [], None)"
| "unpackElems f (Suc n) s t =
     go_bind (unpack f s (newValByType t) True)
       (\<lambda>(s1, x, err). if err \<noteq> None then Ret (s1, [], err)
          else go_bind (unpackElems f n s1 t)
            (\<lambda>(s2, xs, er). Ret (s2, elem_of t x # xs, er)))"
| "unpackPairs f 0 s k t = Ret (s, [], None)"
| "unpackPairs f (Suc n) s k t =
     go_bind (unpack f s (zero_of k) True)
       (\<lambda>(s1, key, err). if err \<noteq> None then Ret (s1, [], err)
          else go_bind (unpack f s1 (newValByType t) True)
            (\<lambda>(s2, x, er). if er \<noteq> None then Ret (s2, [], er)
               else go_bind (unpackPairs f n s2 k t)
                 (\<lambda>(s3, kvs, e). Ret (s3, (key, elem_of t x) # kvs, e))))"
| "unpackFields 0 s x = Diverge"
| "unpackFields (Suc f) s x =
     go_bind (unpack (Suc f) s x False)
       (\<lambda>(s1, y, err). if err = Some ErrStructEnd then Ret (s1, y, None)
          else if err \<noteq> None then Ret (s1, y, err)
          else unpackFields f s1 y)"
  by pat_completeness auto
termination
  by (relation "measures [\<lambda>a. case a of
        Inl (Inl (f, s, x, first)) \<Rightarrow> f
      | Inl (Inr (f, s, typ, x)) \<Rightarrow> f
      | Inr (Inl (f, n, s, t)) \<Rightarrow> f
      | Inr (Inr (Inl (f, n, s, k, t))) \<Rightarrow> f
      | Inr (Inr (Inr (f, s, x))) \<Rightarrow> f,
      \<lambda>a. case a of
        Inl (Inl _) \<Rightarrow> 0
      | Inl (Inr _) \<Rightarrow> 2
      | _ \<Rightarrow> 1,
      \<lambda>a. case a of
        Inr (Inl (f, n, s, t)) \<Rightarrow> n
      | Inr (Inr (Inl (f, n, s, k, t))) \<Rightarrow> n
      | _ \<Rightarrow> 0]") auto

declare unpackVal.simps [simp del] unpack.simps [simp del]

text \<open>The fuel is one unit a byte, and one more.\<close>

definition unpack_all :: "spb \<Rightarrow> goval \<Rightarrow> bool \<Rightarrow> (spb \<times> goval \<times> spberr option) go" where
  "unpack_all s x first = unpack (Suc (length (buf s))) s x first"

text \<open>\<open>SpbDecode\<close> returns the error and what its pointer argument is afterwards.  The
  element of a nil pointer is the invalid \<open>reflect.Value\<close>, on which \<open>unpack\<close> panics once
  it has read a header: the decoder treats it as it treats a nil pointer.\<close>

definition SpbDecode :: "bytes \<Rightarrow> goval \<Rightarrow> (goval \<times> spberr option) go" where
  "SpbDecode data x =
     (case x of
        VPtr t (Some y) \<Rightarrow>
          go_bind (unpack_all \<lparr>buf = data, index = 0\<rparr> y True)
            (\<lambda>(s, y', e). Ret (VPtr t (Some y'), e))
      | VPtr t None \<Rightarrow>
          go_bind (unpack_all \<lparr>buf = data, index = 0\<rparr> x True) (\<lambda>(s, y', e). Ret (x, e))
      | _ \<Rightarrow> Ret (x, Some ErrNeedPtr))"

end
