(* ===== verification/Spb_Wire.thy ===== *)
theory Spb_Wire
  imports Spb
begin

text \<open>
  Numbers and headers on the wire.  \<open>varint\<close> and \<open>hdr\<close> are reference definitions of
  the bytes \<open>packNumber\<close> and \<open>packHeader\<close> append; the readers invert them at any
  position of any buffer.
\<close>

function varint :: "u64 \<Rightarrow> bytes" where
  "varint x =
     (if x \<ge> 128 then ucast ((x AND 0x7f) OR 0x80) # varint (drop_bit 7 x) else [ucast x])"
  by pat_completeness auto
termination
  by (relation "measure unat") (auto simp: drop_bit_7_less)

declare varint.simps [simp del]

definition hdr :: "u32 \<Rightarrow> byte \<Rightarrow> bytes" where
  "hdr tag typ =
     (if tag < 15 then [push_bit 4 typ OR ucast tag]
      else (push_bit 4 typ OR 0xf) # varint (ucast tag))"

text \<open>The reader stands at \<open>bs\<close>, with \<open>rest\<close> behind it.\<close>

definition at :: "spb \<Rightarrow> bytes \<Rightarrow> bytes \<Rightarrow> bool" where
  "at s bs rest \<longleftrightarrow> drop (index s) (buf s) = bs @ rest"

abbreviation advance :: "spb \<Rightarrow> nat \<Rightarrow> spb" where
  "advance s n \<equiv> s\<lparr>index := index s + n\<rparr>"

definition remaining :: "spb \<Rightarrow> nat" where
  "remaining s = length (buf s) - index s"


subsection \<open>The writers append the reference bytes\<close>

lemma packNumber_varint: "packNumber s x = s\<lparr>buf := buf s @ varint x\<rparr>"
proof (induction s x rule: packNumber.induct)
  case (1 s x)
  show ?case
  proof (cases "x \<ge> 128")
    case True
    with 1 show ?thesis by (simp add: packNumber.simps [of s x] varint.simps [of x])
  next
    case False
    then show ?thesis by (simp add: packNumber.simps [of s x] varint.simps [of x])
  qed
qed

lemma packHeader_hdr: "packHeader s tag typ = s\<lparr>buf := buf s @ hdr tag typ\<rparr>"
  by (simp add: packHeader_def hdr_def packByte_def packNumber_varint)

lemma varint_nonempty [simp]: "varint x \<noteq> []"
  by (subst varint.simps) simp

lemma length_varint: "unat x < 2 ^ (7 * n) \<Longrightarrow> 0 < n \<Longrightarrow> length (varint x) \<le> n"
proof (induction x arbitrary: n rule: varint.induct)
  case (1 x)
  show ?case
  proof (cases "128 \<le> x")
    case True
    then have "2 ^ 7 \<le> unat x" by (simp add: word_le_nat_alt)
    with "1.prems"(1) have "(2::nat) ^ 7 < 2 ^ (7 * n)" by linarith
    then have "1 < n" using power_less_imp_less_exp [of "2::nat" 7 "7 * n"] by simp
    then obtain m where m: "n = Suc m" "0 < m" by (cases n) auto
    have "unat (drop_bit 7 x) < 2 ^ (7 * m)"
      using "1.prems"(1) by (simp add: m unat_drop_bit_eq drop_bit_eq_div [of 7 "unat x"]
          less_mult_imp_div_less power_add mult.commute)
    from "1.IH" [OF True this m(2)] True show ?thesis by (simp add: varint.simps [of x] m)
  next
    case False
    with "1.prems"(2) show ?thesis by (simp add: varint.simps [of x])
  qed
qed

lemma length_varint_10: "length (varint x) \<le> 10"
  using length_varint [of x 10] unsigned_less [of x, where ?'a = nat] by simp

lemma hdr_nonempty [simp]: "hdr tag typ \<noteq> []"
  by (simp add: hdr_def)

lemmas pack_append = packNumber_varint packHeader_hdr packData_def packByte_def


subsection \<open>Positions\<close>

lemma at_Cons: "at s (b # bs) rest \<Longrightarrow> index s < length (buf s) \<and> buf s ! index s = b"
  by (auto simp: at_def dest: drop_eq_append_nth)

lemma at_append: "at s (as @ bs) rest \<Longrightarrow> at (advance s (length as)) bs rest"
  by (simp add: at_def) (metis append_assoc drop_append_drop)

lemma at_append_left: "at s (as @ bs) rest \<Longrightarrow> at s as (bs @ rest)"
  by (simp add: at_def)

lemma at_nonempty: "at s bs rest \<Longrightarrow> bs \<noteq> [] \<Longrightarrow> index s < length (buf s)"
  by (cases bs) (auto dest: at_Cons)

lemma at_le: "at s bs rest \<Longrightarrow> bs \<noteq> [] \<Longrightarrow> index s + length bs \<le> length (buf s)"
  unfolding at_def by (rule drop_eq_append_le)

lemma advance_advance: "advance (advance s m) n = advance s (m + n)"
  by (simp add: add.assoc)


subsection \<open>Seven bits at a time\<close>

lemma odd_div_128: "n < 256 \<Longrightarrow> odd (n div 128) \<longleftrightarrow> 128 \<le> n" for n :: nat
proof (cases "128 \<le> n")
  case True
  moreover assume "n < 256"
  ultimately have "n div 128 = 1" by (intro div_nat_eqI) auto
  with True show ?thesis by simp
qed simp

lemma bit7_iff: "b < 128 \<longleftrightarrow> \<not> bit b 7" for b :: byte
proof -
  have "bit b 7 \<longleftrightarrow> odd (unat b div 128)"
    using bit_iff_odd [of "unat b" 7] by (simp add: bit_unsigned_iff)
  then show ?thesis
    by (simp add: word_less_nat_alt not_le odd_div_128 [OF unat_byte_less])
qed

lemma bit_0x80: "bit (0x80 :: 'a::semiring_bits) n \<Longrightarrow> n = 7"
  using bit_exp_iff [of 7 n, where ?'a = 'a] by auto

lemma and_low7: "x AND 0x7f = take_bit 7 x" for x :: u64
  by (simp add: take_bit_eq_mask mask_numeral)

lemma cont_byte_high: "\<not> ucast ((x AND 0x7f) OR 0x80 :: u64) < (0x80 :: byte)"
  by (simp add: bit7_iff bit_simps)

lemma cont_byte_low:
  "(ucast (ucast ((x AND 0x7f) OR 0x80 :: u64) :: byte) :: u64) AND 0x7f = take_bit 7 x"
  unfolding and_low7 by (rule bit_word_eqI) (auto simp: bit_simps dest: bit_0x80)

lemma small_byte:
  assumes "x < 128"
  shows "(ucast x :: byte) < 128" and "(ucast (ucast x :: byte) :: u64) AND 0x7f = x"
proof -
  have x: "take_bit 7 x = x"
    using assms by (intro take_bit_less_self) (simp add: word_less_nat_alt)
  have "(ucast (take_bit 7 x) :: byte) < 128"
    by (simp add: bit7_iff bit_simps)
  then show "(ucast x :: byte) < 128" by (simp add: x)
  have "(ucast (ucast (take_bit 7 x) :: byte) :: u64) AND 0x7f = take_bit 7 x"
    unfolding and_low7 by (rule bit_word_eqI) (auto simp: bit_simps)
  then show "(ucast (ucast x :: byte) :: u64) AND 0x7f = x" by (simp add: x)
qed

lemma push_split:
  "push_bit shift (take_bit 7 x) OR push_bit (shift + 7) (drop_bit 7 x) = push_bit shift x"
  for x :: u64
proof (rule bit_word_eqI)
  fix n
  show "bit (push_bit shift (take_bit 7 x) OR push_bit (shift + 7) (drop_bit 7 x)) n =
    bit (push_bit shift x) n"
  proof (cases "shift + 7 \<le> n")
    case True
    then have "7 + (n - (shift + 7)) = n - shift" by simp
    with True show ?thesis by (auto simp: bit_simps)
  next
    case False
    then show ?thesis by (auto simp: bit_simps)
  qed
qed


subsection \<open>Reading numbers and headers back\<close>

lemma unpackNumberLoop_varint:
  assumes "drop i (buf s) = varint y @ rest" "shift < 64" "unat y < 2 ^ (64 - shift)"
  shows "unpackNumberLoop s i shift x =
    (s\<lparr>index := i + length (varint y)\<rparr>, x OR push_bit shift y, None)"
  using assms
proof (induction y arbitrary: i shift x rule: varint.induct)
  case (1 y)
  show ?case
  proof (cases "y \<ge> 128")
    case False
    then have v: "varint y = [ucast y]" and y: "y < 128"
      by (simp_all add: varint.simps [of y])
    with "1.prems" have "i < length (buf s)" "buf s ! i = ucast y"
      by (auto dest: drop_eq_append_nth)
    with y v "1.prems" show ?thesis
      by (simp add: unpackNumberLoop.simps [of s i] small_byte del: push_bit_and)
  next
    case True
    let ?b = "ucast ((y AND 0x7f) OR 0x80) :: byte"
    from True have v: "varint y = ?b # varint (drop_bit 7 y)"
      by (simp add: varint.simps [of y])
    with "1.prems"(1) have i: "i < length (buf s)" "buf s ! i = ?b"
      and d: "drop (Suc i) (buf s) = varint (drop_bit 7 y) @ rest"
      by (auto dest: drop_eq_append_nth)
    from True have "128 \<le> unat y" by (simp add: word_le_nat_alt)
    with "1.prems"(3) have "2 ^ 7 < (2::nat) ^ (64 - shift)" by simp
    then have sh: "shift + 7 < 64"
      by (metis add.commute less_diff_conv nat_power_less_imp_less zero_less_numeral)
    have "(2::nat) ^ (64 - shift) = 2 ^ (64 - (shift + 7)) * 2 ^ 7"
      using sh by (subst power_add [symmetric]) simp
    with "1.prems"(3) have "unat (drop_bit 7 y) < 2 ^ (64 - (shift + 7))"
      by (simp add: unat_drop_bit_eq drop_bit_eq_div [of 7 "unat y"] less_mult_imp_div_less)
    from "1.IH" [OF True d sh this] show ?thesis
      using i "1.prems"(2) v
      by (simp add: unpackNumberLoop.simps [of s i] cont_byte_high cont_byte_low or.assoc push_split
          del: push_bit_and)
  qed
qed

lemma unpackNumber_at:
  assumes "at s (varint y) rest"
  shows "unpackNumber s = (advance s (length (varint y)), y, None)"
  using unpackNumberLoop_varint [of "index s" s y rest 0 0] assms unsigned_less [of y, where ?'a = nat]
  by (simp add: unpackNumber_def at_def)

lemma hdr_byte:
  fixes b ty :: byte
  assumes "ty < 16"
  shows "drop_bit 4 (push_bit 4 ty OR (0xf AND b)) = ty"
    and "(push_bit 4 ty OR (0xf AND b)) AND 0xf = b AND 0xf"
proof -
  have f: "0xf AND b = take_bit 4 b" "x AND 0xf = take_bit 4 x" for x b :: byte
    by (simp_all add: take_bit_eq_mask mask_numeral and.commute)
  have t: "take_bit 4 ty = ty"
    using assms by (intro take_bit_less_self) (simp add: word_less_nat_alt)
  have "drop_bit 4 (push_bit 4 (take_bit 4 ty) OR take_bit 4 b) = take_bit 4 ty"
    by (rule bit_word_eqI) (auto simp: bit_simps)
  then show "drop_bit 4 (push_bit 4 ty OR (0xf AND b)) = ty"
    by (simp add: t f)
  show "(push_bit 4 ty OR (0xf AND b)) AND 0xf = b AND 0xf"
    unfolding f by (rule bit_word_eqI) (auto simp: bit_simps)
qed

lemma unpackHeader_at:
  assumes "at s (hdr tag typ) rest" "typ < 16"
  shows "unpackHeader s = (advance s (length (hdr tag typ)), tag, typ, None)"
proof (cases "tag < 15")
  case True
  let ?b = "push_bit 4 typ OR ucast tag :: byte"
  have t4: "take_bit 4 tag = tag"
    using True by (intro take_bit_less_self) (simp add: word_less_nat_alt)
  have f: "0xf AND x = take_bit 4 x" "x AND 0xf = take_bit 4 x" for x :: byte
    by (simp_all add: take_bit_eq_mask mask_numeral and.commute)
  have "take_bit 4 (ucast (take_bit 4 tag)) = (ucast (take_bit 4 tag) :: byte)"
    by (rule bit_word_eqI) (auto simp: bit_simps)
  then have m: "0xf AND ucast tag = (ucast tag :: byte)" by (simp add: t4 f)
  have "(ucast (ucast (take_bit 4 tag) :: byte) :: u32) = take_bit 4 tag"
    by (rule bit_word_eqI) (auto simp: bit_simps)
  then have u: "(ucast (ucast tag :: byte) :: u32) = tag" by (simp add: t4)
  have b: "drop_bit 4 ?b = typ" "?b AND 0xf = ucast tag"
    using hdr_byte [OF assms(2), of "ucast tag"] m by (simp_all only: and.commute)
  from True assms(1) have "index s < length (buf s)" "buf s ! index s = ?b"
    by (auto simp: hdr_def dest: at_Cons)
  moreover from True have "tag \<noteq> 15" by auto
  ultimately show ?thesis
    using True by (simp add: unpackHeader_def hdr_def Let_def b u del: drop_bit_or)
next
  case False
  let ?b = "push_bit 4 typ OR 0xf :: byte"
  from False assms(1) have at: "at s ([?b] @ varint (ucast tag)) rest"
    by (simp add: hdr_def)
  then have "index s < length (buf s)" "buf s ! index s = ?b"
    by (auto dest: at_Cons)
  moreover from at_append [OF at] have "unpackNumber (advance s 1) =
      (advance (advance s 1) (length (varint (ucast tag))), ucast tag, None)"
    by (intro unpackNumber_at) simp
  ultimately show ?thesis
    using False hdr_byte [OF assms(2), of "0xf"]
    by (simp add: unpackHeader_def hdr_def Let_def ucast_up_down)
qed

end
