(* ===== verification/Spb_Total.thy ===== *)
theory Spb_Total
  imports Spb_Wire
begin

text \<open>
  The decoder on arbitrary bytes.  No reader changes the buffer or moves outside it, every
  header read consumes a byte, and therefore one unit of fuel per byte is enough: decoding
  (and skipping) any input comes to an end.
\<close>

definition moves :: "spb \<Rightarrow> spb \<Rightarrow> bool" where
  "moves s s' \<longleftrightarrow> buf s' = buf s \<and> index s \<le> index s' \<and>
     (index s \<le> length (buf s) \<longrightarrow> index s' \<le> length (buf s))"

definition consumes :: "spb \<Rightarrow> spb \<Rightarrow> bool" where
  "consumes s s' \<longleftrightarrow> moves s s' \<and> index s < index s' \<and> index s' \<le> length (buf s)"

lemma moves_refl [simp]: "moves s s"
  by (simp add: moves_def)

lemma moves_trans: "moves s t \<Longrightarrow> moves t u \<Longrightarrow> moves s u"
  by (auto simp: moves_def)

lemma consumes_moves: "consumes s t \<Longrightarrow> moves s t"
  by (simp add: consumes_def)

lemma consumes_trans: "consumes s t \<Longrightarrow> moves t u \<Longrightarrow> consumes s u"
  by (auto simp: consumes_def moves_def)

lemma moves_remaining: "moves s t \<Longrightarrow> remaining t \<le> remaining s"
  by (auto simp: moves_def remaining_def)

lemma consumes_remaining: "consumes s t \<Longrightarrow> remaining t < remaining s"
  by (auto simp: consumes_def moves_def remaining_def)


subsection \<open>The readers\<close>

lemma unpackNumberLoop_moves:
  assumes "unpackNumberLoop s i shift x = (s', v, err)" "index s \<le> i"
  shows "(err = None \<longrightarrow> consumes s s') \<and> (err \<noteq> None \<longrightarrow> s' = s)"
  using assms
proof (induction s i shift x rule: unpackNumberLoop.induct)
  case (1 s i shift x)
  then show ?case
    by (auto simp: unpackNumberLoop.simps [of s i] Let_def consumes_def moves_def split: if_splits)
qed

lemma unpackNumber_consumes: "unpackNumber s = (s', v, None) \<Longrightarrow> consumes s s'"
  unfolding unpackNumber_def by (drule unpackNumberLoop_moves) auto

lemma unpackNumber_error: "unpackNumber s = (s', v, Some e) \<Longrightarrow> s' = s"
  unfolding unpackNumber_def by (drule unpackNumberLoop_moves) auto

lemma unpackNumber_moves: "unpackNumber s = (s', v, err) \<Longrightarrow> moves s s'"
  by (cases err) (auto dest: unpackNumber_consumes unpackNumber_error consumes_moves)

lemma unpackHeader_moves: "unpackHeader s = (s', tag, ty, err) \<Longrightarrow> moves s s'"
  by (auto simp: unpackHeader_def Let_def moves_def dest!: unpackNumber_moves
      split: if_splits prod.splits)

lemma unpackHeader_consumes: "unpackHeader s = (s', tag, ty, None) \<Longrightarrow> consumes s s'"
  by (auto simp: unpackHeader_def Let_def consumes_def moves_def dest!: unpackNumber_moves
      split: if_splits prod.splits)

lemma unpackByte_moves: "unpackByte s n = Ret (s', bs, err) \<Longrightarrow> moves s s'"
  by (auto simp: unpackByte_def Let_def moves_def split: if_splits)

lemma unpackByte_no_diverge [simp]: "unpackByte s n \<noteq> Diverge"
  by (simp add: unpackByte_def Let_def)


lemma unpackByte_at:
  assumes "at s bs rest" "length (buf s) < 2 ^ 48" "n = int (length bs)"
  shows "unpackByte s n = Ret (advance s (length bs), bs, None)"
proof (cases "bs = []")
  case False
  with assms(1) have le: "index s + length bs \<le> length (buf s)" by (intro at_le)
  with assms have "wrap64 (int (index s) + n) = int (index s) + n"
    by (intro wrap64_id) auto
  moreover from assms(1) have "subseg (index s) (index s + length bs) (buf s) = bs"
    by (simp add: subseg_def at_def)
  ultimately show ?thesis
    using assms(2,3) le False by (simp add: unpackByte_def Let_def)
qed (use assms in \<open>simp add: unpackByte_def\<close>)


subsection \<open>Skipping\<close>

text \<open>Each fact is shown for the two functions that spend fuel together, by induction on the
  fuel; the loop and the \<open>switch\<close> inherit it.\<close>

lemma skipHeads_moves:
  assumes "\<And>s s'. skipHeadField f s = Ret s' \<Longrightarrow> moves s s'"
  shows "skipHeads f n s = Ret s' \<Longrightarrow> moves s s'"
  by (induction n arbitrary: s) (auto simp: go_simps dest: assms moves_trans)

lemma skipField_moves:
  assumes H: "\<And>s s'. skipHeadField f s = Ret s' \<Longrightarrow> moves s s'"
    and E: "\<And>s s'. skipToStructEnd f s = Ret s' \<Longrightarrow> moves s s'"
    and r: "skipField f ty s = Ret s'"
  shows "moves s s'"
proof -
  obtain s1 v err where n: "unpackNumber s = (s1, v, err)"
    by (cases "unpackNumber s") auto
  then have m: "moves s s1" by (rule unpackNumber_moves)
  have "s' = s1 \<or> s' = s \<or> (\<exists>k bs e. unpackByte s1 k = Ret (s', bs, e)) \<or>
    (\<exists>k. skipHeads f k s1 = Ret s') \<or> skipToStructEnd f s = Ret s'"
    using r n by (auto simp: skipField.simps split: if_splits)
  moreover have "moves s1 s'" if "skipHeads f k s1 = Ret s'" for k
    using skipHeads_moves [of f] H that by blast
  ultimately show ?thesis
    using m E by (auto dest: unpackByte_moves intro: moves_trans)
qed

lemma skip_fuel_moves:
  "(\<forall>s s'. skipHeadField f s = Ret s' \<longrightarrow> moves s s') \<and>
   (\<forall>s s'. skipToStructEnd f s = Ret s' \<longrightarrow> moves s s')"
proof (induction f)
  case (Suc f)
  then have F: "\<And>ty s s'. skipField f ty s = Ret s' \<Longrightarrow> moves s s'"
    using skipField_moves [of f] by blast
  show ?case
  proof (intro conjI allI impI)
    fix s s'
    obtain s1 tag ty err where h: "unpackHeader s = (s1, tag, ty, err)"
      by (cases "unpackHeader s") auto
    then have m: "moves s s1" by (rule unpackHeader_moves)
    show "moves s s'" if "skipHeadField (Suc f) s = Ret s'"
      using that h m by (auto split: if_splits dest: F intro: moves_trans)
    show "moves s s'" if "skipToStructEnd (Suc f) s = Ret s'"
      using that h m Suc
      by (auto simp: go_simps split: if_splits) (meson F moves_trans)
  qed
qed simp

lemma skip_moves:
  shows "skipHeadField f s = Ret s' \<Longrightarrow> moves s s'"
    and "skipToStructEnd f s = Ret s' \<Longrightarrow> moves s s'"
    and "skipHeads f n s = Ret s' \<Longrightarrow> moves s s'"
    and "skipField f ty s = Ret s' \<Longrightarrow> moves s s'"
  using skip_fuel_moves [of f] skipHeads_moves [of f] skipField_moves [of f] by blast+

lemma skipHeads_total:
  assumes "\<And>s. remaining s < f \<Longrightarrow> skipHeadField f s \<noteq> Diverge"
  shows "remaining s < f \<Longrightarrow> skipHeads f n s \<noteq> Diverge"
  by (induction n arbitrary: s)
    (use assms in \<open>fastforce simp: go_bind_Diverge_iff dest: skip_moves(1) [THEN moves_remaining]\<close>)+

lemma skipField_total:
  assumes H: "\<And>s. remaining s < f \<Longrightarrow> skipHeadField f s \<noteq> Diverge"
    and E: "\<And>s. remaining s < f \<Longrightarrow> skipToStructEnd f s \<noteq> Diverge"
    and r: "remaining s < f"
  shows "skipField f ty s \<noteq> Diverge"
proof -
  obtain s1 v err where n: "unpackNumber s = (s1, v, err)"
    by (cases "unpackNumber s") auto
  with r have "remaining s1 < f"
    by (meson le_less_trans moves_remaining unpackNumber_moves)
  then show ?thesis
    using n E [OF r] skipHeads_total [OF H] by (auto simp: skipField.simps)
qed

lemma skip_fuel_total:
  "(\<forall>s. remaining s < f \<longrightarrow> skipHeadField f s \<noteq> Diverge) \<and>
   (\<forall>s. remaining s < f \<longrightarrow> skipToStructEnd f s \<noteq> Diverge)"
proof (induction f)
  case (Suc f)
  then have F: "\<And>ty s. remaining s < f \<Longrightarrow> skipField f ty s \<noteq> Diverge"
    using skipField_total [of f] by blast
  show ?case
  proof (intro conjI allI impI)
    fix s assume r: "remaining s < Suc f"
    obtain s1 tag ty err where h: "unpackHeader s = (s1, tag, ty, err)"
      by (cases "unpackHeader s") auto
    with r have m: "err = None \<Longrightarrow> remaining s1 < f"
      by (auto dest!: unpackHeader_consumes consumes_remaining)
    show "skipHeadField (Suc f) s \<noteq> Diverge"
      using h m F by auto
    have "skipToStructEnd f s2 \<noteq> Diverge" if "err = None" "skipField f ty s1 = Ret s2" for s2
      using m [OF that(1)] moves_remaining [OF skip_moves(4) [OF that(2)]] Suc by simp
    then show "skipToStructEnd (Suc f) s \<noteq> Diverge"
      using h m F by (auto simp: go_bind_Diverge_iff)
  qed
qed simp

lemma skip_total:
  assumes "remaining s < f"
  shows "skipHeadField f s \<noteq> Diverge"
    and "skipToStructEnd f s \<noteq> Diverge"
    and "skipHeads f n s \<noteq> Diverge"
    and "skipField f ty s \<noteq> Diverge"
  using assms skip_fuel_total [of f] skipHeads_total [of f] skipField_total [of f] by blast+

subsection \<open>Unpacking\<close>

text \<open>Where \<open>unpackVal\<close> can have left the reader, and where it can have run out of fuel.\<close>

lemma unpackVal_reach:
  assumes "unpackVal f s ty x = Ret (s', x', e)" and n: "unpackNumber s = (s1, v, err)"
  shows "s' = s1 \<or> s' = s \<or> (\<exists>k bs er. unpackByte s1 k = Ret (s', bs, er)) \<or>
    (\<exists>k t vs er. unpackElems f k s1 t = Ret (s', vs, er)) \<or>
    (\<exists>k t u kvs er. unpackPairs f k s1 t u = Ret (s', kvs, er)) \<or>
    (\<exists>k. skipHeads f k s1 = Ret s') \<or> skipToStructEnd f s = Ret s' \<or>
    (\<exists>y y' er. unpackFields f s y = Ret (s', y', er))"
  using assms(1)
  by (auto simp: unpackVal.simps n go_simps split: if_splits option.splits goval.splits)

lemma unpackVal_diverge:
  assumes "unpackVal f s ty x = Diverge" and n: "unpackNumber s = (s1, v, err)"
  shows "(\<exists>k t. unpackElems f k s1 t = Diverge) \<or>
    (\<exists>k t u. unpackPairs f k s1 t u = Diverge) \<or>
    (\<exists>k. skipHeads f k s1 = Diverge) \<or> skipToStructEnd f s = Diverge \<or>
    (\<exists>y. unpackFields f s y = Diverge)"
  using assms(1)
  by (auto simp: unpackVal.simps n go_bind_Diverge_iff split: if_splits option.splits goval.splits)

text \<open>The loops and the \<open>switch\<close> inherit what holds of \<open>unpack\<close> and \<open>unpackFields\<close>.\<close>

lemma unpackElems_moves:
  assumes "\<And>s x b s' x' e. unpack f s x b = Ret (s', x', e) \<Longrightarrow> moves s s'"
  shows "unpackElems f n s t = Ret (s', vs, e) \<Longrightarrow> moves s s'"
proof (induction n arbitrary: s vs)
  case (Suc n)
  then show ?case
    by (auto simp: go_simps split: if_splits dest!: assms intro: moves_trans)
qed simp

lemma unpackPairs_moves:
  assumes "\<And>s x b s' x' e. unpack f s x b = Ret (s', x', e) \<Longrightarrow> moves s s'"
  shows "unpackPairs f n s k t = Ret (s', vs, e) \<Longrightarrow> moves s s'"
proof (induction n arbitrary: s vs)
  case (Suc n)
  then show ?case
    by (auto simp: go_simps split: if_splits dest!: assms) (blast intro: moves_trans)+
qed simp

lemma unpackVal_moves:
  assumes U: "\<And>s x b s' x' e. unpack f s x b = Ret (s', x', e) \<Longrightarrow> moves s s'"
    and F: "\<And>s x s' x' e. unpackFields f s x = Ret (s', x', e) \<Longrightarrow> moves s s'"
    and r: "unpackVal f s ty x = Ret (s', x', e)"
  shows "moves s s'"
proof -
  obtain s1 v err where n: "unpackNumber s = (s1, v, err)"
    by (cases "unpackNumber s") auto
  then have m: "moves s s1" by (rule unpackNumber_moves)
  note El = unpackElems_moves [of f] and Pa = unpackPairs_moves [of f]
  show ?thesis
    using unpackVal_reach [OF r n] m U F
    by (elim disjE exE) (meson El Pa unpackByte_moves skip_moves moves_refl moves_trans)+
qed

lemma unpack_step:
  assumes "unpack (Suc f) s x b = Ret (s', x', e)"
  shows "(\<exists>er. s' = s \<and> e = Some er) \<or>
    (\<exists>s1 tag ty er. unpackHeader s = (s1, tag, ty, Some er) \<and> s' = s1 \<and> e = Some er) \<or>
    (\<exists>s1 tag ty z z'. unpackHeader s = (s1, tag, ty, None) \<and> unpackVal f s1 ty z = Ret (s', z', e))"
  using assms
  by (auto simp: unpack.simps Let_def go_simps split: if_splits option.splits prod.splits goval.splits)

lemma unpack_fuel_moves:
  "(\<forall>s x b s' x' e. unpack f s x b = Ret (s', x', e) \<longrightarrow>
      moves s s' \<and> (e = None \<longrightarrow> consumes s s')) \<and>
   (\<forall>s x s' x' e. unpackFields f s x = Ret (s', x', e) \<longrightarrow> moves s s')"
proof (induction f)
  case (Suc f)
  have V: "moves s s'" if "unpackVal f s ty x = Ret (s', x', e)" for s ty x s' x' e
    by (rule unpackVal_moves [OF _ _ that]) (use Suc in blast)+
  have U: "moves s s' \<and> (e = None \<longrightarrow> consumes s s')" if "unpack (Suc f) s x b = Ret (s', x', e)"
    for s x b s' x' e
    using unpack_step [OF that]
    by (auto dest!: unpackHeader_consumes V intro: unpackHeader_moves consumes_trans consumes_moves)
  have "moves s s'" if r: "unpackFields (Suc f) s x = Ret (s', x', e)" for s x s' x' e
  proof -
    from r obtain s1 y er where u: "unpack (Suc f) s x False = Ret (s1, y, er)"
      by (auto simp: go_simps)
    with r have "s' = s1 \<or> unpackFields f s1 y = Ret (s', x', e)"
      by (auto split: if_splits)
    with Suc have "s' = s1 \<or> moves s1 s'" by blast
    with U [OF u] show ?thesis by (auto intro: moves_trans)
  qed
  with U show ?case by blast
qed (simp add: unpack.simps)

lemma unpack_moves:
  shows "unpack f s x b = Ret (s', x', e) \<Longrightarrow> moves s s'"
    and "unpack f s x b = Ret (s', x', None) \<Longrightarrow> consumes s s'"
    and "unpackFields f s x = Ret (s', x', e) \<Longrightarrow> moves s s'"
  using unpack_fuel_moves [of f] by blast+

lemma unpackElems_total:
  assumes "\<And>s x b. remaining s < f \<Longrightarrow> unpack f s x b \<noteq> Diverge"
  shows "remaining s < f \<Longrightarrow> unpackElems f n s t \<noteq> Diverge"
proof (induction n arbitrary: s)
  case (Suc n)
  have "unpackElems f n s1 t \<noteq> Diverge" if "unpack f s (newValByType t) True = Ret (s1, x, e)" for s1 x e
    using Suc moves_remaining [OF unpack_moves(1) [OF that]] by simp
  with assms [OF Suc.prems] show ?case by (auto simp: go_bind_Diverge_iff split: if_splits)
qed simp

lemma unpackPairs_total:
  assumes U: "\<And>s x b. remaining s < f \<Longrightarrow> unpack f s x b \<noteq> Diverge"
  shows "remaining s < f \<Longrightarrow> unpackPairs f n s k t \<noteq> Diverge"
proof (induction n arbitrary: s)
  case (Suc n)
  have *: "remaining s1 < f" if "unpack f s0 y True = Ret (s1, x, e)" "remaining s0 < f" for s0 s1 x y e
    using that moves_remaining [OF unpack_moves(1) [OF that(1)]] by simp
  show ?case
    using Suc.prems U [OF Suc.prems] U Suc.IH
    by (auto simp: go_bind_Diverge_iff split: if_splits dest!: *)
qed simp

lemma unpackVal_total:
  assumes U: "\<And>s x b. remaining s < f \<Longrightarrow> unpack f s x b \<noteq> Diverge"
    and F: "\<And>s x. remaining s < f \<Longrightarrow> unpackFields f s x \<noteq> Diverge"
    and r: "remaining s < f"
  shows "unpackVal f s ty x \<noteq> Diverge"
proof
  assume d: "unpackVal f s ty x = Diverge"
  obtain s1 v err where n: "unpackNumber s = (s1, v, err)"
    by (cases "unpackNumber s") auto
  with r have "remaining s1 < f"
    by (meson le_less_trans moves_remaining unpackNumber_moves)
  with unpackVal_diverge [OF d n] r show False
    using unpackElems_total [of f s1] unpackPairs_total [of f s1] skip_total F U by metis
qed

lemma unpack_diverge:
  assumes "unpack (Suc f) s x b = Diverge"
  shows "\<exists>s1 tag ty z. unpackHeader s = (s1, tag, ty, None) \<and> unpackVal f s1 ty z = Diverge"
  using assms
  by (auto simp: unpack.simps Let_def go_bind_Diverge_iff
      split: if_splits option.splits prod.splits goval.splits)

lemma unpack_fuel_total:
  "(\<forall>s x b. remaining s < f \<longrightarrow> unpack f s x b \<noteq> Diverge) \<and>
   (\<forall>s x. remaining s < f \<longrightarrow> unpackFields f s x \<noteq> Diverge)"
proof (induction f)
  case (Suc f)
  then have V: "\<And>s ty x. remaining s < f \<Longrightarrow> unpackVal f s ty x \<noteq> Diverge"
    using unpackVal_total [of f] by blast
  have U: "unpack (Suc f) s x b \<noteq> Diverge" if "remaining s < Suc f" for s x b
    using that V by (auto dest!: unpack_diverge unpackHeader_consumes consumes_remaining)
  have "unpackFields (Suc f) s x \<noteq> Diverge" if r: "remaining s < Suc f" for s x
  proof -
    have "unpackFields f s1 y \<noteq> Diverge" if "unpack (Suc f) s x False = Ret (s1, y, None)" for s1 y
      using Suc r consumes_remaining [OF unpack_moves(2) [OF that]] by simp
    with U [OF r] show ?thesis by (auto simp: go_bind_Diverge_iff split: if_splits)
  qed
  with U show ?case by blast
qed simp

lemma unpack_total: "remaining s < f \<Longrightarrow> unpack f s x b \<noteq> Diverge"
  using unpack_fuel_total [of f] by blast

end
