(* ===== verification/Spb_Format.thy ===== *)
theory Spb_Format
  imports Spb_Total
begin

text \<open>
  The wire format as a function of the value, and the values the format can carry.

  \<open>body\<close> are the bytes that follow a value's header and \<open>enc\<close> a whole field; the
  encoder of \<open>Spb\<close> is shown to append exactly these.  \<open>codable\<close> says which values
  survive the trip: typed consistently, no nil pointer, pointers only as slice elements or
  map values, no floats, lengths the decoder can allocate, map keys distinct, and
  struct tags under which every field finds itself again.
\<close>

fun wire_type :: "goval \<Rightarrow> byte" where
  "wire_type (VString _) = Wire_String"
| "wire_type (VSlice _ _) = Wire_Vector"
| "wire_type (VMap _ _ _) = Wire_Map"
| "wire_type (VStruct _) = StructBegin"
| "wire_type x = (case scalar_val x of Some (ty, _) \<Rightarrow> ty | None \<Rightarrow> 0)"

text \<open>A value that is not required is left out when it is the zero value of its type.\<close>

fun is_zero :: "goval \<Rightarrow> bool" where
  "is_zero (VString v) = (v = [])"
| "is_zero (VSlice _ vs) = (vs = [])"
| "is_zero (VMap _ _ es) = (es = [])"
| "is_zero (VStruct _) = False"
| "is_zero x = (case scalar_val x of Some (_, val) \<Rightarrow> val = 0 | None \<Rightarrow> False)"

function (sequential) body :: "goval \<Rightarrow> bytes"
and encElems :: "goval list \<Rightarrow> bytes"
and encPairs :: "(goval \<times> goval) list \<Rightarrow> bytes"
and encFields :: "nat \<Rightarrow> (stag \<times> goval) list \<Rightarrow> bytes"
and enc :: "u32 \<Rightarrow> bool \<Rightarrow> goval \<Rightarrow> bytes" where
  "body x = (case x of
       VString v \<Rightarrow> varint (of_nat (length v)) @ v
     | VSlice t vs \<Rightarrow> varint (of_nat (length vs)) @ encElems vs
     | VMap k t es \<Rightarrow> varint (of_nat (length es)) @ encPairs es
     | VStruct fs \<Rightarrow> encFields 0 fs @ hdr 0 StructEnd
     | _ \<Rightarrow> (case scalar_val x of Some (_, val) \<Rightarrow> varint val | None \<Rightarrow> []))"
| "encElems [] = []"
| "encElems (v # vs) = enc 0 True v @ encElems vs"
| "encPairs [] = []"
| "encPairs ((k, v) # es) = enc 0 True k @ enc 0 True v @ encPairs es"
| "encFields i [] = []"
| "encFields i ((g, v) # fs) =
     enc (word_of_int (field_tag i g)) (stag_require g = ''true'') v @ encFields (Suc i) fs"
| "enc tag require i = (case deref i of
       None \<Rightarrow> []
     | Some x \<Rightarrow> if is_zero x \<and> \<not> require then [] else hdr tag (wire_type x) @ body x)"
  by pat_completeness auto
termination
  by (relation "measures [\<lambda>a. case a of
        Inl (Inl x) \<Rightarrow> size x
      | Inl (Inr vs) \<Rightarrow> size_list size vs
      | Inr (Inl es) \<Rightarrow> size_list (size_prod size size) es
      | Inr (Inr (Inl (i, fs))) \<Rightarrow> size_list (size_prod (\<lambda>_. 0) size) fs
      | Inr (Inr (Inr (tag, r, i))) \<Rightarrow> size i,
      \<lambda>a. case a of Inr (Inr (Inr _)) \<Rightarrow> 1 | _ \<Rightarrow> 0]")
    (auto dest!: size_deref simp: order_le_less)

declare body.simps [simp del] enc.simps [simp del]

definition tags_ok :: "(stag \<times> 'v) list \<Rightarrow> bool" where
  "tags_ok fs \<longleftrightarrow>
     list_all (\<lambda>i. find_field fs (word_of_int (field_tag i (fst (fs ! i)))) = Some i) [0..<length fs]"

lemma size_pair_mem:
  "e \<in> set es \<Longrightarrow> size (fst e) < Suc (size_list (size_prod size size) es) \<and>
     size (snd e) < Suc (size_list (size_prod size size) es)"
  by (induction es) auto

lemma size_field_mem: "e \<in> set fs \<Longrightarrow> size (snd e) < Suc (size_list (size_prod (\<lambda>_. 0) size) fs)"
  by (induction fs) auto

function codable :: "goval \<Rightarrow> bool" and codable_elem :: "goval \<Rightarrow> bool" where
  "codable x = (case x of
       VString v \<Rightarrow> True
     | VSlice t vs \<Rightarrow> length vs \<le> max_values \<and> list_all (\<lambda>v. type_of v = t \<and> codable_elem v) vs
     | VMap k t es \<Rightarrow> length es \<le> max_values \<and> distinct (map fst es) \<and>
         list_all (\<lambda>e. type_of (fst e) = k \<and> codable (fst e) \<and> type_of (snd e) = t \<and> codable_elem (snd e)) es
     | VStruct fs \<Rightarrow> tags_ok fs \<and> list_all (\<lambda>e. codable (snd e)) fs
     | VFloat32 _ \<Rightarrow> False
     | VFloat64 _ \<Rightarrow> False
     | VPtr _ _ \<Rightarrow> False
     | VOther \<Rightarrow> False
     | _ \<Rightarrow> True)"
| "codable_elem x = (case x of
       VPtr t None \<Rightarrow> False
     | VPtr t (Some w) \<Rightarrow> type_of w = t \<and> codable w
     | _ \<Rightarrow> codable x)"
  by pat_completeness auto
termination
proof (relation "measures [\<lambda>a. case a of Inl x \<Rightarrow> size x | Inr x \<Rightarrow> size x,
      \<lambda>a. case a of Inl _ \<Rightarrow> 0 | Inr _ \<Rightarrow> 1]", goal_cases)
  case 1
  then show ?case by simp
next
  case (2 x t vs v)
  then show ?case by (auto simp: less_Suc_eq_le size_list_estimation')
next
  case (3 x k t es e)
  then show ?case by (auto dest: size_pair_mem)
next
  case (4 x k t es e)
  then show ?case by (auto dest: size_pair_mem)
next
  case (5 x fs e)
  then show ?case by (auto dest: size_field_mem)
qed auto

declare codable.simps [simp del] codable_elem.simps [simp del]


subsection \<open>The encoder writes the format\<close>

lemma codable_elem_codable: "codable x \<Longrightarrow> codable_elem x"
  by (cases x) (simp_all add: codable_elem.simps codable.simps [of "VPtr _ _"])

lemma codable_elem_deref: "codable_elem i \<Longrightarrow> \<exists>x. deref i = Some x \<and> codable x"
  by (cases i) (auto simp: codable_elem.simps split: option.splits)

lemma codable_not_ptr: "codable x \<Longrightarrow> deref x = Some x"
  by (cases x) (auto simp: codable.simps)

lemma codable_scalar:
  assumes "codable x" "\<And>v. x \<noteq> VString v" "\<And>t vs. x \<noteq> VSlice t vs"
    "\<And>k t es. x \<noteq> VMap k t es" "\<And>fs. x \<noteq> VStruct fs"
  shows "\<exists>ty v. scalar_val x = Some (ty, v) \<and> wire_type x = ty \<and> body x = varint v \<and>
    is_zero x = (v = 0)"
  using assms by (cases x) (auto simp: codable.simps body.simps signed_val_def)

lemma codable_parts:
  "codable (VSlice t vs) \<Longrightarrow> list_all codable_elem vs"
  "codable (VMap k t es) \<Longrightarrow> list_all (\<lambda>e. codable (fst e) \<and> codable_elem (snd e)) es"
  "codable (VStruct fs) \<Longrightarrow> list_all (\<lambda>e. codable (snd e)) fs"
  by (auto simp: codable.simps list_all_iff)

lemma codable_fields_elem: "codable (VStruct fs) \<Longrightarrow> list_all (\<lambda>e. codable_elem (snd e)) fs"
  by (drule codable_parts(3)) (auto simp: list_all_iff codable_elem_codable)

lemma pack_enc_all:
  "codable_elem i \<and> h \<longrightarrow> pack s tag i h r = Ret (s\<lparr>buf := buf s @ enc tag r i\<rparr>, None)"
  "list_all codable_elem vs \<longrightarrow> packSliceLoop s vs = Ret (s\<lparr>buf := buf s @ encElems vs\<rparr>, None)"
  "list_all (\<lambda>e. codable (fst e) \<and> codable_elem (snd e)) es \<longrightarrow>
     packMapLoop s es = Ret (s\<lparr>buf := buf s @ encPairs es\<rparr>, None)"
  "list_all (\<lambda>e. codable_elem (snd e)) fs \<longrightarrow>
     packStructLoop s j fs = Ret (s\<lparr>buf := buf s @ encFields j fs\<rparr>, None)"
proof (induction s tag i h r and s vs and s es and s j fs
    rule: pack_packSliceLoop_packMapLoop_packStructLoop.induct)
  case (1 s tag i h r)
  show ?case
  proof (intro impI, elim conjE)
    assume "codable_elem i" "h"
    then obtain x where x: "deref i = Some x" "codable x" by (auto dest: codable_elem_deref)
    note e = enc.simps [of tag r i] and p = pack.simps [of s tag i]
    consider (str) v where "x = VString v" | (sl) t vs where "x = VSlice t vs"
      | (mp) k t es where "x = VMap k t es" | (st) fs where "x = VStruct fs"
      | (sc) ty v where "scalar_val x = Some (ty, v)" "wire_type x = ty" "body x = varint v"
          "is_zero x = (v = 0)"
      using codable_scalar [OF x(2)] by blast
    then show "pack s tag i h r = Ret (s\<lparr>buf := buf s @ enc tag r i\<rparr>, None)"
    proof cases
      case str
      then show ?thesis using x \<open>h\<close> by (simp add: e p body.simps pack_append)
    next
      case sl
      then show ?thesis using x "1.IH"(1) [OF x(1)] codable_parts(1)
        by (simp add: e p body.simps pack_append)
    next
      case mp
      then show ?thesis using x "1.IH"(2) [OF x(1)] codable_parts(2)
        by (simp add: e p body.simps pack_append)
    next
      case st
      then show ?thesis using x "1.IH"(3) [OF x(1)] codable_fields_elem
        by (simp add: e p body.simps pack_append)
    next
      case sc
      then show ?thesis using x \<open>h\<close>
        by (cases x) (auto simp: e p pack_append)
    qed
  qed
qed (auto intro: codable_elem_codable)

end
