(* ===== verification/Spb_Roundtrip.thy ===== *)
theory Spb_Roundtrip
  imports Spb_Format
begin

text \<open>
  Decoding inverts encoding.  A codable value written by the encoder and read into a zero
  value of its type comes back unchanged, whatever follows it in the buffer.
\<close>

subsection \<open>Scalars\<close>

lemma ucast_scast_down: "LENGTH('a) \<le> 64 \<Longrightarrow> ucast (scast v :: u64) = v" for v :: "'a::len word"
  by (rule bit_word_eqI) (auto simp: bit_simps)

lemma take_bit_minus_take_bit: "n \<le> m \<Longrightarrow> take_bit n (- take_bit m w) = take_bit n (- w)" for w :: int
  using take_bit_minus [of n "take_bit m w"] by (simp add: take_bit_minus min_def)

lemma ucast_minus_down:
  "LENGTH('a) \<le> 64 \<Longrightarrow> (ucast (- w) :: 'a::len word) = - ucast w" for w :: u64
  by transfer (simp add: take_bit_minus_take_bit min_def)

lemma signed_val_neg:
  "LENGTH('a) \<le> 64 \<Longrightarrow> ucast (- (scast (- v) :: u64)) = v" for v :: "'a::len word"
  by (simp add: ucast_minus_down ucast_scast_down)

lemma scast_eq_0: "LENGTH('a) \<le> 64 \<Longrightarrow> (scast v :: u64) = 0 \<longleftrightarrow> v = 0" for v :: "'a::len word"
  by (metis ucast_scast_down scast_0 unsigned_0)

lemma ucast_eq_0: "LENGTH('a) \<le> 64 \<Longrightarrow> (ucast v :: u64) = 0 \<longleftrightarrow> v = 0" for v :: "'a::len word"
  using ucast_up_down [of v, where ?'b = 64] by auto

lemma zero_value: "codable x \<Longrightarrow> is_zero x \<Longrightarrow> x = zero_of (type_of x)"
  by (cases x) (auto simp: codable.simps signed_val_def scast_eq_0 ucast_eq_0 split: if_splits)

definition reads :: "goval \<Rightarrow> bool" where
  "reads x \<longleftrightarrow> (\<forall>f s rest. at s (body x) rest \<and> remaining s < f \<and> length (buf s) < 2 ^ 48 \<longrightarrow>
     unpackVal f s (wire_type x) (Some (zero_of (type_of x))) =
       Ret (advance s (length (body x)), Some x, None))"

lemma reads_scalar:
  assumes "codable x" "scalar_val x = Some (ty, v)"
  shows "reads x"
  using assms unfolding reads_def
  by (cases x)
    (auto simp: codable.simps unpackVal.simps body.simps unpackNumber_at signed_val_def
      ucast_scast_down signed_val_neg ucast_up_down scast_eq_0 split: if_splits)


subsection \<open>One field\<close>

lemma wire_type_small: "wire_type x < 16"
  by (cases x) (auto simp: signed_val_def)

lemma wire_type_not_end: "wire_type x \<noteq> StructEnd"
  by (cases x) (auto simp: signed_val_def)

lemma remaining_advance: "remaining (advance s n) = remaining s - n"
  by (simp add: remaining_def)

lemma readsD:
  assumes "reads x" "at s (body x) rest" "remaining s < f" "length (buf s) < 2 ^ 48"
  shows "unpackVal f s (wire_type x) (Some (zero_of (type_of x))) =
    Ret (advance s (length (body x)), Some x, None)"
  using assms unfolding reads_def by blast

text \<open>The header of a field has been read: what is left is its body and less than before.\<close>

lemma field_header:
  assumes "at s (hdr tag ty @ bs) rest" "ty < 16" "remaining s < Suc f"
  defines "s1 \<equiv> advance s (length (hdr tag ty))"
  shows "\<not> length (buf s) \<le> index s" "unpackHeader s = (s1, tag, ty, None)"
    "at s1 bs rest" "remaining s1 < f" "buf s1 = buf s"
proof -
  have h: "at s (hdr tag ty) (bs @ rest)" using assms(1) by (simp add: at_def)
  then have l: "index s + length (hdr tag ty) \<le> length (buf s)" by (rule at_le) simp
  moreover have "0 < length (hdr tag ty)" by simp
  ultimately show "\<not> length (buf s) \<le> index s" by linarith
  show "unpackHeader s = (s1, tag, ty, None)"
    unfolding s1_def by (rule unpackHeader_at [OF h assms(2)])
  show "at s1 bs rest" unfolding s1_def by (rule at_append [OF assms(1)])
  show "remaining s1 < f"
    using l \<open>0 < length (hdr tag ty)\<close> assms(3) unfolding s1_def remaining_def
    by (simp del: length_greater_0_conv)
  show "buf s1 = buf s" by (simp add: s1_def)
qed

lemma unpack_first:
  assumes "reads y" "at s (hdr tag (wire_type y) @ body y) rest" "remaining s < f"
    "length (buf s) < 2 ^ 48" "deref d = Some (zero_of (type_of y))"
  shows "unpack f s d True =
    Ret (advance s (length (hdr tag (wire_type y) @ body y)),
      (case d of VPtr t p \<Rightarrow> VPtr t (Some y) | _ \<Rightarrow> y), None)"
proof (cases f)
  case (Suc g)
  note h = field_header [OF assms(2) wire_type_small assms(3) [unfolded Suc]]
  have "unpackVal g (advance s (length (hdr tag (wire_type y)))) (wire_type y) (Some (zero_of (type_of y)))
      = Ret (advance s (length (hdr tag (wire_type y) @ body y)), Some y, None)"
    using readsD [OF assms(1) h(3,4)] assms(4) by (simp add: add.assoc)
  with assms(5) show ?thesis by (simp add: Suc unpack.simps h(1,2))
qed (use assms in simp)


subsection \<open>Slices and maps\<close>

lemma enc_required: "deref i = Some y \<Longrightarrow> enc tag True i = hdr tag (wire_type y) @ body y"
  by (simp add: enc.simps)

lemma at_append_right: "at s (as @ bs) rest \<Longrightarrow> at s as (bs @ rest)"
  by (simp add: at_def)

text \<open>An element is read into a fresh value and appended by value or by pointer.\<close>

lemma unpack_elem:
  assumes "codable_elem x" "\<And>y. deref x = Some y \<Longrightarrow> reads y"
    "at s (enc 0 True x) rest" "remaining s < f" "length (buf s) < 2 ^ 48"
  shows "\<exists>z. unpack f s (newValByType (type_of x)) True = Ret (advance s (length (enc 0 True x)), z, None) \<and>
    elem_of (type_of x) z = x"
proof -
  obtain y where y: "deref x = Some y" "codable y" using assms(1) by (auto dest: codable_elem_deref)
  have d: "deref (newValByType (type_of x)) = Some (zero_of (type_of y))"
    using y(1) assms(1) by (cases x) (auto simp: codable_elem.simps split: option.splits)
  have "unpack f s (newValByType (type_of x)) True =
      Ret (advance s (length (enc 0 True x)),
        (case newValByType (type_of x) of VPtr t p \<Rightarrow> VPtr t (Some y) | _ \<Rightarrow> y), None)"
    using unpack_first [OF assms(2) [OF y(1)] assms(3) [unfolded enc_required [OF y(1)]] assms(4,5) d]
    by (simp add: enc_required [OF y(1)])
  moreover have "elem_of (type_of x)
      (case newValByType (type_of x) of VPtr t p \<Rightarrow> VPtr t (Some y) | _ \<Rightarrow> y) = x"
    using y(1) assms(1) by (cases x) (auto simp: elem_of_def codable_elem.simps split: option.splits)
  ultimately show ?thesis by blast
qed

lemma unpackElems_at:
  assumes "\<And>x y. x \<in> set vs \<Longrightarrow> deref x = Some y \<Longrightarrow> reads y"
    "list_all (\<lambda>v. type_of v = t \<and> codable_elem v) vs"
    "at s (encElems vs) rest" "remaining s < f" "length (buf s) < 2 ^ 48"
  shows "unpackElems f (length vs) s t = Ret (advance s (length (encElems vs)), vs, None)"
  using assms
proof (induction vs arbitrary: s)
  case (Cons x vs)
  let ?s = "advance s (length (enc 0 True x))"
  from Cons.prems have t: "type_of x = t" by simp
  from Cons.prems obtain z where z:
    "unpack f s (newValByType t) True = Ret (?s, z, None)" "elem_of t z = x"
    using unpack_elem [of x s "encElems vs @ rest" f] by (auto simp: at_append_right)
  have "unpackElems f (length vs) ?s t = Ret (advance ?s (length (encElems vs)), vs, None)"
    using Cons.prems at_append [of s "enc 0 True x" "encElems vs" rest]
    by (intro Cons.IH) (auto simp: remaining_def)
  with z show ?case by (simp add: add.assoc)
qed simp

lemma unpackPairs_at:
  assumes "\<And>k v. (k, v) \<in> set es \<Longrightarrow> reads k" "\<And>k v y. (k, v) \<in> set es \<Longrightarrow> deref v = Some y \<Longrightarrow> reads y"
    "list_all (\<lambda>e. type_of (fst e) = k \<and> codable (fst e) \<and> type_of (snd e) = t \<and> codable_elem (snd e)) es"
    "at s (encPairs es) rest" "remaining s < f" "length (buf s) < 2 ^ 48"
  shows "unpackPairs f (length es) s k t = Ret (advance s (length (encPairs es)), es, None)"
  using assms
proof (induction es arbitrary: s)
  case (Cons e es)
  obtain a b where e: "e = (a, b)" by (cases e)
  from Cons.prems(3) have t: "type_of a = k" "type_of b = t" "codable a" "codable_elem b" by (auto simp: e)
  let ?s1 = "advance s (length (enc 0 True a))"
  let ?s2 = "advance ?s1 (length (enc 0 True b))"
  have at1: "at ?s1 (enc 0 True b @ encPairs es) rest" and at2: "at ?s2 (encPairs es) rest"
    using Cons.prems(4) at_append [of s "enc 0 True a" "enc 0 True b @ encPairs es" rest]
      at_append [of ?s1 "enc 0 True b" "encPairs es" rest] by (auto simp: e)
  have key: "deref (zero_of k) = Some (zero_of k)" "(case zero_of k of VPtr u p \<Rightarrow> VPtr u (Some a) | _ \<Rightarrow> a) = a"
    using t(1,3) by (cases a; auto simp: codable.simps)+
  have "unpack f s (zero_of k) True = Ret (?s1, a, None)"
    using unpack_first [of a s 0 "enc 0 True b @ encPairs es @ rest" f "zero_of k"]
      Cons.prems(1) [of a b] Cons.prems(4-) key t
    by (simp add: e enc_required [OF codable_not_ptr] at_def)
  moreover have "remaining ?s1 < f" using Cons.prems(5) by (simp add: remaining_def)
  then obtain z where "unpack f ?s1 (newValByType t) True = Ret (?s2, z, None)" "elem_of t z = b"
    using unpack_elem [of b ?s1 "encPairs es @ rest" f] Cons.prems(2) [of a b] Cons.prems(6) t
      at_append_right [OF at1] by (auto simp: e)
  moreover have "unpackPairs f (length es) ?s2 k t = Ret (advance ?s2 (length (encPairs es)), es, None)"
  proof (rule Cons.IH)
    show "reads y" if "(k, v) \<in> set es" "deref v = Some y" for k v y
      using that Cons.prems(2) [of k v y] by simp
    show "reads k" if "(k, v) \<in> set es" for k v
      using that Cons.prems(1) [of k v] by simp
  qed (use Cons.prems at2 in \<open>auto simp: remaining_def\<close>)
  ultimately show ?case by (simp add: e add.assoc)
qed simp

lemma update_new: "k \<notin> fst ` set m \<Longrightarrow> AList.update k v m = m @ [(k, v)]"
  by (induction m) auto

lemma foldl_update_distinct:
  "distinct (map fst (acc @ es)) \<Longrightarrow> foldl (\<lambda>m (a, b). AList.update a b m) acc es = acc @ es"
proof (induction es arbitrary: acc)
  case (Cons e es)
  then have "fst e \<notin> fst ` set acc" by auto
  with Cons.IH [of "acc @ [e]"] Cons.prems show ?case
    by (cases e) (simp add: update_new)
qed simp

lemma unat_length: "n \<le> max_values \<Longrightarrow> unat (of_nat n :: u64) = n"
  by (simp add: unat_of_nat max_values_def)

lemma reads_slice:
  assumes "codable (VSlice t vs)" "\<And>x y. x \<in> set vs \<Longrightarrow> deref x = Some y \<Longrightarrow> reads y"
  shows "reads (VSlice t vs)"
  unfolding reads_def
proof (intro allI impI, elim conjE)
  fix f s rest
  assume at: "at s (body (VSlice t vs)) rest" and r: "remaining s < f" and l: "length (buf s) < 2 ^ 48"
  let ?n = "varint (of_nat (length vs))"
  from at have at': "at s (?n @ encElems vs) rest" by (simp add: body.simps)
  have "unpackElems f (length vs) (advance s (length ?n)) t =
      Ret (advance (advance s (length ?n)) (length (encElems vs)), vs, None)"
    using assms r l at_append [OF at'] by (intro unpackElems_at) (auto simp: codable.simps remaining_def)
  with assms(1) unpackNumber_at [OF at_append_right [OF at']]
  show "unpackVal f s (wire_type (VSlice t vs)) (Some (zero_of (type_of (VSlice t vs)))) =
      Ret (advance s (length (body (VSlice t vs))), Some (VSlice t vs), None)"
    by (simp add: unpackVal.simps codable.simps unat_length body.simps add.assoc)
qed

lemma reads_map:
  assumes "codable (VMap k t es)" "\<And>k v. (k, v) \<in> set es \<Longrightarrow> reads k"
    "\<And>k v y. (k, v) \<in> set es \<Longrightarrow> deref v = Some y \<Longrightarrow> reads y"
  shows "reads (VMap k t es)"
  unfolding reads_def
proof (intro allI impI, elim conjE)
  fix f s rest
  assume at: "at s (body (VMap k t es)) rest" and r: "remaining s < f" and l: "length (buf s) < 2 ^ 48"
  let ?n = "varint (of_nat (length es))"
  from at have at': "at s (?n @ encPairs es) rest" by (simp add: body.simps)
  have "unpackPairs f (length es) (advance s (length ?n)) k t =
      Ret (advance (advance s (length ?n)) (length (encPairs es)), es, None)"
    using assms r l at_append [OF at'] by (intro unpackPairs_at) (auto simp: codable.simps remaining_def)
  with assms(1) unpackNumber_at [OF at_append_right [OF at']]
  show "unpackVal f s (wire_type (VMap k t es)) (Some (zero_of (type_of (VMap k t es)))) =
      Ret (advance s (length (body (VMap k t es))), Some (VMap k t es), None)"
    by (simp add: unpackVal.simps codable.simps unat_length body.simps add.assoc
        foldl_update_distinct [of "[]", simplified])
qed


subsection \<open>Structs\<close>

lemma find_tagged_cong: "map fst fs = map fst gs \<Longrightarrow> find_tagged i fs tag = find_tagged i gs tag"
proof (induction fs arbitrary: gs i)
  case (Cons e fs)
  then show ?case by (cases e; cases gs) auto
qed simp

lemma find_field_cong: "map fst fs = map fst gs \<Longrightarrow> find_field fs tag = find_field gs tag"
proof -
  assume a: "map fst fs = map fst gs"
  then have l: "length fs = length gs" by (metis length_map)
  have "fst (fs ! n) = fst (gs ! n)" if "n < length fs" for n
    using a l that by (metis nth_map)
  then show ?thesis
    unfolding find_field_def find_tagged_cong [OF a] using l by (auto split: option.splits)
qed

lemma tags_okD: "tags_ok fs \<Longrightarrow> i < length fs \<Longrightarrow>
    find_field fs (word_of_int (field_tag i (fst (fs ! i)))) = Some i"
  by (simp add: tags_ok_def list_all_iff)

text \<open>The destination of the struct loop: the fields read so far and zero values for the rest.\<close>

definition blank :: "(stag \<times> goval) list \<Rightarrow> (stag \<times> goval) list" where
  "blank fs = map (\<lambda>(g, v). (g, zero_of (type_of v))) fs"

lemma blank_simps [simp]:
  "blank [] = []" "blank ((g, v) # fs) = (g, zero_of (type_of v)) # blank fs"
  "map fst (blank fs) = map fst fs" "length (blank fs) = length fs"
  by (auto simp: blank_def)

lemma blank_zero: "VStruct (blank fs) = zero_of (type_of (VStruct fs))"
  by (auto simp: blank_def)

lemma unpack_struct_end:
  assumes "at s (hdr 0 StructEnd) rest" "remaining s < Suc f"
  shows "unpack (Suc f) s (VStruct fs) False =
    Ret (advance s (length (hdr 0 StructEnd)), VStruct fs, Some ErrStructEnd)"
proof -
  have "at s (hdr 0 StructEnd @ []) rest" using assms(1) by simp
  note h = field_header [OF this _ assms(2), simplified]
  show ?thesis
    by (auto simp: unpack.simps h unpackVal.simps split: option.splits)
qed

lemma unpack_field:
  assumes "reads v" "at s (hdr tag (wire_type v) @ body v) rest" "remaining s < Suc f"
    "length (buf s) < 2 ^ 48" "find_field fs tag = Some j" "fs ! j = (g, zero_of (type_of v))"
  shows "unpack (Suc f) s (VStruct fs) False =
    Ret (advance s (length (hdr tag (wire_type v) @ body v)), VStruct (fs[j := (g, v)]), None)"
proof -
  note h = field_header [OF assms(2) wire_type_small assms(3)]
  have "unpackVal f (advance s (length (hdr tag (wire_type v)))) (wire_type v) (Some (zero_of (type_of v)))
      = Ret (advance s (length (hdr tag (wire_type v) @ body v)), Some v, None)"
    using readsD [OF assms(1) h(3,4)] assms(4) by (simp add: add.assoc)
  with assms(5,6) show ?thesis by (simp add: unpack.simps h(1,2))
qed

text \<open>The destination may have further fields (\<open>extra\<close>), of a newer version of the struct:
  they keep their values.  What follows the fields in the message (\<open>tail\<close>) is read next.\<close>

lemma unpackFields_prefix:
  assumes "tags_ok (done @ todo @ extra)" "\<And>g v. (g, v) \<in> set todo \<Longrightarrow> codable v \<and> reads v"
    "at s (encFields (length done) todo @ tail) rest" "remaining s < f" "length (buf s) < 2 ^ 48"
  shows "\<exists>f'. remaining (advance s (length (encFields (length done) todo))) < f' \<and>
    unpackFields f s (VStruct (done @ blank todo @ extra)) =
      unpackFields f' (advance s (length (encFields (length done) todo))) (VStruct (done @ todo @ extra))"
  using assms
proof (induction todo arbitrary: "done" s f)
  case Nil
  then show ?case by auto
next
  case (Cons e todo)
  obtain g v where e: "e = (g, v)" by (cases e)
  let ?tag = "word_of_int (field_tag (length done) g)"
  let ?w = "enc ?tag (stag_require g = ''true'') v"
  let ?n = "length (encFields (Suc (length done)) todo)"
  have IH: "\<exists>f''. remaining (advance s' ?n) < f'' \<and>
      unpackFields f' s' (VStruct ((done @ [(g, v)]) @ blank todo @ extra)) =
        unpackFields f'' (advance s' ?n) (VStruct (done @ e # todo @ extra))"
    if "at s' (encFields (Suc (length done)) todo @ tail) rest" "remaining s' < f'"
      "buf s' = buf s" for s' f'
    using Cons.IH [of "done @ [(g, v)]" s' f'] Cons.prems(1,2,5) that by (auto simp: e)
  have v: "codable v" "reads v" using Cons.prems(2) [of g v] by (auto simp: e)
  have at: "at s (?w @ encFields (Suc (length done)) todo @ tail) rest"
    using Cons.prems(3) by (simp add: e)
  show ?case
  proof (cases "?w = []")
    case True
    then have "is_zero v"
      using codable_not_ptr [OF v(1)] by (auto simp: enc.simps split: if_splits)
    then have "zero_of (type_of v) = v" using zero_value v(1) by simp
    then show ?thesis using IH [of s f] at Cons.prems(4) True by (simp add: e)
  next
    case False
    then have w: "?w = hdr ?tag (wire_type v) @ body v"
      using codable_not_ptr [OF v(1)] by (auto simp: enc.simps split: if_splits)
    obtain f' where f: "f = Suc f'" using Cons.prems(4) by (cases f) auto
    have "find_field (done @ e # todo @ extra) ?tag = Some (length done)"
      using tags_okD [OF Cons.prems(1), of "length done"] by (simp add: e)
    then have ff: "find_field (done @ blank (e # todo) @ extra) ?tag = Some (length done)"
      using find_field_cong [of "done @ blank (e # todo) @ extra" "done @ e # todo @ extra" ?tag] by simp
    have "at s (hdr ?tag (wire_type v) @ body v) (encFields (Suc (length done)) todo @ tail @ rest)"
      using at by (simp add: w at_def)
    from unpack_field [OF v(2) this _ Cons.prems(5) ff, of f' g]
    have u: "unpack f s (VStruct (done @ blank (e # todo) @ extra)) False =
        Ret (advance s (length ?w), VStruct (done @ (g, v) # blank todo @ extra), None)"
      using Cons.prems(4) by (simp add: e w f)
    have "index s + length ?w \<le> length (buf s)" using at_le [OF at_append_right [OF at] False] .
    then have "remaining (advance s (length ?w)) < f'"
      using Cons.prems(4) False unfolding remaining_def f by (cases ?w) auto
    with IH [of "advance s (length ?w)" f'] at_append [OF at] u show ?thesis
      by (simp add: f e add.assoc)
  qed
qed

lemma unpackFields_at:
  assumes "tags_ok (fs @ extra)" "\<And>g v. (g, v) \<in> set fs \<Longrightarrow> codable v \<and> reads v"
    "at s (encFields 0 fs @ hdr 0 StructEnd) rest" "remaining s < f" "length (buf s) < 2 ^ 48"
  shows "unpackFields f s (VStruct (blank fs @ extra)) =
    Ret (advance s (length (encFields 0 fs @ hdr 0 StructEnd)), VStruct (fs @ extra), None)"
proof -
  let ?s = "advance s (length (encFields 0 fs))"
  obtain f' where f: "remaining ?s < f'" "unpackFields f s (VStruct (blank fs @ extra)) =
      unpackFields f' ?s (VStruct (fs @ extra))"
    using unpackFields_prefix [of "[]" fs extra s "hdr 0 StructEnd" rest f] assms by auto
  moreover from f(1) obtain n where "f' = Suc n" by (cases f') auto
  ultimately show ?thesis
    using unpack_struct_end [OF at_append [OF assms(3)], of n] by (simp add: add.assoc)
qed

lemma reads_struct:
  assumes "codable (VStruct fs)" "\<And>g v. (g, v) \<in> set fs \<Longrightarrow> reads v"
  shows "reads (VStruct fs)"
  unfolding reads_def
proof (intro allI impI, elim conjE)
  fix f s rest
  assume at: "at s (body (VStruct fs)) rest" and r: "remaining s < f" and l: "length (buf s) < 2 ^ 48"
  have "unpackFields f s (VStruct (blank fs @ [])) =
      Ret (advance s (length (encFields 0 fs @ hdr 0 StructEnd)), VStruct (fs @ []), None)"
    using assms at r l
    by (intro unpackFields_at) (auto simp: codable.simps [of "VStruct fs"] body.simps [of "VStruct fs"] list_all_iff)
  then show "unpackVal f s (wire_type (VStruct fs)) (Some (zero_of (type_of (VStruct fs)))) =
      Ret (advance s (length (body (VStruct fs))), Some (VStruct fs), None)"
    unfolding blank_zero [symmetric] by (simp add: unpackVal.simps body.simps)
qed

subsection \<open>Every codable value\<close>

theorem codable_reads: "codable x \<Longrightarrow> reads x"
proof (induction "size x" arbitrary: x rule: less_induct)
  case less
  show ?case
  proof (cases x)
    case (VSlice t vs)
    have "reads y" if "v \<in> set vs" "deref v = Some y" for v y
    proof -
      have "size y < size x"
        using that size_deref [OF that(2)] size_list_estimation' [of v vs "size v" size]
        by (simp add: VSlice)
      moreover have "codable y"
        using that codable_parts(1) less.prems codable_elem_deref
        by (metis VSlice list_all_iff option.inject)
      ultimately show ?thesis by (rule less.hyps)
    qed
    with less.prems show ?thesis unfolding VSlice by (intro reads_slice) auto
  next
    case (VMap k t es)
    have e: "codable a" "codable_elem b" "size a < size x" "size b < size x" if "(a, b) \<in> set es" for a b
      using that codable_parts(2) [of k t es] less.prems size_pair_mem [OF that]
      by (auto simp: VMap list_all_iff)
    then have "reads a" if "(a, b) \<in> set es" for a b using that less.hyps by blast
    moreover have "reads y" if "(a, b) \<in> set es" "deref b = Some y" for a b y
    proof (rule less.hyps)
      show "size y < size x" using e(4) [OF that(1)] size_deref [OF that(2)] by simp
      show "codable y" using e(2) [OF that(1)] codable_elem_deref that(2) by fastforce
    qed
    ultimately show ?thesis using less.prems unfolding VMap by (intro reads_map) auto
  next
    case (VStruct fs)
    have "reads v" if "(g, v) \<in> set fs" for g v
      using that codable_parts(3) [of fs] less.prems size_field_mem [OF that]
      by (intro less.hyps) (auto simp: VStruct list_all_iff)
    with less.prems show ?thesis unfolding VStruct by (intro reads_struct) auto
  next
    case (VString v)
    show ?thesis unfolding VString reads_def
    proof (intro allI impI, elim conjE)
      fix f s rest
      assume at: "at s (body (VString v)) rest" and l: "length (buf s) < 2 ^ 48"
      let ?n = "varint (of_nat (length v))"
      from at have at': "at s (?n @ v) rest" by (simp add: body.simps)
      have "length v < 2 ^ 48" using at_le [OF at'] l by simp
      then have "sint (of_nat (length v) :: u64) = int (length v)"
        using wrap64_id [of "int (length v)"] by (simp add: wrap64_def)
      with unpackByte_at [OF at_append [OF at'], of "int (length v)"] l
      have "unpackByte (advance s (length ?n)) (sint (of_nat (length v) :: u64)) =
          Ret (advance (advance s (length ?n)) (length v), v, None)" by simp
      with unpackNumber_at [OF at_append_right [OF at']]
      show "unpackVal f s (wire_type (VString v)) (Some (zero_of (type_of (VString v)))) =
          Ret (advance s (length (body (VString v))), Some (VString v), None)"
        by (simp add: unpackVal.simps body.simps add.assoc)
    qed
  qed (use less.prems codable_scalar [OF less.prems] in \<open>auto intro: reads_scalar\<close>)
qed

end
