(* ===== verification/Spb_Compat.thy ===== *)
theory Spb_Compat
  imports Spb_Roundtrip
begin

text \<open>
  Messages of other versions.  A field the destination does not know is skipped as a whole,
  however deeply it nests; a struct that gained fields therefore still reads old messages,
  and a struct that lacks fields still reads new ones.
\<close>

definition skips :: "goval \<Rightarrow> bool" where
  "skips x \<longleftrightarrow> (\<forall>f s rest. at s (body x) rest \<and> remaining s < f \<and> length (buf s) < 2 ^ 48 \<longrightarrow>
     skipField f (wire_type x) s = Ret (advance s (length (body x))))"

lemma skipsD:
  assumes "skips x" "at s (body x) rest" "remaining s < f" "length (buf s) < 2 ^ 48"
  shows "skipField f (wire_type x) s = Ret (advance s (length (body x)))"
  using assms unfolding skips_def by blast

lemma wire_type_scalar: "scalar_val x = Some (ty, v) \<Longrightarrow> wire_type x = ty \<and> ty \<in> {Integer_Positive, Integer_Negative}"
  by (cases x) (auto simp: signed_val_def split: if_splits)

lemma skips_scalar:
  assumes "codable x" "scalar_val x = Some (ty, v)"
  shows "skips x"
proof -
  have "body x = varint v" using assms by (cases x) (auto simp: body.simps signed_val_def)
  with wire_type_scalar [OF assms(2)] show ?thesis
    by (auto simp: skips_def skipField.simps unpackNumber_at)
qed

lemma skipHeadField_at:
  assumes "deref i = Some y" "skips y" "at s (enc 0 True i) rest" "remaining s < f"
    "length (buf s) < 2 ^ 48"
  shows "skipHeadField f s = Ret (advance s (length (enc 0 True i)))"
proof (cases f)
  case (Suc g)
  from assms(3) have "at s (hdr 0 (wire_type y) @ body y) rest" by (simp add: enc_required [OF assms(1)])
  note h = field_header [OF this wire_type_small assms(4) [unfolded Suc]]
  show ?thesis
    using skipsD [OF assms(2) h(3,4)] assms(5)
    by (simp add: Suc h(2) enc_required [OF assms(1)] add.assoc)
qed (use assms in simp)

lemma skipHeads_elems:
  assumes "\<And>x. x \<in> set vs \<Longrightarrow> \<exists>y. deref x = Some y \<and> skips y"
    "at s (encElems vs) rest" "remaining s < f" "length (buf s) < 2 ^ 48"
  shows "skipHeads f (length vs) s = Ret (advance s (length (encElems vs)))"
  using assms
proof (induction vs arbitrary: s)
  case (Cons x vs)
  let ?s = "advance s (length (enc 0 True x))"
  from Cons.prems(1) [of x] obtain y where "deref x = Some y" "skips y" by auto
  with Cons.prems have "skipHeadField f s = Ret ?s"
    by (intro skipHeadField_at [where rest = "encElems vs @ rest"]) (auto simp: at_append_right)
  moreover have "skipHeads f (length vs) ?s = Ret (advance ?s (length (encElems vs)))"
    using Cons.prems at_append [of s "enc 0 True x" "encElems vs" rest]
    by (intro Cons.IH) (auto simp: remaining_def)
  ultimately show ?case by (simp add: add.assoc)
qed simp

text \<open>To the skipper the entries of a map are a vector of keys and values.\<close>

fun flat :: "(goval \<times> goval) list \<Rightarrow> goval list" where
  "flat [] = []"
| "flat ((k, v) # es) = k # v # flat es"

lemma flat_facts: "length (flat es) = 2 * length es" "encElems (flat es) = encPairs es"
  "set (flat es) = fst ` set es \<union> snd ` set es"
  by (induction es rule: flat.induct) auto

lemma sint_small: "n < 2 ^ 48 \<Longrightarrow> sint (of_nat n :: u64) = int n"
  using wrap64_id [of "int n"] by (simp add: wrap64_def)

lemma skips_vector:
  assumes "\<And>x. x \<in> set vs \<Longrightarrow> \<exists>y. deref x = Some y \<and> skips y"
  shows "length vs \<le> max_values \<Longrightarrow> skips (VSlice t vs)"
    and "length es \<le> max_values \<Longrightarrow> vs = flat es \<Longrightarrow> skips (VMap k t es)"
  unfolding skips_def
proof (safe, goal_cases)
  case (1 f s rest)
  let ?n = "varint (of_nat (length vs))"
  from 1 have at': "at s (?n @ encElems vs) rest" by (simp add: body.simps)
  have "skipHeads f (length vs) (advance s (length ?n)) =
      Ret (advance (advance s (length ?n)) (length (encElems vs)))"
    using assms 1 at_append [OF at'] by (intro skipHeads_elems) (auto simp: remaining_def)
  with 1 unpackNumber_at [OF at_append_right [OF at']] sint_small [of "length vs"] show ?case
    by (simp add: skipField.simps body.simps add.assoc max_values_def)
next
  case (2 f s rest)
  let ?n = "varint (of_nat (length es))"
  from 2 have at': "at s (?n @ encElems (flat es)) rest" by (simp add: body.simps flat_facts)
  have "skipHeads f (length (flat es)) (advance s (length ?n)) =
      Ret (advance (advance s (length ?n)) (length (encElems (flat es))))"
    using assms 2 at_append [OF at'] by (intro skipHeads_elems) (auto simp: remaining_def)
  with 2 unpackNumber_at [OF at_append_right [OF at']] sint_small [of "length es"] show ?case
    by (simp add: skipField.simps body.simps add.assoc max_values_def flat_facts)
qed

lemma skipToStructEnd_at:
  assumes "\<And>g v. (g, v) \<in> set fs \<Longrightarrow> codable v \<and> skips v"
    "at s (encFields j fs @ hdr 0 StructEnd) rest" "remaining s < f" "length (buf s) < 2 ^ 48"
  shows "skipToStructEnd f s = Ret (advance s (length (encFields j fs @ hdr 0 StructEnd)))"
  using assms
proof (induction fs arbitrary: s f j)
  case Nil
  then have at: "at s (hdr 0 StructEnd @ []) rest" by simp
  show ?case
  proof (cases f)
    case (Suc g)
    note h = field_header [OF at _ Nil.prems(3) [unfolded Suc]]
    show ?thesis by (simp add: Suc h)
  qed (use Nil in simp)
next
  case (Cons e fs)
  obtain g v where e: "e = (g, v)" by (cases e)
  let ?tag = "word_of_int (field_tag j g)"
  let ?w = "enc ?tag (stag_require g = ''true'') v"
  have v: "codable v" "skips v" using Cons.prems(1) [of g v] by (auto simp: e)
  have at: "at s (?w @ encFields (Suc j) fs @ hdr 0 StructEnd) rest" using Cons.prems(2) by (simp add: e)
  show ?case
  proof (cases "?w = []")
    case True
    have "codable v' \<and> skips v'" if "(g', v') \<in> set fs" for g' v'
      using Cons.prems(1) [of g' v'] that by simp
    from Cons.IH [OF this, where s = s and j = "Suc j" and f = f] show ?thesis using True at Cons.prems by (simp add: e)
  next
    case False
    then have w: "?w = hdr ?tag (wire_type v) @ body v"
      using codable_not_ptr [OF v(1)] by (auto simp: enc.simps split: if_splits)
    obtain f' where f: "f = Suc f'" using Cons.prems(3) by (cases f) auto
    let ?rest = "encFields (Suc j) fs @ hdr 0 StructEnd @ rest"
    have "at s (hdr ?tag (wire_type v) @ body v) ?rest" using at by (simp add: w at_def)
    note h = field_header [OF this wire_type_small Cons.prems(3) [unfolded f]]
    have 1: "skipField f' (wire_type v) (advance s (length (hdr ?tag (wire_type v)))) =
        Ret (advance s (length ?w))"
      using skipsD [OF v(2) h(3,4)] Cons.prems(4) by (simp add: w add.assoc)
    have "index s + length ?w \<le> length (buf s)" using at_le [OF at_append_right [OF at] False] .
    then have "remaining (advance s (length ?w)) < f'"
      using Cons.prems(3) False unfolding remaining_def f by (cases ?w) auto
    then have 2: "skipToStructEnd f' (advance s (length ?w)) =
        Ret (advance (advance s (length ?w)) (length (encFields (Suc j) fs @ hdr 0 StructEnd)))"
      using Cons.prems at_append [OF at] by (intro Cons.IH) auto
    show ?thesis
      using h(2) 1 2 wire_type_not_end [of v] by (simp add: f e add.assoc)
  qed
qed

lemma codable_skips: "codable x \<Longrightarrow> skips x"
proof (induction "size x" arbitrary: x rule: less_induct)
  case less
  have elem: "\<exists>y. deref v = Some y \<and> skips y" if "codable_elem v" "size v < size x" for v
    using less.hyps codable_elem_deref [OF that(1)] size_deref that(2) le_less_trans by blast
  show ?case
  proof (cases x)
    case (VSlice t vs)
    have "size v < size x" if "v \<in> set vs" for v
      using that size_list_estimation' [of v vs "size v" size] by (simp add: VSlice)
    with codable_parts(1) [of t vs] less.prems show ?thesis
      unfolding VSlice by (intro skips_vector(1) elem) (auto simp: VSlice list_all_iff codable.simps)
  next
    case (VMap k t es)
    have "codable_elem v \<and> size v < size x" if "v \<in> set (flat es)" for v
      using that codable_parts(2) [of k t es] less.prems size_pair_mem
      by (fastforce simp: VMap list_all_iff flat_facts intro: codable_elem_codable)
    then have "\<exists>y. deref v = Some y \<and> skips y" if "v \<in> set (flat es)" for v
      using that elem by blast
    from skips_vector(2) [OF this _ refl] less.prems show ?thesis by (simp add: VMap codable.simps)
  next
    case (VStruct fs)
    have v: "codable v \<and> skips v" if "(g, v) \<in> set fs" for g v
      using that codable_parts(3) [of fs] less.prems size_field_mem [OF that]
      by (auto simp: VStruct list_all_iff intro!: less.hyps)
    have "skipToStructEnd f s = Ret (advance s (length (encFields 0 fs @ hdr 0 StructEnd)))"
      if "at s (encFields 0 fs @ hdr 0 StructEnd) rest" "remaining s < f" "length (buf s) < 2 ^ 48"
      for f s rest
      using v that by (intro skipToStructEnd_at) auto
    then show ?thesis unfolding VStruct skips_def by (auto simp: skipField.simps body.simps)
  next
    case (VString v)
    show ?thesis unfolding VString skips_def
    proof (intro allI impI, elim conjE)
      fix f s rest
      assume at: "at s (body (VString v)) rest" and l: "length (buf s) < 2 ^ 48"
      let ?n = "varint (of_nat (length v))"
      from at have at': "at s (?n @ v) rest" by (simp add: body.simps)
      have "length v < 2 ^ 48" using at_le [OF at'] l by simp
      with unpackByte_at [OF at_append [OF at'], of "int (length v)"] l sint_small
        unpackNumber_at [OF at_append_right [OF at']]
      show "skipField f (wire_type (VString v)) s = Ret (advance s (length (body (VString v))))"
        by (simp add: skipField.simps body.simps add.assoc)
    qed
  qed (use less.prems codable_scalar [OF less.prems] in \<open>auto intro: skips_scalar\<close>)
qed


subsection \<open>Unknown fields of a struct\<close>

text \<open>A value is read past and dropped when there is no destination for it; a pointer that
  is a struct field is no destination either.\<close>

lemma unpackVal_ignored:
  assumes "codable x" "at s (body x) rest" "remaining s < f" "length (buf s) < 2 ^ 48"
    "d = None \<or> (\<exists>t p. d = Some (VPtr t p))"
  shows "unpackVal f s (wire_type x) d = Ret (advance s (length (body x)), d, None)"
proof -
  note k = skipsD [OF codable_skips [OF assms(1)] assms(2-4)]
  consider (str) v where "x = VString v" | (sl) t vs where "x = VSlice t vs"
    | (mp) a t es where "x = VMap a t es" | (st) fs where "x = VStruct fs"
    | (sc) ty v where "scalar_val x = Some (ty, v)" "wire_type x = ty" "body x = varint v"
    using codable_scalar [OF assms(1)] by blast
  then show ?thesis
  proof cases
    case str
    then have at': "at s (varint (of_nat (length v)) @ v) rest" using assms by (simp add: body.simps)
    moreover have "length v < 2 ^ 48" using at_le [OF at'] assms(4) by simp
    ultimately show ?thesis
      using unpackByte_at [OF at_append [OF at'], of "int (length v)"] assms(4,5) sint_small
        unpackNumber_at [OF at_append_right [OF at']]
      by (auto simp: str unpackVal.simps body.simps add.assoc)
  next
    case sl
    then have "at s (varint (of_nat (length vs)) @ encElems vs) rest" using assms by (simp add: body.simps)
    from unpackNumber_at [OF at_append_right [OF this]] show ?thesis
      using k assms(5) by (auto simp: sl unpackVal.simps skipField.simps)
  next
    case mp
    then have "at s (varint (of_nat (length es)) @ encPairs es) rest" using assms by (simp add: body.simps)
    from unpackNumber_at [OF at_append_right [OF this]] show ?thesis
      using k assms(5) by (auto simp: mp unpackVal.simps skipField.simps)
  next
    case st
    then show ?thesis using k assms(5) by (auto simp: unpackVal.simps skipField.simps)
  next
    case sc
    then show ?thesis
      using assms(2,5) wire_type_scalar [of x ty v] by (auto simp: unpackVal.simps unpackNumber_at)
  qed
qed

lemma unpackFields_unknown:
  assumes "\<And>i. i < length gs \<Longrightarrow> find_field fs (word_of_int (field_tag (j + i) (fst (gs ! i)))) = None"
    "\<And>g v. (g, v) \<in> set gs \<Longrightarrow> codable v"
    "at s (encFields j gs @ hdr 0 StructEnd) rest" "remaining s < f" "length (buf s) < 2 ^ 48"
  shows "unpackFields f s (VStruct fs) =
    Ret (advance s (length (encFields j gs @ hdr 0 StructEnd)), VStruct fs, None)"
  using assms
proof (induction gs arbitrary: s f j)
  case Nil
  then obtain f' where "f = Suc f'" by (cases f) auto
  with Nil unpack_struct_end [of s rest f' fs] show ?case by simp
next
  case (Cons e gs)
  obtain g v where e: "e = (g, v)" by (cases e)
  let ?tag = "word_of_int (field_tag j g)"
  let ?w = "enc ?tag (stag_require g = ''true'') v"
  let ?rest = "encFields (Suc j) gs @ hdr 0 StructEnd"
  have v: "codable v" using Cons.prems(2) [of g v] by (simp add: e)
  have at: "at s (?w @ ?rest) rest" using Cons.prems(3) by (simp add: e)
  have 0: "find_field fs (word_of_int (field_tag (Suc j + i) (fst (gs ! i)))) = None" if "i < length gs" for i
    using Cons.prems(1) [of "Suc i"] that by simp
  have 1: "codable v'" if "(g', v') \<in> set gs" for g' v'
    using Cons.prems(2) [of g' v'] that by simp
  have IH: "unpackFields f s (VStruct fs) = Ret (advance s (length ?rest), VStruct fs, None)"
    if "at s ?rest rest" "remaining s < f" "length (buf s) < 2 ^ 48" for s f
    using Cons.IH [OF 0 1 that] by simp
  show ?case
  proof (cases "?w = []")
    case True
    with IH at Cons.prems show ?thesis by (simp add: e)
  next
    case False
    then have w: "?w = hdr ?tag (wire_type v) @ body v"
      using codable_not_ptr [OF v] by (auto simp: enc.simps split: if_splits)
    obtain f' where f: "f = Suc f'" using Cons.prems(4) by (cases f) auto
    have "at s (hdr ?tag (wire_type v) @ body v) (?rest @ rest)" using at by (simp add: w at_def)
    note h = field_header [OF this wire_type_small Cons.prems(4) [unfolded f]]
    have "unpackVal f' (advance s (length (hdr ?tag (wire_type v)))) (wire_type v) None =
        Ret (advance s (length ?w), None, None)"
      using unpackVal_ignored [OF v h(3,4), of None] Cons.prems(5) by (simp add: w add.assoc)
    then have u: "unpack f s (VStruct fs) False = Ret (advance s (length ?w), VStruct fs, None)"
      using Cons.prems(1) [of 0] by (simp add: f unpack.simps h(1,2) e)
    have "index s + length ?w \<le> length (buf s)" using at_le [OF at_append_right [OF at] False] .
    then have "remaining (advance s (length ?w)) < f'"
      using Cons.prems(4) False unfolding remaining_def f by (cases ?w) auto
    with IH at_append [OF at] u Cons.prems(5) show ?thesis
      by (simp add: f e add.assoc)
  qed
qed


subsection \<open>Reading with a struct of another version\<close>

lemma decode_struct:
  assumes "unpackFields (length bs) (advance s (length (hdr 0 StructBegin))) (VStruct ds) = Ret (s', VStruct fs', e)"
    and "s = \<lparr>buf = bs, index = 0\<rparr>" "at s (hdr 0 StructBegin @ b) rest"
  shows "SpbDecode bs (VPtr t (Some (VStruct ds))) = Ret (VPtr t (Some (VStruct fs')), e)"
proof -
  have "remaining s < Suc (length bs)" by (simp add: assms(2) remaining_def)
  note h = field_header [OF assms(3) _ this, simplified]
  have "length (buf s) = length bs" by (simp add: assms(2))
  then show ?thesis
    using assms(1) h(1,2)
    by (simp add: SpbDecode_def unpack_all_def unpack.simps unpackVal.simps assms(2) [symmetric])
qed

lemma enc_struct: "enc 0 True (VStruct fs) = hdr 0 StructBegin @ encFields 0 fs @ hdr 0 StructEnd"
  by (simp add: enc.simps body.simps)

lemma encFields_append: "encFields i (fs @ gs) = encFields i fs @ encFields (i + length fs) gs"
  by (induction fs arbitrary: i) auto

lemma pack_enc: "codable v \<Longrightarrow> SpbEncode v = Ret (enc 0 True v, None)"
  using pack_enc_all(1) [of v True "\<lparr>buf = [], index = 0\<rparr>" 0 True]
  by (simp add: SpbEncode_def codable_elem_codable)

lemma remaining_after_header:
  "s = \<lparr>buf = hdr 0 ty @ bs, index = 0\<rparr> \<Longrightarrow> remaining (advance s (length (hdr 0 ty))) < length (hdr 0 ty @ bs)"
  by (simp add: remaining_def)

lemma codable_fields: "codable (VStruct fs) \<Longrightarrow> (g, v) \<in> set fs \<Longrightarrow> codable v \<and> reads v"
  by (drule codable_parts(3)) (force simp: list_all_iff codable_reads)

theorem newer_struct_reads:
  assumes "codable (VStruct fs)" "tags_ok (fs @ extra)" "length (enc 0 True (VStruct fs) @ rest) < 2 ^ 48"
  shows "SpbDecode (enc 0 True (VStruct fs) @ rest) (VPtr t (Some (VStruct (blank fs @ extra)))) =
    Ret (VPtr t (Some (VStruct (fs @ extra))), None)"
proof -
  let ?b = "encFields 0 fs @ hdr 0 StructEnd"
  let ?bs = "hdr 0 StructBegin @ ?b @ rest"
  let ?s = "\<lparr>buf = ?bs, index = 0\<rparr>"
  have at: "at ?s (hdr 0 StructBegin @ ?b) rest" by (simp add: at_def)
  note u = unpackFields_at [OF assms(2) codable_fields [OF assms(1)] at_append [OF at] remaining_after_header [OF refl]]
  show ?thesis
    using decode_struct [OF u refl at] assms(3) by (simp add: enc_struct)
qed

theorem older_struct_reads:
  assumes "codable (VStruct (fs @ gs))" "tags_ok fs"
    "\<And>i. i < length gs \<Longrightarrow> find_field fs (word_of_int (field_tag (length fs + i) (fst (gs ! i)))) = None"
    "length (enc 0 True (VStruct (fs @ gs)) @ rest) < 2 ^ 48"
  shows "SpbDecode (enc 0 True (VStruct (fs @ gs)) @ rest) (VPtr t (Some (VStruct (blank fs)))) =
    Ret (VPtr t (Some (VStruct fs)), None)"
proof -
  let ?tl = "encFields (length fs) gs @ hdr 0 StructEnd"
  let ?bs = "hdr 0 StructBegin @ encFields 0 fs @ ?tl @ rest"
  let ?s = "\<lparr>buf = ?bs, index = 0\<rparr>"
  let ?s1 = "advance ?s (length (hdr 0 StructBegin))"
  let ?s2 = "advance ?s1 (length (encFields 0 fs))"
  have bs: "enc 0 True (VStruct (fs @ gs)) @ rest = ?bs" by (simp add: enc_struct encFields_append)
  have len: "length ?bs < 2 ^ 48" using assms(4) unfolding bs .
  have at: "at ?s (hdr 0 StructBegin @ encFields 0 fs @ ?tl) rest" by (simp add: at_def)
  note v = codable_fields [OF assms(1)]
  have r: "remaining ?s1 < length ?bs" by (rule remaining_after_header) simp
  obtain f' where f: "remaining ?s2 < f'"
    "unpackFields (length ?bs) ?s1 (VStruct (blank fs)) = unpackFields f' ?s2 (VStruct fs)"
    using unpackFields_prefix [of "[]" fs "[]" ?s1 ?tl rest "length ?bs"] assms(2) v at_append [OF at]
      r len by fastforce
  have "unpackFields f' ?s2 (VStruct fs) = Ret (advance ?s2 (length ?tl), VStruct fs, None)"
    using assms(3) v f(1) len at_append [OF at_append [OF at, simplified], simplified]
    by (intro unpackFields_unknown) auto
  from decode_struct [OF trans [OF f(2) this] refl at] show ?thesis unfolding bs .
qed

end
