(* ===== verification/Spb_Typing.thy ===== *)
theory Spb_Typing
  imports Spb_Compat
begin

text \<open>
  Type safety of the decoder.  Whatever bytes arrive, the destination keeps its Go type and
  every slice element, map entry, pointee and field below it has the type its container
  declares: the reflection code never stores a value where it does not belong.
\<close>

function well_typed :: "goval \<Rightarrow> bool" where
  "well_typed x = (case x of
       VSlice t vs \<Rightarrow> list_all (\<lambda>v. type_of v = t \<and> well_typed v) vs
     | VMap k t es \<Rightarrow>
         list_all (\<lambda>e. type_of (fst e) = k \<and> well_typed (fst e) \<and> type_of (snd e) = t \<and> well_typed (snd e)) es
     | VPtr t (Some w) \<Rightarrow> type_of w = t \<and> well_typed w
     | VStruct fs \<Rightarrow> list_all (\<lambda>e. well_typed (snd e)) fs
     | _ \<Rightarrow> True)"
  by pat_completeness auto
termination
proof (relation "measure size", goal_cases)
  case 1
  then show ?case by simp
next
  case (2 x t vs v)
  then show ?case by (auto simp: less_Suc_eq_le size_list_estimation')
next
  case (3 x k t es e)
  then show ?case by (auto dest: size_pair_mem)
next
  case (4 x k t es e)
  then show ?case by (auto dest: size_pair_mem)
next
  case (5 x t p w)
  then show ?case by simp
next
  case (6 x fs e)
  then show ?case by (auto dest: size_field_mem)
qed

declare well_typed.simps [simp del]

lemma well_typed_simps [simp]:
  "well_typed (VSlice t vs) = list_all (\<lambda>v. type_of v = t \<and> well_typed v) vs"
  "well_typed (VMap k t es) = list_all (\<lambda>(a, b). type_of a = k \<and> well_typed a \<and> type_of b = t \<and> well_typed b) es"
  "well_typed (VPtr t None)"
  "well_typed (VPtr t (Some y)) = (type_of y = t \<and> well_typed y)"
  "well_typed (VStruct fs) = list_all (\<lambda>e. well_typed (snd e)) fs"
  "well_typed (VString bs)" "well_typed (VBool b)" "well_typed VOther"
  "well_typed (VInt w)" "well_typed (VInt8 w8)" "well_typed (VInt16 w16)" "well_typed (VInt32 w32)"
  "well_typed (VInt64 w)" "well_typed (VUint w)" "well_typed (VUint8 w8)" "well_typed (VUint16 w16)"
  "well_typed (VUint32 w32)" "well_typed (VUint64 w)" "well_typed (VFloat32 w32)" "well_typed (VFloat64 w)"
  by (subst well_typed.simps; auto simp: list_all_iff)+

lemma type_of_zero: "type_of (zero_of t) = t"
proof (induction t)
  case (TStruct fs)
  then have "type_of (zero_of (snd e)) = snd e" if "e \<in> set fs" for e
    using that by (cases e) auto
  then show ?case by (auto simp: case_prod_beta intro!: map_idI)
qed auto

lemma well_typed_zero: "well_typed (zero_of t)"
proof (induction t)
  case (TStruct fs)
  then have "well_typed (zero_of (snd e))" if "e \<in> set fs" for e
    using that by (cases e) auto
  then show ?case by (simp add: list_all_iff case_prod_beta)
qed (simp_all add: type_of_zero)

lemma newValByType_typed: "well_typed (newValByType t)" "\<exists>u y. newValByType t = VPtr u (Some y)"
  by (cases t; simp add: type_of_zero well_typed_zero del: zero_of.simps)+

lemma type_of_newValByType:
  "type_of (newValByType t) = (case t of TPtr u \<Rightarrow> t | _ \<Rightarrow> TPtr t)"
  by (cases t) auto

text \<open>\<open>y\<close> may replace \<open>x\<close>: same type, well typed if it was, and no pointer became nil.\<close>

definition fits :: "goval \<Rightarrow> goval \<Rightarrow> bool" where
  "fits x y \<longleftrightarrow> type_of y = type_of x \<and> (well_typed x \<longrightarrow> well_typed y) \<and>
     (\<forall>t w. x = VPtr t (Some w) \<longrightarrow> (\<exists>w'. y = VPtr t (Some w')))"

lemma fits_refl [simp]: "fits x x"
  by (simp add: fits_def)

lemma fits_trans: "fits x y \<Longrightarrow> fits y z \<Longrightarrow> fits x z"
  by (auto simp: fits_def)

lemma fits_set: "fits y (setUint y v)" "fits y (setInt y v)" "fits y (setFloat y v)"
  by (cases y; simp add: fits_def)+

lemma elem_of_typed:
  assumes "fits (newValByType t) z"
  shows "type_of (elem_of t z) = t \<and> well_typed (elem_of t z)"
  using assms newValByType_typed(1) [of t] by (cases t) (auto simp: fits_def elem_of_def)

definition fits_opt :: "goval option \<Rightarrow> goval option \<Rightarrow> bool" where
  "fits_opt x y \<longleftrightarrow> rel_option fits x y"

lemma fits_opt_simps [simp]:
  "fits_opt x x" "fits_opt (Some a) y \<longleftrightarrow> (\<exists>b. y = Some b \<and> fits a b)"
  "fits_opt None y \<longleftrightarrow> y = None"
  by (auto simp: fits_opt_def option_rel_Some1 intro: option.rel_refl)

lemma fits_opt_map:
  "fits_opt x (map_option (\<lambda>y. setUint y v) x)" "fits_opt x (map_option (\<lambda>y. setInt y v) x)"
  "fits_opt x (map_option (\<lambda>y. setFloat y v) x)"
  by (cases x; simp add: fits_set)+

subsection \<open>The loops\<close>

lemma unpackElems_typed:
  assumes U: "\<And>s x b s' x' e. unpack f s x b = Ret (s', x', e) \<Longrightarrow> fits x x'"
  shows "unpackElems f n s t = Ret (s', vs, e) \<Longrightarrow> list_all (\<lambda>v. type_of v = t \<and> well_typed v) vs"
proof (induction n arbitrary: s vs)
  case (Suc n)
  then show ?case
    by (auto simp: go_simps split: if_splits dest!: U elem_of_typed)
qed simp

lemma unpackPairs_typed:
  assumes U: "\<And>s x b s' x' e. unpack f s x b = Ret (s', x', e) \<Longrightarrow> fits x x'"
  shows "unpackPairs f n s k t = Ret (s', es, e) \<Longrightarrow>
    list_all (\<lambda>(a, b). type_of a = k \<and> well_typed a \<and> type_of b = t \<and> well_typed b) es"
proof (induction n arbitrary: s es)
  case (Suc n)
  then show ?case
    by (auto simp: go_simps fits_def type_of_zero well_typed_zero split: if_splits
        dest!: U elem_of_typed)
qed simp

lemma set_update: "set (AList.update a b es) \<subseteq> insert (a, b) (set es)"
  by (induction es) auto

lemma set_foldl_update:
  "set (foldl (\<lambda>m (a, b). AList.update a b m) acc es) \<subseteq> set acc \<union> set es"
proof (induction es arbitrary: acc)
  case (Cons e es)
  then show ?case using set_update by (cases e) fastforce
qed simp

lemma unpackVal_typed:
  assumes U: "\<And>s x b s' x' e. unpack f s x b = Ret (s', x', e) \<Longrightarrow> fits x x'"
    and F: "\<And>s x s' x' e. unpackFields f s x = Ret (s', x', e) \<Longrightarrow> fits x x'"
    and r: "unpackVal f s ty x = Ret (s', x', e)"
  shows "fits_opt x x'"
proof -
  have m: "fits (VMap k t es) (VMap k t (foldl (\<lambda>m (a, b). AList.update a b m) [] kvs))"
    if "unpackPairs f n s1 k t = Ret (s2, kvs, er)" for k t es kvs n s1 s2 er
  proof -
    have "list_all (\<lambda>(a, b). type_of a = k \<and> well_typed a \<and> type_of b = t \<and> well_typed b) kvs"
      by (rule unpackPairs_typed [OF _ that]) (rule U)
    with set_foldl_update [of "[]" kvs] show ?thesis by (auto simp: fits_def list_all_iff)
  qed
  have v: "fits (VSlice t vs) (VSlice t ws)"
    if "unpackElems f n s1 t = Ret (s2, ws, er)" for t vs ws n s1 s2 er
  proof -
    have "list_all (\<lambda>v. type_of v = t \<and> well_typed v) ws"
      by (rule unpackElems_typed [OF _ that]) (rule U)
    then show ?thesis by (simp add: fits_def)
  qed
  have "fits (VSlice t vs) (VSlice t [])" "fits (VBool b) (VBool c)" "fits (VString p) (VString q)" for t vs b c p q
    by (simp_all add: fits_def)
  with r show ?thesis
    by (auto simp: unpackVal.simps go_simps fits_opt_map dest!: m v F
        split: if_splits option.splits goval.splits prod.splits elim!: CanSetBool.elims)
qed

lemma fits_wrap:
  assumes "deref x = Some y" "fits y y'"
  shows "fits x (case x of VPtr t p \<Rightarrow> VPtr t (Some y') | _ \<Rightarrow> y')"
  using assms by (cases x) (auto simp: fits_def)

lemma fits_field:
  assumes "j < length fs" "fits (snd (fs ! j)) v"
  shows "fits (VStruct fs) (VStruct (fs[j := (fst (fs ! j), v)]))"
proof -
  have "map (\<lambda>(g, v). (g, type_of v)) (fs[j := (fst (fs ! j), v)]) = map (\<lambda>(g, v). (g, type_of v)) fs"
    using assms by (auto simp: map_update fits_def case_prod_beta list_update_same_conv)
  moreover have "list_all (\<lambda>e. well_typed (snd e)) (fs[j := (fst (fs ! j), v)])"
    if "list_all (\<lambda>e. well_typed (snd e)) fs"
    using that assms set_update_subset_insert [of fs j "(fst (fs ! j), v)"]
    by (fastforce simp: list_all_iff fits_def)
  ultimately show ?thesis by (simp add: fits_def)
qed

lemma find_tagged_less: "find_tagged i fs tag = Some j \<Longrightarrow> j < i + length fs"
  by (induction i fs tag rule: find_tagged.induct) (auto split: if_splits)

lemma find_field_less: "find_field fs tag = Some j \<Longrightarrow> j < length fs"
  by (auto simp: find_field_def split: option.splits if_splits dest: find_tagged_less)

lemma unpack_step_typed:
  assumes V: "\<And>s ty x s' x' e. unpackVal f s ty x = Ret (s', x', e) \<Longrightarrow> fits_opt x x'"
    and r: "unpack (Suc f) s x b = Ret (s', x', e)"
  shows "fits x x'"
proof -
  obtain s1 tag ty err where h: "unpackHeader s = (s1, tag, ty, err)"
    by (cases "unpackHeader s") auto
  show ?thesis
  proof (cases "index s \<ge> length (buf s) \<or> err \<noteq> None")
    case True
    with r h show ?thesis by (auto simp: unpack.simps Let_def split: if_splits)
  next
    case False
    with r h obtain y where y: "deref x = Some y"
      by (cases "deref x") (auto simp: unpack.simps)
    show ?thesis
    proof (cases "b \<or> (\<forall>fs j. y = VStruct fs \<longrightarrow> find_field fs tag \<noteq> Some j)")
      case True
      have "x' = x \<or> (\<exists>r. unpackVal f s1 ty (Some y) = Ret (s', r, e) \<and>
          x' = (\<lambda>y'. case x of VPtr t p \<Rightarrow> VPtr t (Some y') | _ \<Rightarrow> y') (case r of Some y' \<Rightarrow> y' | None \<Rightarrow> y))"
        using r h y True False
        by (cases y) (auto simp: unpack.simps Let_def go_simps split: if_splits option.splits)
      then show ?thesis using y by (auto dest!: V intro!: fits_wrap)
    next
      case False': False
      then obtain fs j where j: "y = VStruct fs" "find_field fs tag = Some j" "\<not> b" by blast
      obtain r where v: "unpackVal f s1 ty (Some (snd (fs ! j))) = Ret (s', r, e)"
        and x': "x' = (\<lambda>y'. case x of VPtr t p \<Rightarrow> VPtr t (Some y') | _ \<Rightarrow> y')
          (case r of Some v \<Rightarrow> VStruct (fs[j := (fst (fs ! j), v)]) | None \<Rightarrow> y)"
        using r h y j False by (auto simp: unpack.simps Let_def go_simps)
      from V [OF v] obtain w where w: "r = Some w" "fits (snd (fs ! j)) w" by auto
      show ?thesis
        unfolding x' using y w(1) fits_field [OF find_field_less [OF j(2)] w(2)]
        by (simp add: fits_wrap j(1))
    qed
  qed
qed

lemma unpack_fuel_typed:
  "(\<forall>s x b s' x' e. unpack f s x b = Ret (s', x', e) \<longrightarrow> fits x x') \<and>
   (\<forall>s x s' x' e. unpackFields f s x = Ret (s', x', e) \<longrightarrow> fits x x')"
proof (induction f)
  case (Suc f)
  have V: "fits_opt x x'" if "unpackVal f s ty x = Ret (s', x', e)" for s ty x s' x' e
    by (rule unpackVal_typed [OF _ _ that]) (use Suc in blast)+
  have U: "fits x x'" if "unpack (Suc f) s x b = Ret (s', x', e)" for s x b s' x' e
    by (rule unpack_step_typed [OF _ that]) (rule V)
  have "fits x x'" if r: "unpackFields (Suc f) s x = Ret (s', x', e)" for s x s' x' e
  proof -
    from r obtain s1 y er where u: "unpack (Suc f) s x False = Ret (s1, y, er)"
      by (auto simp: go_simps)
    with r have "x' = y \<or> unpackFields f s1 y = Ret (s', x', e)"
      by (auto split: if_splits)
    with Suc U [OF u] show ?thesis by (blast intro: fits_trans)
  qed
  with U show ?case by blast
qed (simp add: unpack.simps)

end
