(* ===== verification/Spb_Props.thy ===== *)
theory Spb_Props
  imports Spb_Typing
begin

text \<open>
  The properties of the codec, and the sample messages on which their hypotheses are
  evaluated.
\<close>

lemma codable_simps:
  "codable (VSlice t vs) = (length vs \<le> max_values \<and> list_all (\<lambda>v. type_of v = t \<and> codable_elem v) vs)"
  "codable (VMap k t es) = (length es \<le> max_values \<and> distinct (map fst es) \<and>
     list_all (\<lambda>e. type_of (fst e) = k \<and> codable (fst e) \<and> type_of (snd e) = t \<and> codable_elem (snd e)) es)"
  "codable (VStruct fs) = (tags_ok fs \<and> list_all (\<lambda>e. codable (snd e)) fs)"
  "codable (VString bs)" "codable (VBool b)" "codable (VInt w)" "codable (VInt8 w8)"
  "codable (VInt16 w16)" "codable (VInt32 w32)" "codable (VInt64 w)" "codable (VUint w)"
  "codable (VUint8 w8)" "codable (VUint16 w16)" "codable (VUint32 w32)" "codable (VUint64 w)"
  "codable_elem (VPtr t (Some y)) = (type_of y = t \<and> codable y)"
  "codable_elem (VSlice t vs) = codable (VSlice t vs)" "codable_elem (VMap k t es) = codable (VMap k t es)"
  "codable_elem (VStruct fs) = codable (VStruct fs)" "codable_elem (VString bs)"
  "codable_elem (VUint8 w8)" "codable_elem (VInt w)"
  by (auto simp: codable.simps codable_elem.simps)

definition no_tag :: stag where
  "no_tag = \<lparr>stag_tag = '''', stag_require = ''''\<rparr>"

definition tag7 :: stag where
  "tag7 = \<lparr>stag_tag = ''7'', stag_require = ''true''\<rparr>"

text \<open>\<open>struct \<lbrace>A int8; B []*string `tag:"7" require:"true"`\<rbrace>\<close> and a third field that a newer
  version adds.\<close>

definition sample_fields :: "(stag \<times> goval) list" where
  "sample_fields =
     [(no_tag, VInt8 (- 5)),
      (tag7, VSlice (TPtr TString) [VPtr TString (Some (VString [1, 2])), VPtr TString (Some (VString []))])]"

definition sample_new :: "(stag \<times> goval) list" where
  "sample_new = [(no_tag, VMap TString TInt [(VString [65], VInt 9)])]"

lemmas sample_simps = sample_fields_def sample_new_def no_tag_def tag7_def codable_simps tags_ok_def
  find_field_def field_tag_def atoi_def digit_val_def max_values_def

lemma sample_codable: "codable (VStruct sample_fields)"
  by (simp add: sample_simps)

lemma sample_new_codable: "codable (VStruct (sample_fields @ sample_new))"
  by (simp add: sample_simps)


subsection \<open>Round trips\<close>

lemma decode_enc:
  assumes "codable v" "length (enc 0 True v @ rest) < 2 ^ 48"
  shows "SpbDecode (enc 0 True v @ rest) (VPtr (type_of v) (Some (zero_of (type_of v)))) =
    Ret (VPtr (type_of v) (Some v), None)"
proof -
  note d = codable_not_ptr [OF assms(1)]
  let ?s = "\<lparr>buf = enc 0 True v @ rest, index = 0\<rparr>"
  have "deref (zero_of (type_of v)) = Some (zero_of (type_of v))"
    "(case zero_of (type_of v) of VPtr t p \<Rightarrow> VPtr t (Some v) | _ \<Rightarrow> v) = v"
    using assms(1) by (cases v; simp add: codable.simps)+
  moreover have "at ?s (hdr 0 (wire_type v) @ body v) rest"
    by (simp add: at_def enc_required [OF d])
  ultimately show ?thesis
    using unpack_first [OF codable_reads [OF assms(1)], of ?s 0 rest "Suc (length (enc 0 True v @ rest))"]
      assms(2)
    by (simp add: SpbDecode_def unpack_all_def remaining_def)
qed

text \<open>C3: a codable value (nested structs, slices, maps, strings, booleans and integers of every
  width) survives the trip: \<open>SpbEncode\<close> succeeds, and \<open>SpbDecode\<close> of its output into a fresh
  variable of the same type gives the value back, whatever bytes follow the message.\<close>

theorem spb_roundtrip:
  assumes "codable v"
  shows "\<exists>bs. SpbEncode v = Ret (bs, None) \<and>
    (\<forall>rest. length (bs @ rest) < 2 ^ 48 \<longrightarrow>
       SpbDecode (bs @ rest) (VPtr (type_of v) (Some (zero_of (type_of v)))) =
         Ret (VPtr (type_of v) (Some v), None))"
  using pack_enc [OF assms] decode_enc [OF assms] by blast

theorem spb_roundtrip_witness:
  "\<exists>bs. SpbEncode (VStruct sample_fields) = Ret (bs, None) \<and>
    (\<forall>rest. length (bs @ rest) < 2 ^ 48 \<longrightarrow>
       SpbDecode (bs @ rest) (VPtr (type_of (VStruct sample_fields)) (Some (zero_of (type_of (VStruct sample_fields))))) =
         Ret (VPtr (type_of (VStruct sample_fields)) (Some (VStruct sample_fields)), None))"
  by (rule spb_roundtrip [OF sample_codable])

text \<open>\<open>packNumber\<close> appends at most ten bytes, and \<open>unpackNumber\<close>, standing where they
  start, reads the number back and stops right behind them.\<close>

theorem spb_number_roundtrip:
  assumes "index s = length (buf s)"
  shows "let s' = packNumber s x; n = length (buf s') - length (buf s) in
    take (length (buf s)) (buf s') = buf s \<and> 1 \<le> n \<and> n \<le> 10 \<and>
    unpackNumber (s'\<lparr>buf := buf s' @ rest\<rparr>) =
      (s'\<lparr>buf := buf s' @ rest, index := index s + n\<rparr>, x, None)"
proof -
  have "length (varint x) \<le> 10" by (rule length_varint_10)
  moreover have "1 \<le> length (varint x)" by (cases "varint x") auto
  moreover have "at (s\<lparr>buf := buf s @ varint x @ rest\<rparr>) (varint x) rest"
    using assms by (simp add: at_def)
  ultimately show ?thesis by (simp add: Let_def packNumber_varint unpackNumber_at)
qed

theorem spb_number_roundtrip_witness:
  "let s = \<lparr>buf = [7], index = 1\<rparr>; s' = packNumber s 300; n = length (buf s') - length (buf s) in
    take (length (buf s)) (buf s') = buf s \<and> 1 \<le> n \<and> n \<le> 10 \<and>
    unpackNumber (s'\<lparr>buf := buf s' @ [1, 2]\<rparr>) =
      (s'\<lparr>buf := buf s' @ [1, 2], index := index s + n\<rparr>, 300, None)"
  using spb_number_roundtrip [of "\<lparr>buf = [7], index = 1\<rparr>" 300 "[1, 2]"] by (simp add: Let_def)

subsection \<open>Arbitrary input\<close>

text \<open>C10: decoding comes to an end on every input and for every destination: the decoder
  never loops, however the bytes are crafted.\<close>

theorem spb_decode_terminates: "SpbDecode data x \<noteq> Diverge"
proof -
  have "unpack_all \<lparr>buf = data, index = 0\<rparr> y True \<noteq> Diverge" for y
    unfolding unpack_all_def by (rule unpack_total) (simp add: remaining_def)
  then show ?thesis
    by (auto simp: SpbDecode_def go_bind_Diverge_iff split: goval.splits option.splits)
qed

text \<open>C26: on every input the decoder leaves the buffer alone and stays inside it, and a call
  that succeeds has consumed at least one byte.\<close>

theorem spb_decode_safe:
  assumes "unpack f s x first = Ret (s', x', e)" "index s \<le> length (buf s)"
  shows "buf s' = buf s \<and> index s \<le> index s' \<and> index s' \<le> length (buf s) \<and>
    (e = None \<longrightarrow> index s < index s')"
proof -
  have "e = None \<longrightarrow> index s < index s'"
    using assms(1) unpack_moves(2) [of f s x first s' x'] by (auto simp: consumes_def)
  with unpack_moves(1) [OF assms(1)] assms(2) show ?thesis by (simp add: moves_def)
qed

theorem spb_decode_safe_witness:
  "\<exists>s' x' e. unpack (Suc 0) \<lparr>buf = [0x03, 0x80], index = 0\<rparr> (VInt 0) True = Ret (s', x', e) \<and> buf s' = [0x03, 0x80] \<and>
     index s' \<le> 2"
proof -
  have r: "unpack (Suc 0) \<lparr>buf = [0x03, 0x80], index = 0\<rparr> (VInt 0) True =
      Ret (\<lparr>buf = [0x03, 0x80], index = 1\<rparr>, VInt 0, Some ErrUnexpectedEOF)"
    by (simp add: unpack.simps unpackHeader_def unpackVal.simps unpackNumber_def unpackNumberLoop.simps)
  with spb_decode_safe [OF r] show ?thesis by simp
qed

text \<open>C25: type safety.  Whatever bytes arrive, \<open>SpbDecode\<close> leaves in the caller's variable a
  value of the declared type in which every slice element, map key, map value, pointee and
  field has the type its container declares.\<close>

theorem spb_decode_typed:
  assumes "SpbDecode data x = Ret (x', e)" "well_typed x"
  shows "type_of x' = type_of x \<and> well_typed x'"
proof -
  have u: "fits y y'" if "unpack_all s y b = Ret (s', y', e')" for s y b s' y' e'
    using that unpack_fuel_typed unfolding unpack_all_def by blast
  then show ?thesis
    using assms by (auto simp: SpbDecode_def go_simps fits_def split: goval.splits option.splits dest!: u)
qed

theorem spb_decode_typed_witness:
  "let x = VPtr TUint8 (Some (VUint8 3)) in
   \<exists>x' e. SpbDecode [0x00, 0xff, 0x03] x = Ret (x', e) \<and> type_of x' = type_of x \<and> well_typed x'"
proof -
  let ?x = "VPtr TUint8 (Some (VUint8 3))"
  have "SpbDecode [0x00, 0xff, 0x03] ?x = Ret (VPtr TUint8 (Some (VUint8 0xff)), None)"
    by (simp add: SpbDecode_def unpack_all_def unpack.simps unpackHeader_def unpackVal.simps
        unpackNumber_def unpackNumberLoop.simps)
  with spb_decode_typed [OF this] show ?thesis by (simp add: Let_def)
qed


subsection \<open>Messages of other versions\<close>

text \<open>C14: an old message in a newer program.  Decoding a message of a struct into a struct that
  has further fields behind the old ones fills in the old fields and leaves the new ones as
  they were, as long as the tags of the new struct are unambiguous.\<close>

theorem spb_reads_old_message:
  assumes "codable (VStruct fs)" "tags_ok (fs @ extra)"
  shows "\<exists>bs. SpbEncode (VStruct fs) = Ret (bs, None) \<and>
    (length bs < 2 ^ 48 \<longrightarrow>
       SpbDecode bs (VPtr t (Some (VStruct (blank fs @ extra)))) = Ret (VPtr t (Some (VStruct (fs @ extra))), None))"
  using pack_enc [OF assms(1)] newer_struct_reads [OF assms, of "[]"] by simp

theorem spb_reads_old_message_witness:
  "\<exists>bs. SpbEncode (VStruct sample_fields) = Ret (bs, None) \<and>
    (length bs < 2 ^ 48 \<longrightarrow>
       SpbDecode bs (VPtr TOther (Some (VStruct (blank sample_fields @ sample_new)))) =
         Ret (VPtr TOther (Some (VStruct (sample_fields @ sample_new))), None))"
  by (rule spb_reads_old_message [OF sample_codable]) (simp add: sample_simps)

text \<open>C13: a new message in an older program.  Fields the older struct does not have are skipped,
  whatever they contain, and every field it has is filled in.\<close>

theorem spb_reads_new_message:
  assumes "codable (VStruct (fs @ gs))" "tags_ok fs"
    "list_all (\<lambda>i. find_field fs (word_of_int (field_tag (length fs + i) (fst (gs ! i)))) = None) [0..<length gs]"
  shows "\<exists>bs. SpbEncode (VStruct (fs @ gs)) = Ret (bs, None) \<and>
    (length bs < 2 ^ 48 \<longrightarrow>
       SpbDecode bs (VPtr t (Some (VStruct (blank fs)))) = Ret (VPtr t (Some (VStruct fs)), None))"
  using pack_enc [OF assms(1)] older_struct_reads [OF assms(1,2), of "[]"] assms(3)
  by (simp add: list_all_iff)

theorem spb_reads_new_message_witness:
  "\<exists>bs. SpbEncode (VStruct (sample_fields @ sample_new)) = Ret (bs, None) \<and>
    (length bs < 2 ^ 48 \<longrightarrow>
       SpbDecode bs (VPtr TOther (Some (VStruct (blank sample_fields)))) =
         Ret (VPtr TOther (Some (VStruct sample_fields)), None))"
  by (rule spb_reads_new_message [OF sample_new_codable]) (simp_all add: sample_simps)

subsection \<open>What does not survive\<close>

text \<open>a float field is lost.  \<open>pack\<close> writes a \<open>float64\<close> with the wire type of an integer,
  and \<open>unpack\<close> stores an integer in no float, so that the destination keeps what it had
  before, without an error.\<close>

theorem spb_float_lost:
  "\<exists>bs. SpbEncode (VFloat64 w) = Ret (bs, None) \<and>
     SpbDecode bs (VPtr TFloat64 (Some (VFloat64 old))) = Ret (VPtr TFloat64 (Some (VFloat64 old)), None)"
proof -
  let ?bs = "hdr 0 Integer_Positive @ varint w"
  let ?s = "\<lparr>buf = ?bs, index = 0\<rparr>"
  have at: "at ?s ?bs []" by (simp add: at_def)
  note h = field_header [OF at _, of "length ?bs", simplified]
  have "remaining ?s < Suc (length ?bs)" by (simp add: remaining_def)
  then have "SpbDecode ?bs (VPtr TFloat64 (Some (VFloat64 old))) = Ret (VPtr TFloat64 (Some (VFloat64 old)), None)"
    using h unpackNumber_at [OF at_append [OF at]]
    by (simp add: SpbDecode_def unpack_all_def unpack.simps unpackVal.simps)
  moreover have "SpbEncode (VFloat64 w) = Ret (?bs, None)"
    by (simp add: SpbEncode_def pack.simps pack_append)
  ultimately show ?thesis by blast
qed

text \<open>a pointer field is lost.  The encoder writes what the pointer points to, but the
  decoder finds the field to be of kind \<open>Ptr\<close>, skips the value and leaves the pointer as it
  was, without an error.\<close>

theorem spb_pointer_field_lost:
  assumes "codable w" "type_of w = t" "stag_tag g = ''''"
    "length (enc 0 True (VStruct [(g, VPtr t (Some w))])) < 2 ^ 48"
  shows "\<exists>bs. SpbEncode (VStruct [(g, VPtr t (Some w))]) = Ret (bs, None) \<and>
     SpbDecode bs (VPtr u (Some (VStruct [(g, VPtr t old)]))) = Ret (VPtr u (Some (VStruct [(g, VPtr t old)])), None)"
proof -
  let ?w = "enc 0 (stag_require g = ''true'') (VPtr t (Some w))"
  let ?tl = "?w @ hdr 0 StructEnd"
  let ?bs = "hdr 0 StructBegin @ ?tl"
  let ?s = "\<lparr>buf = ?bs, index = 0\<rparr>"
  let ?ds = "[(g, VPtr t old)]"
  have bs: "enc 0 True (VStruct [(g, VPtr t (Some w))]) = ?bs"
    using assms(3) by (simp add: enc_struct field_tag_def)
  have len: "length ?bs < 2 ^ 48" using assms(4) unfolding bs .
  have "packStructLoop s 0 [(g, VPtr t (Some w))] = Ret (s\<lparr>buf := buf s @ ?w\<rparr>, None)" for s
    using pack_enc_all(4) [of "[(g, VPtr t (Some w))]" s 0] assms(1,2,3)
    by (simp add: codable_simps field_tag_def del: packStructLoop.simps)
  then have e: "SpbEncode (VStruct [(g, VPtr t (Some w))]) = Ret (?bs, None)"
    by (simp add: SpbEncode_def pack.simps [of _ _ "VStruct _"] pack_append del: packStructLoop.simps)
  have at: "at ?s ?bs []" by (simp add: at_def)
  have r: "remaining (advance ?s (length (hdr 0 StructBegin))) < length ?bs"
    by (rule remaining_after_header) simp
  have "unpackFields f s (VStruct ?ds) = Ret (advance s (length ?tl), VStruct ?ds, None)"
    if a: "at s ?tl []" "remaining s < f" "length (buf s) < 2 ^ 48" for s f
  proof (cases "?w = []")
    case True
    moreover obtain f' where "f = Suc f'" using a(2) by (cases f) auto
    ultimately show ?thesis using unpack_struct_end [of s "[]" f' ?ds] a by simp
  next
    case False
    then have w: "?w = hdr 0 (wire_type w) @ body w" by (auto simp: enc.simps split: if_splits)
    obtain f' where f: "f = Suc f'" using a(2) by (cases f) auto
    have "at s (hdr 0 (wire_type w) @ body w) (hdr 0 StructEnd)" using a(1) by (simp add: at_def w)
    note h = field_header [OF this wire_type_small a(2) [unfolded f]]
    have u: "unpack f s (VStruct ?ds) False = Ret (advance s (length ?w), VStruct ?ds, None)"
      using unpackVal_ignored [OF assms(1) h(3,4), of "Some (VPtr t old)"] a(3) assms(3)
      by (simp add: f unpack.simps h(1,2) find_field_def w add.assoc)
    have "index s + length ?w \<le> length (buf s)" using at_le [OF at_append_right [OF a(1)] False] .
    then have "remaining (advance s (length ?w)) < f'"
      using a(2) False unfolding remaining_def f by (cases ?w) auto
    moreover from this obtain n where "f' = Suc n" by (cases f') auto
    ultimately show ?thesis
      using u unpack_struct_end [OF at_append [OF a(1)], of n ?ds] by (simp add: f add.assoc)
  qed
  from decode_struct [OF this [OF at_append [OF at] r] refl at] len e show ?thesis by auto
qed

theorem spb_pointer_field_lost_witness:
  "\<exists>bs. SpbEncode (VStruct [(no_tag, VPtr TInt8 (Some (VInt8 5)))]) = Ret (bs, None) \<and>
     SpbDecode bs (VPtr TOther (Some (VStruct [(no_tag, VPtr TInt8 None)]))) =
       Ret (VPtr TOther (Some (VStruct [(no_tag, VPtr TInt8 None)])), None)"
  by (rule spb_pointer_field_lost)
    (simp_all add: codable_simps no_tag_def enc_struct field_tag_def enc.simps body.simps signed_val_def
      hdr_def varint.simps)

text \<open>a crafted element count panics.  A vector header announcing more elements than the
  address space can hold makes \<open>SpbDecode\<close> panic in \<open>make\<close> instead of returning an error.\<close>

theorem spb_crafted_count_panics:
  assumes "max_values < unat ln"
  shows "SpbDecode (hdr 0 Wire_Vector @ varint ln @ rest) (VPtr (TSlice t) (Some (VSlice t vs))) = Panic"
proof -
  let ?bs = "hdr 0 Wire_Vector @ varint ln @ rest"
  let ?s = "\<lparr>buf = ?bs, index = 0\<rparr>"
  have at: "at ?s (hdr 0 Wire_Vector @ varint ln) rest" by (simp add: at_def)
  have "remaining ?s < Suc (length ?bs)" by (simp add: remaining_def)
  note h = field_header [OF at _ this, simplified]
  from unpackNumber_at [OF h(3)] h(1,2) assms show ?thesis
    by (simp add: SpbDecode_def unpack_all_def unpack.simps unpackVal.simps)
qed

theorem spb_crafted_count_panics_witness:
  "SpbDecode (hdr 0 Wire_Vector @ varint (2 ^ 60) @ []) (VPtr (TSlice TInt) (Some (VSlice TInt []))) = Panic"
  by (rule spb_crafted_count_panics) (simp add: max_values_def)

end
