(* ===== verification/Lru.thy ===== *)
theory Lru
  imports Prelude
begin

text \<open>
  The LRU cache of \<^verbatim>\<open>src/stkvbuffer/lru.go\<close>.

  The elements of the Go list \<open>evictList\<close> are pointers shared with the map \<open>items\<close>; an
  element is a number here, and the list holds each element with its \<open>entry\<close> (front first).
  The callback \<open>onEvict\<close> is an argument of the operations that can call it: it
  takes the state of its closure and returns it updated, and it may panic.  A nil callback is
  the one that returns the state as it is.
\<close>

record ('k, 'v) lru =
  lsize :: int
  evictList :: "(nat \<times> 'k \<times> 'v) list"
  items :: "'k \<rightharpoonup> nat"
  fresh :: nat

type_synonym ('k, 'v, 's) evictCallback = "'k \<Rightarrow> 'v \<Rightarrow> 's \<Rightarrow> 's go"

definition NewLRU :: "int \<Rightarrow> ('k, 'v) lru option" where
  "NewLRU sz =
     (if sz \<le> 0 then None
      else Some \<lparr>lsize = sz, evictList = [], items = (\<lambda>_. None), fresh = 0\<rparr>)"

text \<open>What the code uses of \<open>container/list\<close>: the value of an element, \<open>Remove\<close>, \<open>MoveToFront\<close>.\<close>

definition elem_value :: "nat \<Rightarrow> ('k, 'v) lru \<Rightarrow> ('k \<times> 'v) option" where
  "elem_value e c = map_of (evictList c) e"

definition listRemove :: "nat \<Rightarrow> (nat \<times> 'a) list \<Rightarrow> (nat \<times> 'a) list" where
  "listRemove e l = filter (\<lambda>x. fst x \<noteq> e) l"

definition moveToFront :: "nat \<Rightarrow> (nat \<times> 'a) list \<Rightarrow> (nat \<times> 'a) list" where
  "moveToFront e l = filter (\<lambda>x. fst x = e) l @ listRemove e l"

definition removeElement ::
  "('k, 'v, 's) evictCallback \<Rightarrow> nat \<times> 'k \<times> 'v \<Rightarrow> ('k, 'v) lru \<Rightarrow> 's \<Rightarrow> (('k, 'v) lru \<times> 's) go" where
  "removeElement onEvict x c st =
     (case x of (e, k, v) \<Rightarrow>
        let c' = c\<lparr>evictList := listRemove e (evictList c), items := (items c)(k := None)\<rparr>
        in go_map (\<lambda>st'. (c', st')) (onEvict k v st))"

definition removeOldest ::
  "('k, 'v, 's) evictCallback \<Rightarrow> ('k, 'v) lru \<Rightarrow> 's \<Rightarrow> (('k, 'v) lru \<times> 's) go" where
  "removeOldest onEvict c st =
     (if evictList c = [] then Ret (c, st) else removeElement onEvict (last (evictList c)) c st)"

definition Add ::
  "('k, 'v, 's) evictCallback \<Rightarrow> 'k \<Rightarrow> 'v \<Rightarrow> ('k, 'v) lru \<Rightarrow> 's \<Rightarrow> (('k, 'v) lru \<times> 's \<times> bool) go" where
  "Add onEvict key value c st =
     (case items c key of
        Some e \<Rightarrow>
          Ret (c\<lparr>evictList := map (\<lambda>(i, k, v). if i = e then (i, k, value) else (i, k, v))
                                (moveToFront e (evictList c))\<rparr>, st, False)
      | None \<Rightarrow>
          let e = fresh c;
              c' = c\<lparr>evictList := (e, key, value) # evictList c, items := (items c)(key \<mapsto> e),
                     fresh := Suc e\<rparr>;
              evict = (int (length (evictList c')) > lsize c')
          in if evict then go_map (\<lambda>(c'', st'). (c'', st', evict)) (removeOldest onEvict c' st)
             else Ret (c', st, evict))"

text \<open>A map entry always refers to an element of the list (\<open>lru_inv\<close> below); without one there
  would be a nil element to dereference.\<close>

definition Get :: "'k \<Rightarrow> ('k, 'v) lru \<Rightarrow> (('k, 'v) lru \<times> 'v option) go" where
  "Get key c =
     (case items c key of
        Some e \<Rightarrow>
          (case elem_value e c of
             None \<Rightarrow> Panic
           | Some (k, v) \<Rightarrow> Ret (c\<lparr>evictList := moveToFront e (evictList c)\<rparr>, Some v))
      | None \<Rightarrow> Ret (c, None))"

definition Contains :: "'k \<Rightarrow> ('k, 'v) lru \<Rightarrow> bool" where
  "Contains key c = (items c key \<noteq> None)"

definition Peek :: "'k \<Rightarrow> ('k, 'v) lru \<Rightarrow> 'v option go" where
  "Peek key c =
     (case items c key of
        Some e \<Rightarrow> (case elem_value e c of None \<Rightarrow> Panic | Some (k, v) \<Rightarrow> Ret (Some v))
      | None \<Rightarrow> Ret None)"

definition Remove ::
  "('k, 'v, 's) evictCallback \<Rightarrow> 'k \<Rightarrow> ('k, 'v) lru \<Rightarrow> 's \<Rightarrow> (('k, 'v) lru \<times> 's \<times> bool) go" where
  "Remove onEvict key c st =
     (case items c key of
        Some e \<Rightarrow>
          (case elem_value e c of
             None \<Rightarrow> Panic
           | Some kv \<Rightarrow> go_map (\<lambda>(c', st'). (c', st', True)) (removeElement onEvict (e, kv) c st))
      | None \<Rightarrow> Ret (c, st, False))"

definition RemoveOldest ::
  "('k, 'v, 's) evictCallback \<Rightarrow> ('k, 'v) lru \<Rightarrow> 's \<Rightarrow> (('k, 'v) lru \<times> 's \<times> ('k \<times> 'v) option) go" where
  "RemoveOldest onEvict c st =
     (if evictList c = [] then Ret (c, st, None)
      else let ent = last (evictList c)
           in go_map (\<lambda>(c', st'). (c', st', Some (snd ent))) (removeElement onEvict ent c st))"

definition GetOldest :: "('k, 'v) lru \<Rightarrow> ('k \<times> 'v) option" where
  "GetOldest c = (if evictList c = [] then None else Some (snd (last (evictList c))))"

text \<open>\<open>Keys\<close> fills a slice of \<open>len(c.items)\<close> slots from the back of the list; a list longer
  than that would panic, a shorter one would leave nil slots.\<close>

definition Keys :: "('k, 'v) lru \<Rightarrow> 'k option list go" where
  "Keys c =
     (let ks = map (\<lambda>x. fst (snd x)) (rev (evictList c));
          len_items = card (dom (items c))
      in if length ks > len_items then Panic
         else Ret (map Some ks @ replicate (len_items - length ks) None))"

definition Len :: "('k, 'v) lru \<Rightarrow> nat" where
  "Len c = length (evictList c)"

fun removeOldestN ::
  "('k, 'v, 's) evictCallback \<Rightarrow> nat \<Rightarrow> ('k, 'v) lru \<Rightarrow> 's \<Rightarrow> (('k, 'v) lru \<times> 's) go" where
  "removeOldestN onEvict 0 c st = Ret (c, st)"
| "removeOldestN onEvict (Suc n) c st =
     go_bind (removeOldest onEvict c st) (\<lambda>(c', st'). removeOldestN onEvict n c' st')"

definition Resize ::
  "('k, 'v, 's) evictCallback \<Rightarrow> int \<Rightarrow> ('k, 'v) lru \<Rightarrow> 's \<Rightarrow> (('k, 'v) lru \<times> 's \<times> nat) go" where
  "Resize onEvict sz c st =
     (let diff = nat (int (Len c) - sz)
      in go_map (\<lambda>(c', st'). (c'\<lparr>lsize := sz\<rparr>, st', diff)) (removeOldestN onEvict diff c st))"

text \<open>\<open>Purge\<close> ranges over the map, in the order \<open>ks\<close> the runtime happens to choose.\<close>

fun purgeLoop ::
  "('k, 'v, 's) evictCallback \<Rightarrow> 'k list \<Rightarrow> ('k, 'v) lru \<Rightarrow> 's \<Rightarrow> (('k, 'v) lru \<times> 's) go" where
  "purgeLoop onEvict [] c st = Ret (c, st)"
| "purgeLoop onEvict (k # ks) c st =
     (case items c k of
        None \<Rightarrow> purgeLoop onEvict ks c st
      | Some e \<Rightarrow>
          (case elem_value e c of
             None \<Rightarrow> Panic
           | Some (k', v) \<Rightarrow>
               go_bind (onEvict k v st)
                 (\<lambda>st'. purgeLoop onEvict ks (c\<lparr>items := (items c)(k := None)\<rparr>) st')))"

definition Purge ::
  "('k, 'v, 's) evictCallback \<Rightarrow> 'k list \<Rightarrow> ('k, 'v) lru \<Rightarrow> 's \<Rightarrow> (('k, 'v) lru \<times> 's) go" where
  "Purge onEvict ks c st =
     go_map (\<lambda>(c', st'). (c'\<lparr>evictList := []\<rparr>, st')) (purgeLoop onEvict ks c st)"


subsection \<open>The cache as an association list\<close>

text \<open>What the cache holds, most recently used first.\<close>

definition contents :: "('k, 'v) lru \<Rightarrow> ('k \<times> 'v) list" where
  "contents c = map snd (evictList c)"

definition lru_inv :: "('k, 'v) lru \<Rightarrow> bool" where
  "lru_inv c \<longleftrightarrow>
     distinct (map fst (evictList c)) \<and> distinct (map fst (contents c)) \<and>
     (\<forall>k e. items c k = Some e \<longleftrightarrow> (\<exists>v. (e, k, v) \<in> set (evictList c))) \<and>
     (\<forall>x \<in> set (evictList c). fst x < fresh c)"

definition drop_key :: "'k \<Rightarrow> ('k \<times> 'v) list \<Rightarrow> ('k \<times> 'v) list" where
  "drop_key k l = filter (\<lambda>x. fst x \<noteq> k) l"

lemma set_drop_key [simp]: "set (drop_key k l) = {x \<in> set l. fst x \<noteq> k}"
  by (simp add: drop_key_def)

lemma distinct_drop_key: "distinct (map fst l) \<Longrightarrow> distinct (map fst (drop_key k l))"
  by (simp add: drop_key_def distinct_map_filter)

lemma drop_key_id: "k \<notin> fst ` set l \<Longrightarrow> drop_key k l = l"
  unfolding drop_key_def by (rule filter_True) auto

lemma map_of_drop_key: "map_of (drop_key k l) = (map_of l)(k := None)"
  unfolding drop_key_def by (rule ext) (induction l, auto)

lemma items_map_of:
  assumes "lru_inv c"
  shows "items c k = None \<longleftrightarrow> k \<notin> fst ` set (contents c)"
    and "items c k = Some e \<Longrightarrow> \<exists>v. elem_value e c = Some (k, v) \<and> map_of (contents c) k = Some v"
proof -
  show "items c k = None \<longleftrightarrow> k \<notin> fst ` set (contents c)"
    using assms by (cases "items c k") (force simp: lru_inv_def contents_def)+
  assume "items c k = Some e"
  with assms obtain v where "(e, k, v) \<in> set (evictList c)" by (auto simp: lru_inv_def)
  moreover from this have "(k, v) \<in> set (contents c)" by (force simp: contents_def)
  ultimately show "\<exists>v. elem_value e c = Some (k, v) \<and> map_of (contents c) k = Some v"
    using assms by (auto simp: lru_inv_def elem_value_def)
qed

lemma evict_unique:
  "lru_inv c \<Longrightarrow> (e, k, v) \<in> set (evictList c) \<Longrightarrow> (e, k', v') \<in> set (evictList c) \<Longrightarrow> k' = k \<and> v' = v"
  unfolding lru_inv_def using eq_key_imp_eq_value [of "evictList c" e "(k, v)" "(k', v')"] by simp

lemma contents_remove:
  assumes "lru_inv c" "(e, k, v) \<in> set (evictList c)"
  shows "map snd (listRemove e (evictList c)) = drop_key k (contents c)"
proof -
  have "fst x = e \<longleftrightarrow> fst (snd x) = k" if "x \<in> set (evictList c)" for x
  proof -
    obtain e' k' v' where x: "x = (e', k', v')" by (cases x)
    have i: "items c k'' = Some e'' \<longleftrightarrow> (\<exists>v. (e'', k'', v) \<in> set (evictList c))" for k'' e''
      using assms(1) unfolding lru_inv_def by blast
    have "items c k = Some e" "items c k' = Some e'"
      using i assms(2) that x by blast+
    then show ?thesis using evict_unique [OF assms(1,2), of k' v'] that unfolding x by auto
  qed
  then have "filter (\<lambda>x. fst x \<noteq> e) (evictList c) = filter (\<lambda>x. fst (snd x) \<noteq> k) (evictList c)"
    by (intro filter_cong) auto
  then show ?thesis
    by (simp add: listRemove_def drop_key_def contents_def filter_map comp_def)
qed

text \<open>Every removal goes through \<open>removeElement\<close>: the entry disappears and the callback is told.\<close>

lemma removeElement_inv:
  assumes "lru_inv c" "(e, k, v) \<in> set (evictList c)"
  defines "c' \<equiv> c\<lparr>evictList := listRemove e (evictList c), items := (items c)(k := None)\<rparr>"
  shows "removeElement cb (e, k, v) c st = go_map (\<lambda>st'. (c', st')) (cb k v st)"
    "lru_inv c'" "contents c' = drop_key k (contents c)" "lsize c' = lsize c"
proof -
  show "removeElement cb (e, k, v) c st = go_map (\<lambda>st'. (c', st')) (cb k v st)"
    by (simp add: removeElement_def c'_def)
  show k: "contents c' = drop_key k (contents c)"
    using contents_remove [OF assms(1,2)] by (simp add: contents_def c'_def)
  show "lsize c' = lsize c" by (simp add: c'_def)
  have i: "items c k' = Some e' \<longleftrightarrow> (\<exists>v. (e', k', v) \<in> set (evictList c))" for k' e'
    using assms(1) by (simp add: lru_inv_def)
  have "items c k = Some e" using i assms(2) by blast
  moreover have "e' \<noteq> e" if "items c k' = Some e'" "k' \<noteq> k" for k' e'
  proof
    assume "e' = e"
    with that i obtain v' where "(e, k', v') \<in> set (evictList c)" by blast
    with evict_unique [OF assms(1,2)] that show False by auto
  qed
  ultimately have "items c' k' = Some e' \<longleftrightarrow> (\<exists>v. (e', k', v) \<in> set (evictList c'))" for k' e'
    using i [of k' e'] i [of k e'] by (auto simp: c'_def listRemove_def)
  moreover have "distinct (map fst (contents c'))"
    unfolding k using assms(1) by (simp add: distinct_drop_key lru_inv_def)
  moreover have "distinct (map fst (evictList c'))" "\<forall>x \<in> set (evictList c'). fst x < fresh c'"
    using assms(1) by (auto simp: lru_inv_def c'_def listRemove_def distinct_map_filter)
  ultimately show "lru_inv c'" by (simp add: lru_inv_def)
qed

lemma removeElement_ex:
  assumes "lru_inv c" "(e, k, v) \<in> set (evictList c)"
  obtains c' where "removeElement cb (e, k, v) c st = go_map (\<lambda>st'. (c', st')) (cb k v st)"
    "lru_inv c'" "contents c' = drop_key k (contents c)" "lsize c' = lsize c"
  by (rule that) (rule removeElement_inv [OF assms])+

lemma filter_key: "distinct (map fst l) \<Longrightarrow> (e, y) \<in> set l \<Longrightarrow> filter (\<lambda>x. fst x = e) l = [(e, y)]"
  by (induction l) (force simp: filter_empty_conv)+

lemma moveToFront_inv:
  assumes "lru_inv c" "(e, k, v) \<in> set (evictList c)"
  defines "l \<equiv> moveToFront e (evictList c)"
  shows "l = (e, k, v) # listRemove e (evictList c)" "set l = set (evictList c)"
    "lru_inv (c\<lparr>evictList := l\<rparr>)" "contents (c\<lparr>evictList := l\<rparr>) = (k, v) # drop_key k (contents c)"
proof -
  have d: "distinct (map fst (evictList c))" using assms(1) by (simp add: lru_inv_def)
  have "filter (\<lambda>x. fst x = e) (evictList c) = [(e, k, v)]"
    using filter_key [OF d assms(2)] by simp
  then show l: "l = (e, k, v) # listRemove e (evictList c)" by (simp add: l_def moveToFront_def)
  show s: "set l = set (evictList c)" by (auto simp: l_def moveToFront_def listRemove_def)
  show k: "contents (c\<lparr>evictList := l\<rparr>) = (k, v) # drop_key k (contents c)"
    using contents_remove [OF assms(1,2)] by (simp add: contents_def l)
  have "distinct (map fst l)" using d by (auto simp: l listRemove_def distinct_map_filter)
  moreover have "distinct (map fst (contents (c\<lparr>evictList := l\<rparr>)))"
    unfolding k using assms(1) by (auto simp: lru_inv_def distinct_drop_key)
  ultimately show "lru_inv (c\<lparr>evictList := l\<rparr>)" using assms(1) s by (simp add: lru_inv_def)
qed


subsection \<open>What the operations do to the contents\<close>

lemma inv_elem:
  assumes "lru_inv c" "items c k = Some e"
  obtains v where "(e, k, v) \<in> set (evictList c)" "elem_value e c = Some (k, v)" "map_of (contents c) k = Some v"
proof -
  from assms obtain v where v: "(e, k, v) \<in> set (evictList c)" by (auto simp: lru_inv_def)
  from items_map_of(2) [OF assms] obtain v' where
    v': "elem_value e c = Some (k, v')" "map_of (contents c) k = Some v'" by blast
  then have "(e, k, v') \<in> set (evictList c)" by (auto simp: elem_value_def dest: map_of_SomeD)
  with v v' that show thesis by blast
qed

lemma items_None: "lru_inv c \<Longrightarrow> items c k = None \<longleftrightarrow> map_of (contents c) k = None"
  by (simp add: items_map_of(1) map_of_eq_None_iff)

definition touch :: "'k \<Rightarrow> ('k \<times> 'v) list \<Rightarrow> ('k \<times> 'v) list" where
  "touch k l = (case map_of l k of None \<Rightarrow> l | Some v \<Rightarrow> (k, v) # drop_key k l)"

lemma Get_contents:
  assumes "lru_inv c"
  shows "\<exists>c'. Get k c = Ret (c', map_of (contents c) k) \<and> lru_inv c' \<and> lsize c' = lsize c \<and>
    contents c' = touch k (contents c)"
proof (cases "items c k")
  case None
  moreover from this have "map_of (contents c) k = None" using items_None [OF assms] by blast
  ultimately show ?thesis using assms by (simp add: Get_def touch_def)
next
  case (Some e)
  obtain v where v: "(e, k, v) \<in> set (evictList c)" "elem_value e c = Some (k, v)" "map_of (contents c) k = Some v"
    using inv_elem [OF assms Some] .
  from moveToFront_inv [OF assms v(1)] Some v show ?thesis by (simp add: Get_def touch_def)
qed

text \<open>The list and the map after a new entry has been pushed to the front.\<close>

definition pushed :: "'k \<Rightarrow> 'v \<Rightarrow> ('k, 'v) lru \<Rightarrow> ('k, 'v) lru" where
  "pushed k v c = c\<lparr>evictList := (fresh c, k, v) # evictList c, items := (items c)(k \<mapsto> fresh c),
     fresh := Suc (fresh c)\<rparr>"

lemma pushed_inv:
  assumes "lru_inv c" "map_of (contents c) k = None"
  shows "lru_inv (pushed k v c)" "contents (pushed k v c) = (k, v) # contents c"
    "lsize (pushed k v c) = lsize c"
proof -
  have n: "k \<notin> fst ` set (contents c)" using assms(2) by (simp add: map_of_eq_None_iff)
  have i: "items c k' = Some e' \<longleftrightarrow> (\<exists>v. (e', k', v) \<in> set (evictList c))" for k' e'
    using assms(1) by (simp add: lru_inv_def)
  have f: "\<forall>x \<in> set (evictList c). fst x < fresh c" using assms(1) by (simp add: lru_inv_def)
  then have "fresh c \<notin> fst ` set (evictList c)" by auto
  moreover have "items c k = None" using items_None [OF assms(1)] assms(2) by blast
  then have "items (pushed k v c) k' = Some e' \<longleftrightarrow> (\<exists>v. (e', k', v) \<in> set (evictList (pushed k v c)))" for k' e'
    using i [of k' e'] i [of k e'] by (auto simp: pushed_def)
  moreover have "distinct (map fst (evictList c))" "distinct (map fst (contents c))"
    using assms(1) by (simp_all add: lru_inv_def)
  moreover have "\<forall>x \<in> set (evictList (pushed k v c)). fst x < fresh (pushed k v c)"
    using f by (auto simp: pushed_def)
  ultimately show "lru_inv (pushed k v c)"
    using n unfolding lru_inv_def by (auto simp: contents_def pushed_def)
  show "contents (pushed k v c) = (k, v) # contents c" "lsize (pushed k v c) = lsize c"
    by (simp_all add: contents_def pushed_def)
qed

lemma Add_new:
  assumes "lru_inv c" "map_of (contents c) k = None"
  shows "Add cb k v c st =
    (if int (length (contents c)) < lsize c then Ret (pushed k v c, st, False)
     else go_map (\<lambda>(c', st'). (c', st', True)) (removeOldest cb (pushed k v c) st))"
  using items_None [OF assms(1), of k] assms(2)
  by (auto simp: Add_def contents_def pushed_def Let_def)

lemma Add_contents:
  assumes "lru_inv c" "map_of (contents c) k \<noteq> None \<or> int (length (contents c)) < lsize c"
  shows "\<exists>c'. Add cb k v c st = Ret (c', st, False) \<and> lru_inv c' \<and> lsize c' = lsize c \<and>
    contents c' = (k, v) # drop_key k (contents c)"
proof (cases "items c k")
  case None
  then have n: "map_of (contents c) k = None" using items_None [OF assms(1)] by blast
  then have "drop_key k (contents c) = contents c" by (simp add: drop_key_id map_of_eq_None_iff)
  then show ?thesis
    using pushed_inv [OF assms(1) n, of v] Add_new [OF assms(1) n, of cb v st] assms(2) n by auto
next
  case (Some e)
  obtain u where u: "(e, k, u) \<in> set (evictList c)" using inv_elem [OF assms(1) Some] .
  let ?l = "(e, k, v) # listRemove e (evictList c)"
  let ?c = "c\<lparr>evictList := ?l\<rparr>"
  note m = moveToFront_inv [OF assms(1) u]
  have "map (\<lambda>(i, k, w). if i = e then (i, k, v) else (i, k, w)) (listRemove e (evictList c)) = listRemove e (evictList c)"
    by (rule map_idI) (auto simp: listRemove_def)
  then have "Add cb k v c st = Ret (?c, st, False)"
    using Some by (simp add: Add_def m(1))
  moreover have k: "contents ?c = (k, v) # drop_key k (contents c)"
    using contents_remove [OF assms(1) u] by (simp add: contents_def)
  moreover have "lru_inv ?c"
  proof -
    have "(\<exists>w. (e', k', w) \<in> set ?l) \<longleftrightarrow> (\<exists>w. (e', k', w) \<in> set (evictList c))" for e' k'
      using u evict_unique [OF assms(1) u, of k'] by (cases "e' = e") (auto simp: listRemove_def)
    moreover have "items c k' = Some e' \<longleftrightarrow> (\<exists>w. (e', k', w) \<in> set (evictList c))" for e' k'
      using assms(1) unfolding lru_inv_def by blast
    moreover have "distinct (map fst ?l)" "\<forall>x \<in> set ?l. fst x < fresh c"
      using m(3) by (simp_all add: lru_inv_def m(1))
    moreover have "distinct (map fst (contents ?c))"
      using m(3) unfolding lru_inv_def m(4) k by simp
    ultimately show ?thesis unfolding lru_inv_def by simp
  qed
  ultimately show ?thesis by auto
qed

lemma drop_key_last:
  assumes "distinct (map fst (l @ [(k, v)]))"
  shows "drop_key k (l @ [(k, v)]) = l"
proof -
  have "k \<notin> fst ` set l" using assms by auto
  then show ?thesis using drop_key_id [of k l] by (simp add: drop_key_def)
qed

lemma removeOldest_contents:
  assumes "lru_inv c"
  shows "contents c = [] \<Longrightarrow> removeOldest cb c st = Ret (c, st)"
    and "contents c = l @ [(k, v)] \<Longrightarrow>
      \<exists>c'. removeOldest cb c st = go_map (\<lambda>st'. (c', st')) (cb k v st) \<and> lru_inv c' \<and>
        lsize c' = lsize c \<and> contents c' = l"
proof -
  show "contents c = [] \<Longrightarrow> removeOldest cb c st = Ret (c, st)"
    by (simp add: removeOldest_def contents_def)
  assume l: "contents c = l @ [(k, v)]"
  then have ne: "evictList c \<noteq> []" by (auto simp: contents_def)
  then obtain e where e: "last (evictList c) = (e, k, v)"
    using l by (metis contents_def last_map last_snoc prod.collapse snd_conv)
  with ne have m: "(e, k, v) \<in> set (evictList c)" by (metis last_in_set)
  have "distinct (map fst (l @ [(k, v)]))" using assms l by (simp add: lru_inv_def)
  moreover obtain c' where "removeElement cb (e, k, v) c st = go_map (\<lambda>st'. (c', st')) (cb k v st)"
    "lru_inv c'" "contents c' = drop_key k (contents c)" "lsize c' = lsize c"
    by (rule removeElement_ex [OF assms m])
  ultimately show
    "\<exists>c'. removeOldest cb c st = go_map (\<lambda>st'. (c', st')) (cb k v st) \<and> lru_inv c' \<and>
        lsize c' = lsize c \<and> contents c' = l"
    using e ne l by (auto simp: removeOldest_def drop_key_last)
qed

lemma Remove_contents:
  assumes "lru_inv c"
  shows "map_of (contents c) k = None \<Longrightarrow> Remove cb k c st = Ret (c, st, False)"
    and "map_of (contents c) k = Some v \<Longrightarrow>
      \<exists>c'. Remove cb k c st = go_map (\<lambda>st'. (c', st', True)) (cb k v st) \<and> lru_inv c' \<and>
        lsize c' = lsize c \<and> contents c' = drop_key k (contents c)"
proof -
  show "map_of (contents c) k = None \<Longrightarrow> Remove cb k c st = Ret (c, st, False)"
    using items_None [OF assms, of k] by (auto simp: Remove_def split: option.splits)
  assume v: "map_of (contents c) k = Some v"
  then obtain e where i: "items c k = Some e" using items_None [OF assms, of k] by auto
  obtain u where u: "(e, k, u) \<in> set (evictList c)" "elem_value e c = Some (k, u)" "map_of (contents c) k = Some u"
    using inv_elem [OF assms i] .
  moreover obtain c' where "removeElement cb (e, k, u) c st = go_map (\<lambda>st'. (c', st')) (cb k u st)"
    "lru_inv c'" "contents c' = drop_key k (contents c)" "lsize c' = lsize c"
    by (rule removeElement_ex [OF assms u(1)])
  ultimately show
    "\<exists>c'. Remove cb k c st = go_map (\<lambda>st'. (c', st', True)) (cb k v st) \<and> lru_inv c' \<and>
        lsize c' = lsize c \<and> contents c' = drop_key k (contents c)"
    using i v by (cases "cb k v st") (auto simp: Remove_def)
qed

lemma Add_full:
  assumes "lru_inv c" "map_of (contents c) k = None" "contents c = l @ [(k0, v0)]"
    "lsize c \<le> int (length (contents c))"
  shows "\<exists>c'. Add cb k v c st = go_map (\<lambda>st'. (c', st', True)) (cb k0 v0 st) \<and> lru_inv c' \<and>
    lsize c' = lsize c \<and> contents c' = (k, v) # l"
proof -
  note p = pushed_inv [OF assms(1,2), of v]
  obtain c' where "removeOldest cb (pushed k v c) st = go_map (\<lambda>st'. (c', st')) (cb k0 v0 st)"
    "lru_inv c'" "lsize c' = lsize c" "contents c' = (k, v) # l"
    using removeOldest_contents(2) [OF p(1), of "(k, v) # l" k0 v0 cb st] p(2,3) assms(3) by auto
  with Add_new [OF assms(1,2), of cb v st] assms(4) show ?thesis
    by (cases "cb k0 v0 st") auto
qed

lemma Keys_contents:
  assumes "lru_inv c"
  shows "Keys c = Ret (map Some (rev (map fst (contents c))))"
proof -
  have "dom (items c) = fst ` set (contents c)"
    unfolding dom_def items_map_of(1) [OF assms] by simp
  moreover have "card (fst ` set (contents c)) = length (contents c)"
    using assms by (metis lru_inv_def distinct_card length_map list.set_map)
  ultimately show ?thesis by (simp add: Keys_def contents_def rev_map)
qed

lemma NewLRU_contents:
  "0 < sz \<Longrightarrow> \<exists>c. NewLRU sz = Some c \<and> lru_inv c \<and> contents c = [] \<and> lsize c = sz"
  by (simp add: NewLRU_def lru_inv_def contents_def)


subsection \<open>The interface the buffer relies on\<close>

text \<open>An LRU cache as its client sees it: the contents in order of use, and what each call does to
  them and to the client's state \<open>st\<close> through the callback.\<close>

locale lru_cache =
  fixes inv :: "'c \<Rightarrow> bool" and holds :: "'c \<Rightarrow> ('k \<times> 'v) list" and cap :: "'c \<Rightarrow> int"
    and get :: "'k \<Rightarrow> 'c \<Rightarrow> ('c \<times> 'v option) go"
    and add :: "('k \<Rightarrow> 'v \<Rightarrow> 's \<Rightarrow> 's go) \<Rightarrow> 'k \<Rightarrow> 'v \<Rightarrow> 'c \<Rightarrow> 's \<Rightarrow> ('c \<times> 's \<times> bool) go"
    and remove :: "('k \<Rightarrow> 'v \<Rightarrow> 's \<Rightarrow> 's go) \<Rightarrow> 'k \<Rightarrow> 'c \<Rightarrow> 's \<Rightarrow> ('c \<times> 's \<times> bool) go"
    and oldest :: "('k \<Rightarrow> 'v \<Rightarrow> 's \<Rightarrow> 's go) \<Rightarrow> 'c \<Rightarrow> 's \<Rightarrow> ('c \<times> 's) go"
  assumes keys_distinct: "inv c \<Longrightarrow> distinct (map fst (holds c))"
    and get_law: "inv c \<Longrightarrow> \<exists>c'. get k c = Ret (c', map_of (holds c) k) \<and> inv c' \<and> cap c' = cap c \<and>
      holds c' = touch k (holds c)"
    and add_law: "inv c \<Longrightarrow> map_of (holds c) k \<noteq> None \<or> int (length (holds c)) < cap c \<Longrightarrow>
      \<exists>c'. add cb k v c st = Ret (c', st, False) \<and> inv c' \<and> cap c' = cap c \<and>
        holds c' = (k, v) # drop_key k (holds c)"
    and remove_absent_law: "inv c \<Longrightarrow> map_of (holds c) k = None \<Longrightarrow> remove cb k c st = Ret (c, st, False)"
    and remove_law: "inv c \<Longrightarrow> map_of (holds c) k = Some v \<Longrightarrow>
      \<exists>c'. remove cb k c st = go_map (\<lambda>st'. (c', st', True)) (cb k v st) \<and> inv c' \<and> cap c' = cap c \<and>
        holds c' = drop_key k (holds c)"
    and oldest_empty_law: "inv c \<Longrightarrow> holds c = [] \<Longrightarrow> oldest cb c st = Ret (c, st)"
    and oldest_law: "inv c \<Longrightarrow> holds c = l @ [(k, v)] \<Longrightarrow>
      \<exists>c'. oldest cb c st = go_map (\<lambda>st'. (c', st')) (cb k v st) \<and> inv c' \<and> cap c' = cap c \<and> holds c' = l"
begin

lemma touch_same:
  assumes "inv c"
  shows "map_of (touch k (holds c)) = map_of (holds c)" "set (touch k (holds c)) = set (holds c)"
    "length (touch k (holds c)) = length (holds c)"
proof -
  have d: "distinct (map fst (holds c))" using keys_distinct [OF assms] .
  show m: "map_of (touch k (holds c)) = map_of (holds c)"
    by (rule ext) (auto simp: touch_def map_of_drop_key split: option.splits)
  have "distinct (map fst (touch k (holds c)))"
    using d distinct_drop_key [of "holds c" k] by (auto simp: touch_def split: option.splits)
  then show s: "set (touch k (holds c)) = set (holds c)"
    using m d by (metis set_map_of_compr)
  with d \<open>distinct (map fst (touch k (holds c)))\<close> show "length (touch k (holds c)) = length (holds c)"
    by (metis distinct_card distinct_map)
qed

lemma get_after_add:
  assumes "inv c" "map_of (holds c) k \<noteq> None \<or> int (length (holds c)) < cap c"
  shows "\<exists>c' c''. add cb k v c st = Ret (c', st, False) \<and> get k c' = Ret (c'', Some v) \<and>
    (\<forall>k'. k' \<noteq> k \<longrightarrow> map_of (holds c') k' = map_of (holds c) k')"
proof -
  obtain c' where c': "add cb k v c st = Ret (c', st, False)" "inv c'" "holds c' = (k, v) # drop_key k (holds c)"
    using add_law [OF assms] by blast
  with get_law [of c' k] show ?thesis by (auto simp: map_of_drop_key)
qed

lemma get_after_remove:
  assumes "inv c" "\<And>v. cb k v st = Ret st'"
  shows "\<exists>c' st'' b c''. remove cb k c st = Ret (c', st'', b) \<and> b = (map_of (holds c) k \<noteq> None) \<and>
    get k c' = Ret (c'', None)"
proof (cases "map_of (holds c) k")
  case None
  with get_law [OF assms(1), of k] remove_absent_law [OF assms(1) None, of cb st] show ?thesis by auto
next
  case (Some v)
  obtain c' where c': "remove cb k c st = go_map (\<lambda>st'. (c', st', True)) (cb k v st)" "inv c'"
    "holds c' = drop_key k (holds c)"
    using remove_law [OF assms(1) Some, of cb st] by blast
  with get_law [of c' k] Some assms(2) show ?thesis by (auto simp: map_of_drop_key)
qed

end

interpretation lru: lru_cache lru_inv contents lsize Get Add Remove removeOldest
proof
  show "distinct (map fst (contents c))" if "lru_inv c" for c :: "('a, 'b) lru"
    using that by (simp add: lru_inv_def)
qed (rule Get_contents Add_contents Remove_contents removeOldest_contents; assumption)+

end
