(* ===== verification/Kvbuffer.thy ===== *)
theory Kvbuffer
  imports Lru
begin

text \<open>
  The key-value buffer of \<^verbatim>\<open>src/stkvbuffer/kvbuffer.go\<close>, which keeps its pairs in
  fixed-size chunks of one shared byte array.

  The array is the field \<open>kdata\<close>; a Go slice \<open>data[i:next]\<close> of it, as a \<open>Chunk\<close>
  holds, is the offset \<open>cpos\<close> of its first byte (its length is always the chunk size).
  Node values are copied in Go and so are records here.  The \<open>uint32\<close> quantities are natural
  numbers with the wrap-around written out (\<open>w32\<close>, \<open>sub32\<close>).  The pointers of
  \<open>util.go\<close> are read as little-endian accesses to the array.  A stored chunk size below 12
  bytes, which only a forged header can have, would make these accesses leave the chunk and is
  outside the model.

  The calls the buffer makes to the user's \<open>onLruDel\<close> are recorded in \<open>lruDels\<close>.
\<close>

definition w32 :: "nat \<Rightarrow> nat" where
  "w32 n = n mod 2 ^ 32"

definition sub32 :: "nat \<Rightarrow> nat \<Rightarrow> nat" where
  "sub32 a b = (a + 2 ^ 32 - b) mod 2 ^ 32"

definition read_uint32 :: "bytes \<Rightarrow> nat \<Rightarrow> nat" where
  "read_uint32 d p = unat (le_word (take 4 (drop p d)) :: u32)"

definition read_uint64 :: "bytes \<Rightarrow> nat \<Rightarrow> nat" where
  "read_uint64 d p = unat (le_word (take 8 (drop p d)) :: u64)"

definition write_uint32 :: "bytes \<Rightarrow> nat \<Rightarrow> nat \<Rightarrow> bytes" where
  "write_uint32 d p n = blit p (le_bytes 4 (of_nat n :: u32)) d"

definition write_uint64 :: "bytes \<Rightarrow> nat \<Rightarrow> nat \<Rightarrow> bytes" where
  "write_uint64 d p n = blit p (le_bytes 8 (of_nat n :: u64)) d"

datatype kverr =
    ErrDataMinSize | ErrChunkSizeWrong | ErrBuffSizeWrong | ErrPre | ErrKeyValSize
  | ErrChunkMinSize | ErrTooLong | ErrFull

record chunk =
  cpos :: nat
  cindex :: nat
  cnext :: nat

record node =
  chunks :: "chunk list"
  keySize :: nat
  valSize :: nat

record kvcore =
  kdata :: bytes
  ksize :: nat
  chunkSize :: nat
  chunkNum :: nat
  freeChunk :: "chunk list"
  openLru :: bool
  onLruDel :: bool
  lruDels :: "(bytes \<times> bytes) list"

record kvbuffer =
  core :: kvcore
  klru :: "(bytes, node) lru option"

abbreviation (input) HeaderSize :: nat where "HeaderSize \<equiv> 16"


subsection \<open>Reading a node\<close>

text \<open>\<open>c.data[a:b]\<close> for a chunk.\<close>

definition cslice :: "bytes \<Rightarrow> chunk \<Rightarrow> nat \<Rightarrow> nat \<Rightarrow> bytes" where
  "cslice d c a b = subseg (cpos c + a) (cpos c + b) d"

text \<open>The loop over whole chunks that \<open>GetKey\<close> and \<open>GetVal\<close> share, with the rest after it.\<close>

function readLoop :: "bytes \<Rightarrow> nat \<Rightarrow> chunk list \<Rightarrow> nat \<Rightarrow> nat \<Rightarrow> bytes \<Rightarrow> bytes go" where
  "readLoop d cs chs idx rest acc =
     (if rest \<ge> sub32 cs 4 then
        if idx < length chs
        then readLoop d cs chs (Suc idx) (rest - sub32 cs 4) (acc @ cslice d (chs ! idx) 4 cs)
        else Panic
      else if rest > 0 then
        if idx < length chs then Ret (acc @ cslice d (chs ! idx) 4 (4 + rest)) else Panic
      else Ret acc)"
  by pat_completeness auto
termination
  by (relation "measure (\<lambda>(d, cs, chs, idx, rest, acc). length chs - idx)") auto

declare readLoop.simps [simp del]

definition GetKey :: "bytes \<Rightarrow> nat \<Rightarrow> node \<Rightarrow> bytes go" where
  "GetKey d cs n =
     (if chunks n = [] then Panic
      else let c0 = chunks n ! 0 in
           if keySize n \<le> sub32 cs 12 then Ret (cslice d c0 12 (12 + keySize n))
           else readLoop d cs (chunks n) 1 (sub32 (w32 (keySize n + 12)) cs) (cslice d c0 12 cs))"

function valPosLoop :: "nat \<Rightarrow> nat \<Rightarrow> nat \<Rightarrow> nat \<times> nat" where
  "valPosLoop q idx rest = (if 0 < q \<and> q \<le> rest then valPosLoop q (Suc idx) (rest - q) else (idx, rest))"
  by pat_completeness auto
termination
  by (relation "measure (\<lambda>(q, idx, rest). rest)") auto

declare valPosLoop.simps [simp del]

definition getValPos :: "nat \<Rightarrow> node \<Rightarrow> nat \<times> nat" where
  "getValPos cs n =
     (if keySize n < sub32 cs 12 then (0, 12 + keySize n)
      else let (idx, rest) = valPosLoop (sub32 cs 4) 1 (sub32 (w32 (keySize n + 12)) cs)
           in (idx, rest + 4))"

definition GetVal :: "bytes \<Rightarrow> nat \<Rightarrow> node \<Rightarrow> bytes go" where
  "GetVal d cs n =
     (if chunks n = [] then Panic
      else let (idx, start) = getValPos cs n in
           if idx \<ge> length (chunks n) then Panic
           else if valSize n \<le> sub32 cs start
           then Ret (cslice d (chunks n ! idx) start (start + valSize n))
           else readLoop d cs (chunks n) (Suc idx) (sub32 (w32 (valSize n + start)) cs)
                  (cslice d (chunks n ! idx) start cs))"


subsection \<open>Freeing chunks\<close>

fun insertChunk :: "chunk \<Rightarrow> chunk list \<Rightarrow> chunk list" where
  "insertChunk c [] = [c]"
| "insertChunk c (e # es) = (if cindex e < cindex c then e # insertChunk c es else c # e # es)"

definition delChunk :: "kvcore \<Rightarrow> chunk \<Rightarrow> kvcore" where
  "delChunk st c =
     st\<lparr>kdata := write_uint32 (kdata st) (cpos c) 0,
        freeChunk := insertChunk (c\<lparr>cnext := 0\<rparr>) (freeChunk st)\<rparr>"

definition delNode :: "kvcore \<Rightarrow> node \<Rightarrow> kvcore" where
  "delNode st n = foldl delChunk st (chunks n)"

text \<open>The callback \<open>newLRU\<close> installs.\<close>

definition onEvict :: "(bytes, node, kvcore) evictCallback" where
  "onEvict key n st =
     go_map (\<lambda>st'. delNode st' n)
       (if onLruDel st
        then go_map (\<lambda>v. st\<lparr>lruDels := lruDels st @ [(key, v)]\<rparr>) (GetVal (kdata st) (chunkSize st) n)
        else Ret st)"

definition newLRU :: "kvcore \<Rightarrow> kvbuffer" where
  "newLRU st = \<lparr>core = st, klru = NewLRU (int (chunkNum st))\<rparr>"


subsection \<open>Opening a buffer\<close>

text \<open>The loop header shared by the three scans over the array: the offset of every whole
  chunk, with its number from 1 on.\<close>

function scan :: "nat \<Rightarrow> nat \<Rightarrow> nat \<Rightarrow> nat \<Rightarrow> (nat \<times> nat) list" where
  "scan cs sz i n =
     (if cs = 0 \<or> sz \<le> i \<or> sz < i + cs then [] else (i, Suc n) # scan cs sz (i + cs) (Suc n))"
  by pat_completeness auto
termination
  by (relation "measure (\<lambda>(cs, sz, i, n). sz - i)") auto

declare scan.simps [simp del]

fun formatLoop :: "bytes \<Rightarrow> chunk list \<Rightarrow> (nat \<times> nat) list \<Rightarrow> bytes \<times> chunk list" where
  "formatLoop d free [] = (d, free)"
| "formatLoop d free ((i, n) # r) =
     formatLoop (write_uint32 d i 0) (free @ [\<lparr>cpos = i, cindex = w32 n, cnext = 0\<rparr>]) r"

record scanState =
  mpChunk :: "nat \<rightharpoonup> chunk"
  mpChunkPrev :: "nat \<rightharpoonup> nat"
  vChunkEnd :: "nat list"
  vFree :: "chunk list"

fun loadLoop :: "bytes \<Rightarrow> scanState \<Rightarrow> (nat \<times> nat) list \<Rightarrow> scanState" where
  "loadLoop d ss [] = ss"
| "loadLoop d ss ((i, n) # r) =
     (let nxt = read_uint32 d i;
          idx = w32 n;
          ch = \<lparr>cpos = i, cindex = idx, cnext = nxt\<rparr>;
          ss1 = ss\<lparr>mpChunk := (mpChunk ss)(idx \<mapsto> ch)\<rparr>
      in loadLoop d
           (if nxt = 0 then ss1\<lparr>vFree := vFree ss1 @ [ch]\<rparr>
            else if idx = nxt then ss1\<lparr>vChunkEnd := vChunkEnd ss1 @ [idx]\<rparr>
            else ss1\<lparr>mpChunkPrev := (mpChunkPrev ss1)(nxt \<mapsto> idx)\<rparr>) r)"

text \<open>Following the links backwards from the last chunk of a node.\<close>

fun chainLoop :: "nat \<Rightarrow> scanState \<Rightarrow> chunk list \<Rightarrow> nat option \<Rightarrow> (kverr + chunk list) go" where
  "chainLoop f ss chs None = Ret (Inr chs)"
| "chainLoop 0 ss chs (Some p) = Diverge"
| "chainLoop (Suc f) ss chs (Some p) =
     (case mpChunk ss p of
        None \<Rightarrow> Ret (Inl ErrPre)
      | Some c \<Rightarrow> chainLoop f ss (c # chs) (mpChunkPrev ss p))"

fun nodesLoop :: "nat \<Rightarrow> scanState \<Rightarrow> kvbuffer \<Rightarrow> nat list \<Rightarrow> (kverr + kvbuffer) go" where
  "nodesLoop f ss b [] = Ret (Inr b)"
| "nodesLoop f ss b (e # es) =
     (case mpChunk ss e of
        None \<Rightarrow> Panic
      | Some ce \<Rightarrow>
          go_bind (chainLoop f ss [ce] (mpChunkPrev ss e))
            (\<lambda>r. case r of
               Inl err \<Rightarrow> Ret (Inl err)
             | Inr chs \<Rightarrow>
                 let d = kdata (core b);
                     cs = chunkSize (core b);
                     n = \<lparr>chunks = chs, keySize = read_uint32 d (cpos (chs ! 0) + 4),
                          valSize = read_uint32 d (cpos (chs ! 0) + 8)\<rparr>
                 in if w32 (keySize n + valSize n) > sub32 (w32 (length chs * sub32 cs 4)) 8
                    then Ret (Inl ErrKeyValSize)
                    else go_bind (GetKey d cs n)
                      (\<lambda>key. case klru b of
                         None \<Rightarrow> Panic
                       | Some c \<Rightarrow>
                           go_bind (Add onEvict key n c (core b))
                             (\<lambda>(c', st', ev). nodesLoop f ss \<lparr>core = st', klru = Some c'\<rparr> es))))"

definition growData :: "kvbuffer \<Rightarrow> kvbuffer go" where
  "growData b =
     (let st = core b;
          sz = length (kdata st);
          cs = chunkSize st;
          all = scan cs sz HeaderSize 0;
          new = filter (\<lambda>(i, n). w32 n > chunkNum st) all;
          (d, free) = formatLoop (kdata st) (freeChunk st) new;
          st' = st\<lparr>ksize := sz, kdata := write_uint64 d 8 sz, freeChunk := free, chunkNum := w32 (length all)\<rparr>
      in case klru b of
           None \<Rightarrow> Panic
         | Some c \<Rightarrow> go_map (\<lambda>(c', st'', n). \<lparr>core = st'', klru = Some c'\<rparr>) (Resize onEvict (int (chunkNum st')) c st'))"

definition openData :: "bytes \<Rightarrow> int \<Rightarrow> (kverr + kvbuffer) go" where
  "openData data cSize =
     (let cs = read_uint32 data 4 in
      if int cs \<noteq> cSize mod 2 ^ 32 then Ret (Inl ErrChunkSizeWrong)
      else let sz = read_uint64 data 8 in
      if sz > length data then Ret (Inl ErrBuffSizeWrong)
      else if cs = 0 \<and> sz > HeaderSize then Diverge
      else let all = scan cs sz HeaderSize 0;
               ss = loadLoop data \<lparr>mpChunk = (\<lambda>_. None), mpChunkPrev = (\<lambda>_. None), vChunkEnd = [], vFree = []\<rparr> all;
               st = \<lparr>kdata = data, ksize = sz, chunkSize = cs, chunkNum = w32 (length all),
                     freeChunk = vFree ss, openLru = False, onLruDel = False, lruDels = []\<rparr>
           in go_bind (nodesLoop (Suc (length all)) ss (newLRU st) (vChunkEnd ss))
                (\<lambda>r. case r of
                   Inl err \<Rightarrow> Ret (Inl err)
                 | Inr b \<Rightarrow> if sz < length data then go_map Inr (growData b) else Ret (Inr b)))"

definition formatData :: "bytes \<Rightarrow> int \<Rightarrow> (kverr + kvbuffer) go" where
  "formatData data cSize =
     (if cSize < 32 then Ret (Inl ErrChunkMinSize)
      else let cs = nat (cSize mod 2 ^ 32);
               sz = length data;
               d = write_uint64 (write_uint32 (blit 0 [0xFE, 0xDC, 0xBA, 0x98] data) 4 cs) 8 sz;
               all = scan cs sz HeaderSize 0;
               (d', free) = formatLoop d [] all
           in if cs = 0 \<and> sz > HeaderSize then Diverge
              else Ret (Inr (newLRU
                \<lparr>kdata = d', ksize = sz, chunkSize = cs, chunkNum = w32 (length all), freeChunk = free,
                 openLru = False, onLruDel = False, lruDels = []\<rparr>)))"

definition NewKVBuffer :: "bytes \<Rightarrow> int \<Rightarrow> (kverr + kvbuffer) go" where
  "NewKVBuffer data cSize =
     (if length data < 1024 then Ret (Inl ErrDataMinSize)
      else if take 4 data = [0xFE, 0xDC, 0xBA, 0x98] then openData data cSize
      else formatData data cSize)"

definition NewLRUKVBuffer :: "bytes \<Rightarrow> int \<Rightarrow> bool \<Rightarrow> (kverr + kvbuffer) go" where
  "NewLRUKVBuffer data cSize hasDel =
     go_map (map_sum id (\<lambda>b. b\<lparr>core := (core b)\<lparr>openLru := True, onLruDel := hasDel\<rparr>\<rparr>))
       (NewKVBuffer data cSize)"


subsection \<open>Get, Set, Del\<close>

definition kvGet :: "kvbuffer \<Rightarrow> bytes \<Rightarrow> (kvbuffer \<times> bytes option) go" where
  "kvGet b k =
     (case klru b of
        None \<Rightarrow> Panic
      | Some c \<Rightarrow>
          go_bind (Get k c)
            (\<lambda>(c', v). case v of
               None \<Rightarrow> Ret (b\<lparr>klru := Some c'\<rparr>, None)
             | Some n \<Rightarrow>
                 go_map (\<lambda>val. (b\<lparr>klru := Some c'\<rparr>, Some val))
                   (GetVal (kdata (core b)) (chunkSize (core b)) n)))"

text \<open>\<open>copy(c.data[start:], src)\<close>\<close>

definition copyTo :: "bytes \<Rightarrow> nat \<Rightarrow> chunk \<Rightarrow> nat \<Rightarrow> bytes \<Rightarrow> bytes" where
  "copyTo d cs c start src = blit (cpos c + start) (take (cs - start) src) d"

definition linkOf :: "chunk list \<Rightarrow> nat \<Rightarrow> nat" where
  "linkOf chs i = (if Suc i = length chs then cindex (chs ! i) else cindex (chs ! Suc i))"

text \<open>The update of an existing key: take chunks (evicting when allowed) or give some back,
  then rewrite the value.\<close>

fun growLoop ::
  "nat \<Rightarrow> nat \<Rightarrow> kvcore \<Rightarrow> (bytes, node) lru \<Rightarrow> node \<Rightarrow> (kvcore \<times> (bytes, node) lru \<times> node option) go" where
  "growLoop 0 chNeed st c n = Diverge"
| "growLoop (Suc f) chNeed st c n =
     (if chNeed > length (chunks n) then
        case freeChunk st of
          [] \<Rightarrow> if \<not> openLru st then Ret (st, c, None)
                else go_bind (removeOldest onEvict c st) (\<lambda>(c', st'). growLoop f chNeed st' c' n)
        | ch # r \<Rightarrow> growLoop f chNeed (st\<lparr>freeChunk := r\<rparr>) c (n\<lparr>chunks := chunks n @ [ch]\<rparr>)
      else Ret (st, c, Some n))"

function shrinkLoop :: "nat \<Rightarrow> kvcore \<Rightarrow> node \<Rightarrow> kvcore \<times> node" where
  "shrinkLoop chNeed st n =
     (if chNeed < length (chunks n)
      then shrinkLoop chNeed (delChunk st (last (chunks n))) (n\<lparr>chunks := butlast (chunks n)\<rparr>)
      else (st, n))"
  by pat_completeness auto
termination
  by (relation "measure (\<lambda>(chNeed, st, n). length (chunks n))") auto

declare shrinkLoop.simps [simp del]

function updLoop :: "bytes \<Rightarrow> nat \<Rightarrow> chunk list \<Rightarrow> bytes \<Rightarrow> nat \<Rightarrow> nat \<Rightarrow> nat \<Rightarrow> bytes" where
  "updLoop d cs chs vl idx start writeVLen =
     (if idx < length chs then
        let c = chs ! idx;
            d1 = write_uint32 d (cpos c) (linkOf chs idx);
            d2 = (if writeVLen > 0 then copyTo d1 cs c start (drop (w32 (length vl) - writeVLen) vl) else d1);
            w = (if writeVLen > 0 \<and> writeVLen > sub32 cs start then writeVLen - sub32 cs start else writeVLen)
        in updLoop d2 cs chs vl (Suc idx) 4 w
      else d)"
  by pat_completeness auto
termination
  by (relation "measure (\<lambda>(d, cs, chs, vl, idx, start, w). length chs - idx)") auto

declare updLoop.simps [simp del]

text \<open>A new key: evict until there are enough free chunks, then write sizes, links, key and value.\<close>

fun evictLoop ::
  "nat \<Rightarrow> nat \<Rightarrow> kvcore \<Rightarrow> (bytes, node) lru \<Rightarrow> (kvcore \<times> (bytes, node) lru \<times> bool) go" where
  "evictLoop 0 chNeed st c = Diverge"
| "evictLoop (Suc f) chNeed st c =
     (if chNeed > length (freeChunk st) then
        if \<not> openLru st then Ret (st, c, False)
        else go_bind (removeOldest onEvict c st) (\<lambda>(c', st'). evictLoop f chNeed st' c')
      else Ret (st, c, True))"

function newLoop :: "bytes \<Rightarrow> nat \<Rightarrow> chunk list \<Rightarrow> bytes \<Rightarrow> bytes \<Rightarrow> nat \<Rightarrow> nat \<Rightarrow> nat \<Rightarrow> bytes" where
  "newLoop d cs chs k v i writeKLen writeVLen =
     (if i < length chs then
        let c = chs ! i;
            d0 = (if i = 0 then write_uint32 (write_uint32 d (cpos c + 4) (w32 (length k)))
                                  (cpos c + 8) (w32 (length v)) else d);
            start = (if i = 0 then 12 else 4);
            d1 = write_uint32 d0 (cpos c) (linkOf chs i);
            d2 = (if writeKLen > 0 then copyTo d1 cs c start (drop (w32 (length k) - writeKLen) k) else d1);
            over = (writeKLen > 0 \<and> writeKLen > sub32 cs start);
            start' = (if writeKLen > 0 then if over then cs else start + writeKLen else start);
            writeKLen' = (if over then writeKLen - sub32 cs start else 0)
        in if writeVLen > 0 \<and> start' < cs then
             let d3 = copyTo d2 cs c start' (drop (w32 (length v) - writeVLen) v)
             in if writeVLen > sub32 cs start'
                then newLoop d3 cs chs k v (Suc i) writeKLen' (writeVLen - sub32 cs start')
                else d3
           else newLoop d2 cs chs k v (Suc i) writeKLen' writeVLen
      else d)"
  by pat_completeness auto
termination
  by (relation "measure (\<lambda>(d, cs, chs, k, v, i, wk, wv). length chs - i)") auto

declare newLoop.simps [simp del]

definition chNeedOf :: "nat \<Rightarrow> nat \<Rightarrow> nat" where
  "chNeedOf need q = (if need mod q > 0 then need div q + 1 else need div q)"

definition setUpdate :: "kvbuffer \<Rightarrow> (bytes, node) lru \<Rightarrow> nat \<Rightarrow> bytes \<Rightarrow> bytes \<Rightarrow> node \<Rightarrow> (kvbuffer \<times> kverr option) go" where
  "setUpdate b c chNeed key val n0 =
     (let st0 = core b;
          cs = chunkSize st0;
          (idx, start) = getValPos cs n0
      in go_bind (growLoop (Suc (chNeed + length (evictList c))) chNeed st0 c n0)
           (\<lambda>(st1, c1, r). case r of
              None \<Rightarrow> Ret (\<lparr>core = st1, klru = Some c1\<rparr>, Some ErrFull)
            | Some n1 \<Rightarrow>
                let (st2, n2) = shrinkLoop chNeed st1 n1;
                    n3 = n2\<lparr>valSize := w32 (length val)\<rparr>
                in if chunks n3 = [] then Panic
                   else let d1 = write_uint32 (kdata st2) (cpos (chunks n3 ! 0) + 8) (valSize n3);
                            d2 = updLoop d1 cs (chunks n3) val idx start (valSize n3)
                        in go_map (\<lambda>(c', st', ev). (\<lparr>core = st', klru = Some c'\<rparr>, None))
                             (Add onEvict key n3 c1 (st2\<lparr>kdata := d2\<rparr>))))"

definition setNew :: "kvbuffer \<Rightarrow> (bytes, node) lru \<Rightarrow> nat \<Rightarrow> bytes \<Rightarrow> bytes \<Rightarrow> (kvbuffer \<times> kverr option) go" where
  "setNew b c chNeed key val =
     go_bind (evictLoop (Suc (Suc (length (evictList c)))) chNeed (core b) c)
       (\<lambda>(st1, c1, ok).
          if \<not> ok then Ret (\<lparr>core = st1, klru = Some c1\<rparr>, Some ErrFull)
          else let n = \<lparr>chunks = take chNeed (freeChunk st1), keySize = w32 (length key), valSize = w32 (length val)\<rparr>;
                   st2 = st1\<lparr>freeChunk := drop chNeed (freeChunk st1)\<rparr>;
                   d = newLoop (kdata st2) (chunkSize st2) (chunks n) key val 0 (keySize n) (valSize n)
               in go_map (\<lambda>(c', st', ev). (\<lparr>core = st', klru = Some c'\<rparr>, None))
                    (Add onEvict key n c1 (st2\<lparr>kdata := d\<rparr>)))"

definition kvSet :: "kvbuffer \<Rightarrow> bytes \<Rightarrow> bytes \<Rightarrow> (kvbuffer \<times> kverr option) go" where
  "kvSet b key val =
     (let need = w32 (length key + length val + 8);
          q = sub32 (chunkSize (core b)) 4
      in if need > w32 (q * chunkNum (core b)) then Ret (b, Some ErrTooLong)
         else if q = 0 then Panic
         else let chNeed = chNeedOf need q in
         case klru b of
           None \<Rightarrow> Panic
         | Some c \<Rightarrow>
             go_bind (Get key c)
               (\<lambda>(c1, v). case v of
                  Some n \<Rightarrow> setUpdate (b\<lparr>klru := Some c1\<rparr>) c1 chNeed key val n
                | None \<Rightarrow> setNew (b\<lparr>klru := Some c1\<rparr>) c1 chNeed key val))"

definition kvDel :: "kvbuffer \<Rightarrow> bytes \<Rightarrow> (kvbuffer \<times> bool) go" where
  "kvDel b k =
     (case klru b of
        None \<Rightarrow> Panic
      | Some c \<Rightarrow> go_map (\<lambda>(c', st', r). (\<lparr>core = st', klru = Some c'\<rparr>, r)) (Remove onEvict k c (core b)))"

definition kvKeys :: "kvbuffer \<Rightarrow> bytes option list go" where
  "kvKeys b = (case klru b of None \<Rightarrow> Panic | Some c \<Rightarrow> Keys c)"


subsection \<open>Stat\<close>

text \<open>\<open>AvalidUsePer\<close> is the percentage of the two numbers given here, which Go computes as a
  \<open>float64\<close>.\<close>

record bufferStat =
  FreeChunkNum :: int
  UsedChunkNum :: int
  FreeDataSize :: int
  UsedDataSize :: int
  CanotUseSize :: int
  KVCount :: int
  AvgKVUseChunk :: int
  AvgKVUseSize :: int
  AvalidUsePer :: "int \<times> int"

definition nodeUsed :: "node \<Rightarrow> int" where
  "nodeUsed n = int (w32 (keySize n + valSize n)) + 8 + int (length (chunks n)) * 4"

definition kvStat :: "kvbuffer \<Rightarrow> bufferStat go" where
  "kvStat b =
     (case klru b of
        None \<Rightarrow> Panic
      | Some c \<Rightarrow>
          let st = core b;
              nodes = map (\<lambda>x. snd (snd x)) (evictList c);
              free = int (length (freeChunk st));
              usedCh = int (chunkNum st) - free;
              used = foldl (\<lambda>s n. s + nodeUsed n) 0 nodes;
              canot = foldl (\<lambda>s n. s + (int (length (chunks n)) * int (chunkSize st) - nodeUsed n)) 0 nodes;
              cnt = int (Len c)
          in Ret \<lparr>FreeChunkNum = free, UsedChunkNum = usedCh,
                  FreeDataSize = canot + free * int (sub32 (chunkNum st) 4),
                  UsedDataSize = used, CanotUseSize = canot, KVCount = cnt,
                  AvgKVUseChunk = (if cnt > 0 then usedCh div cnt else 0),
                  AvgKVUseSize = (if cnt > 0 then used div cnt else 0),
                  AvalidUsePer = (used, used + canot)\<rparr>)"

end
