(* ===== verification/Kvbuffer_Layout.thy ===== *)
theory Kvbuffer_Layout
  imports Kvbuffer
begin

text \<open>
  How a node lies in the array.  The bodies of its chunks (what follows the four link bytes)
  concatenate to its \<open>payload\<close>: two sizes, the key and the value.  The loops that read a
  node return a segment of the payload and the loops that write one change a segment of it,
  and no write to one chunk is seen in another.
\<close>

subsection \<open>Overwriting a list\<close>

lemma nth_blit:
  assumes "p + length src \<le> length d" "i < length d"
  shows "blit p src d ! i = (if p \<le> i \<and> i < p + length src then src ! (i - p) else d ! i)"
  using assms by (auto simp: blit_def Let_def nth_append min_def)

lemma length_blit_fits [simp]: "p + length src \<le> length d \<Longrightarrow> length (blit p src d) = length d"
  by (simp add: length_blit)

lemma subseg_blit_apart:
  assumes "p + length src \<le> length d" "j \<le> p \<or> p + length src \<le> i"
  shows "subseg i j (blit p src d) = subseg i j d"
  using assms by (intro nth_equalityI) (auto simp: subseg_def nth_blit)

lemma subseg_blit_inside:
  assumes "i \<le> p" "p + length src \<le> j" "j \<le> length d"
  shows "subseg i j (blit p src d) = blit (p - i) src (subseg i j d)"
  using assms by (intro nth_equalityI) (auto simp: subseg_def nth_blit add.commute)

lemma drop_blit_le:
  assumes "p + length src \<le> n" "n \<le> length d"
  shows "drop n (blit p src d) = drop n d"
  using assms by (intro nth_equalityI) (auto simp: nth_blit)

lemma blit_Nil [simp]: "blit p [] d = d"
  by (simp add: blit_def)

lemma blit_append:
  assumes "p + length xs + length ys \<le> length d"
  shows "blit (p + length xs) ys (blit p xs d) = blit p (xs @ ys) d"
  using assms by (intro nth_equalityI) (auto simp: nth_blit nth_append)

lemma blit_split:
  assumes "p + length src \<le> length d"
  shows "blit p src d = take p d @ src @ drop (p + length src) d"
  using assms by (auto simp: blit_def Let_def min_def)


subsection \<open>Chunks\<close>

text \<open>The bytes of a chunk, and its body.\<close>

definition cbytes :: "bytes \<Rightarrow> nat \<Rightarrow> chunk \<Rightarrow> bytes" where
  "cbytes d cs c = subseg (cpos c) (cpos c + cs) d"

definition cbody :: "bytes \<Rightarrow> nat \<Rightarrow> chunk \<Rightarrow> bytes" where
  "cbody d cs c = drop 4 (cbytes d cs c)"

definition apart :: "nat \<Rightarrow> chunk \<Rightarrow> chunk \<Rightarrow> bool" where
  "apart cs c c' \<longleftrightarrow> cpos c + cs \<le> cpos c' \<or> cpos c' + cs \<le> cpos c"

definition fits_in :: "bytes \<Rightarrow> nat \<Rightarrow> chunk \<Rightarrow> bool" where
  "fits_in d cs c \<longleftrightarrow> cpos c + cs \<le> length d"

lemma length_cbytes: "fits_in d cs c \<Longrightarrow> length (cbytes d cs c) = cs"
  by (simp add: cbytes_def fits_in_def)

lemma length_cbody: "fits_in d cs c \<Longrightarrow> length (cbody d cs c) = cs - 4"
  by (simp add: cbody_def length_cbytes)

lemma cslice_body:
  "a \<le> b \<Longrightarrow> b \<le> cs \<Longrightarrow> 4 \<le> a \<Longrightarrow> cslice d c a b = take (b - a) (drop (a - 4) (cbody d cs c))"
  by (auto simp: cslice_def cbody_def cbytes_def subseg_def drop_take add.commute)

lemma blit_same:
  assumes "fits_in d cs c" "off + length src \<le> cs"
  shows "cbytes (blit (cpos c + off) src d) cs c = blit off src (cbytes d cs c)"
  using assms subseg_blit_inside [of "cpos c" "cpos c + off" src "cpos c + cs" d]
  by (simp add: cbytes_def fits_in_def)

lemma blit_other:
  assumes "fits_in d cs c" "apart cs c c'" "off + length src \<le> cs"
  shows "cbytes (blit (cpos c + off) src d) cs c' = cbytes d cs c'"
  unfolding cbytes_def using assms
  by (intro subseg_blit_apart) (auto simp: fits_in_def apart_def)

text \<open>Four bytes of link and a copy, as every writing loop does to a chunk.\<close>

lemma write_link:
  assumes "fits_in d cs c" "4 \<le> cs"
  shows "cbody (write_uint32 d (cpos c) n) cs c = cbody d cs c"
    "apart cs c c' \<Longrightarrow> cbytes (write_uint32 d (cpos c) n) cs c' = cbytes d cs c'"
    "length (write_uint32 d (cpos c) n) = length d"
proof -
  show "cbody (write_uint32 d (cpos c) n) cs c = cbody d cs c"
    using blit_same [of d cs c 0 "le_bytes 4 (of_nat n :: u32)"] assms
    by (simp add: cbody_def write_uint32_def drop_blit_le length_cbytes)
  show "apart cs c c' \<Longrightarrow> cbytes (write_uint32 d (cpos c) n) cs c' = cbytes d cs c'"
    using blit_other [of d cs c c' 0] assms by (simp add: write_uint32_def)
  show "length (write_uint32 d (cpos c) n) = length d"
    using assms by (simp add: write_uint32_def fits_in_def)
qed

lemma copyTo_effect:
  assumes "fits_in d cs c" "4 \<le> start" "start \<le> cs"
  shows "cbody (copyTo d cs c start s) cs c =
      take (start - 4) (cbody d cs c) @ take (cs - start) s @ drop (start - 4 + length (take (cs - start) s)) (cbody d cs c)"
    "apart cs c c' \<Longrightarrow> cbytes (copyTo d cs c start s) cs c' = cbytes d cs c'"
    "length (copyTo d cs c start s) = length d"
proof -
  let ?s = "take (cs - start) s"
  have l: "start + length ?s \<le> cs" using assms by simp
  then show "length (copyTo d cs c start s) = length d"
    using assms by (simp add: copyTo_def fits_in_def)
  show "apart cs c c' \<Longrightarrow> cbytes (copyTo d cs c start s) cs c' = cbytes d cs c'"
    using blit_other [OF assms(1) _ l] by (simp add: copyTo_def)
  have "cbody (copyTo d cs c start s) cs c = drop 4 (blit start ?s (cbytes d cs c))"
    using blit_same [OF assms(1) l] by (simp add: copyTo_def cbody_def)
  also have "\<dots> = take (start - 4) (cbody d cs c) @ ?s @ drop (start - 4 + length ?s) (cbody d cs c)"
    using l assms length_cbytes [OF assms(1)]
    by (subst blit_split) (auto simp: cbody_def drop_take)
  finally show "cbody (copyTo d cs c start s) cs c =
      take (start - 4) (cbody d cs c) @ ?s @ drop (start - 4 + length ?s) (cbody d cs c)" .
qed


subsection \<open>The payload of a list of chunks\<close>

definition payload :: "bytes \<Rightarrow> nat \<Rightarrow> chunk list \<Rightarrow> bytes" where
  "payload d cs chs = concat (map (cbody d cs) chs)"

definition all_fit :: "bytes \<Rightarrow> nat \<Rightarrow> chunk list \<Rightarrow> bool" where
  "all_fit d cs chs \<longleftrightarrow> (\<forall>c \<in> set chs. fits_in d cs c)"

lemma payload_append [simp]: "payload d cs (xs @ ys) = payload d cs xs @ payload d cs ys"
  by (simp add: payload_def)

lemma length_payload: "all_fit d cs chs \<Longrightarrow> length (payload d cs chs) = length chs * (cs - 4)"
  by (induction chs) (auto simp: payload_def all_fit_def length_cbody)

lemma drop_payload:
  assumes "all_fit d cs chs" "i \<le> length chs"
  shows "drop (i * (cs - 4)) (payload d cs chs) = payload d cs (drop i chs)"
    "take (i * (cs - 4)) (payload d cs chs) = payload d cs (take i chs)"
proof -
  have "length (payload d cs (take i chs)) = i * (cs - 4)"
    using assms by (subst length_payload) (auto simp: all_fit_def dest: in_set_takeD)
  moreover have "payload d cs chs = payload d cs (take i chs) @ payload d cs (drop i chs)"
    by (metis append_take_drop_id payload_append)
  ultimately show "drop (i * (cs - 4)) (payload d cs chs) = payload d cs (drop i chs)"
    "take (i * (cs - 4)) (payload d cs chs) = payload d cs (take i chs)" by auto
qed

lemma payload_nth:
  assumes "all_fit d cs chs" "i < length chs"
  shows "drop (i * (cs - 4)) (payload d cs chs) = cbody d cs (chs ! i) @ drop (Suc i * (cs - 4)) (payload d cs chs)"
proof -
  have "drop i chs = chs ! i # drop (Suc i) chs" using assms(2) by (rule Cons_nth_drop_Suc [symmetric])
  then show ?thesis
    using drop_payload(1) [OF assms(1), of i] drop_payload(1) [OF assms(1), of "Suc i"] assms(2)
    by (simp add: payload_def)
qed

lemma payload_cong: "(\<And>c. c \<in> set chs \<Longrightarrow> cbytes d' cs c = cbytes d cs c) \<Longrightarrow> payload d' cs chs = payload d cs chs"
  unfolding payload_def cbody_def by (auto intro!: arg_cong [of _ _ concat])


subsection \<open>Reading\<close>

lemma sub32_le: "b \<le> a \<Longrightarrow> a < 2 ^ 32 \<Longrightarrow> sub32 a b = a - b"
proof -
  assume "b \<le> a" "a < 2 ^ 32"
  then have "a + 2 ^ 32 - b = (a - b) + 2 ^ 32" "a - b < 2 ^ 32" by simp_all
  then show ?thesis by (simp only: sub32_def mod_add_self2 mod_less)
qed

lemma w32_small: "n < 2 ^ 32 \<Longrightarrow> w32 n = n"
  by (simp add: w32_def)

lemma readLoop_payload:
  assumes "all_fit d cs chs" "4 < cs" "cs < 2 ^ 32" "idx \<le> length chs" "idx * (cs - 4) + rest \<le> length chs * (cs - 4)"
  shows "readLoop d cs chs idx rest acc = Ret (acc @ take rest (drop (idx * (cs - 4)) (payload d cs chs)))"
  using assms
proof (induction d cs chs idx rest acc rule: readLoop.induct)
  case (1 d cs chs idx rest acc)
  have q: "sub32 cs 4 = cs - 4" using 1 by (simp add: sub32_le)
  have lt: "idx < length chs" if "0 < rest"
  proof (rule ccontr)
    assume "\<not> idx < length chs"
    with "1.prems"(4) have "idx = length chs" by simp
    with "1.prems"(5) that show False by simp
  qed
  have c: "cslice d (chs ! idx) 4 cs = cbody d cs (chs ! idx)" if "idx < length chs"
    using that "1.prems" cslice_body [of 4 cs cs d "chs ! idx"] length_cbody [of d cs "chs ! idx"]
    by (simp add: all_fit_def)
  note n = payload_nth [OF "1.prems"(1)]
  show ?case
  proof (cases "cs - 4 \<le> rest")
    case True
    with "1.prems"(2) lt have i: "idx < length chs" by simp
    have "Suc idx * (cs - 4) + (rest - (cs - 4)) \<le> length chs * (cs - 4)"
      using "1.prems"(5) True by simp
    with 1 True i q have "readLoop d cs chs idx rest acc =
        Ret ((acc @ cbody d cs (chs ! idx)) @ take (rest - (cs - 4)) (drop (Suc idx * (cs - 4)) (payload d cs chs)))"
      by (simp add: readLoop.simps [of d cs chs idx] c [OF i])
    moreover have "length (cbody d cs (chs ! idx)) = cs - 4"
      using "1.prems"(1) i by (simp add: length_cbody all_fit_def)
    ultimately show ?thesis using n [OF i] True by simp
  next
    case False
    show ?thesis
    proof (cases "rest = 0")
      case True
      with False q show ?thesis by (simp add: readLoop.simps [of d cs chs idx])
    next
      case nz: False
      with lt have i: "idx < length chs" by simp
      moreover have "length (cbody d cs (chs ! idx)) = cs - 4"
        using "1.prems"(1) i by (simp add: length_cbody all_fit_def)
      ultimately show ?thesis
        using n [OF i] False nz q cslice_body [of 4 "4 + rest" cs d "chs ! idx"]
        by (simp add: readLoop.simps [of d cs chs idx])
    qed
  qed
qed

lemma valPosLoop_div: "0 < q \<Longrightarrow> valPosLoop q idx rest = (idx + rest div q, rest mod q)"
proof (induction q idx rest rule: valPosLoop.induct)
  case (1 q idx rest)
  show ?case
  proof (cases "q \<le> rest")
    case True
    then have "rest div q = Suc ((rest - q) div q)" "rest mod q = (rest - q) mod q"
      using "1.prems" by (simp_all add: le_div_geq le_mod_geq)
    with 1 True show ?thesis by (simp add: valPosLoop.simps [of q idx rest])
  qed (simp add: valPosLoop.simps [of q idx rest])
qed

text \<open>The position \<open>getValPos\<close> finds is that of byte \<open>8 + keySize\<close> of the payload.\<close>

lemma getValPos_pos:
  assumes "13 \<le> cs" "cs < 2 ^ 32" "keySize n + 12 < 2 ^ 32"
  shows "getValPos cs n = ((8 + keySize n) div (cs - 4), (8 + keySize n) mod (cs - 4) + 4)"
proof -
  have q: "sub32 cs 4 = cs - 4" "sub32 cs 12 = cs - 12" using assms by (simp_all add: sub32_le)
  show ?thesis
  proof (cases "keySize n < cs - 12")
    case True
    then have "8 + keySize n < cs - 4" by simp
    with True show ?thesis by (simp add: getValPos_def q)
  next
    case False
    with assms have r: "sub32 (w32 (keySize n + 12)) cs = keySize n + 12 - cs"
      by (simp add: sub32_le w32_small)
    have e: "8 + keySize n = (cs - 4) + (keySize n + 12 - cs)" using False assms by simp
    have "0 < cs - 4" using assms by simp
    then have "(8 + keySize n) div (cs - 4) = ((keySize n + 12 - cs) div (cs - 4)) + 1"
      "(8 + keySize n) mod (cs - 4) = (keySize n + 12 - cs) mod (cs - 4)"
      unfolding e by (simp_all only: div_add_self1 mod_add_self1 neq0_conv)
    then show ?thesis
      using False by (simp add: getValPos_def q r valPosLoop_div [OF \<open>0 < cs - 4\<close>])
  qed
qed

lemma GetVal_payload:
  assumes "all_fit d cs (chunks n)" "13 \<le> cs" "cs < 2 ^ 32" "length (chunks n) * cs < 2 ^ 32"
    "8 + keySize n + valSize n \<le> length (chunks n) * (cs - 4)" "8 + keySize n < length (chunks n) * (cs - 4)"
  shows "GetVal d cs n = Ret (take (valSize n) (drop (8 + keySize n) (payload d cs (chunks n))))"
proof -
  define q idx off where "q = cs - 4" and "idx = (8 + keySize n) div q" and "off = (8 + keySize n) mod q"
  let ?P = "payload d cs (chunks n)"
  have q: "0 < q" "cs = q + 4" using assms(2) by (auto simp: q_def)
  have off: "off < q" "8 + keySize n = idx * q + off" using q by (auto simp: off_def idx_def)
  have small: "length (chunks n) * q + 4 < 2 ^ 32"
    using assms(4,6) q by (cases "length (chunks n)") (auto simp: algebra_simps)
  have idx: "idx < length (chunks n)"
    unfolding idx_def using assms(6) by (simp add: q_def less_mult_imp_div_less)
  have pos: "getValPos cs n = (idx, off + 4)"
    using getValPos_pos [OF assms(2,3)] small assms(5) by (simp add: idx_def off_def q_def)
  let ?B = "cbody d cs (chunks n ! idx)"
  have B: "length ?B = q" using assms(1) idx by (simp add: length_cbody all_fit_def q_def)
  have P: "drop (8 + keySize n) ?P = drop off ?B @ drop (Suc idx * q) ?P"
  proof -
    have "drop (8 + keySize n) ?P = drop off (drop (idx * q) ?P)"
      by (subst off(2)) (simp add: add.commute)
    also have "drop (idx * q) ?P = ?B @ drop (Suc idx * q) ?P"
      using payload_nth [OF assms(1) idx] by (simp add: q_def)
    finally show ?thesis using off(1) B by simp
  qed
  have s: "sub32 cs (off + 4) = q - off" using off q assms(3) by (simp add: sub32_le)
  show ?thesis
  proof (cases "valSize n \<le> q - off")
    case True
    then have "cslice d (chunks n ! idx) (off + 4) (off + 4 + valSize n) = take (valSize n) (drop off ?B)"
      using cslice_body [of "off + 4" "off + 4 + valSize n" cs d "chunks n ! idx"] off q by simp
    with True idx pos s P B off show ?thesis by (auto simp: GetVal_def)
  next
    case False
    have c: "cslice d (chunks n ! idx) (off + 4) cs = drop off ?B"
      using cslice_body [of "off + 4" cs cs d "chunks n ! idx"] off q B by simp
    have "off \<le> 8 + keySize n" using off(2) by simp
    then have "valSize n + (off + 4) < 2 ^ 32" using small assms(5) by (simp add: q_def)
    with False off have r: "sub32 (w32 (valSize n + (off + 4))) cs = valSize n - (q - off)"
      using q by (simp add: sub32_le w32_small)
    have "Suc idx * q + (valSize n - (q - off)) \<le> length (chunks n) * q"
      using assms(5) off False by (simp add: q_def [symmetric])
    then have "readLoop d cs (chunks n) (Suc idx) (valSize n - (q - off)) (drop off ?B) =
        Ret (drop off ?B @ take (valSize n - (q - off)) (drop (Suc idx * q) ?P))"
      using readLoop_payload [OF assms(1) _ assms(3)] assms(2) idx by (simp add: q_def)
    with False idx pos s c r P B off show ?thesis by (auto simp: GetVal_def)
  qed
qed

text \<open>When the key ends exactly at the end of a chunk and the value is empty, there is no chunk
  for the value to start in.\<close>

lemma GetVal_boundary:
  assumes "13 \<le> cs" "cs < 2 ^ 32" "keySize n + 12 < 2 ^ 32" "8 + keySize n = length (chunks n) * (cs - 4)"
  shows "GetVal d cs n = Panic"
  using getValPos_pos [OF assms(1-3)] assms by (simp add: GetVal_def)

end
