(* ===== verification/Kvbuffer_Write.thy ===== *)
theory Kvbuffer_Write
  imports Kvbuffer_Layout
begin

text \<open>
  Writing a node.  \<open>putStream\<close> is the plain way to lay a byte string over a list of
  chunks; the loops of \<open>Set\<close>, with their separate counters for key and value, are shown to
  be instances of it, and its effect on the payload is computed once.
\<close>

function putStream :: "bytes \<Rightarrow> nat \<Rightarrow> chunk list \<Rightarrow> nat \<Rightarrow> nat \<Rightarrow> bytes \<Rightarrow> bytes" where
  "putStream d cs chs i start s =
     (if i < length chs
      then putStream (copyTo (write_uint32 d (cpos (chs ! i)) (linkOf chs i)) cs (chs ! i) start s)
             cs chs (Suc i) 4 (drop (cs - start) s)
      else d)"
  by pat_completeness auto
termination
  by (relation "measure (\<lambda>(d, cs, chs, i, start, s). length chs - i)") auto

declare putStream.simps [simp del]

text \<open>The chunks of a node lie apart and inside the array.\<close>

definition laid_out :: "bytes \<Rightarrow> nat \<Rightarrow> chunk list \<Rightarrow> bool" where
  "laid_out d cs chs \<longleftrightarrow> all_fit d cs chs \<and>
     (\<forall>i j. i < length chs \<longrightarrow> j < length chs \<longrightarrow> i \<noteq> j \<longrightarrow> apart cs (chs ! i) (chs ! j))"

lemma all_fit_length: "length d' = length d \<Longrightarrow> all_fit d' cs chs = all_fit d cs chs"
  by (simp add: all_fit_def fits_in_def)

lemma copyTo_Nil [simp]: "copyTo d cs c start [] = d"
  by (simp add: copyTo_def)

lemma put_step:
  fixes l :: nat and s :: bytes
  assumes "laid_out d cs chs" "i < length chs" "4 \<le> start" "start \<le> cs"
  defines "c \<equiv> chs ! i"
  defines "d' \<equiv> copyTo (write_uint32 d (cpos c) l) cs c start s"
  shows "length d' = length d" "laid_out d' cs chs"
    "apart cs c c' \<Longrightarrow> cbytes d' cs c' = cbytes d cs c'"
    "cbody d' cs c = take (start - 4) (cbody d cs c) @ take (cs - start) s @
       drop (start - 4 + length (take (cs - start) s)) (cbody d cs c)"
    "payload d' cs (take i chs) = payload d cs (take i chs)"
    "payload d' cs (drop (Suc i) chs) = payload d cs (drop (Suc i) chs)"
proof -
  have c: "fits_in d cs c" "4 \<le> cs" using assms by (auto simp: laid_out_def all_fit_def)
  note w = write_link [OF c, where n = l]
  have c': "fits_in (write_uint32 d (cpos c) l) cs c" using c w(3) by (simp add: fits_in_def)
  note e = copyTo_effect [OF c' assms(3,4), where s = s]
  show len: "length d' = length d" using e(3) w(3) by (simp add: d'_def)
  show "laid_out d' cs chs" using assms(1) all_fit_length [OF len] by (simp add: laid_out_def)
  show other: "cbytes d' cs c' = cbytes d cs c'" if "apart cs c c'" for c'
    using e(2) [OF that] w(2) [OF that] by (simp add: d'_def)
  show "cbody d' cs c = take (start - 4) (cbody d cs c) @ take (cs - start) s @
       drop (start - 4 + length (take (cs - start) s)) (cbody d cs c)"
    using e(1) w(1) by (simp add: d'_def)
  have "apart cs c x" if "x \<in> set (take i chs) \<or> x \<in> set (drop (Suc i) chs)" for x
  proof -
    have "\<exists>j < length chs. j \<noteq> i \<and> x = chs ! j"
      using that
    proof
      assume "x \<in> set (take i chs)"
      then show ?thesis by (auto simp: in_set_conv_nth)
    next
      assume "x \<in> set (drop (Suc i) chs)"
      then obtain k where "k < length chs - Suc i" "x = chs ! (Suc i + k)" by (auto simp: in_set_conv_nth)
      then show ?thesis by (intro exI [of _ "Suc i + k"]) auto
    qed
    with assms show ?thesis by (auto simp: laid_out_def)
  qed
  then show "payload d' cs (take i chs) = payload d cs (take i chs)"
    "payload d' cs (drop (Suc i) chs) = payload d cs (drop (Suc i) chs)"
    by (auto intro!: payload_cong other)
qed

lemma payload_split:
  assumes "all_fit d cs chs" "i < length chs"
  shows "payload d cs chs = payload d cs (take i chs) @ cbody d cs (chs ! i) @ payload d cs (drop (Suc i) chs)"
    "length (payload d cs (take i chs)) = i * (cs - 4)" "length (cbody d cs (chs ! i)) = cs - 4"
proof -
  have "chs = take i chs @ chs ! i # drop (Suc i) chs" using assms(2) by (rule id_take_nth_drop)
  then show "payload d cs chs = payload d cs (take i chs) @ cbody d cs (chs ! i) @ payload d cs (drop (Suc i) chs)"
    by (metis (no_types, lifting) append_Cons append_Nil concat.simps list.map map_append payload_append payload_def)
  have "all_fit d cs (take i chs)" using assms(1) by (auto simp: all_fit_def dest: in_set_takeD)
  then show "length (payload d cs (take i chs)) = i * (cs - 4)"
    using length_payload assms(2) by fastforce
  show "length (cbody d cs (chs ! i)) = cs - 4" using assms by (simp add: length_cbody all_fit_def)
qed

lemma putStream_spec:
  assumes "laid_out d cs chs" "4 \<le> start" "start \<le> cs" "i \<le> length chs"
    "if i < length chs then length s \<le> (cs - start) + (length chs - Suc i) * (cs - 4) else s = []"
  shows "length (putStream d cs chs i start s) = length d \<and>
    (\<forall>c. (\<forall>x \<in> set (drop i chs). apart cs x c) \<longrightarrow> cbytes (putStream d cs chs i start s) cs c = cbytes d cs c) \<and>
    take (i * (cs - 4) + (start - 4) + length s) (payload (putStream d cs chs i start s) cs chs) =
      take (i * (cs - 4) + (start - 4)) (payload d cs chs) @ s"
  using assms
proof (induction d cs chs i start s rule: putStream.induct)
  case (1 d cs chs i start s)
  show ?case
  proof (cases "i < length chs")
    case False
    then have "putStream d cs chs i start s = d" by (simp add: putStream.simps [of d cs chs i])
    with False "1.prems" show ?thesis by simp
  next
    case i: True
    let ?c = "chs ! i" and ?s' = "drop (cs - start) s" and ?q = "cs - 4"
    let ?d2 = "copyTo (write_uint32 d (cpos ?c) (linkOf chs i)) cs ?c start s"
    let ?d' = "putStream ?d2 cs chs (Suc i) 4 ?s'"
    note st = put_step [OF "1.prems"(1) i "1.prems"(2,3), where l = "linkOf chs i" and s = s]
    have step: "putStream d cs chs i start s = ?d'" using i by (simp add: putStream.simps [of d cs chs i])
    have bound: "if Suc i < length chs then length ?s' \<le> (cs - 4) + (length chs - Suc (Suc i)) * (cs - 4) else ?s' = []"
    proof (cases "Suc i < length chs")
      case True
      then have "length chs - Suc i = Suc (length chs - Suc (Suc i))" by simp
      with "1.prems"(5) i have "length s \<le> (cs - start) + (cs - 4 + (length chs - Suc (Suc i)) * (cs - 4))"
        by simp
      then have "length s - (cs - start) \<le> cs - 4 + (length chs - Suc (Suc i)) * (cs - 4)"
        by (subst le_diff_conv) (simp only: add.commute)
      with True show ?thesis by simp
    next
      case False
      then have "length chs = Suc i" using i by simp
      with "1.prems"(5) i show ?thesis by simp
    qed
    have "4 \<le> cs" using "1.prems"(2,3) by simp
    note IH = "1.IH" [OF i st(2) le_refl this _ bound]
    have ih: "length ?d' = length d"
      "\<forall>c. (\<forall>x \<in> set (drop (Suc i) chs). apart cs x c) \<longrightarrow> cbytes ?d' cs c = cbytes ?d2 cs c"
      "take (Suc i * ?q + length ?s') (payload ?d' cs chs) = take (Suc i * ?q) (payload ?d2 cs chs) @ ?s'"
      using IH i st(1) by auto
    have frame: "cbytes ?d' cs c = cbytes d cs c" if "\<forall>x \<in> set (drop i chs). apart cs x c" for c
    proof -
      have "set (drop i chs) = insert ?c (set (drop (Suc i) chs))"
        using Cons_nth_drop_Suc [OF i] by (metis list.simps(15))
      with that ih(2) st(3) show ?thesis by simp
    qed
    have fit: "all_fit d cs chs" "all_fit ?d2 cs chs" using "1.prems"(1) st(2) by (auto simp: laid_out_def)
    let ?A = "payload d cs (take i chs)" and ?b = "cbody d cs ?c"
    note sp = payload_split [OF fit(1) i]
    have p2: "payload ?d2 cs chs = ?A @ cbody ?d2 cs ?c @ payload d cs (drop (Suc i) chs)"
      using payload_split(1) [OF fit(2) i] st(5,6) by simp
    have b2: "length (cbody ?d2 cs ?c) = ?q" using payload_split(3) [OF fit(2) i] .
    have pre: "take (i * ?q + (start - 4)) (payload d cs chs) = ?A @ take (start - 4) ?b"
      using sp "1.prems"(2,3) by simp
    have head: "take (Suc i * ?q) (payload ?d2 cs chs) = ?A @ cbody ?d2 cs ?c"
      using p2 b2 sp(2) by simp
    have "take (i * ?q + (start - 4) + length s) (payload ?d' cs chs) = ?A @ take (start - 4) ?b @ s"
    proof (cases "cs - start \<le> length s")
      case True
      then have "cbody ?d2 cs ?c = take (start - 4) ?b @ take (cs - start) s"
        using st(4) sp(3) "1.prems"(2,3) by simp
      moreover have e: "i * ?q + (start - 4) + length s = Suc i * ?q + length ?s'"
        using True "1.prems"(2,3) by simp
      ultimately show ?thesis unfolding e ih(3) head by simp
    next
      case False
      then have s': "?s' = []" by simp
      have m: "min (i * ?q + (start - 4) + length s) (Suc i * ?q) = i * ?q + (start - 4) + length s"
        using False "1.prems"(2,3) by simp
      have "take (i * ?q + (start - 4) + length s) (payload ?d' cs chs) =
          take (i * ?q + (start - 4) + length s) (take (Suc i * ?q) (payload ?d' cs chs))"
        unfolding take_take m ..
      also have "\<dots> = take (i * ?q + (start - 4) + length s) (?A @ cbody ?d2 cs ?c)"
        using ih(3) s' head by simp
      also have "\<dots> = ?A @ take (start - 4 + length s) (cbody ?d2 cs ?c)"
        using sp(2) by simp
      also have "take (start - 4 + length s) (cbody ?d2 cs ?c) = take (start - 4) ?b @ s"
        using st(4) False sp(3) "1.prems"(2,3) by simp
      finally show ?thesis .
    qed
    with ih(1) frame pre show ?thesis unfolding step by simp
  qed
qed


subsection \<open>The loops of Set\<close>

text \<open>A string needs every one of the chunks from \<open>i\<close> on.\<close>

definition tight :: "nat \<Rightarrow> nat \<Rightarrow> nat \<Rightarrow> nat \<Rightarrow> nat \<Rightarrow> bool" where
  "tight cs n i start w \<longleftrightarrow> (Suc i < n \<longrightarrow> (cs - start) + (n - Suc (Suc i)) * (cs - 4) < w)"

lemma tight_step: "tight cs n i start w \<Longrightarrow> tight cs n (Suc i) 4 (w - (cs - start))"
proof -
  assume t: "tight cs n i start w"
  show ?thesis unfolding tight_def
  proof
    assume "Suc (Suc i) < n"
    then have "n - Suc (Suc i) = Suc (n - Suc (Suc (Suc i)))" by simp
    with t \<open>Suc (Suc i) < n\<close> show "cs - 4 + (n - Suc (Suc (Suc i))) * (cs - 4) < w - (cs - start)"
      by (simp add: tight_def less_diff_conv add.commute)
  qed
qed

lemma updLoop_putStream:
  assumes "4 \<le> start" "start \<le> cs" "cs < 2 ^ 32" "length vl < 2 ^ 32" "w \<le> length vl"
    "tight cs (length chs) i start w"
  shows "updLoop d cs chs vl i start w = putStream d cs chs i start (drop (length vl - w) vl)"
  using assms
proof (induction d cs chs vl i start w rule: updLoop.induct)
  case (1 d cs chs vl i start w)
  have s: "sub32 cs start = cs - start" and l: "w32 (length vl) = length vl"
    using "1.prems" by (simp_all add: sub32_le w32_small)
  show ?case
  proof (cases "i < length chs")
    case i: True
    let ?d1 = "write_uint32 d (cpos (chs ! i)) (linkOf chs i)"
    let ?d2 = "copyTo ?d1 cs (chs ! i) start (drop (length vl - w) vl)"
    let ?w = "if 0 < w \<and> cs - start < w then w - (cs - start) else w"
    have d2: "(if 0 < w then ?d2 else ?d1) = ?d2" by simp
    have "updLoop d cs chs vl i start w = updLoop ?d2 cs chs vl (Suc i) 4 ?w"
      using i by (simp add: updLoop.simps [of d cs chs vl i] s l d2 Let_def)
    also have "\<dots> = putStream ?d2 cs chs (Suc i) 4 (drop (cs - start) (drop (length vl - w) vl))"
    proof (cases "Suc i < length chs")
      case True
      with "1.prems"(6) have w: "cs - start < w" by (auto simp: tight_def)
      then have "?w = w - (cs - start)" by simp
      moreover have "drop (length vl - (w - (cs - start))) vl = drop (cs - start) (drop (length vl - w) vl)"
        using w "1.prems"(5) by (simp add: add.commute)
      ultimately show ?thesis
        using "1.IH" [OF i refl refl, unfolded s l d2] "1.prems" tight_step [OF "1.prems"(6)] w by auto
    next
      case False
      then show ?thesis by (simp add: updLoop.simps [of ?d2] putStream.simps [of ?d2])
    qed
    also have "\<dots> = putStream d cs chs i start (drop (length vl - w) vl)"
      using i by (simp add: putStream.simps [of d cs chs i])
    finally show ?thesis .
  qed (simp add: updLoop.simps [of d cs chs vl i] putStream.simps [of d cs chs i])
qed

text \<open>The key part and the value part that go into one chunk.\<close>

lemma copy_key_val:
  assumes "fits_in d cs c" "start \<le> cs" "kr = drop (length k - wk) k" "wk \<le> length k"
  defines "over \<equiv> wk > 0 \<and> wk > cs - start"
  defines "start' \<equiv> if wk > 0 then if over then cs else start + wk else start"
  defines "d2 \<equiv> if wk > 0 then copyTo d cs c start kr else d"
  shows "(if start' < cs then copyTo d2 cs c start' vr else d2) = copyTo d cs c start (kr @ vr)"
proof -
  have kr: "length kr = wk" using assms(3,4) by simp
  show ?thesis
  proof (cases "wk > cs - start")
    case True
    with kr show ?thesis by (simp add: start'_def over_def d2_def copyTo_def)
  next
    case False
    then have st: "start' = start + wk" by (simp add: start'_def over_def)
    have d2: "d2 = blit (cpos c + start) kr d" using False kr by (auto simp: d2_def copyTo_def)
    have "copyTo d2 cs c start' vr = copyTo d cs c start (kr @ vr)"
      using False kr assms(1,2) blit_append [of "cpos c + start" kr "take (cs - (start + wk)) vr" d]
      by (simp add: copyTo_def st d2 fits_in_def add.assoc)
    moreover have "d2 = copyTo d cs c start (kr @ vr)" if "\<not> start' < cs"
      using that False kr assms(2) by (simp add: d2 st copyTo_def)
    ultimately show ?thesis by simp
  qed
qed


lemma newLoop_putStream:
  assumes "laid_out d cs chs" "12 \<le> cs" "cs < 2 ^ 32" "length k < 2 ^ 32" "length v < 2 ^ 32"
    "wk \<le> length k" "wv \<le> length v" "tight cs (length chs) i start (wk + wv)"
    "start = (if i = 0 then 12 else 4)"
  shows "newLoop d cs chs k v i wk wv =
    putStream (if i = 0 \<and> chs \<noteq> [] then write_uint32 (write_uint32 d (cpos (chs ! 0) + 4) (length k)) (cpos (chs ! 0) + 8) (length v) else d)
      cs chs i start (drop (length k - wk) k @ drop (length v - wv) v)"
  using assms
proof (induction "length chs - i" arbitrary: d i wk wv start rule: less_induct)
  case less
  note prems = less.prems
  show ?case
  proof (cases "i < length chs")
    case i: True
    let ?c = "chs ! i" and ?kr = "drop (length k - wk) k" and ?vr = "drop (length v - wv) v"
    let ?d0 = "if i = 0 then write_uint32 (write_uint32 d (cpos ?c + 4) (length k)) (cpos ?c + 8) (length v) else d"
    let ?d1 = "write_uint32 ?d0 (cpos ?c) (linkOf chs i)"
    let ?over = "wk > 0 \<and> wk > cs - start"
    let ?st = "if wk > 0 then if ?over then cs else start + wk else start"
    let ?d2 = "if wk > 0 then copyTo ?d1 cs ?c start ?kr else ?d1"
    let ?d3 = "copyTo ?d1 cs ?c start (?kr @ ?vr)"
    let ?wk = "if ?over then wk - (cs - start) else 0"
    have start: "4 \<le> start" "start \<le> cs" using prems(2,9) by auto
    have q: "sub32 cs start = cs - start" "sub32 cs ?st = cs - ?st" "w32 (length k) = length k" "w32 (length v) = length v"
      using prems start by (auto simp: sub32_le w32_small)
    have "fits_in d cs ?c" using prems(1) i by (auto simp: laid_out_def all_fit_def)
    then have len0: "length ?d0 = length d" using prems(2) by (auto simp: write_uint32_def fits_in_def)
    then have lay0: "laid_out ?d0 cs chs" using prems(1) all_fit_length [OF len0] by (simp add: laid_out_def)
    note st = put_step [OF lay0 i start, where l = "linkOf chs i" and s = "?kr @ ?vr"]
    have "fits_in ?d0 cs ?c" using lay0 i by (auto simp: laid_out_def all_fit_def)
    then have fit: "fits_in ?d1 cs ?c"
      using write_link(3) [of ?d0 cs ?c "linkOf chs i"] prems(2) by (simp add: fits_in_def)
    have d3: "(if ?st < cs then copyTo ?d2 cs ?c ?st ?vr else ?d2) = ?d3"
      using copy_key_val [OF fit start(2) refl prems(6), where vr = ?vr] .
    have rhs: "putStream ?d0 cs chs i start (?kr @ ?vr) = putStream ?d3 cs chs (Suc i) 4 (drop (cs - start) (?kr @ ?vr))"
      using i by (simp only: putStream.simps [of ?d0 cs chs i] if_True)
    have unf: "newLoop d cs chs k v i wk wv =
        (if wv > 0 \<and> ?st < cs then
           if wv > cs - ?st then newLoop (copyTo ?d2 cs ?c ?st ?vr) cs chs k v (Suc i) ?wk (wv - (cs - ?st))
           else copyTo ?d2 cs ?c ?st ?vr
         else newLoop ?d2 cs chs k v (Suc i) ?wk wv)"
      by (simp only: newLoop.simps [of d cs chs k v i] i if_True Let_def prems(9) [symmetric] q)
    have IH: "newLoop ?d3 cs chs k v (Suc i) wk' wv' =
        putStream ?d3 cs chs (Suc i) 4 (drop (cs - start) (?kr @ ?vr))"
      if "wk' \<le> length k" "wv' \<le> length v" "wk' + wv' = wk + wv - (cs - start)"
        "drop (length k - wk') k @ drop (length v - wv') v = drop (cs - start) (?kr @ ?vr)" for wk' wv'
      using less.hyps [of "Suc i" ?d3 wk' wv' 4] i st(2) prems(2-5) that tight_step [OF prems(8)] by simp
    have kr: "length ?kr = wk" using prems(6) by simp
    have "newLoop d cs chs k v i wk wv = putStream ?d3 cs chs (Suc i) 4 (drop (cs - start) (?kr @ ?vr))"
    proof (cases "wv > 0 \<and> ?st < cs")
      case True
      then have no: "\<not> ?over" and stv: "?st = start + wk" and d: "copyTo ?d2 cs ?c ?st ?vr = ?d3"
        using d3 by (auto split: if_splits)
      show ?thesis
      proof (cases "wv > cs - ?st")
        case more: True
        have ih: "newLoop ?d3 cs chs k v (Suc i) 0 (wv - (cs - (start + wk))) =
            putStream ?d3 cs chs (Suc i) 4 (drop (cs - start) (?kr @ ?vr))"
          using more prems(7) True kr unfolding stv by (intro IH) (auto simp: add.commute)
        have wk0: "?wk = 0" using no by (simp only: if_False)
        have "newLoop d cs chs k v i wk wv = newLoop ?d3 cs chs k v (Suc i) ?wk (wv - (cs - ?st))"
          by (simp only: unf True more if_True simp_thms d)
        then show ?thesis unfolding wk0 stv ih .
      next
        case False
        then have "wk + wv \<le> cs - start" using True unfolding stv by linarith
        then have "\<not> Suc i < length chs" using prems(8) by (auto simp: tight_def)
        then have "putStream ?d3 cs chs (Suc i) 4 (drop (cs - start) (?kr @ ?vr)) = ?d3"
          by (simp only: putStream.simps [of ?d3 cs chs "Suc i"] if_False)
        moreover have "newLoop d cs chs k v i wk wv = copyTo ?d2 cs ?c ?st ?vr"
          by (simp only: unf True False if_True if_False simp_thms)
        ultimately show ?thesis unfolding d by (simp only:)
      qed
    next
      case False
      have d: "?d2 = ?d3"
      proof (cases "?st < cs")
        case True
        with False have "?vr = []" by simp
        with True d3 show ?thesis by (simp only: if_True copyTo_Nil)
      next
        case False
        with d3 show ?thesis by (simp only: if_False)
      qed
      have "newLoop ?d3 cs chs k v (Suc i) ?wk wv = putStream ?d3 cs chs (Suc i) 4 (drop (cs - start) (?kr @ ?vr))"
      proof (rule IH)
        show "?wk \<le> length k" "wv \<le> length v" using prems(6,7) by auto
        show "?wk + wv = wk + wv - (cs - start)" using False start by (auto split: if_splits)
        show "drop (length k - ?wk) k @ ?vr = drop (cs - start) (?kr @ ?vr)"
        proof (cases ?over)
          case True
          moreover from this have "cs - (start + wk) = 0" by linarith
          ultimately show ?thesis using kr prems(6) by (simp add: add.commute)
        next
          case no: False
          then have "wv = 0 \<or> cs - start = wk" using False start by (auto split: if_splits)
          with no kr show ?thesis by auto
        qed
      qed
      moreover have "newLoop d cs chs k v i wk wv = newLoop ?d2 cs chs k v (Suc i) ?wk wv"
        by (simp only: unf False if_False)
      ultimately show ?thesis unfolding d by (simp only:)
    qed
    with rhs i show ?thesis by (cases "i = 0") auto
  qed (auto simp: newLoop.simps [of d cs chs k v i] putStream.simps [of _ cs chs i])
qed

end
