(* ===== verification/Kvbuffer_Own.thy ===== *)
theory Kvbuffer_Own
  imports Kvbuffer_Write "HOL-Library.Multiset" "HOL-Library.Sublist"
begin

text \<open>
  Who owns which chunk.  At every moment the chunks of the array are divided between the free
  list, the nodes in the cache and the node being built; no chunk has two owners, and in LRU
  mode none is lost.  Freeing chunks and evicting nodes keep this division and the values of
  all other nodes.
\<close>

definition geo :: "kvcore \<Rightarrow> bool" where
  "geo st \<longleftrightarrow> 32 \<le> chunkSize st \<and> length (kdata st) = ksize st \<and> ksize st < 2 ^ 32 \<and>
     16 + chunkNum st * chunkSize st \<le> ksize st \<and> 1 \<le> chunkNum st"

definition valid :: "kvcore \<Rightarrow> chunk \<Rightarrow> bool" where
  "valid st c \<longleftrightarrow> 1 \<le> cindex c \<and> cindex c \<le> chunkNum st \<and> cpos c = 16 + (cindex c - 1) * chunkSize st"

definition chunks_of :: "(bytes \<times> node) list \<Rightarrow> chunk list" where
  "chunks_of l = concat (map (\<lambda>e. chunks (snd e)) l)"

definition owned :: "kvcore \<Rightarrow> chunk list \<Rightarrow> bool" where
  "owned st xs \<longleftrightarrow> (\<forall>c \<in> set xs. valid st c) \<and> distinct (map cindex xs) \<and>
     (openLru st \<longrightarrow> length xs = chunkNum st)"

text \<open>A node fits its chunks exactly, and its value has a chunk to start in.\<close>

definition entry_ok :: "kvcore \<Rightarrow> bytes \<times> node \<Rightarrow> bool" where
  "entry_ok st e \<longleftrightarrow>
     (let n = snd e; q = chunkSize st - 4 in
      keySize n = length (fst e) \<and> length (chunks n) = chNeedOf (8 + keySize n + valSize n) q \<and>
      (0 < valSize n \<or> (8 + keySize n) mod q \<noteq> 0))"

definition own :: "kvcore \<Rightarrow> (bytes \<times> node) list \<Rightarrow> chunk list \<Rightarrow> bool" where
  "own st l ex \<longleftrightarrow> geo st \<and> owned st (freeChunk st @ ex @ chunks_of l) \<and> (\<forall>e \<in> set l. entry_ok st e)"

definition val_of :: "kvcore \<Rightarrow> node \<Rightarrow> bytes" where
  "val_of st n = take (valSize n) (drop (8 + keySize n) (payload (kdata st) (chunkSize st) (chunks n)))"

definition same_geo :: "kvcore \<Rightarrow> kvcore \<Rightarrow> bool" where
  "same_geo st st' \<longleftrightarrow> chunkSize st' = chunkSize st \<and> chunkNum st' = chunkNum st \<and> ksize st' = ksize st \<and>
     openLru st' = openLru st \<and> onLruDel st' = onLruDel st"

text \<open>What a step does to the core as far as the entries \<open>l\<close> can tell.\<close>

definition keeps :: "(bytes \<times> node) list \<Rightarrow> kvcore \<Rightarrow> kvcore \<Rightarrow> bool" where
  "keeps l st st' \<longleftrightarrow> same_geo st st' \<and> (\<forall>e \<in> set l. val_of st' (snd e) = val_of st (snd e))"

lemma keeps_refl [simp]: "keeps l st st"
  by (simp add: keeps_def same_geo_def)

lemma keeps_trans: "keeps l st st' \<Longrightarrow> keeps l' st' st'' \<Longrightarrow> set l'' \<subseteq> set l \<Longrightarrow> set l'' \<subseteq> set l' \<Longrightarrow> keeps l'' st st''"
  by (simp add: keeps_def same_geo_def subset_eq)

lemma chunks_of_append [simp]: "chunks_of (a @ b) = chunks_of a @ chunks_of b"
  by (simp add: chunks_of_def)

lemma chunks_of_Cons [simp]: "chunks_of (e # l) = chunks (snd e) @ chunks_of l" "chunks_of [] = []"
  by (simp_all add: chunks_of_def)


subsection \<open>Arithmetic of chunks\<close>

lemma chNeedOf_bounds:
  assumes "0 < q"
  shows "m \<le> chNeedOf m q * q" "0 < m \<Longrightarrow> 0 < chNeedOf m q" "m \<le> n * q \<Longrightarrow> chNeedOf m q \<le> n"
    "1 < chNeedOf m q \<Longrightarrow> (chNeedOf m q - 1) * q < m"
proof -
  have d: "m = m div q * q + m mod q" by simp
  have r: "m mod q < q" using assms by simp
  show "m \<le> chNeedOf m q * q"
    by (subst d, cases "m mod q") (use r in \<open>auto simp: chNeedOf_def\<close>)
  show "0 < m \<Longrightarrow> 0 < chNeedOf m q"
    by (cases "m div q") (auto simp: chNeedOf_def mod_eq_self_iff_div_eq_0 [THEN iffD2])
  show "1 < chNeedOf m q \<Longrightarrow> (chNeedOf m q - 1) * q < m"
    using assms by (cases "m mod q = 0") (auto simp: chNeedOf_def algebra_simps, (metis div_mult_mod_eq less_add_same_cancel1 mult.commute neq0_conv)?)
  show "chNeedOf m q \<le> n" if "m \<le> n * q"
  proof (cases "m mod q = 0")
    case True
    have "m div q \<le> n * q div q" using that by (rule div_le_mono)
    with True assms show ?thesis by (simp add: chNeedOf_def)
  next
    case False
    with that have "m < n * q" by (metis le_neq_implies_less mod_mult_self2_is_0)
    then have "m div q < n" by (rule less_mult_imp_div_less)
    with False show ?thesis by (simp add: chNeedOf_def)
  qed
qed


lemma valid_fits: "geo st \<Longrightarrow> valid st c \<Longrightarrow> fits_in (kdata st) (chunkSize st) c"
proof -
  assume g: "geo st" and v: "valid st c"
  then have "cpos c + chunkSize st = 16 + cindex c * chunkSize st"
    by (cases "cindex c") (auto simp: valid_def)
  moreover have "cindex c * chunkSize st \<le> chunkNum st * chunkSize st"
    using v by (intro mult_le_mono1) (simp add: valid_def)
  ultimately show ?thesis using g unfolding fits_in_def geo_def by linarith
qed

lemma valid_apart: "valid st c \<Longrightarrow> valid st c' \<Longrightarrow> cindex c \<noteq> cindex c' \<Longrightarrow> apart (chunkSize st) c c'"
proof -
  have *: "cpos a + chunkSize st \<le> cpos b" if "valid st a" "valid st b" "cindex a < cindex b" for a b
  proof -
    have "cindex a \<le> cindex b - 1" using that(3) by simp
    then have "cindex a * chunkSize st \<le> (cindex b - 1) * chunkSize st" by (rule mult_le_mono1)
    with that(1,2) show ?thesis by (cases "cindex a") (auto simp: valid_def)
  qed
  assume "valid st c" "valid st c'" "cindex c \<noteq> cindex c'"
  then show ?thesis using * [of c c'] * [of c' c] by (auto simp: apart_def neq_iff)
qed

lemma owned_sub: "owned st (xs @ ys @ zs) \<Longrightarrow> (\<forall>c \<in> set ys. valid st c) \<and> distinct (map cindex ys)"
  by (auto simp: owned_def)

lemma laid_out_valid:
  assumes "geo st" "\<forall>c \<in> set ys. valid st c" "distinct (map cindex ys)"
  shows "laid_out (kdata st) (chunkSize st) ys"
proof -
  have "apart (chunkSize st) (ys ! i) (ys ! j)" if "i < length ys" "j < length ys" "i \<noteq> j" for i j
    using that assms by (intro valid_apart) (auto simp: distinct_conv_nth)
  then show ?thesis using assms valid_fits by (auto simp: laid_out_def all_fit_def)
qed

text \<open>Ownership depends only on which chunks there are, not on their order.\<close>

definition ckey :: "chunk \<Rightarrow> nat \<times> nat" where
  "ckey c = (cpos c, cindex c)"

lemma owned_cong:
  assumes "mset (map ckey xs) = mset (map ckey ys)" "same_geo st st'"
  shows "owned st' xs = owned st ys"
proof -
  have "ckey ` set xs = ckey ` set ys" using mset_eq_setD [OF assms(1)] by simp
  moreover have z: "(\<forall>c \<in> set zs. valid st c) \<longleftrightarrow>
      (\<forall>(p, i) \<in> ckey ` set zs. 1 \<le> i \<and> i \<le> chunkNum st \<and> p = 16 + (i - 1) * chunkSize st)" for zs
    by (auto simp: valid_def ckey_def)
  ultimately have "(\<forall>c \<in> set xs. valid st c) = (\<forall>c \<in> set ys. valid st c)" unfolding z by (simp only:)
  moreover have "mset (map snd (map ckey xs)) = mset (map snd (map ckey ys))"
    using assms(1) by (metis mset_map)
  then have "mset (map cindex xs) = mset (map cindex ys)" by (simp add: ckey_def comp_def)
  then have "distinct (map cindex xs) = distinct (map cindex ys)" "length xs = length ys"
    using mset_eq_imp_distinct_iff mset_eq_length by (blast, metis length_map)
  moreover have "valid st' = valid st" using assms(2) by (auto simp: valid_def same_geo_def)
  ultimately show ?thesis using assms(2) by (auto simp: owned_def same_geo_def)
qed

lemma owned_length: "owned st xs \<Longrightarrow> length xs \<le> chunkNum st"
proof -
  assume o: "owned st xs"
  then have "length xs = card (set (map cindex xs))" by (metis distinct_card length_map owned_def)
  also have "\<dots> \<le> card {1..chunkNum st}" using o by (intro card_mono) (auto simp: owned_def valid_def)
  finally show ?thesis by simp
qed

lemma geo_same: "geo st \<Longrightarrow> same_geo st st' \<Longrightarrow> length (kdata st') = length (kdata st) \<Longrightarrow> geo st'"
  by (auto simp: geo_def same_geo_def)

lemma entry_ok_same: "same_geo st st' \<Longrightarrow> entry_ok st' = entry_ok st"
  by (rule ext) (simp add: entry_ok_def same_geo_def)

lemma own_cong:
  assumes "own st l ex" "same_geo st st'" "length (kdata st') = length (kdata st)" "\<forall>e \<in> set l'. entry_ok st e"
    "mset (map ckey (freeChunk st' @ ex' @ chunks_of l')) = mset (map ckey (freeChunk st @ ex @ chunks_of l))"
  shows "own st' l' ex'"
  using assms owned_cong [OF assms(5,2)] geo_same [of st st'] entry_ok_same [OF assms(2)]
  by (auto simp: own_def)


subsection \<open>Reading a value\<close>

lemma own_node:
  assumes "own st l ex" "e \<in> set l"
  shows "laid_out (kdata st) (chunkSize st) (chunks (snd e))" "\<forall>c \<in> set (chunks (snd e)). valid st c"
proof -
  obtain a b where "l = a @ e # b" using assms(2) by (auto dest: split_list)
  with assms(1) have "(\<forall>c \<in> set (chunks (snd e)). valid st c) \<and> distinct (map cindex (chunks (snd e)))"
    using owned_sub [of st "freeChunk st @ ex @ chunks_of a" "chunks (snd e)" "chunks_of b"]
    by (simp add: own_def)
  with assms(1) show "laid_out (kdata st) (chunkSize st) (chunks (snd e))" "\<forall>c \<in> set (chunks (snd e)). valid st c"
    using laid_out_valid by (auto simp: own_def)
qed

lemma node_chunks_small: "own st l ex \<Longrightarrow> e \<in> set l \<Longrightarrow> length (chunks (snd e)) * chunkSize st < 2 ^ 32"
proof -
  assume o: "own st l ex" and "e \<in> set l"
  then obtain a b where "l = a @ e # b" by (auto dest: split_list)
  then have "length (chunks (snd e)) \<le> length (freeChunk st @ ex @ chunks_of l)" by simp
  also have "\<dots> \<le> chunkNum st" using o by (intro owned_length) (simp add: own_def)
  finally have "length (chunks (snd e)) * chunkSize st \<le> chunkNum st * chunkSize st" by (rule mult_le_mono1)
  moreover have "16 + chunkNum st * chunkSize st \<le> ksize st" "ksize st < 2 ^ 32"
    using o by (simp_all add: own_def geo_def)
  ultimately show ?thesis by linarith
qed

lemma GetVal_own:
  assumes "own st l ex" "e \<in> set l"
  shows "GetVal (kdata st) (chunkSize st) (snd e) = Ret (val_of st (snd e))"
proof -
  let ?n = "snd e" and ?q = "chunkSize st - 4"
  have g: "geo st" and ok: "entry_ok st e" using assms by (auto simp: own_def)
  then have q: "0 < ?q" by (simp add: geo_def)
  have len: "length (chunks ?n) = chNeedOf (8 + keySize ?n + valSize ?n) ?q" using ok by (simp add: entry_ok_def Let_def)
  then have a: "8 + keySize ?n + valSize ?n \<le> length (chunks ?n) * ?q" using chNeedOf_bounds(1) [OF q] by simp
  have "8 + keySize ?n < length (chunks ?n) * ?q"
  proof (cases "valSize ?n = 0")
    case True
    with ok have "(8 + keySize ?n) mod ?q \<noteq> 0" unfolding entry_ok_def Let_def by auto
    then have "8 + keySize ?n \<noteq> length (chunks ?n) * ?q" by (metis mod_mult_self2_is_0)
    with a show ?thesis by simp
  qed (use a in simp)
  moreover have "all_fit (kdata st) (chunkSize st) (chunks ?n)" using own_node [OF assms] by (simp add: laid_out_def)
  moreover have "chunkSize st < 2 ^ 32" using g by (cases "chunkNum st") (auto simp: geo_def)
  ultimately show ?thesis
    unfolding val_of_def using a g node_chunks_small [OF assms] by (intro GetVal_payload) (auto simp: geo_def)
qed


subsection \<open>Freeing\<close>

lemma mset_insertChunk: "mset (insertChunk c l) = add_mset c (mset l)"
  by (induction l) auto

lemma delChunk_own:
  assumes "own st l (c # ex)"
  shows "own (delChunk st c) l ex" "same_geo st (delChunk st c)"
    "(\<forall>x \<in> set chs. valid st x) \<Longrightarrow> payload (kdata (delChunk st c)) (chunkSize st) chs = payload (kdata st) (chunkSize st) chs"
    "length (freeChunk (delChunk st c)) = Suc (length (freeChunk st))"
proof -
  have g: "geo st" and v: "valid st c" using assms by (auto simp: own_def owned_def)
  have f: "fits_in (kdata st) (chunkSize st) c" "4 \<le> chunkSize st" using valid_fits [OF g v] g by (auto simp: geo_def)
  note w = write_link [OF f, where n = 0]
  show s: "same_geo st (delChunk st c)" by (simp add: same_geo_def delChunk_def)
  show "own (delChunk st c) l ex"
    using assms by (intro own_cong [OF assms s]) (auto simp: delChunk_def write_link(3) [OF f] mset_insertChunk ckey_def own_def)
  show "length (freeChunk (delChunk st c)) = Suc (length (freeChunk st))"
    using arg_cong [OF mset_insertChunk [of "c\<lparr>cnext := 0\<rparr>" "freeChunk st"], of size] by (simp add: delChunk_def)
  show "payload (kdata (delChunk st c)) (chunkSize st) chs = payload (kdata st) (chunkSize st) chs"
    if "\<forall>x \<in> set chs. valid st x"
  proof -
    have "cbody (kdata (delChunk st c)) (chunkSize st) x = cbody (kdata st) (chunkSize st) x" if "x \<in> set chs" for x
    proof (cases "cindex x = cindex c")
      case True
      then have "cpos x = cpos c" using v \<open>\<forall>x \<in> set chs. valid st x\<close> that by (simp add: valid_def)
      then have "cbody d cs x = cbody d cs c" for d cs by (simp add: cbody_def cbytes_def)
      with w(1) show ?thesis by (simp add: delChunk_def)
    next
      case False
      then have "apart (chunkSize st) c x" using v that \<open>\<forall>x \<in> set chs. valid st x\<close> by (intro valid_apart) auto
      with w(2) show ?thesis by (simp add: delChunk_def cbody_def)
    qed
    then show ?thesis unfolding payload_def by (auto intro!: arg_cong [of _ _ concat])
  qed
qed


definition same_bodies :: "kvcore \<Rightarrow> kvcore \<Rightarrow> bool" where
  "same_bodies st st' \<longleftrightarrow> same_geo st st' \<and>
     (\<forall>chs. (\<forall>x \<in> set chs. valid st x) \<longrightarrow>
        payload (kdata st') (chunkSize st) chs = payload (kdata st) (chunkSize st) chs)"

lemma same_bodies_trans: "same_bodies st st' \<Longrightarrow> same_bodies st' st'' \<Longrightarrow> same_bodies st st''"
  by (auto simp: same_bodies_def same_geo_def valid_def)

lemma same_bodies_keeps: "own st l ex \<Longrightarrow> same_bodies st st' \<Longrightarrow> keeps l st st'"
  using own_node(2) by (auto simp: keeps_def same_bodies_def val_of_def same_geo_def)

lemma delChunks_own:
  "own st l (chs @ ex) \<Longrightarrow>
     own (foldl delChunk st chs) l ex \<and> same_bodies st (foldl delChunk st chs) \<and>
     length (freeChunk (foldl delChunk st chs)) = length (freeChunk st) + length chs"
proof (induction chs arbitrary: st)
  case Nil
  then show ?case by (simp add: same_bodies_def same_geo_def)
next
  case (Cons c chs)
  then have o: "own st l (c # (chs @ ex))" by simp
  note d = delChunk_own [OF o]
  have "same_bodies st (delChunk st c)" using d(2,3) by (simp add: same_bodies_def)
  with Cons.IH [OF d(1)] d(4) show ?case by (auto intro: same_bodies_trans)
qed

lemma onEvict_own:
  assumes "own st (l @ [(k, n)]) ex"
  shows "\<exists>st'. onEvict k n st = Ret st' \<and> own st' l ex \<and> keeps l st st' \<and>
    length (freeChunk st') = length (freeChunk st) + length (chunks n)"
proof -
  let ?st = "if onLruDel st then st\<lparr>lruDels := lruDels st @ [(k, val_of st n)]\<rparr> else st"
  have "GetVal (kdata st) (chunkSize st) n = Ret (val_of st n)"
    using GetVal_own [OF assms, of "(k, n)"] by simp
  then have e: "onEvict k n st = Ret (delNode ?st n)" by (simp add: onEvict_def)
  have s: "same_geo st ?st" "kdata ?st = kdata st" "freeChunk ?st = freeChunk st" by (auto simp: same_geo_def)
  have ok: "\<forall>e \<in> set l. entry_ok st e" using assms by (simp add: own_def)
  have o: "own ?st l (chunks n @ ex)"
    by (rule own_cong [OF assms s(1)]) (use s ok in \<open>auto simp: ac_simps\<close>)
  from delChunks_own [OF o] same_bodies_keeps [OF o] s have d:
    "own (delNode ?st n) l ex" "keeps l ?st (delNode ?st n)"
    "length (freeChunk (delNode ?st n)) = length (freeChunk st) + length (chunks n)"
    by (auto simp: delNode_def)
  moreover have "keeps l st ?st" using s by (auto simp: keeps_def val_of_def same_geo_def)
  ultimately show ?thesis using e keeps_trans [of l st ?st l "delNode ?st n" l] by auto
qed

text \<open>Evicting the least recently used entry.\<close>

lemma removeOldest_own:
  assumes "lru_inv c" "own st (l @ [(k, n)]) ex" "contents c = pre @ l @ [(k, n)]"
  shows "\<exists>c' st'. removeOldest onEvict c st = Ret (c', st') \<and> lru_inv c' \<and> lsize c' = lsize c \<and>
    contents c' = pre @ l \<and> own st' l ex \<and> keeps l st st' \<and>
    length (freeChunk st') = length (freeChunk st) + length (chunks n)"
proof -
  from onEvict_own [OF assms(2)] obtain st' where st': "onEvict k n st = Ret st'" "own st' l ex" "keeps l st st'"
    "length (freeChunk st') = length (freeChunk st) + length (chunks n)" by blast
  from lru.oldest_law [OF assms(1), of "pre @ l" k n onEvict st] assms(3) obtain c' where
    "removeOldest onEvict c st = go_map (\<lambda>st'. (c', st')) (onEvict k n st)" "lru_inv c'"
    "lsize c' = lsize c" "contents c' = pre @ l" by auto
  with st' show ?thesis by auto
qed

lemma entry_chunks_pos: "own st l ex \<Longrightarrow> e \<in> set l \<Longrightarrow> 0 < length (chunks (snd e))"
  using chNeedOf_bounds(2) [of "chunkSize st - 4" "8 + keySize (snd e) + valSize (snd e)"]
  by (auto simp: own_def entry_ok_def geo_def Let_def)

lemma length_chunks_of: "own st l ex \<Longrightarrow> length l \<le> length (chunks_of l)"
proof -
  assume o: "own st l ex"
  have "length l' \<le> length (chunks_of l')" if "set l' \<subseteq> set l" for l'
    using that
  proof (induction l')
    case (Cons e l')
    then have "0 < length (chunks (snd e))" "length l' \<le> length (chunks_of l')"
      using entry_chunks_pos [OF o, of e] by auto
    then show ?case by (simp del: length_greater_0_conv)
  qed simp
  then show ?thesis by blast
qed

lemma length_entries: "own st l ex \<Longrightarrow> length (freeChunk st) + length ex + length l \<le> chunkNum st"
proof -
  assume o: "own st l ex"
  then have "length (freeChunk st @ ex @ chunks_of l) \<le> chunkNum st" by (intro owned_length) (simp add: own_def)
  with length_chunks_of [OF o] show ?thesis by simp
qed

lemma evictLoop_own:
  assumes "lru_inv c" "own st (contents c) []" "need \<le> chunkNum st" "length (contents c) < f"
  shows "\<exists>st' c' ok. evictLoop f need st c = Ret (st', c', ok) \<and> lru_inv c' \<and> lsize c' = lsize c \<and>
    own st' (contents c') [] \<and> keeps (contents c') st st' \<and> prefix (contents c') (contents c) \<and>
    (ok \<longrightarrow> need \<le> length (freeChunk st')) \<and> (openLru st \<longrightarrow> ok) \<and> (\<not> openLru st \<longrightarrow> st' = st \<and> c' = c)"
  using assms
proof (induction f arbitrary: c st)
  case (Suc f)
  show ?case
  proof (cases "need > length (freeChunk st) \<and> openLru st")
    case False
    with Suc show ?thesis by auto
  next
    case True
    have ne: "contents c \<noteq> []"
    proof
      assume "contents c = []"
      with Suc.prems(2) True have "length (freeChunk st) = chunkNum st" by (simp add: own_def owned_def)
      with True Suc.prems(3) show False by simp
    qed
    then obtain l k n where l: "contents c = l @ [(k, n)]" by (metis append_butlast_last_id prod.collapse)
    from removeOldest_own [OF Suc.prems(1), of st l k n "[]" "[]"] Suc.prems(2) l obtain c1 st1 where
      r: "removeOldest onEvict c st = Ret (c1, st1)" "lru_inv c1" "lsize c1 = lsize c" "contents c1 = l"
        "own st1 l []" "keeps l st st1" by auto
    have g: "chunkNum st1 = chunkNum st" "openLru st1 = openLru st" using r(6) by (auto simp: keeps_def same_geo_def)
    from Suc.IH [of c1 st1] r g Suc.prems(3,4) l obtain st' c' ok where
      e: "evictLoop f need st1 c1 = Ret (st', c', ok)" "lru_inv c'" "lsize c' = lsize c" "own st' (contents c') []"
        "keeps (contents c') st1 st'" "prefix (contents c') l" "ok \<longrightarrow> need \<le> length (freeChunk st')" "openLru st \<longrightarrow> ok"
      by auto
    have "keeps (contents c') st st'"
      by (rule keeps_trans [OF r(6) e(5)]) (use e(6) in \<open>auto dest: set_mono_prefix\<close>)
    moreover have "prefix (contents c') (contents c)" using e(6) l by (simp add: prefix_order.trans [of _ l])
    ultimately show ?thesis using True r(1) e by auto
  qed
qed simp

end
