(* ===== verification/Kvbuffer_Set.thy ===== *)
theory Kvbuffer_Set
  imports Kvbuffer_Own
begin

text \<open>
  \<open>Set\<close> on a new key and on an existing one: the value is written, every other entry that
  is still there keeps its value, and ownership is maintained.
\<close>

text \<open>The bytes \<open>d\<close> replace the array of the core: other entries keep their values when their
  chunks are untouched.\<close>

lemma keeps_data:
  assumes "own st l ex" "length d = length (kdata st)"
    "\<And>c. (\<forall>x \<in> set ex. apart (chunkSize st) x c) \<Longrightarrow> cbytes d (chunkSize st) c = cbytes (kdata st) (chunkSize st) c"
  shows "own (st\<lparr>kdata := d\<rparr>) l ex" "keeps l st (st\<lparr>kdata := d\<rparr>)"
proof -
  have s: "same_geo st (st\<lparr>kdata := d\<rparr>)" by (simp add: same_geo_def)
  show "own (st\<lparr>kdata := d\<rparr>) l ex"
    by (rule own_cong [OF assms(1) s]) (use assms in \<open>auto simp: own_def\<close>)
  have "payload d (chunkSize st) (chunks (snd e)) = payload (kdata st) (chunkSize st) (chunks (snd e))"
    if "e \<in> set l" for e
  proof (rule payload_cong, rule assms(3), rule ballI)
    fix c x assume c: "c \<in> set (chunks (snd e))" and x: "x \<in> set ex"
    have "c \<in> set (chunks_of l)" using c that by (auto simp: chunks_of_def)
    moreover have "cindex ` set ex \<inter> cindex ` set (chunks_of l) = {}"
      "\<forall>y \<in> set ex \<union> set (chunks_of l). valid st y"
      using assms(1) by (simp_all add: own_def owned_def ball_Un)
    ultimately have "valid st x" "valid st c" "cindex x \<noteq> cindex c" using x by blast+
    then show "apart (chunkSize st) x c" by (rule valid_apart)
  qed
  with s show "keeps l st (st\<lparr>kdata := d\<rparr>)" by (simp add: keeps_def val_of_def)
qed

lemma own_ex: "own st l ex \<Longrightarrow> laid_out (kdata st) (chunkSize st) ex \<and> (\<forall>c \<in> set ex. valid st c)"
  using owned_sub [of st "freeChunk st" ex "chunks_of l"] laid_out_valid by (auto simp: own_def)

lemma write_new:
  fixes k v :: bytes
  assumes "own st l ex" "length ex = chNeedOf (8 + length k + length v) (chunkSize st - 4)"
  defines "d \<equiv> newLoop (kdata st) (chunkSize st) ex k v 0 (length k) (length v)"
  defines "n \<equiv> \<lparr>chunks = ex, keySize = length k, valSize = length v\<rparr>"
  shows "own (st\<lparr>kdata := d\<rparr>) l ex" "keeps l st (st\<lparr>kdata := d\<rparr>)" "val_of (st\<lparr>kdata := d\<rparr>) n = v"
proof -
  let ?cs = "chunkSize st" and ?q = "chunkSize st - 4" and ?D = "kdata st"
  have g: "geo st" using assms(1) by (simp add: own_def)
  then have q: "28 \<le> ?q" "0 < ?q" "32 \<le> ?cs" by (auto simp: geo_def)
  have lay: "laid_out ?D ?cs ex" using own_ex [OF assms(1)] by simp
  note b = chNeedOf_bounds [OF q(2), of "8 + length k + length v", folded assms(2)]
  have pos: "0 < length ex" "ex \<noteq> []" using b(2) by auto
  have total: "length ex * ?q \<le> chunkNum st * ?q" using length_entries [OF assms(1)] by (intro mult_le_mono1) simp
  have lt: "chunkNum st * ?cs + 16 \<le> ksize st" "ksize st < 2 ^ 32" using g by (auto simp: geo_def)
  have "chunkNum st * ?q \<le> chunkNum st * ?cs" by simp
  then have small: "8 + length k + length v < 2 ^ 32" using b(1) total lt by linarith
  have cs: "?cs < 2 ^ 32" using lt g by (cases "chunkNum st") (auto simp: geo_def)
  let ?d0 = "write_uint32 (write_uint32 ?D (cpos (ex ! 0) + 4) (length k)) (cpos (ex ! 0) + 8) (length v)"
  have fit: "fits_in ?D ?cs (ex ! 0)" using lay pos by (auto simp: laid_out_def all_fit_def)
  have len0: "length ?d0 = length ?D" using fit q by (simp add: write_uint32_def fits_in_def)
  have lay0: "laid_out ?d0 ?cs ex" using lay all_fit_length [OF len0] by (simp add: laid_out_def)
  have "tight ?cs (length ex) 0 12 (length k + length v)"
    unfolding tight_def
  proof
    assume "Suc 0 < length ex"
    then have "length ex - 1 = Suc (length ex - Suc (Suc 0))" by simp
    with b(4) \<open>Suc 0 < length ex\<close> have "?q + (length ex - Suc (Suc 0)) * ?q < 8 + length k + length v" by simp
    then show "?cs - 12 + (length ex - Suc (Suc 0)) * ?q < length k + length v" using q by linarith
  qed
  then have d: "d = putStream ?d0 ?cs ex 0 12 (k @ v)"
    unfolding d_def using newLoop_putStream [OF lay _ cs, of k v "length k" "length v" 0 12] q small pos by simp
  have "length (k @ v) \<le> (?cs - 12) + (length ex - Suc 0) * ?q"
  proof -
    have "length ex * ?q = ?q + (length ex - Suc 0) * ?q" using pos by (cases "length ex") auto
    with b(1) q show ?thesis unfolding length_append by linarith
  qed
  with putStream_spec [OF lay0, of 12 0 "k @ v"] q pos have p: "length d = length ?D"
    "\<And>c. (\<forall>x \<in> set ex. apart ?cs x c) \<Longrightarrow> cbytes d ?cs c = cbytes ?d0 ?cs c"
    "take (8 + length (k @ v)) (payload d ?cs ex) = take 8 (payload ?d0 ?cs ex) @ k @ v"
    unfolding d len0 by simp_all
  have "cbytes ?d0 ?cs c = cbytes ?D ?cs c" if "\<forall>x \<in> set ex. apart ?cs x c" for c
  proof -
    have a: "apart ?cs (ex ! 0) c" using that pos by auto
    let ?d1 = "write_uint32 ?D (cpos (ex ! 0) + 4) (length k)"
    have "fits_in ?d1 ?cs (ex ! 0)" using fit q by (simp add: fits_in_def write_uint32_def)
    then have "cbytes ?d0 ?cs c = cbytes ?d1 ?cs c"
      unfolding write_uint32_def [of ?d1] using a q by (intro blit_other) simp_all
    also have "\<dots> = cbytes ?D ?cs c"
      unfolding write_uint32_def using fit a q by (intro blit_other) simp_all
    finally show ?thesis .
  qed
  with keeps_data [OF assms(1) p(1)] p(2) show "own (st\<lparr>kdata := d\<rparr>) l ex" "keeps l st (st\<lparr>kdata := d\<rparr>)" by auto
  have "length (payload ?d0 ?cs ex) = length ex * ?q"
    using lay0 by (simp add: length_payload laid_out_def)
  moreover have "8 \<le> length ex * ?q" using b(1) by simp
  ultimately have "length (take 8 (payload ?d0 ?cs ex)) = 8" by simp
  then have "take (length v) (drop (8 + length k) (take (8 + length (k @ v)) (payload d ?cs ex))) = v"
    unfolding p(3) by simp
  then show "val_of (st\<lparr>kdata := d\<rparr>) n = v"
    by (simp add: val_of_def n_def drop_take)
qed


subsection \<open>A new key\<close>

lemma setNew_spec:
  assumes "klru b = Some c" "lru_inv c" "lsize c = int (chunkNum (core b))" "own (core b) (contents c) []"
    "map_of (contents c) k = None" "need = chNeedOf (8 + length k + length v) (chunkSize (core b) - 4)"
    "need \<le> chunkNum (core b)" "0 < length v \<or> (8 + length k) mod (chunkSize (core b) - 4) \<noteq> 0"
  shows "\<exists>st c' err. setNew b c need k v = Ret (\<lparr>core = st, klru = Some c'\<rparr>, err) \<and>
    lru_inv c' \<and> lsize c' = int (chunkNum st) \<and> own st (contents c') [] \<and> keeps [] (core b) st \<and>
    (err = None \<longrightarrow> (\<exists>l n. contents c' = (k, n) # l \<and> prefix l (contents c) \<and> (\<not> openLru (core b) \<longrightarrow> l = contents c) \<and>
         val_of st n = v \<and> keeps l (core b) st)) \<and>
    (\<forall>e. err = Some e \<longrightarrow> e = ErrFull \<and> \<not> openLru (core b) \<and> c' = c \<and> st = core b)"
proof -
  let ?st0 = "core b" and ?q = "chunkSize (core b) - 4"
  obtain st1 c1 ok where e: "evictLoop (Suc (Suc (length (evictList c)))) need ?st0 c = Ret (st1, c1, ok)"
    "lru_inv c1" "lsize c1 = lsize c" "own st1 (contents c1) []" "keeps (contents c1) ?st0 st1"
    "prefix (contents c1) (contents c)" "ok \<longrightarrow> need \<le> length (freeChunk st1)" "openLru ?st0 \<longrightarrow> ok"
    "\<not> openLru ?st0 \<longrightarrow> st1 = ?st0 \<and> c1 = c"
    using evictLoop_own [OF assms(2,4,7), of "Suc (Suc (length (evictList c)))"] by (auto simp: contents_def)
  have g1: "chunkNum st1 = chunkNum ?st0" "chunkSize st1 = chunkSize ?st0"
    using e(5) by (auto simp: keeps_def same_geo_def)
  show ?thesis
  proof (cases ok)
    case False
    with e(8,9) e(1) assms(2-4) show ?thesis by (auto simp: setNew_def)
  next
    case True
    let ?ex = "take need (freeChunk st1)"
    let ?n = "\<lparr>chunks = ?ex, keySize = length k, valSize = length v\<rparr>"
    let ?st2 = "st1\<lparr>freeChunk := drop need (freeChunk st1)\<rparr>"
    have len: "length ?ex = need" using True e(7) by simp
    have s2: "same_geo st1 ?st2" by (simp add: same_geo_def)
    have o2: "own ?st2 (contents c1) ?ex"
    proof (rule own_cong [OF e(4) s2])
      show "\<forall>e \<in> set (contents c1). entry_ok st1 e" using e(4) by (simp add: own_def)
      have f: "image_mset ckey (mset (freeChunk st1)) =
          image_mset ckey (mset (take need (freeChunk st1))) + image_mset ckey (mset (drop need (freeChunk st1)))"
        by (metis append_take_drop_id image_mset_union mset_append)
      show "mset (map ckey (freeChunk ?st2 @ ?ex @ chunks_of (contents c1))) =
          mset (map ckey (freeChunk st1 @ [] @ chunks_of (contents c1)))"
        by (simp add: f ac_simps)
    qed simp
    have need: "length ?ex = chNeedOf (8 + length k + length v) (chunkSize ?st2 - 4)"
      using len g1(2) assms(6) by simp
    let ?d = "newLoop (kdata ?st2) (chunkSize ?st2) ?ex k v 0 (length k) (length v)"
    let ?st3 = "?st2\<lparr>kdata := ?d\<rparr>"
    note w = write_new [OF o2 need]
    have g: "geo st1" using e(4) by (simp add: own_def)
    then have q: "0 < ?q" using g1(2) by (simp add: geo_def)
    have pos: "0 < need" using chNeedOf_bounds(2) [OF q] assms(6) by simp
    have small: "length k < 2 ^ 32" "length v < 2 ^ 32"
    proof -
      have "8 + length k + length v \<le> need * ?q" using chNeedOf_bounds(1) [OF q] assms(6) by simp
      also have "\<dots> \<le> chunkNum ?st0 * chunkSize ?st0" using assms(7) by (intro mult_le_mono) auto
      finally show "length k < 2 ^ 32" "length v < 2 ^ 32" using g g1 by (auto simp: geo_def)
    qed
    have n1: "map_of (contents c1) k = None"
      using assms(5) e(6) by (auto simp: map_of_eq_None_iff dest: set_mono_prefix)
    have "int (length (contents c1)) < lsize c1"
      using length_entries [OF o2] len pos g1 e(3) assms(3) by simp
    with lru.add_law [OF e(2), of k onEvict ?n ?st3] obtain c2 where
      a: "Add onEvict k ?n c1 ?st3 = Ret (c2, ?st3, False)" "lru_inv c2" "lsize c2 = lsize c1"
        "contents c2 = (k, ?n) # contents c1"
      using n1 by (auto simp: drop_key_id map_of_eq_None_iff)
    have "setNew b c need k v = Ret (\<lparr>core = ?st3, klru = Some c2\<rparr>, None)"
      using e(1) True a(1) small by (simp add: setNew_def Let_def w32_small)
    moreover have "own ?st3 (contents c2) []"
    proof (rule own_cong [OF w(1)])
      have "entry_ok ?st3 (k, ?n)" using need assms(8) g1(2) by (simp add: entry_ok_def Let_def)
      then show "\<forall>e \<in> set (contents c2). entry_ok ?st3 e" using w(1) a(4) by (simp add: own_def)
    qed (use a(4) in \<open>auto simp: same_geo_def ac_simps\<close>)
    moreover have "keeps (contents c1) ?st0 ?st3"
    proof -
      have "keeps (contents c1) st1 ?st2" by (simp add: keeps_def same_geo_def val_of_def)
      from keeps_trans [OF this w(2)] keeps_trans [OF e(5)] show ?thesis by blast
    qed
    moreover have "keeps [] ?st0 ?st3" using calculation(3) by (simp add: keeps_def)
    moreover have "lsize c2 = int (chunkNum ?st3)" using a(3) e(3) assms(3) g1 by simp
    ultimately show ?thesis using a(2,4) e(6,9) w(3) by (intro exI [of _ ?st3] exI [of _ c2] exI [of _ None]) auto
  qed
qed


subsection \<open>An existing key\<close>

lemma growLoop_own:
  assumes "lru_inv c" "contents c = (k, n0) # l" "own st l (chunks n)" "need \<le> chunkNum st"
    "need - length (chunks n) + length l < f"
  shows "\<exists>st' c' r l' n'. growLoop f need st c n = Ret (st', c', r) \<and> lru_inv c' \<and> lsize c' = lsize c \<and>
    contents c' = (k, n0) # l' \<and> prefix l' l \<and> keeps l' st st' \<and> own st' l' (chunks n') \<and>
    keySize n' = keySize n \<and> prefix (chunks n) (chunks n') \<and>
    (\<not> openLru st \<longrightarrow> l' = l \<and> kdata st' = kdata st) \<and>
    (r = None \<longrightarrow> \<not> openLru st) \<and> (\<forall>m. r = Some m \<longrightarrow> m = n' \<and> need \<le> length (chunks n'))"
  using assms
proof (induction f arbitrary: c st n l)
  case (Suc f)
  note prems = Suc.prems
  consider (enough) "need \<le> length (chunks n)" | (full) "need > length (chunks n)" "freeChunk st = []" "\<not> openLru st"
    | (evict) "need > length (chunks n)" "freeChunk st = []" "openLru st"
    | (take) ch r where "need > length (chunks n)" "freeChunk st = ch # r"
    by (cases "freeChunk st") fastforce+
  then show ?case
  proof cases
    case enough
    then show ?thesis using prems by (intro exI [of _ st] exI [of _ c] exI [of _ "Some n"] exI [of _ l] exI [of _ n]) simp
  next
    case full
    then show ?thesis using prems by (intro exI [of _ st] exI [of _ c] exI [of _ None] exI [of _ l] exI [of _ n]) simp
  next
    case evict
    have "l \<noteq> []"
    proof
      assume "l = []"
      with prems(3) evict have "length (chunks n) = chunkNum st" by (simp add: own_def owned_def)
      with evict prems(4) show False by simp
    qed
    then obtain l0 k1 n1 where l: "l = l0 @ [(k1, n1)]" by (metis append_butlast_last_id prod.collapse)
    from removeOldest_own [OF prems(1), of st l0 k1 n1 "chunks n" "[(k, n0)]"] prems(2,3) l obtain c1 st1 where
      r: "removeOldest onEvict c st = Ret (c1, st1)" "lru_inv c1" "lsize c1 = lsize c" "contents c1 = (k, n0) # l0"
        "own st1 l0 (chunks n)" "keeps l0 st st1" by auto
    have g: "chunkNum st1 = chunkNum st" "openLru st1 = openLru st" using r(6) by (auto simp: keeps_def same_geo_def)
    have "need \<le> chunkNum st1" "need - length (chunks n) + length l0 < f" using prems(4,5) g l by simp_all
    from Suc.IH [OF r(2,4,5) this] g obtain st' c' x l' n' where
      e: "growLoop f need st1 c1 n = Ret (st', c', x)" "lru_inv c'" "lsize c' = lsize c1" "contents c' = (k, n0) # l'"
        "prefix l' l0" "keeps l' st1 st'" "own st' l' (chunks n')" "keySize n' = keySize n" "prefix (chunks n) (chunks n')"
        "x = None \<longrightarrow> \<not> openLru st" "\<forall>m. x = Some m \<longrightarrow> m = n' \<and> need \<le> length (chunks n')"
      by fastforce
    have "keeps l' st st'" by (rule keeps_trans [OF r(6) e(6)]) (use e(5) in \<open>auto dest: set_mono_prefix\<close>)
    moreover have "prefix l' l" using e(5) l by (simp add: prefix_order.trans [of _ l0])
    ultimately show ?thesis
      using evict r e by (intro exI [of _ st'] exI [of _ c'] exI [of _ x] exI [of _ l'] exI [of _ n']) auto
  next
    case take
    let ?st = "st\<lparr>freeChunk := r\<rparr>" and ?n = "n\<lparr>chunks := chunks n @ [ch]\<rparr>"
    have o: "own ?st l (chunks ?n)"
      by (rule own_cong [OF prems(3)]) (use take prems(3) in \<open>auto simp: same_geo_def own_def ac_simps\<close>)
    have "need \<le> chunkNum ?st" "need - length (chunks ?n) + length l < f" using prems(4,5) take by simp_all
    from Suc.IH [OF prems(1,2) o this] obtain st' c' x l' n' where
      e: "growLoop f need ?st c ?n = Ret (st', c', x)" "lru_inv c'" "lsize c' = lsize c" "contents c' = (k, n0) # l'"
        "prefix l' l" "keeps l' ?st st'" "own st' l' (chunks n')" "keySize n' = keySize n"
        "prefix (chunks n @ [ch]) (chunks n')"
        "\<not> openLru st \<longrightarrow> l' = l \<and> kdata st' = kdata st"
        "x = None \<longrightarrow> \<not> openLru st" "\<forall>m. x = Some m \<longrightarrow> m = n' \<and> need \<le> length (chunks n')"
      by fastforce
    have "keeps l' st st'" using e(6) by (auto simp: keeps_def same_geo_def val_of_def)
    moreover have "prefix (chunks n) (chunks n')" using e(9) by (metis append_prefixD)
    ultimately show ?thesis
      using take e by (intro exI [of _ st'] exI [of _ c'] exI [of _ x] exI [of _ l'] exI [of _ n']) auto
  qed
qed simp

lemma shrinkLoop_own:
  assumes "own st l (chunks n)" "need \<le> length (chunks n)"
  shows "\<exists>st'. shrinkLoop need st n = (st', n\<lparr>chunks := take need (chunks n)\<rparr>) \<and>
    own st' l (take need (chunks n)) \<and> same_bodies st st'"
  using assms
proof (induction need st n rule: shrinkLoop.induct)
  case (1 need st n)
  show ?case
  proof (cases "need < length (chunks n)")
    case True
    then have ne: "chunks n \<noteq> []" by auto
    let ?c = "last (chunks n)" and ?n = "n\<lparr>chunks := butlast (chunks n)\<rparr>"
    have m: "mset (chunks n) = add_mset ?c (mset (butlast (chunks n)))"
      using ne by (metis append_butlast_last_id mset_append union_mset_add_mset_right mset.simps add.right_neutral)
    have o: "own st l (?c # butlast (chunks n))"
      by (rule own_cong [OF "1.prems"(1)]) (use "1.prems"(1) m in \<open>auto simp: same_geo_def own_def\<close>)
    note d = delChunk_own [OF o]
    have "need \<le> length (chunks ?n)" using True by simp
    from "1.IH" [OF True] d(1) this obtain st' where
      e: "shrinkLoop need (delChunk st ?c) ?n = (st', ?n\<lparr>chunks := take need (butlast (chunks n))\<rparr>)"
        "own st' l (take need (butlast (chunks n)))" "same_bodies (delChunk st ?c) st'" by auto
    have "take need (butlast (chunks n)) = take need (chunks n)" using True by (simp add: take_butlast)
    moreover have "same_bodies st (delChunk st ?c)" using d(2,3) by (simp add: same_bodies_def)
    ultimately show ?thesis
      using e same_bodies_trans True by (auto simp: shrinkLoop.simps [of need st n])
  next
    case False
    then have "shrinkLoop need st n = (st, n)" by (simp add: shrinkLoop.simps [of need st n])
    with False "1.prems" show ?thesis by (auto simp: same_bodies_def same_geo_def)
  qed
qed


text \<open>Rewriting the value in place.\<close>

lemma write_update:
  fixes v :: bytes
  assumes "own st l ex" "length ex = chNeedOf (8 + ks + length v) (chunkSize st - 4)"
    "0 < length v \<or> (8 + ks) mod (chunkSize st - 4) \<noteq> 0" "keySize n0 = ks"
  defines "d1 \<equiv> write_uint32 (kdata st) (cpos (ex ! 0) + 8) (length v)"
  defines "d \<equiv> updLoop d1 (chunkSize st) ex v (fst (getValPos (chunkSize st) n0)) (snd (getValPos (chunkSize st) n0)) (length v)"
  defines "n \<equiv> \<lparr>chunks = ex, keySize = ks, valSize = length v\<rparr>"
  shows "own (st\<lparr>kdata := d\<rparr>) l ex" "keeps l st (st\<lparr>kdata := d\<rparr>)" "val_of (st\<lparr>kdata := d\<rparr>) n = v"
proof -
  let ?cs = "chunkSize st" and ?q = "chunkSize st - 4" and ?D = "kdata st"
  define idx off where "idx = (8 + ks) div ?q" and "off = (8 + ks) mod ?q"
  have g: "geo st" using assms(1) by (simp add: own_def)
  then have q: "28 \<le> ?q" "0 < ?q" "32 \<le> ?cs" by (auto simp: geo_def)
  have lay: "laid_out ?D ?cs ex" using own_ex [OF assms(1)] by simp
  note b = chNeedOf_bounds [OF q(2), of "8 + ks + length v", folded assms(2)]
  have pos: "0 < length ex" "ex \<noteq> []" using b(2) by auto
  have total: "length ex * ?cs \<le> chunkNum st * ?cs" using length_entries [OF assms(1)] by (intro mult_le_mono1) simp
  have lt: "chunkNum st * ?cs + 16 \<le> ksize st" "ksize st < 2 ^ 32" using g by (auto simp: geo_def)
  have "length ex * ?q + 4 \<le> length ex * ?cs" using pos q by (cases "length ex") (auto simp: algebra_simps)
  then have small: "8 + ks + length v + 4 < 2 ^ 32" using b(1) total lt by linarith
  have cs: "?cs < 2 ^ 32" using lt g by (cases "chunkNum st") (auto simp: geo_def)
  have vp: "getValPos ?cs n0 = (idx, off + 4)"
    using getValPos_pos [of ?cs n0] cs q small by (simp add: assms(4) idx_def off_def)
  have off: "off < ?q" "8 + ks = idx * ?q + off" using q(2) by (simp_all only: off_def idx_def div_mult_mod_eq mod_less_divisor)
  have "8 + ks < length ex * ?q"
  proof (cases "length v = 0")
    case True
    with assms(3) have "8 + ks \<noteq> length ex * ?q" by (metis less_nat_zero_code mod_mult_self2_is_0)
    with b(1) show ?thesis by simp
  qed (use b(1) in linarith)
  then have idx: "idx < length ex" unfolding idx_def by (rule less_mult_imp_div_less)
  then obtain m where m: "length ex = Suc idx + m" using less_iff_Suc_add by auto
  have d1: "fits_in ?D ?cs (ex ! 0)" using lay pos by (auto simp: laid_out_def all_fit_def)
  have len1: "length d1 = length ?D" using d1 q by (simp add: d1_def write_uint32_def fits_in_def)
  have lay1: "laid_out d1 ?cs ex" using lay all_fit_length [OF len1] by (simp add: laid_out_def)
  have room: "length v \<le> (?q - off) + m * ?q"
    using b(1) off unfolding m by (simp add: algebra_simps)
  have "tight ?cs (length ex) idx (off + 4) (length v)"
    unfolding tight_def
  proof
    assume "Suc idx < length ex"
    then obtain j where j: "m = Suc j" using m by (cases m) auto
    have "(idx + Suc j) * ?q < idx * ?q + off + length v" using b(4) unfolding m j off(2) by simp
    then have "?q + j * ?q < off + length v" by (simp add: add_mult_distrib)
    moreover have "length ex - Suc (Suc idx) = j" using m j by simp
    ultimately show "?cs - (off + 4) + (length ex - Suc (Suc idx)) * ?q < length v" using off(1) by simp
  qed
  then have d: "d = putStream d1 ?cs ex idx (off + 4) v"
    unfolding d_def vp using updLoop_putStream [of "off + 4" ?cs v "length v" ex idx d1] off(1) cs small by simp
  have p: "length d = length ?D"
    "\<And>c. (\<forall>x \<in> set (drop idx ex). apart ?cs x c) \<Longrightarrow> cbytes d ?cs c = cbytes d1 ?cs c"
    "take (8 + ks + length v) (payload d ?cs ex) = take (8 + ks) (payload d1 ?cs ex) @ v"
    using putStream_spec [OF lay1, of "off + 4" idx v] off idx room m len1 unfolding d by simp_all
  have "cbytes d ?cs c = cbytes ?D ?cs c" if a: "\<forall>x \<in> set ex. apart ?cs x c" for c
  proof -
    have "cbytes d ?cs c = cbytes d1 ?cs c" using p(2) a by (meson in_set_dropD)
    also have "\<dots> = cbytes ?D ?cs c"
      unfolding d1_def write_uint32_def using d1 a pos q by (intro blit_other) auto
    finally show ?thesis .
  qed
  with keeps_data [OF assms(1) p(1)] show "own (st\<lparr>kdata := d\<rparr>) l ex" "keeps l st (st\<lparr>kdata := d\<rparr>)" by auto
  have "length (payload d1 ?cs ex) = length ex * ?q" using lay1 by (simp add: length_payload laid_out_def)
  then have "length (take (8 + ks) (payload d1 ?cs ex)) = 8 + ks" using b(1) by simp
  then have "take (length v) (drop (8 + ks) (take (8 + ks + length v) (payload d ?cs ex))) = v"
    unfolding p(3) by simp
  then show "val_of (st\<lparr>kdata := d\<rparr>) n = v" by (simp add: val_of_def n_def drop_take)
qed


lemma own_prefix:
  assumes "own st l ex" "prefix ex' ex" "\<not> openLru st"
  shows "own st l ex'"
proof -
  obtain zs where "ex = ex' @ zs" using assms(2) by (auto simp: prefix_def)
  with assms(1,3) show ?thesis
    by (simp add: own_def owned_def image_Un Int_Un_distrib Int_Un_distrib2 ball_Un)
qed

lemma setUpdate_spec:
  assumes "klru b = Some c" "lru_inv c" "lsize c = int (chunkNum (core b))" "own (core b) (contents c) []"
    "contents c = (k, n0) # l" "need = chNeedOf (8 + length k + length v) (chunkSize (core b) - 4)"
    "need \<le> chunkNum (core b)" "0 < length v \<or> (8 + length k) mod (chunkSize (core b) - 4) \<noteq> 0"
  shows "\<exists>st c' err. setUpdate b c need k v n0 = Ret (\<lparr>core = st, klru = Some c'\<rparr>, err) \<and>
    lru_inv c' \<and> lsize c' = int (chunkNum st) \<and> own st (contents c') [] \<and> keeps [] (core b) st \<and>
    (err = None \<longrightarrow> (\<exists>l' n. contents c' = (k, n) # l' \<and> prefix l' l \<and> (\<not> openLru (core b) \<longrightarrow> l' = l) \<and>
         val_of st n = v \<and> keeps l' (core b) st)) \<and>
    (\<forall>e. err = Some e \<longrightarrow> e = ErrFull \<and> \<not> openLru (core b) \<and> contents c' = contents c \<and> keeps (contents c) (core b) st)"
proof -
  let ?st0 = "core b" and ?cs = "chunkSize (core b)" and ?q = "chunkSize (core b) - 4"
  have ok0: "entry_ok ?st0 (k, n0)" and ks: "keySize n0 = length k"
    using assms(4,5) by (auto simp: own_def entry_ok_def Let_def)
  have okl: "\<forall>e \<in> set l. entry_ok ?st0 e" using assms(4,5) by (simp add: own_def)
  have o0: "own ?st0 l (chunks n0)"
    by (rule own_cong [OF assms(4)]) (use assms(5) okl in \<open>auto simp: same_geo_def\<close>)
  have "need - length (chunks n0) + length l < Suc (need + length (evictList c))"
    using arg_cong [OF assms(5), of length] by (simp add: contents_def)
  from growLoop_own [OF assms(2,5) o0 assms(7) this] obtain st1 c1 r l1 n1 where
    gr: "growLoop (Suc (need + length (evictList c))) need ?st0 c n0 = Ret (st1, c1, r)" "lru_inv c1" "lsize c1 = lsize c"
      "contents c1 = (k, n0) # l1" "prefix l1 l" "keeps l1 ?st0 st1" "own st1 l1 (chunks n1)" "keySize n1 = keySize n0"
      "prefix (chunks n0) (chunks n1)" "\<not> openLru ?st0 \<longrightarrow> l1 = l \<and> kdata st1 = kdata ?st0"
      "r = None \<longrightarrow> \<not> openLru ?st0" "\<forall>m. r = Some m \<longrightarrow> m = n1 \<and> need \<le> length (chunks n1)"
    by blast
  have g1: "same_geo ?st0 st1" "chunkNum st1 = chunkNum ?st0" "chunkSize st1 = ?cs" "openLru st1 = openLru ?st0"
    using gr(6) by (auto simp: keeps_def same_geo_def)
  show ?thesis
  proof (cases r)
    case None
    then have lru: "\<not> openLru ?st0" "l1 = l" "kdata st1 = kdata ?st0" using gr(10,11) by auto
    have "own st1 l1 (chunks n0)" using own_prefix [OF gr(7,9)] lru g1 by simp
    then have o: "own st1 (contents c1) []"
      by (rule own_cong) (use gr(4) ok0 okl lru(2) entry_ok_same [OF g1(1)] in \<open>auto simp: same_geo_def\<close>)
    moreover have "keeps (contents c) ?st0 st1" using g1(1) lru(3) by (simp add: keeps_def val_of_def same_geo_def)
    moreover have "setUpdate b c need k v n0 = Ret (\<lparr>core = st1, klru = Some c1\<rparr>, Some ErrFull)"
      using gr(1) None by (simp add: setUpdate_def case_prod_beta del: growLoop.simps)
    ultimately show ?thesis
      using gr(2-4) assms(3,5) g1 lru
      by (intro exI [of _ st1] exI [of _ c1] exI [of _ "Some ErrFull"]) (auto simp: keeps_def)
  next
    case (Some m)
    then have m: "r = Some n1" "need \<le> length (chunks n1)" using gr(12) by auto
    obtain st2 where sh: "shrinkLoop need st1 n1 = (st2, n1\<lparr>chunks := take need (chunks n1)\<rparr>)"
      "own st2 l1 (take need (chunks n1))" "same_bodies st1 st2"
      using shrinkLoop_own [OF gr(7) m(2)] by blast
    have g2: "same_geo ?st0 st2" "chunkNum st2 = chunkNum ?st0" "chunkSize st2 = ?cs" "openLru st2 = openLru ?st0"
      using sh(3) g1 by (auto simp: same_bodies_def same_geo_def)
    let ?ex = "take need (chunks n1)"
    let ?n = "\<lparr>chunks = ?ex, keySize = length k, valSize = length v\<rparr>"
    have len: "length ?ex = chNeedOf (8 + length k + length v) (chunkSize st2 - 4)" using m(2) g2 assms(6) by simp
    have safe: "0 < length v \<or> (8 + length k) mod (chunkSize st2 - 4) \<noteq> 0" using assms(8) g2 by simp
    let ?d1 = "write_uint32 (kdata st2) (cpos (?ex ! 0) + 8) (length v)"
    let ?d = "updLoop ?d1 (chunkSize st2) ?ex v (fst (getValPos (chunkSize st2) n0)) (snd (getValPos (chunkSize st2) n0)) (length v)"
    let ?st3 = "st2\<lparr>kdata := ?d\<rparr>"
    note w = write_update [OF sh(2) len safe ks]
    have "geo st2" using sh(2) by (simp add: own_def)
    then have q: "0 < ?q" and gs: "16 + chunkNum ?st0 * ?cs \<le> ksize st2" "ksize st2 < 2 ^ 32"
      using g2 by (auto simp: geo_def)
    have pos: "?ex \<noteq> []" using chNeedOf_bounds(2) [OF q, of "8 + length k + length v"] len g2(3) by auto
    have small: "length v < 2 ^ 32"
    proof -
      have "8 + length k + length v \<le> need * ?q" using chNeedOf_bounds(1) [OF q] assms(6) by simp
      also have "\<dots> \<le> chunkNum ?st0 * ?cs" using assms(7) by (intro mult_le_mono) auto
      finally show ?thesis using gs by linarith
    qed
    have kn: "drop_key k (contents c1) = l1"
    proof -
      have "k \<notin> fst ` set l1" using lru.keys_distinct [OF gr(2)] gr(4) by simp
      with gr(4) drop_key_id [of k l1] show ?thesis by (simp add: drop_key_def)
    qed
    have n3: "n1\<lparr>chunks := ?ex, valSize := length v\<rparr> = ?n" using gr(8) ks by simp
    from lru.add_law [OF gr(2), of k onEvict ?n ?st3] gr(4) obtain c2 where
      a: "Add onEvict k ?n c1 ?st3 = Ret (c2, ?st3, False)" "lru_inv c2" "lsize c2 = lsize c1"
        "contents c2 = (k, ?n) # l1" unfolding kn by auto
    have "setUpdate b c need k v n0 = Ret (\<lparr>core = ?st3, klru = Some c2\<rparr>, None)"
      using gr(1) m(1) sh(1) small pos a(1) g2(3) gr(8) ks
      by (simp add: setUpdate_def case_prod_beta Let_def w32_small n3 del: growLoop.simps)
    moreover have "own ?st3 (contents c2) []"
    proof (rule own_cong [OF w(1)])
      have "entry_ok ?st3 (k, ?n)" using len safe by (simp add: entry_ok_def Let_def)
      then show "\<forall>e \<in> set (contents c2). entry_ok ?st3 e" using w(1) a(4) by (simp add: own_def)
    qed (use a(4) in \<open>auto simp: same_geo_def ac_simps\<close>)
    moreover have kp: "keeps l1 ?st0 ?st3"
      using keeps_trans [OF gr(6) keeps_trans [OF same_bodies_keeps [OF gr(7) sh(3)] w(2)]] by blast
    ultimately show ?thesis
      using a(2-4) gr(3,5,10) assms(3) g2 w(3) 
      by (intro exI [of _ ?st3] exI [of _ c2] exI [of _ None]) (auto simp: keeps_def)
  qed
qed

end
