(* ===== verification/Kvbuffer_Props.thy ===== *)
theory Kvbuffer_Props
  imports Kvbuffer_Set
begin

text \<open>
  The buffer as a map.  \<open>kv_map\<close> is the abstract contents of a buffer; the operations of
  the Go type refine lookup, update and deletion of that map, and keep the invariant
  \<open>kv_inv\<close>.
\<close>

definition kv_inv :: "kvbuffer \<Rightarrow> bool" where
  "kv_inv b \<longleftrightarrow> (\<exists>c. klru b = Some c \<and> lru_inv c \<and> lsize c = int (chunkNum (core b)) \<and>
     own (core b) (contents c) [])"

definition kv_map :: "kvbuffer \<Rightarrow> bytes \<rightharpoonup> bytes" where
  "kv_map b k = (case klru b of None \<Rightarrow> None | Some c \<Rightarrow> map_option (val_of (core b)) (map_of (contents c) k))"

text \<open>A pair whose value has a chunk to start in.\<close>

definition storable :: "kvbuffer \<Rightarrow> bytes \<Rightarrow> bytes \<Rightarrow> bool" where
  "storable b k v \<longleftrightarrow> v \<noteq> [] \<or> (8 + length k) mod (chunkSize (core b) - 4) \<noteq> 0"

lemma map_of_prefix: "distinct (map fst l) \<Longrightarrow> prefix l' l \<Longrightarrow> map_of l' k = Some v \<Longrightarrow> map_of l k = Some v"
  by (auto simp: prefix_def map_add_Some_iff dest: map_of_SomeD)

lemma kv_map_keeps:
  assumes "keeps l st st'" "map_of l k = Some n"
  shows "val_of st' n = val_of st n"
  using assms map_of_SomeD [OF assms(2)] by (force simp: keeps_def)

lemma mset_chunks_of: "mset (chunks_of l) = sum_mset (image_mset (\<lambda>e. mset (chunks (snd e))) (mset l))"
  by (induction l) auto

lemma own_touch:
  assumes "lru_inv c" "own st (contents c) []"
  shows "own st (touch k (contents c)) []"
proof (rule own_cong [OF assms(2)])
  have d: "distinct (contents c)" "distinct (touch k (contents c))"
    using assms(1) lru.touch_same [OF assms(1), of k]
    by (auto simp: lru_inv_def distinct_map card_distinct distinct_card)
  then have "mset (touch k (contents c)) = mset (contents c)"
    using lru.touch_same(2) [OF assms(1)] by (metis set_eq_iff_mset_eq_distinct)
  then have "mset (chunks_of (touch k (contents c))) = mset (chunks_of (contents c))"
    by (simp add: mset_chunks_of)
  then show "mset (map ckey (freeChunk st @ [] @ chunks_of (touch k (contents c)))) =
      mset (map ckey (freeChunk st @ [] @ chunks_of (contents c)))" by simp
  show "\<forall>e \<in> set (touch k (contents c)). entry_ok st e"
    using assms lru.touch_same(2) by (metis own_def)
qed (simp_all add: same_geo_def)

lemma kvGet_spec:
  assumes "kv_inv b"
  shows "\<exists>b'. kvGet b k = Ret (b', kv_map b k) \<and> kv_inv b' \<and> kv_map b' = kv_map b \<and> core b' = core b"
proof -
  from assms obtain c where c: "klru b = Some c" "lru_inv c" "lsize c = int (chunkNum (core b))" "own (core b) (contents c) []"
    by (auto simp: kv_inv_def)
  from lru.get_law [OF c(2), of k] obtain c' where c': "Get k c = Ret (c', map_of (contents c) k)" "lru_inv c'"
    "lsize c' = lsize c" "contents c' = touch k (contents c)" by blast
  let ?b = "b\<lparr>klru := Some c'\<rparr>"
  have "GetVal (kdata (core b)) (chunkSize (core b)) n = Ret (val_of (core b) n)" if "map_of (contents c) k = Some n" for n
    using GetVal_own [OF c(4) map_of_SomeD [OF that]] by simp
  then have "kvGet b k = Ret (?b, kv_map b k)"
    using c(1) c'(1) by (cases "map_of (contents c) k") (auto simp: kvGet_def kv_map_def)
  moreover have "kv_inv ?b" using c c' own_touch by (auto simp: kv_inv_def)
  moreover have "kv_map ?b = kv_map b"
    using c(1) c'(4) lru.touch_same(1) [OF c(2)] by (auto simp: kv_map_def)
  ultimately show ?thesis by auto
qed


text \<open>What a finished \<open>Set\<close> means for the map: \<open>l0\<close> are the entries before it and \<open>base\<close> those
  among them that the new entry does not replace.\<close>

definition set_effect :: "kvbuffer \<Rightarrow> bytes \<Rightarrow> bytes \<Rightarrow> kvbuffer \<Rightarrow> kverr option \<Rightarrow> bool" where
  "set_effect b k v b' err \<longleftrightarrow>
     (err = None \<longrightarrow> kv_map b' k = Some v \<and> kv_map b' \<subseteq>\<^sub>m (kv_map b)(k \<mapsto> v) \<and>
        (\<not> openLru (core b) \<longrightarrow> kv_map b' = (kv_map b)(k \<mapsto> v))) \<and>
     (err \<noteq> None \<longrightarrow> kv_map b' = kv_map b)"

lemma set_effect_ok:
  assumes km: "\<And>x. kv_map b x = map_option (val_of (core b)) (map_of es x)"
    and base: "distinct (map fst base)" "\<And>x. x \<noteq> k \<Longrightarrow> map_of base x = map_of es x"
    and l: "contents c2 = (k, n) # l" "prefix l base" "\<not> openLru (core b) \<longrightarrow> l = base"
      "val_of st n = v" "keeps l (core b) st"
  shows "set_effect b k v \<lparr>core = st, klru = Some c2\<rparr> None"
proof -
  let ?b' = "\<lparr>core = st, klru = Some c2\<rparr>" and ?m = "(kv_map b)(k \<mapsto> v)"
  have k: "kv_map ?b' k = Some v" using l by (simp add: kv_map_def)
  have eq: "kv_map ?b' x = ?m x" if "map_of l x \<noteq> None" for x
  proof (cases "x = k")
    case False
    from that obtain m where m: "map_of l x = Some m" by auto
    then have "map_of es x = Some m" using map_of_prefix [OF base(1) l(2)] base(2) [OF False] by metis
    then show ?thesis using m l(1) False kv_map_keeps [OF l(5) m] km [of x] by (simp add: kv_map_def)
  qed (use k in simp)
  have none: "kv_map ?b' x = None" if "x \<noteq> k" "map_of l x = None" for x
    using that l(1) by (simp add: kv_map_def)
  have "kv_map ?b' \<subseteq>\<^sub>m ?m"
    unfolding map_le_def using k eq none by (metis domIff map_upd_Some_unfold)
  moreover have "kv_map ?b' x = ?m x" if "\<not> openLru (core b)" for x
    using that k eq [of x] none [of x] km [of x] l(3) base(2) [of x] by (cases "x = k"; cases "map_of l x") auto
  ultimately show ?thesis using k by (auto simp: set_effect_def)
qed

lemma set_effect_refused:
  assumes km: "\<And>x. kv_map b x = map_option (val_of (core b)) (map_of es x)"
    and "contents c2 = es" "keeps es (core b) st"
  shows "set_effect b k v \<lparr>core = st, klru = Some c2\<rparr> (Some e)"
proof -
  have "kv_map \<lparr>core = st, klru = Some c2\<rparr> x = kv_map b x" for x
    using assms(2) km [of x] kv_map_keeps [OF assms(3), of x] by (cases "map_of es x") (auto simp: kv_map_def)
  then show ?thesis by (auto simp: set_effect_def)
qed

lemma set_facts:
  assumes "kv_inv b"
  shows "0 < chunkSize (core b) - 4" "sub32 (chunkSize (core b)) 4 = chunkSize (core b) - 4"
    "w32 ((chunkSize (core b) - 4) * chunkNum (core b)) = (chunkSize (core b) - 4) * chunkNum (core b)"
proof -
  have g: "32 \<le> chunkSize (core b)" "16 + chunkNum (core b) * chunkSize (core b) \<le> ksize (core b)"
    "ksize (core b) < 2 ^ 32" "1 \<le> chunkNum (core b)"
    using assms by (auto simp: kv_inv_def own_def geo_def)
  have "(chunkSize (core b) - 4) * chunkNum (core b) \<le> chunkNum (core b) * chunkSize (core b)" by (simp add: mult.commute)
  then have "(chunkSize (core b) - 4) * chunkNum (core b) < 2 ^ 32" using g by linarith
  moreover have "1 * chunkSize (core b) \<le> chunkNum (core b) * chunkSize (core b)" using g(4) by (rule mult_le_mono1)
  then have "chunkSize (core b) < 2 ^ 32" using g by linarith
  ultimately show "0 < chunkSize (core b) - 4" "sub32 (chunkSize (core b)) 4 = chunkSize (core b) - 4"
    "w32 ((chunkSize (core b) - 4) * chunkNum (core b)) = (chunkSize (core b) - 4) * chunkNum (core b)"
    using g by (simp_all add: sub32_le w32_small)
qed

lemma kvSet_spec:
  assumes "kv_inv b" "storable b k v" "length k + length v + 8 < 2 ^ 32"
  shows "\<exists>b' err. kvSet b k v = Ret (b', err) \<and> kv_inv b' \<and> same_geo (core b) (core b') \<and> set_effect b k v b' err \<and>
    (\<forall>e. err = Some e \<longrightarrow>
       e = ErrTooLong \<and> length k + length v + 8 > (chunkSize (core b) - 4) * chunkNum (core b) \<or>
       e = ErrFull \<and> \<not> openLru (core b))"
proof -
  from assms obtain c where c: "klru b = Some c" "lru_inv c" "lsize c = int (chunkNum (core b))" "own (core b) (contents c) []"
    by (auto simp: kv_inv_def)
  let ?q = "chunkSize (core b) - 4" and ?m = "length k + length v + 8"
  note w = set_facts [OF assms(1)] w32_small [OF assms(3)]
  show ?thesis
  proof (cases "?m > ?q * chunkNum (core b)")
    case True
    then show ?thesis using assms(1) w by (auto simp: kvSet_def Let_def same_geo_def set_effect_def)
  next
    case False
    let ?need = "chNeedOf ?m ?q"
    have need: "?need = chNeedOf (8 + length k + length v) ?q" "?need \<le> chunkNum (core b)"
      using False chNeedOf_bounds(3) [OF w(1), of ?m "chunkNum (core b)"] by (simp_all add: ac_simps)
    from lru.get_law [OF c(2), of k] obtain c' where c': "Get k c = Ret (c', map_of (contents c) k)" "lru_inv c'"
      "lsize c' = lsize c" "contents c' = touch k (contents c)" by blast
    let ?b = "b\<lparr>klru := Some c'\<rparr>"
    have b: "core ?b = core b" "klru ?b = Some c'" "lsize c' = int (chunkNum (core b))" using c(3) c'(3) by simp_all
    have own': "own (core b) (contents c') []" using own_touch [OF c(2,4)] c'(4) by simp
    have m': "map_of (contents c') = map_of (contents c)" using lru.touch_same(1) [OF c(2)] c'(4) by simp
    have dist: "distinct (map fst (contents c'))" using lru.keys_distinct [OF c'(2)] .
    have safe: "0 < length v \<or> (8 + length k) mod (chunkSize (core b) - 4) \<noteq> 0" using assms(2) by (auto simp: storable_def)
    have km: "kv_map b x = map_option (val_of (core b)) (map_of (contents c') x)" for x
      using c(1) m' by (simp add: kv_map_def)
    show ?thesis
    proof (cases "map_of (contents c) k")
      case None
      have r: "kvSet b k v = setNew ?b c' ?need k v"
        using c(1) c'(1) None False w by (simp add: kvSet_def Let_def)
      have "map_of (contents c') k = None" using m' None by simp
      from setNew_spec [of ?b c' k ?need v, unfolded b(1), OF b(2) c'(2) b(3) own' this need safe] obtain st c2 err where
        s: "setNew ?b c' ?need k v = Ret (\<lparr>core = st, klru = Some c2\<rparr>, err)"
          "lru_inv c2" "lsize c2 = int (chunkNum st)" "own st (contents c2) []" "keeps [] (core b) st"
          "err = None \<longrightarrow> (\<exists>l n. contents c2 = (k, n) # l \<and> prefix l (contents c') \<and> (\<not> openLru (core b) \<longrightarrow> l = contents c') \<and>
               val_of st n = v \<and> keeps l (core b) st)"
          "\<forall>e. err = Some e \<longrightarrow> e = ErrFull \<and> \<not> openLru (core b) \<and> c2 = c' \<and> st = core b" by blast
      have "set_effect b k v \<lparr>core = st, klru = Some c2\<rparr> err"
      proof (cases err)
        case None
        with s(6) show ?thesis using set_effect_ok [OF km dist refl] by blast
      next
        case (Some e)
        with s(7) show ?thesis using set_effect_refused [OF km refl, of st k v e] by auto
      qed
      with s r show ?thesis by (auto simp: kv_inv_def keeps_def)
    next
      case (Some n0)
      have r: "kvSet b k v = setUpdate ?b c' ?need k v n0"
        using c(1) c'(1) Some False w by (simp add: kvSet_def Let_def)
      have t: "contents c' = (k, n0) # drop_key k (contents c)" using c'(4) Some by (simp add: touch_def)
      from setUpdate_spec [of ?b c' k n0 "drop_key k (contents c)" ?need v, unfolded b(1), OF b(2) c'(2) b(3) own' t need safe] obtain st c2 err where
        s: "setUpdate ?b c' ?need k v n0 = Ret (\<lparr>core = st, klru = Some c2\<rparr>, err)"
          "lru_inv c2" "lsize c2 = int (chunkNum st)" "own st (contents c2) []" "keeps [] (core b) st"
          "err = None \<longrightarrow> (\<exists>l' n. contents c2 = (k, n) # l' \<and> prefix l' (drop_key k (contents c)) \<and>
               (\<not> openLru (core b) \<longrightarrow> l' = drop_key k (contents c)) \<and> val_of st n = v \<and> keeps l' (core b) st)"
          "\<forall>e. err = Some e \<longrightarrow> e = ErrFull \<and> \<not> openLru (core b) \<and> contents c2 = contents c' \<and> keeps (contents c') (core b) st" by blast
      have base: "distinct (map fst (drop_key k (contents c)))"
        "\<And>x. x \<noteq> k \<Longrightarrow> map_of (drop_key k (contents c)) x = map_of (contents c') x"
        using lru.keys_distinct [OF c(2)] by (auto simp: distinct_drop_key map_of_drop_key m')
      have "set_effect b k v \<lparr>core = st, klru = Some c2\<rparr> err"
      proof (cases err)
        case None
        with s(6) show ?thesis using set_effect_ok [OF km base] by blast
      next
        case (Some e)
        with s(7) show ?thesis using set_effect_refused [OF km, of c2 st k v e] by blast
      qed
      with s r show ?thesis by (auto simp: kv_inv_def keeps_def)
    qed
  qed
qed


lemma kvDel_spec:
  assumes "kv_inv b"
  shows "\<exists>b'. kvDel b k = Ret (b', kv_map b k \<noteq> None) \<and> kv_inv b' \<and> kv_map b' = (kv_map b)(k := None) \<and>
    same_geo (core b) (core b')"
proof -
  from assms obtain c where c: "klru b = Some c" "lru_inv c" "lsize c = int (chunkNum (core b))" "own (core b) (contents c) []"
    by (auto simp: kv_inv_def)
  show ?thesis
  proof (cases "map_of (contents c) k")
    case None
    have b: "\<lparr>core = core b, klru = Some c\<rparr> = b" using c(1) by simp
    have "kv_map b k = None" using c(1) None by (simp add: kv_map_def)
    moreover have "kvDel b k = Ret (b, False)"
      using lru.remove_absent_law [OF c(2) None, of onEvict "core b"] c(1) by (simp add: kvDel_def b)
    ultimately show ?thesis using assms by (auto simp: fun_upd_idem same_geo_def)
  next
    case (Some n)
    obtain l r where lr: "contents c = l @ (k, n) # r" "k \<notin> fst ` set l"
    proof -
      obtain l r where s: "contents c = l @ (k, n) # r" using map_of_SomeD [OF Some] by (auto dest: split_list)
      moreover have "distinct (map fst (contents c))" using lru.keys_distinct [OF c(2)] .
      ultimately show thesis using that by auto
    qed
    have "k \<notin> fst ` set r" using lru.keys_distinct [OF c(2)] lr by simp
    then have dk: "drop_key k (contents c) = l @ r"
      using lr drop_key_id [of k l] drop_key_id [of k r] by (simp add: drop_key_def)
    have o: "own (core b) ((l @ r) @ [(k, n)]) []"
      by (rule own_cong [OF c(4)]) (use c(4) lr(1) in \<open>auto simp: own_def same_geo_def ac_simps\<close>)
    from onEvict_own [OF o] obtain st' where st': "onEvict k n (core b) = Ret st'" "own st' (l @ r) []"
      "keeps (l @ r) (core b) st'" by blast
    from lru.remove_law [OF c(2) Some, of onEvict "core b"] st'(1) obtain c' where
      c': "Remove onEvict k c (core b) = Ret (c', st', True)" "lru_inv c'" "lsize c' = lsize c" "contents c' = l @ r"
      unfolding dk by auto
    let ?b = "\<lparr>core = st', klru = Some c'\<rparr>"
    have "kvDel b k = Ret (?b, True)" using c(1) c'(1) by (simp add: kvDel_def)
    moreover have "kv_inv ?b" using c' st'(2,3) c(3) by (auto simp: kv_inv_def keeps_def same_geo_def)
    moreover have "kv_map ?b = (kv_map b)(k := None)"
    proof
      fix x
      have "map_of (l @ r) x = (if x = k then None else map_of (contents c) x)"
        using map_of_drop_key [of k "contents c"] unfolding dk by simp
      then show "kv_map ?b x = ((kv_map b)(k := None)) x"
        using c(1) c'(4) kv_map_keeps [OF st'(3), of x]
        by (cases "map_of (contents c) x") (auto simp: kv_map_def)
    qed
    moreover have "kv_map b k \<noteq> None" using c(1) Some by (simp add: kv_map_def)
    moreover have "same_geo (core b) (core ?b)" using st'(3) by (simp add: keeps_def)
    ultimately show ?thesis by auto
  qed
qed

end
