(* ===== verification/Kvbuffer_Open.thy ===== *)
theory Kvbuffer_Open
  imports Kvbuffer_Props
begin

text \<open>
  Opening a buffer.  On an array without the magic bytes \<open>NewKVBuffer\<close> formats it and the
  result is an empty map; on an array with them it rebuilds the nodes by following the links,
  which comes to an end whatever the array contains.
\<close>

subsection \<open>Formatting\<close>

lemma scan_map:
  "0 < cs \<Longrightarrow> scan cs sz i n = map (\<lambda>j. (i + j * cs, Suc (n + j))) [0..<(sz - i) div cs]"
proof (induction cs sz i n rule: scan.induct)
  case (1 cs sz i n)
  show ?case
  proof (cases "sz \<le> i \<or> sz < i + cs")
    case True
    then have "(sz - i) div cs = 0" using "1.prems" by auto
    with True show ?thesis by (subst scan.simps) simp
  next
    case False
    then have "cs \<le> sz - i" by linarith
    then have "(sz - i) div cs = Suc ((sz - (i + cs)) div cs)"
      using "1.prems" by (simp add: le_div_geq)
    moreover have "scan cs sz i n = (i, Suc n) # scan cs sz (i + cs) (Suc n)"
      using False "1.prems" by (subst scan.simps) simp
    moreover have "[0..<Suc m] = 0 # map Suc [0..<m]" for m by (simp add: upt_conv_Cons map_Suc_upt)
    ultimately show ?thesis using 1 False by (simp add: add.assoc comp_def)
  qed
qed

lemma formatLoop_spec:
  assumes "\<forall>(i, n) \<in> set xs. i + 4 \<le> length d"
  shows "\<exists>d'. formatLoop d free xs = (d', free @ map (\<lambda>(i, n). \<lparr>cpos = i, cindex = w32 n, cnext = 0\<rparr>) xs) \<and>
    length d' = length d"
  using assms
proof (induction xs arbitrary: d free)
  case (Cons x xs)
  obtain i n where x: "x = (i, n)" by (cases x)
  have "length (write_uint32 d i 0) = length d" using Cons.prems by (simp add: x write_uint32_def)
  with Cons.IH [of "write_uint32 d i 0" "free @ [\<lparr>cpos = i, cindex = w32 n, cnext = 0\<rparr>]"] Cons.prems
  show ?case by (auto simp: x)
qed simp

lemma formatData_spec:
  assumes "1024 \<le> length data" "length data < 2 ^ 32" "32 \<le> cs" "16 + cs \<le> int (length data)"
  shows "\<exists>b. formatData data cs = Ret (Inr b) \<and> chunkSize (core b) = nat cs \<and> \<not> openLru (core b) \<and>
    (\<forall>lr dl. let b' = b\<lparr>core := (core b)\<lparr>openLru := lr, onLruDel := dl\<rparr>\<rparr> in kv_inv b' \<and> kv_map b' = Map.empty)"
proof -
  define n where "n = nat cs"
  have cs: "cs = int n" "32 \<le> n" "n < 2 ^ 32" "16 + n \<le> length data"
    using assms by (auto simp: n_def)
  have m: "nat (cs mod 2 ^ 32) = n" using cs(3) unfolding cs(1) by simp
  let ?cnt = "(length data - 16) div n"
  let ?xs = "map (\<lambda>j. (16 + j * n, Suc j)) [0..<?cnt]"
  have sc: "scan n (length data) 16 0 = ?xs" using cs(2) by (subst scan_map) auto
  let ?d = "write_uint64 (write_uint32 (blit 0 [0xFE, 0xDC, 0xBA, 0x98] data) 4 n) 8 (length data)"
  have len: "length ?d = length data" using assms(1) by (simp add: write_uint64_def write_uint32_def)
  have cnt: "?cnt * n + 16 \<le> length data" using div_times_less_eq_dividend [of "length data - 16" n] cs(4) by linarith
  have "1 * n \<le> length data - 16" using cs(4) by simp
  then have pos: "1 \<le> ?cnt" using cs(2) by (metis div_le_mono div_mult_self1_is_m less_le_trans mult.commute zero_less_numeral)
  have "?cnt * 1 \<le> ?cnt * n" using cs(2) by (intro mult_le_mono2) simp
  then have cntlt: "?cnt < 2 ^ 32" using cnt assms(2) by linarith
  have fit: "\<forall>(i, k) \<in> set ?xs. i + 4 \<le> length ?d"
  proof -
    have "16 + j * n + 4 \<le> length data" if "j < ?cnt" for j
    proof -
      have "Suc j * n \<le> ?cnt * n" using that by (intro mult_le_mono1) simp
      with cnt cs(2) show ?thesis by simp
    qed
    then show ?thesis unfolding len by auto
  qed
  from formatLoop_spec [OF fit, of "[]"] obtain d' where
    f: "formatLoop ?d [] ?xs = (d', map (\<lambda>(i, k). \<lparr>cpos = i, cindex = w32 k, cnext = 0\<rparr>) ?xs)" "length d' = length data"
    unfolding len by auto
  let ?free = "map (\<lambda>j. \<lparr>cpos = 16 + j * n, cindex = Suc j, cnext = 0\<rparr>) [0..<?cnt]"
  have fr: "map (\<lambda>(i, k). \<lparr>cpos = i, cindex = w32 k, cnext = 0\<rparr>) ?xs = ?free"
    using cntlt by (auto simp: w32_small)
  let ?st = "\<lparr>kdata = d', ksize = length data, chunkSize = n, chunkNum = ?cnt, freeChunk = ?free,
    openLru = False, onLruDel = False, lruDels = []\<rparr>"
  have r: "formatData data cs = Ret (Inr (newLRU ?st))"
    using assms(3) cs(2) f(1) cntlt unfolding formatData_def m Let_def sc fr by (simp add: w32_small)
  obtain c :: "(bytes, node) lru" where c: "NewLRU (int ?cnt) = Some c" "lru_inv c" "contents c = []" "lsize c = int ?cnt"
    using NewLRU_contents [of "int ?cnt"] pos by auto
  have "own (?st\<lparr>openLru := lr, onLruDel := dl\<rparr>) [] []" for lr dl
    using cs cnt pos assms(2) f(2)
    by (auto simp: own_def owned_def geo_def valid_def distinct_map inj_on_def mult.commute)
  then have "kv_inv (\<lparr>core = ?st\<lparr>openLru := lr, onLruDel := dl\<rparr>, klru = Some c\<rparr>)" for lr dl
    using c by (auto simp: kv_inv_def)
  then show ?thesis
    using r c by (auto simp: newLRU_def kv_map_def Let_def n_def)
qed


subsection \<open>Following the links\<close>

text \<open>What the scan has recorded: the chunk of every index, for every chunk with a successor its
  index under that successor, and the chunks that name themselves.\<close>

definition scan_ok :: "scanState \<Rightarrow> bool" where
  "scan_ok ss \<longleftrightarrow> (\<forall>i c. mpChunk ss i = Some c \<longrightarrow> cindex c = i) \<and>
     (\<forall>x y. mpChunkPrev ss x = Some y \<longrightarrow> y \<noteq> x \<and> (\<exists>c. mpChunk ss y = Some c \<and> cnext c = x)) \<and>
     (\<forall>e \<in> set (vChunkEnd ss). \<exists>c. mpChunk ss e = Some c \<and> cnext c = e) \<and> finite (dom (mpChunk ss))"

lemma loadLoop_ok:
  assumes "scan_ok ss" "distinct (map (\<lambda>x. w32 (snd x)) xs)" "\<forall>x \<in> set xs. mpChunk ss (w32 (snd x)) = None"
  shows "scan_ok (loadLoop d ss xs) \<and> card (dom (mpChunk (loadLoop d ss xs))) = card (dom (mpChunk ss)) + length xs"
  using assms
proof (induction xs arbitrary: ss)
  case (Cons x xs)
  obtain i n where x: "x = (i, n)" by (cases x)
  let ?idx = "w32 n" and ?nxt = "read_uint32 d i"
  let ?ch = "\<lparr>cpos = i, cindex = ?idx, cnext = ?nxt\<rparr>"
  let ?s1 = "ss\<lparr>mpChunk := (mpChunk ss)(?idx \<mapsto> ?ch)\<rparr>"
  let ?s2 = "if ?nxt = 0 then ?s1\<lparr>vFree := vFree ?s1 @ [?ch]\<rparr>
    else if ?idx = ?nxt then ?s1\<lparr>vChunkEnd := vChunkEnd ?s1 @ [?idx]\<rparr>
    else ?s1\<lparr>mpChunkPrev := (mpChunkPrev ?s1)(?nxt \<mapsto> ?idx)\<rparr>"
  have new: "mpChunk ss ?idx = None" using Cons.prems(3) by (simp add: x)
  have m: "mpChunk ?s2 = (mpChunk ss)(?idx \<mapsto> ?ch)" by simp
  have keep: "((mpChunk ss)(?idx \<mapsto> ?ch)) y = Some c" if "mpChunk ss y = Some c" for y c
    using that new by auto
  have ok: "scan_ok ?s2"
    using Cons.prems(1) new unfolding scan_ok_def
    by (auto 0 3 intro: keep split: if_splits)
  have "card (dom (mpChunk ?s2)) = Suc (card (dom (mpChunk ss)))"
    using new Cons.prems(1) unfolding m by (auto simp: scan_ok_def card_insert_if)
  moreover have "scan_ok (loadLoop d ?s2 xs) \<and>
      card (dom (mpChunk (loadLoop d ?s2 xs))) = card (dom (mpChunk ?s2)) + length xs"
  proof (rule Cons.IH [OF ok])
    show "\<forall>y \<in> set xs. mpChunk ?s2 (w32 (snd y)) = None" unfolding m using Cons.prems(2,3) by (force simp: x)
  qed (use Cons.prems(2) in simp)
  moreover have "loadLoop d ss (x # xs) = loadLoop d ?s2 xs" by (simp add: x Let_def)
  ultimately show ?case by simp
qed simp

text \<open>The chunks collected so far form a chain that ends in a self-link, so that no chunk can
  come up twice.\<close>

fun linked :: "chunk list \<Rightarrow> bool" where
  "linked [] = False"
| "linked [c] = (cnext c = cindex c)"
| "linked (a # b # cs) = (cnext a = cindex b \<and> linked (b # cs))"

lemma linked_next: "linked l \<Longrightarrow> c \<in> set l \<Longrightarrow> cnext c \<in> cindex ` set l"
  by (induction l rule: linked.induct) auto

lemma linked_mem:
  assumes "linked (a # cs)" "c \<in> set (a # cs)" "cnext c = cindex a" "distinct (map cindex (a # cs))"
  shows "c = a \<and> cs = []"
proof (cases cs)
  case (Cons b ds)
  then have l: "linked cs" "cnext a = cindex b" using assms(1) by auto
  have "cindex a \<notin> cindex ` set cs" using assms(4) by simp
  moreover have "cindex b \<in> cindex ` set cs" using Cons by simp
  ultimately have "cindex b \<noteq> cindex a" by metis
  then have "c \<noteq> a" using assms(3) l(2) by auto
  then have "c \<in> set cs" using assms(2) by simp
  then have "cindex a \<in> cindex ` set cs" using linked_next [OF l(1)] assms(3) by metis
  with assms(4) show ?thesis by simp
qed (use assms(2) in simp)

lemma chainLoop_total:
  assumes "scan_ok ss" "linked (a # cs)" "\<forall>c \<in> set (a # cs). mpChunk ss (cindex c) = Some c"
    "distinct (map cindex (a # cs))" "card (dom (mpChunk ss)) < f + length (a # cs)"
  shows "chainLoop f ss (a # cs) (mpChunkPrev ss (cindex a)) \<noteq> Diverge"
  using assms
proof (induction f arbitrary: a cs)
  case 0
  show ?case
  proof (cases "mpChunkPrev ss (cindex a)")
    case (Some p)
    have "cindex ` set (a # cs) \<subseteq> dom (mpChunk ss)" using "0.prems"(3) by auto
    then have "card (cindex ` set (a # cs)) \<le> card (dom (mpChunk ss))"
      using "0.prems"(1) by (intro card_mono) (auto simp: scan_ok_def)
    moreover have "card (cindex ` set (a # cs)) = length (a # cs)"
      using "0.prems"(4) by (metis distinct_card length_map list.set_map)
    ultimately show ?thesis using "0.prems"(5) by simp
  qed simp
next
  case (Suc f)
  show ?case
  proof (cases "mpChunkPrev ss (cindex a)")
    case (Some p)
    then have ne: "p \<noteq> cindex a" and ex: "\<exists>c. mpChunk ss p = Some c \<and> cnext c = cindex a"
      using Suc.prems(1) unfolding scan_ok_def by blast+
    from ex obtain c where c0: "mpChunk ss p = Some c" "cnext c = cindex a" by blast
    have "cindex c = p" using Suc.prems(1) c0(1) unfolding scan_ok_def by blast
    with c0 ne have c: "mpChunk ss p = Some c" "cnext c = cindex a" "cindex c = p" "p \<noteq> cindex a" by auto
    have "p \<notin> cindex ` set (a # cs)"
    proof
      assume "p \<in> cindex ` set (a # cs)"
      then obtain y where "y \<in> set (a # cs)" "cindex y = p" by auto
      with Suc.prems(3) c(1) have "c \<in> set (a # cs)" by auto
      from linked_mem [OF Suc.prems(2) this c(2) Suc.prems(4)] c(3,4) show False by simp
    qed
    then have "chainLoop f ss (c # a # cs) (mpChunkPrev ss (cindex c)) \<noteq> Diverge"
      using Suc.prems c by (intro Suc.IH) auto
    with Some c show ?thesis by simp
  qed simp
qed


lemma readLoop_total: "readLoop d cs chs idx rest acc \<noteq> Diverge"
proof (induction d cs chs idx rest acc rule: readLoop.induct)
  case (1 d cs chs idx rest acc)
  then show ?case
    by (cases "sub32 cs 4 \<le> rest"; cases "idx < length chs"; subst readLoop.simps; simp)
qed

lemma GetKey_total: "GetKey d cs n \<noteq> Diverge"
  by (simp add: GetKey_def Let_def readLoop_total)

lemma GetVal_total: "GetVal d cs n \<noteq> Diverge"
  by (simp add: GetVal_def Let_def readLoop_total split: prod.split)

lemma onEvict_total: "onEvict k n st \<noteq> Diverge"
  by (simp add: onEvict_def GetVal_total)

lemma removeOldest_total: "removeOldest onEvict c st \<noteq> Diverge"
  by (auto simp: removeOldest_def removeElement_def onEvict_total Let_def split: prod.split)

lemma Add_total: "Add onEvict k n c st \<noteq> Diverge"
  by (auto simp: Add_def removeOldest_total Let_def split: option.split)

lemma removeOldestN_total: "removeOldestN onEvict n c st \<noteq> Diverge"
  by (induction n arbitrary: c st) (auto simp: go_bind_Diverge_iff removeOldest_total)

lemma Resize_total: "Resize onEvict sz c st \<noteq> Diverge"
  by (simp add: Resize_def Let_def removeOldestN_total)

lemma growData_total: "growData b \<noteq> Diverge"
  by (auto simp: growData_def Let_def Resize_total split: option.split prod.split)

lemma nodesLoop_total:
  assumes "scan_ok ss" "card (dom (mpChunk ss)) \<le> f" "\<forall>e \<in> set es. \<exists>c. mpChunk ss e = Some c \<and> cnext c = e"
  shows "nodesLoop f ss b es \<noteq> Diverge"
  using assms(3)
proof (induction es arbitrary: b)
  case (Cons e es)
  then obtain c where c: "mpChunk ss e = Some c" "cnext c = e" by auto
  have ci: "cindex c = e" using assms(1) c(1) unfolding scan_ok_def by blast
  have "chainLoop f ss [c] (mpChunkPrev ss (cindex c)) \<noteq> Diverge"
    using c ci assms by (intro chainLoop_total) auto
  then have ch: "chainLoop f ss [c] (mpChunkPrev ss e) \<noteq> Diverge" using ci by simp
  have "nodesLoop f ss b' es \<noteq> Diverge" for b' using Cons by simp
  then show ?case using c(1) ch
    by (auto simp: go_bind_Diverge_iff GetKey_total Add_total Let_def split: sum.splits option.splits if_splits)
qed simp

lemma scan_distinct:
  assumes "0 < cs" "sz < 2 ^ 32"
  shows "distinct (map (\<lambda>x. w32 (snd x)) (scan cs sz i 0))"
proof -
  have "(sz - i) div cs \<le> sz - i" by simp
  then have "(sz - i) div cs < 2 ^ 32" using assms(2) by linarith
  have "inj_on (\<lambda>j. w32 (Suc j)) {0..<(sz - i) div cs}"
    using \<open>(sz - i) div cs < 2 ^ 32\<close> by (auto simp: inj_on_def w32_small)
  then show ?thesis by (simp add: scan_map [OF assms(1)] distinct_map comp_def)
qed

lemma NewKVBuffer_total:
  assumes "length data < 2 ^ 32" "cs mod 2 ^ 32 \<noteq> 0"
  shows "NewKVBuffer data cs \<noteq> Diverge"
proof -
  have fmt: "formatData data cs \<noteq> Diverge"
    using assms(2) by (auto simp: formatData_def Let_def split: prod.split)
  have opn: "openData data cs \<noteq> Diverge"
  proof (cases "int (read_uint32 data 4) \<noteq> cs mod 2 ^ 32 \<or> read_uint64 data 8 > length data")
    case False
    let ?n = "read_uint32 data 4" and ?sz = "read_uint64 data 8"
    have pos: "0 < ?n" using False assms(2) by auto
    let ?all = "scan ?n ?sz HeaderSize 0"
    let ?init = "\<lparr>mpChunk = \<lambda>_. None, mpChunkPrev = \<lambda>_. None, vChunkEnd = [], vFree = []\<rparr>"
    let ?ss = "loadLoop data ?init ?all"
    have "scan_ok ?init" by (simp add: scan_ok_def)
    moreover have "distinct (map (\<lambda>x. w32 (snd x)) ?all)"
      using False assms(1) by (intro scan_distinct [OF pos]) linarith
    ultimately have ss: "scan_ok ?ss" "card (dom (mpChunk ?ss)) = length ?all"
      using loadLoop_ok [of ?init ?all data] by auto
    have nl: "nodesLoop (Suc (length ?all)) ?ss b (vChunkEnd ?ss) \<noteq> Diverge" for b
    proof (rule nodesLoop_total [OF ss(1)])
      show "\<forall>e \<in> set (vChunkEnd ?ss). \<exists>c. mpChunk ?ss e = Some c \<and> cnext c = e"
        using ss(1) unfolding scan_ok_def by blast
    qed (simp add: ss(2))
    then show ?thesis using False pos
      by (auto simp: openData_def Let_def go_bind_Diverge_iff growData_total split: sum.splits if_splits)
  qed (auto simp: openData_def Let_def)
  show ?thesis using fmt opn by (simp add: NewKVBuffer_def)
qed

end
