(* ===== verification/Kvbuffer_Main.thy ===== *)
theory Kvbuffer_Main
  imports Kvbuffer_Open
begin

text \<open>
  The properties of the key-value buffer: opening, the refinement of a finite map by single
  operations and by whole sequences of them, the layout a write produces, the statistics, and
  the boundary at which an empty value cannot be read.
\<close>

subsection \<open>Opening\<close>

lemma open_fresh:
  assumes "1024 \<le> length data" "length data < 2 ^ 32" "take 4 data \<noteq> [0xFE, 0xDC, 0xBA, 0x98]"
    "32 \<le> cs" "16 + cs \<le> int (length data)"
  shows "\<exists>b. NewKVBuffer data cs = Ret (Inr b) \<and> kv_inv b \<and> kv_map b = Map.empty \<and>
      chunkSize (core b) = nat cs \<and> \<not> openLru (core b)"
    "\<exists>b. NewLRUKVBuffer data cs hasDel = Ret (Inr b) \<and> kv_inv b \<and> kv_map b = Map.empty \<and>
      chunkSize (core b) = nat cs \<and> openLru (core b)"
proof -
  from formatData_spec [OF assms(1,2,4,5)] obtain b where
    b: "formatData data cs = Ret (Inr b)" "chunkSize (core b) = nat cs" "\<not> openLru (core b)"
      "\<And>lr dl. kv_inv (b\<lparr>core := (core b)\<lparr>openLru := lr, onLruDel := dl\<rparr>\<rparr>) \<and>
         kv_map (b\<lparr>core := (core b)\<lparr>openLru := lr, onLruDel := dl\<rparr>\<rparr>) = Map.empty"
    by (auto simp: Let_def)
  have upd: "b\<lparr>core := (core b)\<lparr>openLru := openLru (core b), onLruDel := onLruDel (core b)\<rparr>\<rparr> = b"
    by (cases b; cases "core b") simp
  have r: "NewKVBuffer data cs = Ret (Inr b)" using assms(1,3) b(1) by (simp add: NewKVBuffer_def)
  show "\<exists>b. NewKVBuffer data cs = Ret (Inr b) \<and> kv_inv b \<and> kv_map b = Map.empty \<and>
      chunkSize (core b) = nat cs \<and> \<not> openLru (core b)"
    using r b(2,3) b(4) [where lr = "openLru (core b)" and dl = "onLruDel (core b)", unfolded upd] by blast
  show "\<exists>b. NewLRUKVBuffer data cs hasDel = Ret (Inr b) \<and> kv_inv b \<and> kv_map b = Map.empty \<and>
      chunkSize (core b) = nat cs \<and> openLru (core b)"
    using r b(2) b(4) [where lr = True and dl = hasDel] by (simp add: NewLRUKVBuffer_def)
qed

text \<open>C36: Opening a byte array of at least 1024 bytes without the magic number formats it:
  the call returns a buffer that satisfies the invariant and holds no key, both for the plain and
  for the LRU constructor.\<close>

theorem kv_open_fresh:
  assumes "1024 \<le> length data" "length data < 2 ^ 32" "take 4 data \<noteq> [0xFE, 0xDC, 0xBA, 0x98]"
    "32 \<le> cs" "16 + cs \<le> int (length data)"
  shows "(\<exists>b. NewKVBuffer data cs = Ret (Inr b) \<and> kv_inv b \<and> kv_map b = Map.empty \<and>
      chunkSize (core b) = nat cs \<and> \<not> openLru (core b)) \<and>
    (\<exists>b. NewLRUKVBuffer data cs hasDel = Ret (Inr b) \<and> kv_inv b \<and> kv_map b = Map.empty \<and>
      chunkSize (core b) = nat cs \<and> openLru (core b))"
  using open_fresh [OF assms] by blast

text \<open>A buffer to evaluate the other hypotheses on.\<close>

definition sample_data :: bytes where
  "sample_data = replicate 1024 0"

lemma sample_magic: "length sample_data = 1024" "take 4 sample_data \<noteq> [0xFE, 0xDC, 0xBA, 0x98]"
proof -
  show "length sample_data = 1024" by (simp add: sample_data_def)
  have "take 4 sample_data = replicate 4 0" by (simp add: sample_data_def)
  moreover have "replicate 4 (0 :: byte) ! 0 \<noteq> [0xFE, 0xDC, 0xBA, 0x98] ! 0" by simp
  ultimately show "take 4 sample_data \<noteq> [0xFE, 0xDC, 0xBA, 0x98]" by metis
qed

lemma sample_open:
  "\<exists>b. NewKVBuffer sample_data 64 = Ret (Inr b) \<and> kv_inv b \<and> kv_map b = Map.empty \<and> chunkSize (core b) = 64 \<and> \<not> openLru (core b)"
  "\<exists>b. NewLRUKVBuffer sample_data 64 True = Ret (Inr b) \<and> kv_inv b \<and> kv_map b = Map.empty \<and> chunkSize (core b) = 64 \<and> openLru (core b)"
proof -
  show "\<exists>b. NewKVBuffer sample_data 64 = Ret (Inr b) \<and> kv_inv b \<and> kv_map b = Map.empty \<and> chunkSize (core b) = 64 \<and> \<not> openLru (core b)"
    "\<exists>b. NewLRUKVBuffer sample_data 64 True = Ret (Inr b) \<and> kv_inv b \<and> kv_map b = Map.empty \<and> chunkSize (core b) = 64 \<and> openLru (core b)"
    using open_fresh(1) [of sample_data 64] open_fresh(2) [of sample_data 64 True] sample_magic by simp_all
qed

theorem kv_open_fresh_witness:
  "(\<exists>b. NewKVBuffer sample_data 64 = Ret (Inr b) \<and> kv_inv b \<and> kv_map b = Map.empty \<and>
      chunkSize (core b) = 64 \<and> \<not> openLru (core b)) \<and>
    (\<exists>b. NewLRUKVBuffer sample_data 64 True = Ret (Inr b) \<and> kv_inv b \<and> kv_map b = Map.empty \<and>
      chunkSize (core b) = 64 \<and> openLru (core b))"
  using kv_open_fresh [of sample_data 64 True] sample_magic by simp

text \<open>C22: Opening an array comes to an end whatever the array contains, although it
  follows links stored in it: chains of chunks cannot be cyclic, since a chain starts at a chunk
  that names itself.  The array must be smaller than 4 GB and the chunk size not a multiple of
  \<open>2 ^ 32\<close>, which would make the scan stand still.\<close>

theorem kv_open_terminates:
  assumes "length data < 2 ^ 32" "cs mod 2 ^ 32 \<noteq> 0"
  shows "NewKVBuffer data cs \<noteq> Diverge \<and> NewLRUKVBuffer data cs hasDel \<noteq> Diverge"
  using NewKVBuffer_total [OF assms] by (simp add: NewLRUKVBuffer_def)

theorem kv_open_terminates_witness:
  "NewKVBuffer ([0xFE, 0xDC, 0xBA, 0x98, 64] @ replicate 2000 1) 64 \<noteq> Diverge \<and>
   NewLRUKVBuffer ([0xFE, 0xDC, 0xBA, 0x98, 64] @ replicate 2000 1) 64 False \<noteq> Diverge"
  by (rule kv_open_terminates) simp_all


subsection \<open>The operations\<close>

text \<open>\<open>Get\<close> is lookup: it returns the value stored under the key (or none), without
  changing the map, and keeps the invariant.\<close>

theorem kv_get_refines:
  assumes "kv_inv b"
  shows "\<exists>b'. kvGet b k = Ret (b', kv_map b k) \<and> kv_inv b' \<and> kv_map b' = kv_map b"
  using kvGet_spec [OF assms] by blast

theorem kv_get_refines_witness:
  "\<exists>b b'. NewKVBuffer sample_data 64 = Ret (Inr b) \<and> kvGet b [7] = Ret (b', None) \<and> kv_inv b'"
proof -
  from sample_open(1) obtain b where "NewKVBuffer sample_data 64 = Ret (Inr b)" "kv_inv b" "kv_map b = Map.empty" by blast
  with kv_get_refines [of b "[7]"] show ?thesis by auto
qed

text \<open>\<open>Set\<close> is update.  For a pair that can be stored it always returns; on success the key
  has the new value, every other key has its old value or (with LRU eviction only) is gone, and
  without LRU the result is exactly the updated map.  An error leaves the map as it was, and is
  either \<open>too long\<close> for a pair larger than the whole buffer or, without LRU, \<open>full\<close>.\<close>

theorem kv_set_refines:
  assumes "kv_inv b" "storable b k v" "length k + length v + 8 < 2 ^ 32"
  shows "\<exists>b' err. kvSet b k v = Ret (b', err) \<and> kv_inv b' \<and>
    (err = None \<longrightarrow> kv_map b' k = Some v \<and> kv_map b' \<subseteq>\<^sub>m (kv_map b)(k \<mapsto> v) \<and>
       (\<not> openLru (core b) \<longrightarrow> kv_map b' = (kv_map b)(k \<mapsto> v))) \<and>
    (err \<noteq> None \<longrightarrow> kv_map b' = kv_map b \<and>
       (err = Some ErrTooLong \<and> length k + length v + 8 > (chunkSize (core b) - 4) * chunkNum (core b) \<or>
        err = Some ErrFull \<and> \<not> openLru (core b)))"
proof -
  from kvSet_spec [OF assms] obtain b' err where s: "kvSet b k v = Ret (b', err)" "kv_inv b'" "set_effect b k v b' err"
    "\<forall>e. err = Some e \<longrightarrow> e = ErrTooLong \<and> length k + length v + 8 > (chunkSize (core b) - 4) * chunkNum (core b) \<or>
       e = ErrFull \<and> \<not> openLru (core b)" by blast
  then show ?thesis by (intro exI [of _ b'] exI [of _ err]) (auto simp: set_effect_def)
qed

theorem kv_set_refines_witness:
  "\<exists>b b' err. NewLRUKVBuffer sample_data 64 True = Ret (Inr b) \<and> kvSet b [1] [2, 3] = Ret (b', err) \<and> kv_inv b' \<and>
    (err = None \<longrightarrow> kv_map b' [1] = Some [2, 3])"
proof -
  from sample_open(2) obtain b where b: "NewLRUKVBuffer sample_data 64 True = Ret (Inr b)" "kv_inv b" by blast
  have "storable b [1] [2, 3]" by (simp add: storable_def)
  from kv_set_refines [OF b(2) this] b(1) show ?thesis by auto
qed

text \<open>\<open>Del\<close> is deletion: it reports whether the key was there, and afterwards exactly that
  key is gone.\<close>

theorem kv_del_refines:
  assumes "kv_inv b"
  shows "\<exists>b'. kvDel b k = Ret (b', kv_map b k \<noteq> None) \<and> kv_inv b' \<and> kv_map b' = (kv_map b)(k := None)"
  using kvDel_spec [OF assms] by blast

theorem kv_del_refines_witness:
  "\<exists>b b'. NewKVBuffer sample_data 64 = Ret (Inr b) \<and> kvDel b [7] = Ret (b', False) \<and> kv_inv b'"
proof -
  from sample_open(1) obtain b where "NewKVBuffer sample_data 64 = Ret (Inr b)" "kv_inv b" "kv_map b = Map.empty" by blast
  with kv_del_refines [of b "[7]"] show ?thesis by auto
qed


subsection \<open>Sequences of operations\<close>

text \<open>The calls a client makes and what it sees of them.\<close>

datatype kvop = OpGet bytes | OpSet bytes bytes | OpDel bytes

datatype kvres = ResVal "bytes option" | ResErr "kverr option" | ResBool bool

definition kvStep :: "kvbuffer \<Rightarrow> kvop \<Rightarrow> (kvbuffer \<times> kvres) go" where
  "kvStep b op =
     (case op of
        OpGet k \<Rightarrow> go_map (\<lambda>(b', v). (b', ResVal v)) (kvGet b k)
      | OpSet k v \<Rightarrow> go_map (\<lambda>(b', e). (b', ResErr e)) (kvSet b k v)
      | OpDel k \<Rightarrow> go_map (\<lambda>(b', r). (b', ResBool r)) (kvDel b k))"

fun kvRun :: "kvbuffer \<Rightarrow> kvop list \<Rightarrow> (kvbuffer \<times> kvres list) go" where
  "kvRun b [] = Ret (b, [])"
| "kvRun b (op # ops) =
     go_bind (kvStep b op) (\<lambda>(b', r). go_map (\<lambda>(b'', rs). (b'', r # rs)) (kvRun b' ops))"

text \<open>The abstract machine: a finite map that may refuse a \<open>Set\<close> and, with \<open>lru\<close>, may forget
  other keys while it stores one.\<close>

inductive map_step :: "bool \<Rightarrow> (bytes \<rightharpoonup> bytes) \<Rightarrow> kvop \<Rightarrow> kvres \<Rightarrow> (bytes \<rightharpoonup> bytes) \<Rightarrow> bool" where
  get_step: "map_step lru m (OpGet k) (ResVal (m k)) m"
| set_step: "m' k = Some v \<Longrightarrow> m' \<subseteq>\<^sub>m m(k \<mapsto> v) \<Longrightarrow> (\<not> lru \<Longrightarrow> m' = m(k \<mapsto> v)) \<Longrightarrow>
    map_step lru m (OpSet k v) (ResErr None) m'"
| set_refused: "map_step lru m (OpSet k v) (ResErr (Some e)) m"
| del_step: "map_step lru m (OpDel k) (ResBool (m k \<noteq> None)) (m(k := None))"

inductive map_run :: "bool \<Rightarrow> (bytes \<rightharpoonup> bytes) \<Rightarrow> kvop list \<Rightarrow> kvres list \<Rightarrow> (bytes \<rightharpoonup> bytes) \<Rightarrow> bool" where
  run_nil: "map_run lru m [] [] m"
| run_cons: "map_step lru m op r m' \<Longrightarrow> map_run lru m' ops rs m'' \<Longrightarrow> map_run lru m (op # ops) (r # rs) m''"

fun op_ok :: "nat \<Rightarrow> kvop \<Rightarrow> bool" where
  "op_ok cs (OpSet k v) = ((v \<noteq> [] \<or> (8 + length k) mod (cs - 4) \<noteq> 0) \<and> length k + length v + 8 < 2 ^ 32)"
| "op_ok cs (OpGet k) = True"
| "op_ok cs (OpDel k) = True"

lemma kvStep_sim:
  assumes "kv_inv b" "op_ok (chunkSize (core b)) op"
  shows "\<exists>b' r. kvStep b op = Ret (b', r) \<and> kv_inv b' \<and> same_geo (core b) (core b') \<and>
    map_step (openLru (core b)) (kv_map b) op r (kv_map b')"
proof (cases op)
  case (OpGet k)
  with kvGet_spec [OF assms(1), of k] show ?thesis
    by (auto simp: kvStep_def same_geo_def intro: map_step.intros)
next
  case (OpSet k v)
  then have "storable b k v" "length k + length v + 8 < 2 ^ 32" using assms(2) by (auto simp: storable_def)
  from kvSet_spec [OF assms(1) this] obtain b' err where
    s: "kvSet b k v = Ret (b', err)" "kv_inv b'" "same_geo (core b) (core b')" "set_effect b k v b' err" by blast
  have "map_step (openLru (core b)) (kv_map b) op (ResErr err) (kv_map b')"
    using s(4) OpSet by (cases err) (auto simp: set_effect_def intro: map_step.intros)
  with s OpSet show ?thesis by (auto simp: kvStep_def)
next
  case (OpDel k)
  from kvDel_spec [OF assms(1), of k] obtain b' where
    d: "kvDel b k = Ret (b', kv_map b k \<noteq> None)" "kv_inv b'" "kv_map b' = (kv_map b)(k := None)" "same_geo (core b) (core b')" by blast
  have "map_step (openLru (core b)) (kv_map b) op (ResBool (kv_map b k \<noteq> None)) (kv_map b')"
    unfolding OpDel d(3) by (rule del_step)
  with d OpDel show ?thesis by (auto simp: kvStep_def)
qed

lemma kvRun_sim:
  assumes "kv_inv b" "\<forall>op \<in> set ops. op_ok (chunkSize (core b)) op"
  shows "\<exists>b' rs. kvRun b ops = Ret (b', rs) \<and> kv_inv b' \<and> map_run (openLru (core b)) (kv_map b) ops rs (kv_map b')"
  using assms
proof (induction ops arbitrary: b)
  case (Cons op ops)
  from kvStep_sim [OF Cons.prems(1), of op] Cons.prems(2) obtain b1 r where
    s: "kvStep b op = Ret (b1, r)" "kv_inv b1" "same_geo (core b) (core b1)"
      "map_step (openLru (core b)) (kv_map b) op r (kv_map b1)" by auto
  from Cons.IH [OF s(2)] Cons.prems(2) s(3) obtain b' rs where
    "kvRun b1 ops = Ret (b', rs)" "kv_inv b'" "map_run (openLru (core b)) (kv_map b1) ops rs (kv_map b')"
    by (auto simp: same_geo_def)
  with s show ?case by (auto intro: run_cons)
qed (auto intro: run_nil)

text \<open>C2: Every sequence of \<open>Get\<close>, \<open>Set\<close> and \<open>Del\<close> calls with storable pairs runs to its end
  without a panic, keeps the invariant, and returns results that the abstract map allows: the
  buffer simulates the map machine step by step.\<close>

theorem kv_run_refines:
  assumes "kv_inv b" "list_all (op_ok (chunkSize (core b))) ops"
  shows "\<exists>b' rs. kvRun b ops = Ret (b', rs) \<and> kv_inv b' \<and> map_run (openLru (core b)) (kv_map b) ops rs (kv_map b')"
  using kvRun_sim [OF assms(1)] assms(2) by (simp add: list_all_iff)

theorem kv_run_refines_witness:
  "\<exists>b b' rs. NewKVBuffer sample_data 64 = Ret (Inr b) \<and>
    kvRun b [OpSet [1] [2], OpSet [1] [], OpGet [1], OpDel [1]] = Ret (b', rs) \<and>
    map_run False Map.empty [OpSet [1] [2], OpSet [1] [], OpGet [1], OpDel [1]] rs (kv_map b')"
proof -
  from sample_open(1) obtain b where b: "NewKVBuffer sample_data 64 = Ret (Inr b)" "kv_inv b" "kv_map b = Map.empty"
    "chunkSize (core b) = 64" "\<not> openLru (core b)" by blast
  from kv_run_refines [OF b(2), of "[OpSet [1] [2], OpSet [1] [], OpGet [1], OpDel [1]]"] b show ?thesis by auto
qed


subsection \<open>Layout, statistics and the boundary\<close>

text \<open>C27: The write loop for a new key, with its two counters and its early exit, is the plain
  streaming of the two sizes, the key and the value over the chunks of the node.\<close>

theorem kv_write_stream:
  assumes "laid_out d cs chs" "12 \<le> cs" "cs < 2 ^ 32" "length k < 2 ^ 32" "length v < 2 ^ 32"
    "tight cs (length chs) 0 12 (length k + length v)" "chs \<noteq> []"
  shows "newLoop d cs chs k v 0 (length k) (length v) =
    putStream (write_uint32 (write_uint32 d (cpos (chs ! 0) + 4) (length k)) (cpos (chs ! 0) + 8) (length v))
      cs chs 0 12 (k @ v)"
  using newLoop_putStream [OF assms(1-5) order.refl order.refl assms(6)] assms(7) by simp

theorem kv_write_stream_witness:
  "newLoop (replicate 80 0) 32 [\<lparr>cpos = 16, cindex = 1, cnext = 0\<rparr>, \<lparr>cpos = 48, cindex = 2, cnext = 0\<rparr>]
     (replicate 15 7) (replicate 20 9) 0 15 20 =
   putStream (write_uint32 (write_uint32 (replicate 80 0) 20 15) 24 20) 32
     [\<lparr>cpos = 16, cindex = 1, cnext = 0\<rparr>, \<lparr>cpos = 48, cindex = 2, cnext = 0\<rparr>] 0 12
     (replicate 15 7 @ replicate 20 9)"
proof -
  let ?chs = "[\<lparr>cpos = 16, cindex = 1, cnext = 0\<rparr>, \<lparr>cpos = 48, cindex = 2, cnext = 0\<rparr>]"
  have "laid_out (replicate 80 0) 32 ?chs"
    by (auto simp: laid_out_def all_fit_def fits_in_def apart_def less_Suc_eq)
  from kv_write_stream [OF this, of "replicate 15 7" "replicate 20 9"] show ?thesis
    by (simp add: tight_def)
qed

lemma foldl_plus: "foldl (\<lambda>s x. s + f x) a xs = a + (\<Sum>x\<leftarrow>xs. f x)" for f :: "'a \<Rightarrow> int"
  by (induction xs arbitrary: a) auto

lemma nodeUsed_le:
  assumes "own st l []" "e \<in> set l"
  shows "nodeUsed (snd e) \<le> int (length (chunks (snd e))) * int (chunkSize st)"
proof -
  let ?n = "snd e" and ?q = "chunkSize st - 4"
  have cs: "32 \<le> chunkSize st" using assms(1) by (simp add: own_def geo_def)
  have "length (chunks ?n) = chNeedOf (8 + keySize ?n + valSize ?n) ?q"
    using assms by (auto simp: own_def entry_ok_def Let_def)
  then have "8 + keySize ?n + valSize ?n \<le> length (chunks ?n) * ?q"
    using chNeedOf_bounds(1) [of ?q "8 + keySize ?n + valSize ?n"] cs by simp
  moreover have "w32 (keySize ?n + valSize ?n) \<le> keySize ?n + valSize ?n" by (simp add: w32_def)
  moreover have "length (chunks ?n) * ?q + length (chunks ?n) * 4 = length (chunks ?n) * chunkSize st"
    using cs by (simp add: add_mult_distrib2 [symmetric])
  ultimately have "w32 (keySize ?n + valSize ?n) + 8 + length (chunks ?n) * 4 \<le> length (chunks ?n) * chunkSize st"
    by linarith
  then show ?thesis unfolding nodeUsed_def by (simp flip: of_nat_mult of_nat_add)
qed

text \<open>The statistics are consistent: the pairs counted are the keys of the map; the
  used and the unusable bytes are both non-negative and add up to whole chunks, no more than the
  chunks in use.  The reported free size, however, multiplies the number of free chunks with the
  number of chunks less 4 where the size of a chunk less 4 is meant.\<close>

theorem kv_stat_accounts:
  assumes "kv_inv b"
  shows "\<exists>s. kvStat b = Ret s \<and> KVCount s = int (card (dom (kv_map b))) \<and>
    0 \<le> UsedDataSize s \<and> 0 \<le> CanotUseSize s \<and>
    UsedDataSize s + CanotUseSize s \<le> UsedChunkNum s * int (chunkSize (core b)) \<and>
    FreeDataSize s = CanotUseSize s + FreeChunkNum s * int (sub32 (chunkNum (core b)) 4)"
proof -
  from assms obtain c where c: "klru b = Some c" "lru_inv c" "own (core b) (contents c) []"
    by (auto simp: kv_inv_def)
  let ?l = "contents c" and ?cs = "int (chunkSize (core b))"
  let ?used = "\<Sum>e\<leftarrow>?l. nodeUsed (snd e)"
  let ?canot = "\<Sum>e\<leftarrow>?l. int (length (chunks (snd e))) * ?cs - nodeUsed (snd e)"
  have "0 \<le> nodeUsed n" for n by (simp add: nodeUsed_def)
  then have pos: "0 \<le> ?used" "0 \<le> ?canot"
    using nodeUsed_le [OF c(3)] by (auto intro!: sum_list_nonneg)
  have "(\<Sum>e\<leftarrow>l. nodeUsed (snd e)) + (\<Sum>e\<leftarrow>l. int (length (chunks (snd e))) * ?cs - nodeUsed (snd e)) =
      int (length (chunks_of l)) * ?cs" for l
    by (induction l) (auto simp: algebra_simps)
  then have sum: "?used + ?canot = int (length (chunks_of ?l)) * ?cs" .
  have "length (freeChunk (core b) @ [] @ chunks_of ?l) \<le> chunkNum (core b)"
    using c(3) by (intro owned_length) (simp add: own_def)
  then have le: "int (length (chunks_of ?l)) * ?cs \<le> (int (chunkNum (core b)) - int (length (freeChunk (core b)))) * ?cs"
    by (intro mult_right_mono) auto
  have "dom (kv_map b) = fst ` set ?l" using c(1) by (auto simp: kv_map_def dom_map_of_conv_image_fst [symmetric])
  moreover have "card (fst ` set ?l) = length ?l"
    using lru.keys_distinct [OF c(2)] by (metis distinct_card length_map list.set_map)
  ultimately have cnt: "int (Len c) = int (card (dom (kv_map b)))" by (simp add: Len_def contents_def)
  show ?thesis
    using c(1) pos sum le cnt by (simp add: kvStat_def foldl_plus comp_def Let_def contents_def)
qed

theorem kv_stat_accounts_witness:
  "\<exists>b s. NewKVBuffer sample_data 64 = Ret (Inr b) \<and> kvStat b = Ret s \<and> KVCount s = 0 \<and>
    FreeDataSize s = CanotUseSize s + FreeChunkNum s * int (sub32 (chunkNum (core b)) 4)"
proof -
  from sample_open(1) obtain b where "NewKVBuffer sample_data 64 = Ret (Inr b)" "kv_inv b" "kv_map b = Map.empty" by blast
  with kv_stat_accounts [of b] show ?thesis by auto
qed

text \<open>An empty value whose key fills the last chunk exactly cannot be read: \<open>GetVal\<close> looks
  for it in a chunk the node does not have and panics.\<close>

theorem kv_boundary_panics:
  assumes "13 \<le> cs" "cs < 2 ^ 32" "keySize n + 12 < 2 ^ 32" "8 + keySize n = length (chunks n) * (cs - 4)"
  shows "GetVal d cs n = Panic"
  using GetVal_boundary [OF assms] .

theorem kv_boundary_panics_witness:
  "GetVal (replicate 1024 0) 32 \<lparr>chunks = [\<lparr>cpos = 16, cindex = 1, cnext = 1\<rparr>], keySize = 20, valSize = 0\<rparr> = Panic"
  by (rule kv_boundary_panics) simp_all


subsection \<open>The cache\<close>

text \<open>C28: Adding a new key to a full cache evicts the least recently used entry and only
  that one, passing it to the callback; the new entry is the most recent, the others keep their
  order, the key can be looked up and the evicted key cannot.\<close>

theorem lru_evicts_oldest:
  assumes "lru_inv c" "map_of (contents c) k = None" "contents c = l @ [(old, w)]"
    "lsize c \<le> int (length (contents c))" "cb old w st = Ret st'"
  shows "\<exists>c' c''. Add cb k v c st = Ret (c', st', True) \<and> lru_inv c' \<and> contents c' = (k, v) # l \<and>
    Get k c' = Ret (c'', Some v) \<and> Contains old c' = False"
proof -
  from Add_full [OF assms(1-4), of cb v st] assms(5) obtain c' where
    c': "Add cb k v c st = Ret (c', st', True)" "lru_inv c'" "contents c' = (k, v) # l" by auto
  have "distinct (map fst (contents c))" using lru.keys_distinct [OF assms(1)] .
  then have "map_of l old = None" "old \<noteq> k" using assms(2,3) by (auto simp: map_of_eq_None_iff)
  then have "items c' old = None" using items_None [OF c'(2)] c'(3) by simp
  moreover obtain c'' where "Get k c' = Ret (c'', Some v)" using lru.get_law [OF c'(2), of k] c'(3) by auto
  ultimately show ?thesis using c' by (auto simp: Contains_def)
qed

definition sample_lru :: "(nat, nat) lru" where
  "sample_lru = \<lparr>lsize = 2, evictList = [(1, 20, 200), (0, 10, 100)], items = [20 \<mapsto> 1, 10 \<mapsto> 0], fresh = 2\<rparr>"

theorem lru_evicts_oldest_witness:
  "\<exists>c' c''. Add (\<lambda>k v st. Ret (st @ [(k, v)])) 30 300 sample_lru [] = Ret (c', [(10, 100)], True) \<and> lru_inv c' \<and>
    contents c' = [(30, 300), (20, 200)] \<and> Get 30 c' = Ret (c'', Some 300) \<and> Contains 10 c' = False"
proof -
  have "lru_inv sample_lru"
    by (auto simp: sample_lru_def lru_inv_def contents_def split: if_splits)
  from lru_evicts_oldest [OF this, of 30 "[(20, 200)]" 10 100 "\<lambda>k v st. Ret (st @ [(k, v)])" "[]" "[(10, 100)]" 300]
  show ?thesis by (simp add: sample_lru_def contents_def)
qed

end
