(* ===== verification/Frame.thy ===== *)
theory Frame
  imports Spb_Props
begin

text \<open>
  Message framing: \<^verbatim>\<open>src/stnet/encode.go\<close> and the encoders of \<^verbatim>\<open>src/stnet/rpc.go\<close>.

  Messages travel as a four byte length followed by the encoded body.  Bodies are encoded by the
  codec of \<open>Spb\<close> or by Go's JSON package; the latter is an argument of the definitions
  (\<open>json_lib\<close>) and nothing is assumed of it here.  A message is a Go value (\<open>goval\<close>), the
  destination of a decoder a pointer to one.
\<close>

record json_lib =
  json_Marshal :: "goval \<Rightarrow> bytes option"
  json_Unmarshal :: "bytes \<Rightarrow> goval \<Rightarrow> goval \<times> bool"

datatype encerr =
    ESpb spberr | EJson | EEncodeType int | ENeedPtr | ETooLong nat | EMsgLen u32 | EApp string

abbreviation (input) EncodeTyepSpb :: int where "EncodeTyepSpb \<equiv> 0"
abbreviation (input) EncodeTyepJson :: int where "EncodeTyepJson \<equiv> 1"

definition MaxMsgSize :: nat where
  "MaxMsgSize = 2 * 1024 * 1024"

definition Marshal :: "json_lib \<Rightarrow> goval \<Rightarrow> int \<Rightarrow> (bytes \<times> encerr option) go" where
  "Marshal js m encodeType =
     (if encodeType = EncodeTyepSpb then go_map (\<lambda>(d, e). (d, map_option ESpb e)) (SpbEncode m)
      else if encodeType = EncodeTyepJson then
        Ret (case json_Marshal js m of Some d \<Rightarrow> (d, None) | None \<Rightarrow> ([], Some EJson))
      else Ret ([], Some (EEncodeType encodeType)))"

definition Unmarshal :: "json_lib \<Rightarrow> bytes \<Rightarrow> goval \<Rightarrow> int \<Rightarrow> (goval \<times> encerr option) go" where
  "Unmarshal js data m encodeType =
     (case m of
        VPtr t (Some y) \<Rightarrow>
          if encodeType = EncodeTyepSpb then go_map (\<lambda>(x, e). (x, map_option ESpb e)) (SpbDecode data m)
          else if encodeType = EncodeTyepJson then
            Ret (let (x, ok) = json_Unmarshal js data m in (x, if ok then None else Some EJson))
          else Ret (m, Some (EEncodeType encodeType))
      | _ \<Rightarrow> Ret (m, Some ENeedPtr))"

definition rpcMarshal :: "spb \<Rightarrow> u32 \<Rightarrow> goval \<Rightarrow> (spb \<times> encerr option) go" where
  "rpcMarshal s tag i = go_map (\<lambda>(s', e). (s', map_option ESpb e)) (pack s tag i True True)"

definition rpcUnmarshal :: "spb \<Rightarrow> u32 \<Rightarrow> goval \<Rightarrow> (spb \<times> goval \<times> encerr option) go" where
  "rpcUnmarshal s tag i =
     (case i of
        VPtr t (Some y) \<Rightarrow> go_map (\<lambda>(s', x, e). (s', x, map_option ESpb e)) (unpack_all s i True)
      | _ \<Rightarrow> Ret (s, i, Some ENeedPtr))"

text \<open>The two readers of the length field: the one of the rpc service leaves out the first
  byte, which carries flags there.  Both panic on fewer than four bytes.\<close>

definition MsgLen :: "bytes \<Rightarrow> u32 go" where
  "MsgLen b =
     (if length b < 4 then Panic
      else Ret (ucast (b ! 3) OR push_bit 8 (ucast (b ! 2)) OR push_bit 16 (ucast (b ! 1)) OR
                push_bit 24 (ucast (b ! 0))))"

definition msgLen :: "bytes \<Rightarrow> u32 go" where
  "msgLen b =
     (if length b < 4 then Panic
      else Ret (ucast (b ! 3) OR push_bit 8 (ucast (b ! 2)) OR push_bit 16 (ucast (b ! 1))))"

text \<open>\<open>byte(n >> k)\<close>\<close>

definition byte_at :: "nat \<Rightarrow> nat \<Rightarrow> byte" where
  "byte_at k n = of_nat (n div 2 ^ k)"

definition EncodeProtocol :: "json_lib \<Rightarrow> goval \<Rightarrow> int \<Rightarrow> (bytes \<times> encerr option) go" where
  "EncodeProtocol js msg encode =
     go_map (\<lambda>(data, e).
         if e \<noteq> None then ([], e)
         else let msglen = length data + 4
              in ([byte_at 24 msglen, byte_at 18 msglen, byte_at 8 msglen, byte_at 0 msglen] @ data, None))
       (Marshal js msg encode)"

definition encodeProtocol :: "json_lib \<Rightarrow> goval \<Rightarrow> int \<Rightarrow> (bytes \<times> encerr option) go" where
  "encodeProtocol js msg encode =
     go_map (\<lambda>(data, e).
         if e \<noteq> None then ([], e)
         else let msglen = length data + 4;
                  s0 = \<lparr>buf = [], index = 0\<rparr>;
                  s1 = packByte s0 (byte_at 24 msglen);
                  s2 = packByte s1 (byte_at 16 msglen);
                  s3 = packByte s2 (byte_at 8 msglen);
                  s4 = packByte s3 (byte_at 0 msglen);
                  s5 = packData s4 data
              in if buf s5 ! 0 > 0 then ([], Some (ETooLong msglen)) else (buf s5, None))
       (Marshal js msg encode)"


subsection \<open>The length field\<close>

definition frame :: "bytes \<Rightarrow> bytes" where
  "frame data = (let n = length data + 4 in [byte_at 24 n, byte_at 16 n, byte_at 8 n, byte_at 0 n] @ data)"

definition be_len :: "byte \<Rightarrow> byte \<Rightarrow> byte \<Rightarrow> byte \<Rightarrow> nat" where
  "be_len a b c d = unat a * 2 ^ 24 + unat b * 2 ^ 16 + unat c * 2 ^ 8 + unat d"

lemma or_push_bit: "unat x < 2 ^ k \<Longrightarrow> x OR push_bit k y = x + push_bit k y" for x y :: "'a::len word"
proof -
  assume "unat x < 2 ^ k"
  then have "take_bit k x = x" by (rule take_bit_less_self)
  then have lt: "bit x n \<Longrightarrow> n < k" for n by (metis bit_take_bit_iff)
  have "x AND push_bit k y = 0"
    by (intro bit_word_eqI) (use lt in \<open>force simp: bit_simps\<close>)
  then show ?thesis by (simp add: disjunctive_add_eq_or)
qed

lemma or_of_nat:
  fixes x :: byte
  assumes "n < 2 ^ k" "k < 32"
  shows "(of_nat n :: u32) OR push_bit k (ucast x) = of_nat (unat x * 2 ^ k + n)"
proof -
  have "(2::nat) ^ k < 2 ^ 32" using assms(2) by (intro power_strict_increasing) auto
  then have "unat (of_nat n :: u32) < 2 ^ k" using assms(1) by (simp add: unat_of_nat)
  then have "(of_nat n :: u32) OR push_bit k (ucast x) = of_nat n + push_bit k (ucast x)" by (rule or_push_bit)
  also have "\<dots> = of_nat (unat x * 2 ^ k + n)" by (simp add: push_bit_eq_mult)
  finally show ?thesis .
qed

lemma be_len_word:
  "ucast d OR push_bit 8 (ucast c) OR push_bit 16 (ucast b) OR push_bit 24 (ucast a) =
     (of_nat (be_len a b c d) :: u32)"
proof -
  note l = unat_byte_less [of d] unat_byte_less [of c] unat_byte_less [of b]
  have d: "ucast d = (of_nat (unat d) :: u32)" by transfer simp
  have "ucast d OR push_bit 8 (ucast c) = (of_nat (unat c * 2 ^ 8 + unat d) :: u32)"
    unfolding d using l(1) by (intro or_of_nat) simp_all
  moreover have "of_nat (unat c * 2 ^ 8 + unat d) OR push_bit 16 (ucast b) =
      (of_nat (unat b * 2 ^ 16 + (unat c * 2 ^ 8 + unat d)) :: u32)"
    using l by (intro or_of_nat) simp_all
  moreover have "of_nat (unat b * 2 ^ 16 + (unat c * 2 ^ 8 + unat d)) OR push_bit 24 (ucast a) =
      (of_nat (unat a * 2 ^ 24 + (unat b * 2 ^ 16 + (unat c * 2 ^ 8 + unat d))) :: u32)"
    using l by (intro or_of_nat) simp_all
  ultimately show ?thesis by (simp only: be_len_def or.assoc [symmetric] add.assoc)
qed

lemma be_len_lt: "be_len a b c d < 2 ^ 32"
  using unat_byte_less [of a] unat_byte_less [of b] unat_byte_less [of c] unat_byte_less [of d]
  by (simp add: be_len_def)

lemma MsgLen_Cons: "\<exists>w. MsgLen (a # b # c # d # r) = Ret w \<and> unat w = be_len a b c d"
  using be_len_lt [of a b c d] be_len_word [of d c b a]
  by (simp add: MsgLen_def nth_Cons' unat_of_nat)

lemma msgLen_Cons: "\<exists>w. msgLen (a # b # c # d # r) = Ret w \<and> unat w = be_len 0 b c d"
  using be_len_lt [of 0 b c d] be_len_word [of d c b 0]
  by (simp add: msgLen_def nth_Cons' unat_of_nat)

lemma unat_byte_at: "unat (byte_at k n) = n div 2 ^ k mod 256"
  by (simp add: byte_at_def unat_of_nat)

lemma be_len_bytes: "n < 2 ^ 32 \<Longrightarrow> be_len (byte_at 24 n) (byte_at 16 n) (byte_at 8 n) (byte_at 0 n) = n"
proof -
  assume "n < 2 ^ 32"
  then have "n div 2 ^ 24 < 256" by (simp add: less_mult_imp_div_less)
  moreover have "n = n div 2 ^ 8 * 2 ^ 8 + n mod 256" by (simp add: mult.commute)
  moreover have "n div 2 ^ 8 = n div 2 ^ 16 * 2 ^ 8 + n div 2 ^ 8 mod 256"
    using div_mult_mod_eq [of "n div 2 ^ 8" 256] by (simp add: div_mult2_eq [symmetric])
  moreover have "n div 2 ^ 16 = n div 2 ^ 24 * 2 ^ 8 + n div 2 ^ 16 mod 256"
    using div_mult_mod_eq [of "n div 2 ^ 16" 256] by (simp add: div_mult2_eq [symmetric])
  ultimately have "n = ((n div 2 ^ 24 * 2 ^ 8 + n div 2 ^ 16 mod 256) * 2 ^ 8 + n div 2 ^ 8 mod 256) * 2 ^ 8 + n mod 256"
    by metis
  with \<open>n div 2 ^ 24 < 256\<close> show ?thesis by (simp add: be_len_def unat_byte_at)
qed

lemma length_frame [simp]: "length (frame d) = length d + 4"
  by (simp add: frame_def Let_def)

lemma drop_frame [simp]: "drop 4 (frame d) = d"
  by (simp add: frame_def Let_def)

lemma MsgLen_frame: "length d + 4 < 2 ^ 32 \<Longrightarrow> \<exists>w. MsgLen (frame d @ r) = Ret w \<and> unat w = length d + 4"
  using MsgLen_Cons [of "byte_at 24 (length d + 4)" "byte_at 16 (length d + 4)" "byte_at 8 (length d + 4)" "byte_at 0 (length d + 4)" "d @ r"]
    be_len_bytes [of "length d + 4"] by (simp add: frame_def Let_def)

text \<open>The flags a sender puts into the first byte do not disturb the rpc length.\<close>

lemma msgLen_frame:
  assumes "length d + 4 < 2 ^ 24"
  shows "\<exists>w. msgLen ((frame d)[0 := x] @ r) = Ret w \<and> unat w = length d + 4" "frame d ! 0 = 0"
proof -
  let ?n = "length d + 4"
  have z: "byte_at 24 ?n = 0"
    using assms by (simp add: byte_at_def)
  have "be_len 0 (byte_at 16 ?n) (byte_at 8 ?n) (byte_at 0 ?n) = ?n"
    using be_len_bytes [of ?n] z assms by simp
  then show "\<exists>w. msgLen ((frame d)[0 := x] @ r) = Ret w \<and> unat w = ?n"
    using msgLen_Cons [of x "byte_at 16 ?n" "byte_at 8 ?n" "byte_at 0 ?n" "d @ r"] by (simp add: frame_def Let_def)
  show "frame d ! 0 = 0" using z by (simp add: frame_def Let_def)
qed

lemma EncodeProtocol_frame:
  assumes "Marshal js m e = Ret (d, None)" "length d + 4 < 2 ^ 16"
  shows "EncodeProtocol js m e = Ret (frame d, None)"
proof -
  have "byte_at 18 (length d + 4) = byte_at 16 (length d + 4)"
    using assms(2) by (simp add: byte_at_def)
  then show ?thesis using assms(1) by (simp add: EncodeProtocol_def frame_def Let_def)
qed

lemma encodeProtocol_frame:
  assumes "Marshal js m e = Ret (d, None)" "length d + 4 < 2 ^ 24"
  shows "encodeProtocol js m e = Ret (frame d, None)"
  using assms msgLen_frame(2) [OF assms(2)]
  by (simp add: encodeProtocol_def frame_def Let_def packByte_def packData_def)

text \<open>\<open>encodeProtocol\<close> and the readers of the length agree: for a body that fits into three
  length bytes the frame announces exactly its own length (also after the flags of the rpc
  service have been set in the first byte), and a body that needs the fourth byte is refused.\<close>

theorem frame_length_announced:
  assumes "Marshal js m e = Ret (d, None)" "length d + 4 < 2 ^ 32"
  shows "(length d + 4 < 2 ^ 24 \<longrightarrow> (\<exists>b. encodeProtocol js m e = Ret (b, None) \<and> length b = length d + 4 \<and> drop 4 b = d \<and>
      (\<forall>r. \<exists>w. MsgLen (b @ r) = Ret w \<and> unat w = length b) \<and>
      (\<forall>x r. \<exists>w. msgLen (b[0 := x] @ r) = Ret w \<and> unat w = length b))) \<and>
    (2 ^ 24 \<le> length d + 4 \<longrightarrow> encodeProtocol js m e = Ret ([], Some (ETooLong (length d + 4))))"
proof (intro conjI impI)
  assume l: "length d + 4 < 2 ^ 24"
  then show "\<exists>b. encodeProtocol js m e = Ret (b, None) \<and> length b = length d + 4 \<and> drop 4 b = d \<and>
      (\<forall>r. \<exists>w. MsgLen (b @ r) = Ret w \<and> unat w = length b) \<and>
      (\<forall>x r. \<exists>w. msgLen (b[0 := x] @ r) = Ret w \<and> unat w = length b)"
    using encodeProtocol_frame [OF assms(1) l] MsgLen_frame [OF assms(2)] msgLen_frame(1) [OF l] by simp
next
  assume l: "2 ^ 24 \<le> length d + 4"
  let ?n = "length d + 4"
  have "1 \<le> ?n div 2 ^ 24" using div_le_mono [OF l, of "2 ^ 24"] by simp
  moreover have "?n div 2 ^ 24 < 256" using assms(2) by (simp add: less_mult_imp_div_less)
  ultimately have "unat (byte_at 24 ?n) \<noteq> 0" by (simp add: unat_byte_at)
  then have "0 < byte_at 24 ?n" by (metis unat_0 word_neq_0_conv)
  then show "encodeProtocol js m e = Ret ([], Some (ETooLong ?n))"
    using assms(1) by (simp add: encodeProtocol_def Let_def packByte_def packData_def)
qed

definition no_json :: json_lib where
  "no_json = \<lparr>json_Marshal = (\<lambda>m. None), json_Unmarshal = (\<lambda>d m. (m, False))\<rparr>"

lemma sample_marshal: "Marshal no_json (VString [7]) 0 = Ret ([64, 1, 7], None)"
  by (simp add: Marshal_def SpbEncode_def pack.simps pack_append hdr_def varint.simps Let_def word_le_nat_alt)

theorem frame_length_announced_witness:
  "\<exists>b. encodeProtocol no_json (VString [7]) 0 = Ret (b, None) \<and> length b = 7 \<and>
    (\<exists>w. MsgLen (b @ [1, 2, 3]) = Ret w \<and> unat w = 7) \<and> (\<exists>w. msgLen (b[0 := 3] @ [1]) = Ret w \<and> unat w = 7)"
  using frame_length_announced [OF sample_marshal] by auto

lemma be_len_cmp:
  "be_len a b c d = be_len a b' c d \<longleftrightarrow> unat b = unat b'" "be_len a b c d < be_len a b' c d \<longleftrightarrow> unat b < unat b'"
  by (simp_all add: be_len_def)

text \<open>C37: \<open>EncodeProtocol\<close> shifts the length by 18 where 16 is meant.  For a frame of \<open>n\<close> bytes, less
  than 4 GB, the announced length is right exactly if bits 16 to 23 of \<open>n\<close> equal bits 18 to 25:
  always below 64 KB, never from 64 KB to 16 MB, where it is too small and the receiver splits the
  stream in the wrong place, and only for some lengths from 16 MB on.\<close>

theorem frame_length_wrong:
  assumes "Marshal js m e = Ret (d, None)" "n = length d + 4" "n < 2 ^ 32"
  shows "\<exists>b w. EncodeProtocol js m e = Ret (b, None) \<and> length b = n \<and> MsgLen b = Ret w \<and>
    (unat w = n \<longleftrightarrow> n div 2 ^ 18 mod 256 = n div 2 ^ 16 mod 256) \<and>
    (n < 2 ^ 16 \<longrightarrow> unat w = n) \<and> (2 ^ 16 \<le> n \<and> n < 2 ^ 24 \<longrightarrow> unat w < n)"
proof -
  let ?b = "[byte_at 24 n, byte_at 18 n, byte_at 8 n, byte_at 0 n] @ d"
  have e: "EncodeProtocol js m e = Ret (?b, None)" using assms(1,2) by (simp add: EncodeProtocol_def Let_def)
  from MsgLen_Cons [of "byte_at 24 n" "byte_at 18 n" "byte_at 8 n" "byte_at 0 n" d] obtain w where
    w: "MsgLen ?b = Ret w" "unat w = be_len (byte_at 24 n) (byte_at 18 n) (byte_at 8 n) (byte_at 0 n)" by auto
  have n: "n = be_len (byte_at 24 n) (byte_at 16 n) (byte_at 8 n) (byte_at 0 n)"
    using assms(3) by (intro be_len_bytes [symmetric]) simp
  have "unat w = n \<longleftrightarrow> unat (byte_at 18 n) = unat (byte_at 16 n)" "unat w < n \<longleftrightarrow> unat (byte_at 18 n) < unat (byte_at 16 n)"
    using w(2) n be_len_cmp by metis+
  then have cmp: "unat w = n \<longleftrightarrow> n div 2 ^ 18 mod 256 = n div 2 ^ 16 mod 256"
    "unat w < n \<longleftrightarrow> n div 2 ^ 18 mod 256 < n div 2 ^ 16 mod 256"
    by (simp_all only: unat_byte_at)
  have "n div 2 ^ 18 mod 256 = n div 2 ^ 16 mod 256" if "n < 2 ^ 16" using that by simp
  moreover have "n div 2 ^ 18 mod 256 < n div 2 ^ 16 mod 256" if "2 ^ 16 \<le> n" "n < 2 ^ 24"
  proof -
    have "1 \<le> n div 2 ^ 16" using div_le_mono [OF that(1), of "2 ^ 16"] by simp
    moreover have "n div 2 ^ 18 = n div 2 ^ 16 div 4" by (simp add: div_mult2_eq [symmetric])
    ultimately have "n div 2 ^ 18 < n div 2 ^ 16" by simp
    moreover have "n div 2 ^ 16 < 256" using that(2) by (simp add: less_mult_imp_div_less)
    ultimately show ?thesis by simp
  qed
  moreover have "length ?b = n" using assms(2) by simp
  ultimately show ?thesis using e w(1) cmp by blast
qed

lemma big_marshal:
  "\<exists>h. Marshal no_json (VString (replicate 70000 x)) 0 = Ret (h @ replicate 70000 x, None) \<and> length h < 100"
proof -
  have v: "pack \<lparr>buf = [], index = 0\<rparr> 0 (VString (replicate 70000 x)) True True =
      Ret (\<lparr>buf = hdr 0 Wire_String @ varint 70000 @ replicate 70000 x, index = 0\<rparr>, None)"
    by (simp add: pack.simps pack_append)
  have "length (varint 70000) \<le> 10" by (rule length_varint) simp_all
  moreover have "length (hdr 0 Wire_String) \<le> 11" by (simp add: hdr_def)
  ultimately show ?thesis
    by (intro exI [of _ "hdr 0 Wire_String @ varint 70000"]) (simp add: Marshal_def SpbEncode_def v)
qed

theorem frame_length_wrong_witness:
  "\<exists>b w. EncodeProtocol no_json (VString (replicate 70000 0)) 0 = Ret (b, None) \<and> 70000 < length b \<and>
    MsgLen b = Ret w \<and> unat w < length b"
proof -
  from big_marshal [of 0] obtain h where
    h: "Marshal no_json (VString (replicate 70000 0)) 0 = Ret (h @ replicate 70000 0, None)" "length h < 100" by auto
  from frame_length_wrong [OF h(1) refl] h(2) show ?thesis by auto
qed

end
