(* ===== verification/Service.thy ===== *)
theory Service
  imports Frame
begin

text \<open>
  Services: \<^verbatim>\<open>src/stnet/service.go\<close> with the interface of \<^verbatim>\<open>serviceimp.go\<close>.

  A service owns one message queue per processor thread (buffered channels of 10240 slots, here
  lists) and wakes the thread through a channel with one slot (here the number of tokens in
  it, which the services of a server share).  The implementation behind the Go interface
  \<open>ServiceImp\<close> is a record of functions on a state \<open>'w\<close> of its own; a handler may finish,
  panic (keeping what it had done) or not return.  A \<open>*Session\<close> is its id with the fields
  this code reads.
\<close>

subsection \<open>Data\<close>

type_synonym addr = string

datatype cmdType = Data | Open | Close | HeartBeat | System

datatype udata = NoUser | UConnect u64 | USession u64 | UNum u64 | UOther string

record sessRef =
  sess_id :: u64
  sess_peer :: "addr option"
  sess_user :: udata

record current =
  GoroutineID :: int
  Sess :: "sessRef option"
  UserDefined :: udata
  Peer :: "addr option"

text \<open>The wire messages of the rpc service (\<^verbatim>\<open>rpc.go\<close>).\<close>

record reqProto =
  ReqCmdId :: u32
  ReqCmdSeq :: u32
  ReqData :: bytes
  IsOneWay :: bool
  ReqFuncName :: bytes

record rspProto =
  RspCmdId :: u32
  RspCmdSeq :: u32
  PushSeqId :: u32
  RspCode :: u32
  RspData :: bytes
  RspFuncName :: bytes

text \<open>What the http service reads of an \<open>*http.Request\<close> (\<^verbatim>\<open>servicehttp.go\<close>).\<close>

record httpReq =
  rHost :: string
  rPath :: string
  rURI :: string
  rProto11 :: bool
  rBody :: bytes

text \<open>What the code passes around as \<open>interface{}\<close>.\<close>

datatype imsg = MNil | MBytes bytes | MReq reqProto | MRsp rspProto | MVal goval | MHttp httpReq

record sessionMessage =
  mSess :: "sessRef option"
  DtType :: cmdType
  MsgID :: int
  Msg :: imsg
  MErr :: "encerr option"
  mpeer :: "addr option"

datatype 'w outcome = Done 'w | Panicked 'w | Stuck

record parsed =
  lenParsed :: int
  pMsgID :: int
  pMsg :: imsg
  pErr :: "encerr option"

record 'w serviceImp =
  imp_Init :: "'w \<Rightarrow> 'w \<times> bool"
  imp_Loop :: "'w \<Rightarrow> 'w outcome"
  imp_Destroy :: "'w \<Rightarrow> 'w"
  imp_HandleMessage :: "current \<Rightarrow> u64 \<Rightarrow> imsg \<Rightarrow> 'w \<Rightarrow> 'w outcome"
  imp_HandleError :: "current \<Rightarrow> encerr \<Rightarrow> 'w \<Rightarrow> 'w outcome"
  imp_SessionClose :: "sessRef option \<Rightarrow> 'w \<Rightarrow> 'w outcome"
  imp_HeartBeatTimeOut :: "sessRef option \<Rightarrow> 'w \<Rightarrow> 'w outcome"
  imp_SessionOpen :: "sessRef option \<Rightarrow> 'w \<Rightarrow> 'w outcome"
  imp_Unmarshal :: "sessRef \<Rightarrow> bytes \<Rightarrow> 'w \<Rightarrow> ('w \<times> parsed) go"
  imp_HashProcessor :: "current \<Rightarrow> u64 \<Rightarrow> imsg \<Rightarrow> int go"

record 'w service =
  Name :: string
  imp :: "'w serviceImp"
  messageQ :: "sessionMessage list list"
  threadId :: int
  threadsNum :: int

definition queueLen :: nat where
  "queueLen = 10240"

text \<open>A send inside \<open>select\<close> with a \<open>default\<close> branch: nothing happens on a full channel.\<close>

definition trySend :: "nat \<Rightarrow> 'a \<Rightarrow> 'a list \<Rightarrow> 'a list \<times> bool" where
  "trySend cap x q = (if length q < cap then (q @ [x], True) else (q, False))"

definition wakeup :: "nat \<Rightarrow> nat list \<Rightarrow> nat list go" where
  "wakeup th sig = (if th < length sig then Ret (sig[th := 1]) else Panic)"


subsection \<open>Addresses\<close>

text \<open>What the code uses of \<open>strings\<close>.\<close>

fun starts_with :: "string \<Rightarrow> string \<Rightarrow> bool" where
  "starts_with [] s = True"
| "starts_with (c # p) [] = False"
| "starts_with (c # p) (d # s) = (c = d \<and> starts_with p s)"

fun str_contains :: "string \<Rightarrow> string \<Rightarrow> bool" where
  "str_contains p [] = (p = [])"
| "str_contains p (c # s) = (starts_with p (c # s) \<or> str_contains p s)"

function str_remove :: "string \<Rightarrow> string \<Rightarrow> string" where
  "str_remove p s =
     (case s of [] \<Rightarrow> []
      | c # r \<Rightarrow> if p \<noteq> [] \<and> starts_with p s then str_remove p (drop (length p) s) else c # str_remove p r)"
  by pat_completeness auto
termination
  by (relation "measure (\<lambda>(p, s). length s)") auto

declare str_remove.simps [simp del]

definition parseAddress :: "string \<Rightarrow> string \<times> string" where
  "parseAddress address =
     (let ipport = str_remove '' '' address
      in if str_contains ''udp:'' address then (''udp'', str_remove ''udp:'' ipport) else (''tcp'', ipport))"


subsection \<open>Dispatch\<close>

definition handleMsg :: "'w serviceImp \<Rightarrow> current \<Rightarrow> sessionMessage \<Rightarrow> 'w \<Rightarrow> current \<times> 'w outcome" where
  "handleMsg im cur msg w =
     (let cur' = cur\<lparr>Sess := mSess msg, Peer := mpeer msg\<rparr>
      in (cur', case MErr msg of
           Some e \<Rightarrow> imp_HandleError im cur' e w
         | None \<Rightarrow>
             (case DtType msg of
                Open \<Rightarrow> imp_SessionOpen im (mSess msg) w
              | Close \<Rightarrow> imp_SessionClose im (mSess msg) w
              | HeartBeat \<Rightarrow> imp_HeartBeatTimeOut im (mSess msg) w
              | Data \<Rightarrow> imp_HandleMessage im cur' (word_of_int (MsgID msg)) (Msg msg) w
              | System \<Rightarrow> Done w)))"

text \<open>\<open>messageThread\<close> handles up to 1024 messages of one queue; a panic is recovered, ends the
  call and makes it return 0.\<close>

fun messageLoop ::
  "nat \<Rightarrow> 'w serviceImp \<Rightarrow> current \<Rightarrow> sessionMessage list \<Rightarrow> 'w \<Rightarrow> nat \<Rightarrow> (current \<times> sessionMessage list \<times> 'w \<times> nat) go" where
  "messageLoop 0 im cur q w n = Ret (cur, q, w, n)"
| "messageLoop (Suc i) im cur [] w n = Ret (cur, [], w, n)"
| "messageLoop (Suc i) im cur (m # q) w n =
     (case handleMsg im cur m w of
        (cur', Done w') \<Rightarrow> messageLoop i im cur' q w' (Suc n)
      | (cur', Panicked w') \<Rightarrow> Ret (cur', q, w', 0)
      | (cur', Stuck) \<Rightarrow> Diverge)"

definition messageThread :: "'w service \<Rightarrow> current \<Rightarrow> 'w \<Rightarrow> ('w service \<times> current \<times> 'w \<times> nat) go" where
  "messageThread sv cur w =
     (let th = nat (GoroutineID cur)
      in if GoroutineID cur < 0 \<or> th \<ge> length (messageQ sv) then Ret (sv, cur, w, 0)
         else go_map (\<lambda>(cur', q, w', n). (sv\<lparr>messageQ := (messageQ sv)[th := q]\<rparr>, cur', w', n))
                (messageLoop 1024 (imp sv) cur (messageQ sv ! th) w 0))"

text \<open>Go's \<open>%\<close> is \<open>mod\<close> here, since neither operand is negative; it panics on 0.\<close>

definition getProcessor :: "'w service \<Rightarrow> sessRef option \<Rightarrow> int \<Rightarrow> imsg \<Rightarrow> int go" where
  "getProcessor sv sess msgid msg =
     (let cur = (case sess of
                   None \<Rightarrow> \<lparr>GoroutineID = 0, Sess = None, UserDefined = NoUser, Peer = None\<rparr>
                 | Some s \<Rightarrow> \<lparr>GoroutineID = 0, Sess = Some s, UserDefined = sess_user s, Peer = sess_peer s\<rparr>)
      in go_bind (imp_HashProcessor (imp sv) cur (word_of_int msgid) msg)
           (\<lambda>th. if th > 0 then (if threadsNum sv = 0 then Panic else Ret (th mod threadsNum sv))
              else if th = 0 then Ret (threadId sv)
              else case sess of
                Some s \<Rightarrow> if threadsNum sv = 0 then Panic else Ret (int (unat (sess_id s)) mod threadsNum sv)
              | None \<Rightarrow> Ret (threadId sv)))"

text \<open>The common end of \<open>PushRequest\<close>, \<open>ParseMsg\<close> and \<open>sessionEvent\<close>: a send to queue
  \<open>th\<close>, which panics when there is no such queue.\<close>

definition enqueue :: "'w service \<Rightarrow> int \<Rightarrow> sessionMessage \<Rightarrow> ('w service \<times> bool) go" where
  "enqueue sv th m =
     (if th < 0 \<or> nat th \<ge> length (messageQ sv) then Panic
      else let (q, ok) = trySend queueLen m (messageQ sv ! nat th)
           in Ret (sv\<lparr>messageQ := (messageQ sv)[nat th := q]\<rparr>, ok))"

definition PushRequest ::
  "'w service \<Rightarrow> nat list \<Rightarrow> sessRef option \<Rightarrow> int \<Rightarrow> imsg \<Rightarrow> ('w service \<times> nat list \<times> encerr option) go" where
  "PushRequest sv sig sess msgid msg =
     go_bind (getProcessor sv sess msgid msg)
       (\<lambda>th. go_bind (enqueue sv th \<lparr>mSess = sess, DtType = Data, MsgID = msgid, Msg = msg, MErr = None,
                                     mpeer = (case sess of Some s \<Rightarrow> sess_peer s | None \<Rightarrow> None)\<rparr>)
          (\<lambda>(sv', ok). if \<not> ok then Ret (sv', sig, Some (EApp ''service recv queue is full''))
             else go_map (\<lambda>sig'. (sv', sig', None)) (wakeup (nat th) sig)))"

definition ParseMsg ::
  "'w service \<Rightarrow> nat list \<Rightarrow> 'w \<Rightarrow> sessRef \<Rightarrow> bytes \<Rightarrow> ('w service \<times> nat list \<times> 'w \<times> int) go" where
  "ParseMsg sv sig w sess data =
     go_bind (imp_Unmarshal (imp sv) sess data w)
       (\<lambda>(w', p). if lenParsed p \<le> 0 \<or> pMsgID p < 0 then Ret (sv, sig, w', lenParsed p)
          else go_bind (getProcessor sv (Some sess) (pMsgID p) (pMsg p))
            (\<lambda>th. go_bind (enqueue sv th \<lparr>mSess = Some sess, DtType = Data, MsgID = pMsgID p, Msg = pMsg p,
                                          MErr = pErr p, mpeer = sess_peer sess\<rparr>)
               (\<lambda>(sv', ok). go_map (\<lambda>sig'. (sv', sig', w', lenParsed p)) (wakeup (nat th) sig))))"

text \<open>For \<open>Open\<close> the handler runs at once, in the goroutine of the session, which does not
  recover from a panic.  For the other events the send waits up to 100 ms for a free slot; the
  queue is the one at the end of that wait.\<close>

definition sessionEvent ::
  "'w service \<Rightarrow> nat list \<Rightarrow> 'w \<Rightarrow> sessRef \<Rightarrow> cmdType \<Rightarrow> ('w service \<times> nat list \<times> 'w) go" where
  "sessionEvent sv sig w sess cmd =
     (let m = \<lparr>mSess = Some sess, DtType = cmd, MsgID = 0, Msg = MNil, MErr = None, mpeer = sess_peer sess\<rparr>
      in if cmd = Open then
           (case snd (handleMsg (imp sv) \<lparr>GoroutineID = threadId sv, Sess = Some sess, UserDefined = NoUser, Peer = None\<rparr> m w) of
              Done w' \<Rightarrow> Ret (sv, sig, w') | Panicked w' \<Rightarrow> Panic | Stuck \<Rightarrow> Diverge)
         else go_bind (if cmd = Data then getProcessor sv (Some sess) 0 MNil else Ret (threadId sv))
           (\<lambda>th. go_bind (enqueue sv th m)
              (\<lambda>(sv', ok). if ok then go_map (\<lambda>sig'. (sv', sig', w)) (wakeup (nat th) sig) else Ret (sv', sig, w))))"

definition loop :: "'w service \<Rightarrow> 'w \<Rightarrow> 'w go" where
  "loop sv w = (case imp_Loop (imp sv) w of Done w' \<Rightarrow> Ret w' | Panicked w' \<Rightarrow> Ret w' | Stuck \<Rightarrow> Diverge)"

text \<open>The part of \<open>destroy\<close> that concerns the queues: a \<open>System\<close> message wakes every thread.\<close>

definition destroyQueues :: "'w service \<Rightarrow> 'w service" where
  "destroyQueues sv =
     sv\<lparr>messageQ := map (\<lambda>q. fst (trySend queueLen
          \<lparr>mSess = None, DtType = System, MsgID = 0, Msg = MNil, MErr = None, mpeer = None\<rparr> q)) (messageQ sv)\<rparr>"


subsection \<open>Well-formed services\<close>

definition service_ok :: "'w service \<Rightarrow> nat list \<Rightarrow> bool" where
  "service_ok sv sig \<longleftrightarrow> 0 < threadsNum sv \<and> length (messageQ sv) = nat (threadsNum sv) \<and>
     length sig = nat (threadsNum sv) \<and> 0 \<le> threadId sv \<and> threadId sv < threadsNum sv \<and>
     (\<forall>q \<in> set (messageQ sv). length q \<le> queueLen) \<and> (\<forall>n \<in> set sig. n \<le> 1)"

lemma getProcessor_range:
  assumes "service_ok sv sig" "getProcessor sv sess msgid msg = Ret th"
  shows "0 \<le> th \<and> th < threadsNum sv"
  using assms by (auto simp: getProcessor_def Let_def service_ok_def go_simps split: option.splits if_splits)

lemma getProcessor_returns:
  assumes "service_ok sv sig" "\<And>cur j. returns (imp_HashProcessor (imp sv) cur j msg)"
  shows "\<exists>th. getProcessor sv sess msgid msg = Ret th"
proof -
  have "\<exists>h. imp_HashProcessor (imp sv) cur j msg = Ret h" for cur j using assms(2) by (simp add: returns_def)
  then obtain h where h: "imp_HashProcessor (imp sv) (case sess of
       None \<Rightarrow> \<lparr>GoroutineID = 0, Sess = None, UserDefined = NoUser, Peer = None\<rparr>
     | Some s \<Rightarrow> \<lparr>GoroutineID = 0, Sess = Some s, UserDefined = sess_user s, Peer = sess_peer s\<rparr>)
       (word_of_int msgid) msg = Ret h" by blast
  have "0 < threadsNum sv" using assms(1) by (simp add: service_ok_def)
  with h show ?thesis by (cases "0 < h"; cases "h = 0"; cases sess) (simp_all add: getProcessor_def)
qed

lemma enqueue_ok:
  assumes "service_ok sv sig" "0 \<le> th" "th < threadsNum sv"
  shows "\<exists>sv' ok. enqueue sv th m = Ret (sv', ok) \<and> service_ok sv' sig \<and> imp sv' = imp sv \<and>
    messageQ sv' = (if ok then (messageQ sv)[nat th := messageQ sv ! nat th @ [m]] else messageQ sv) \<and>
    ok = (length (messageQ sv ! nat th) < queueLen)"
proof -
  have th: "nat th < length (messageQ sv)" using assms by (simp add: service_ok_def)
  then have "messageQ sv ! nat th \<in> set (messageQ sv)" by simp
  then have "length (messageQ sv ! nat th) \<le> queueLen" using assms(1) by (simp add: service_ok_def)
  moreover have "\<forall>q \<in> set ((messageQ sv)[nat th := messageQ sv ! nat th @ [m]]). length q \<le> queueLen"
    if "length (messageQ sv ! nat th) < queueLen"
    using that assms(1) set_update_subset_insert [of "messageQ sv" "nat th"] by (fastforce simp: service_ok_def)
  ultimately show ?thesis
    using assms th by (auto simp: enqueue_def trySend_def service_ok_def)
qed

lemma wakeup_ok:
  assumes "service_ok sv sig" "0 \<le> th" "th < threadsNum sv"
  shows "\<exists>sig'. wakeup (nat th) sig = Ret sig' \<and> service_ok sv sig' \<and> sig' ! nat th = 1"
proof -
  have th: "nat th < length sig" using assms by (simp add: service_ok_def)
  moreover have "\<forall>n \<in> set (sig[nat th := 1]). n \<le> 1"
    using assms(1) set_update_subset_insert [of sig "nat th" 1] by (auto simp: service_ok_def)
  ultimately show ?thesis using assms(1) by (simp add: wakeup_def service_ok_def)
qed

end
