(* ===== verification/Session.thy ===== *)
theory Session
  imports Service "HOL-Library.Sublist"
begin

text \<open>
  Sessions: \<^verbatim>\<open>src/stnet/session.go\<close> and \<^verbatim>\<open>close.go\<close>.

  A session runs three goroutines.  \<open>dorecv\<close> reads the socket into the channel \<open>hander\<close>,
  \<open>dohand\<close> reassembles messages from it and calls the parser, \<open>dosend\<close> writes the channel
  \<open>writer\<close> to the socket.  Each definition below is one turn of one of these loops, or one
  method; the local variable \<open>tempBuf\<close> of \<open>dohand\<close> and the life of its goroutine are
  fields of the record.  The random choice of \<open>select\<close> between several ready cases is an argument.
  The socket is \<open>sockOpen\<close> and the bytes given to it (\<open>sent\<close>).
\<close>

lemma go_bind_cong [fundef_cong]:
  "m = m' \<Longrightarrow> (\<And>x. m' = Ret x \<Longrightarrow> f x = f' x) \<Longrightarrow> go_bind m f = go_bind m' f'"
  by (cases m') auto

subsection \<open>Data\<close>

datatype sesserr = ErrSocketClosed | ErrSocketIsOpen | ErrSendBuffIsFull | ErrMsgParseNil

datatype channel = NilChan | OpenChan | ClosedChan

type_synonym rsData = "bytes \<times> addr option"

record session =
  s_id :: u64
  writer :: "rsData list"
  writerCap :: nat
  hander :: "rsData list"
  handerCap :: nat
  closer :: channel
  isclose :: bool
  heartbeat :: nat
  hasConn :: bool
  isUdp :: bool
  peer :: "addr option"
  UserData :: udata
  sockOpen :: bool
  sent :: "rsData list"
  tempBuf :: "bytes option"
  handing :: bool

record sessGlobals =
  WriterListLen :: nat
  RecvListLen :: nat
  GlobalSessionID :: u64

definition MsgBuffSize :: nat where "MsgBuffSize = 1024"
definition MinMsgSize :: nat where "MinMsgSize = 64"

definition sref :: "session \<Rightarrow> sessRef" where
  "sref s = \<lparr>sess_id = s_id s, sess_peer = peer s, sess_user = UserData s\<rparr>"


subsection \<open>Making and restarting a session\<close>

definition udpLens :: "bool \<Rightarrow> sessGlobals \<Rightarrow> sessGlobals" where
  "udpLens isudp g = (if isudp then g\<lparr>WriterListLen := 10240, RecvListLen := 10240\<rparr> else g)"

text \<open>The parser is nil or not; the goroutines start with the session.\<close>

definition NewSession :: "sessGlobals \<Rightarrow> bool \<Rightarrow> nat \<Rightarrow> bool \<Rightarrow> sessGlobals \<times> (sesserr + session)" where
  "NewSession g hasParse hb isudp =
     (if \<not> hasParse then (g, Inl ErrMsgParseNil)
      else let g1 = udpLens isudp g;
               g2 = g1\<lparr>GlobalSessionID := GlobalSessionID g1 + 1\<rparr>
           in (g2, Inr \<lparr>s_id = GlobalSessionID g2, writer = [], writerCap = WriterListLen g2, hander = [],
                 handerCap = RecvListLen g2, closer = OpenChan, isclose = False, heartbeat = hb, hasConn = False,
                 isUdp = isudp, peer = None, UserData = NoUser, sockOpen = True, sent = [], tempBuf = None,
                 handing = True\<rparr>))"

definition newConnSession :: "sessGlobals \<Rightarrow> bool \<Rightarrow> bool \<Rightarrow> sessGlobals \<times> (sesserr + session)" where
  "newConnSession g hasParse isudp =
     (if \<not> hasParse then (g, Inl ErrMsgParseNil)
      else let g1 = udpLens isudp g;
               g2 = g1\<lparr>GlobalSessionID := GlobalSessionID g1 + 1\<rparr>
           in (g2, Inr \<lparr>s_id = GlobalSessionID g2, writer = [], writerCap = WriterListLen g2, hander = [],
                 handerCap = RecvListLen g2, closer = NilChan, isclose = True, heartbeat = 0, hasConn = True,
                 isUdp = isudp, peer = None, UserData = NoUser, sockOpen = False, sent = [], tempBuf = None,
                 handing = False\<rparr>))"

definition restart :: "sessGlobals \<Rightarrow> session \<Rightarrow> session \<times> sesserr option" where
  "restart g s =
     (if \<not> isclose s then (s, Some ErrSocketIsOpen)
      else (s\<lparr>isclose := False, closer := OpenChan, sockOpen := True, sent := [], hander := [],
              handerCap := RecvListLen g, tempBuf := None, handing := True\<rparr>, None))"


subsection \<open>Sending\<close>

text \<open>When the session is closed and the queue has room, both cases of the \<open>select\<close> are ready;
  \<open>pick\<close> says whether the closed channel is chosen.\<close>

definition Send :: "bool \<Rightarrow> session \<Rightarrow> bytes \<Rightarrow> addr option \<Rightarrow> session \<times> sesserr option" where
  "Send pick s data peerUdp =
     (let closed = (closer s = ClosedChan);
          room = (length (writer s) < writerCap s)
      in if closed \<and> (pick \<or> \<not> room) then (s, Some ErrSocketClosed)
         else if room then (s\<lparr>writer := writer s @ [(data, peerUdp)]\<rparr>, None)
         else (s, Some ErrSendBuffIsFull))"

definition sessClose :: "session \<Rightarrow> session" where
  "sessClose s = (if isclose s then s else s\<lparr>sockOpen := False\<rparr>)"

text \<open>The inner loop of \<open>dosend\<close> on a TCP socket, for the results of the successive
  \<open>Write\<close> calls (\<open>None\<close> is an error): what has been written and whether it was all.\<close>

fun writeAll :: "bytes \<Rightarrow> nat \<Rightarrow> nat option list \<Rightarrow> (bytes \<times> bool) go" where
  "writeAll d n rs =
     (if n < length d then
        (case rs of
           [] \<Rightarrow> Diverge
         | None # _ \<Rightarrow> Ret (take n d, False)
         | Some k # rs' \<Rightarrow> writeAll d (n + k) rs')
      else Ret (take n d, True))"

declare writeAll.simps [simp del]

text \<open>One turn of \<open>dosend\<close> that takes a message from the queue.  A UDP session writes one
  datagram, to the peer given with the message unless it is connected.\<close>

definition sendStep :: "session \<Rightarrow> nat option list \<Rightarrow> (session \<times> bool) go" where
  "sendStep s rs =
     (case writer s of
        [] \<Rightarrow> Ret (s, True)
      | (d, p) # q \<Rightarrow>
          let s1 = s\<lparr>writer := q\<rparr>
          in if isUdp s then
               Ret (s1\<lparr>sent := sent s @ [(d, if p = None \<or> hasConn s then None else p)]\<rparr>, True)
             else go_map (\<lambda>(b, ok). (s1\<lparr>sent := sent s @ [(b, None)], sockOpen := (sockOpen s \<and> ok)\<rparr>, ok))
                    (writeAll d 0 rs))"


subsection \<open>Receiving\<close>

definition nextBufLen :: "nat \<Rightarrow> nat \<Rightarrow> nat" where
  "nextBufLen bufLen n =
     (if MinMsgSize < bufLen \<and> n * 2 < bufLen then bufLen div 2
      else if n = bufLen then bufLen * 2
      else bufLen)"

text \<open>One turn of \<open>dorecv\<close>: what \<open>Read\<close> returned (bytes, whether there was an error, the
  sender of a datagram).  The error branch calls \<open>err.Error()\<close>, which panics when there is no
  error, and this goroutine does not recover.  A full channel blocks.\<close>

datatype recvRes = RecvOn nat | RecvQuit | RecvBlocked

definition recvStep :: "session \<Rightarrow> nat \<Rightarrow> bytes \<Rightarrow> bool \<Rightarrow> addr option \<Rightarrow> (session \<times> recvRes) go" where
  "recvStep s bufLen d err from =
     (if err \<or> length d = 0 then (if err then Ret (s, RecvQuit) else Panic)
      else if length (hander s) \<ge> handerCap s then Ret (s, RecvBlocked)
      else let s1 = s\<lparr>hander := hander s @ [(d, from)]\<rparr>
           in Ret (s1, RecvOn (if isUdp s then MsgBuffSize else nextBufLen bufLen (length d))))"

text \<open>The deferred function of \<open>dorecv\<close>: it closes the socket and the channel \<open>closer\<close>, waits
  for the two other goroutines, and marks the session closed.\<close>

definition recvStop :: "session \<Rightarrow> session" where
  "recvStop s = s\<lparr>sockOpen := False, closer := ClosedChan\<rparr>"

definition recvExit :: "session \<Rightarrow> session" where
  "recvExit s = s\<lparr>isclose := True\<rparr>"


subsection \<open>Reassembling messages\<close>

datatype handRes = AllDone | NeedMore bytes | Negative

text \<open>The loop at the label \<open>anthorMsg\<close>.\<close>

function parseLoop :: "('p \<Rightarrow> bytes \<Rightarrow> ('p \<times> int) go) \<Rightarrow> 'p \<Rightarrow> bytes \<Rightarrow> ('p \<times> handRes) go" where
  "parseLoop parse p d =
     go_bind (parse p d)
       (\<lambda>(p', n). if n \<ge> int (length d) then Ret (p', AllDone)
          else if n > 0 then parseLoop parse p' (drop (nat n) d)
          else if n = 0 then Ret (p', NeedMore d)
          else Ret (p', Negative))"
  by pat_completeness auto
termination
  by (relation "measure (\<lambda>(parse, p, d). length d)") auto

declare parseLoop.simps [simp del]

text \<open>One turn of \<open>dohand\<close> that takes received data; a panic of the parser is recovered by
  closing the socket and ending the goroutine.\<close>

definition handData ::
  "('p \<Rightarrow> sessRef \<Rightarrow> bytes \<Rightarrow> ('p \<times> int) go) \<Rightarrow> session \<Rightarrow> 'p \<Rightarrow> rsData \<Rightarrow> (session \<times> 'p) go" where
  "handData parse s p x =
     (let s1 = s\<lparr>peer := snd x\<rparr>;
          data = (case tempBuf s of Some t \<Rightarrow> t @ fst x | None \<Rightarrow> fst x)
      in case parseLoop (\<lambda>p d. parse p (sref s1) d) p data of
           Ret (p', AllDone) \<Rightarrow> Ret (s1\<lparr>tempBuf := None\<rparr>, p')
         | Ret (p', NeedMore r) \<Rightarrow>
             if isUdp s then Ret (s1, p')
             else Ret (s1\<lparr>tempBuf := Some r, sockOpen := (sockOpen s \<and> length r \<le> MaxMsgSize)\<rparr>, p')
         | Ret (p', Negative) \<Rightarrow> Ret (s1\<lparr>sockOpen := False\<rparr>, p')
         | Panic \<Rightarrow> Ret (s1\<lparr>sockOpen := False, handing := False\<rparr>, p)
         | Diverge \<Rightarrow> Diverge)"

definition handStep ::
  "('p \<Rightarrow> sessRef \<Rightarrow> bytes \<Rightarrow> ('p \<times> int) go) \<Rightarrow> session \<Rightarrow> 'p \<Rightarrow> (session \<times> 'p) go" where
  "handStep parse s p =
     (case hander s of
        [] \<Rightarrow> Ret (s, p)
      | x # q \<Rightarrow> if handing s then handData parse (s\<lparr>hander := q\<rparr>) p x else Ret (s, p))"

text \<open>The turn of \<open>dohand\<close> that finds the session closed: one more buffer is taken if there is
  one, and the parser is called once.\<close>

definition handClose ::
  "('p \<Rightarrow> sessRef \<Rightarrow> bytes \<Rightarrow> ('p \<times> int) go) \<Rightarrow> session \<Rightarrow> 'p \<Rightarrow> (session \<times> 'p) go" where
  "handClose parse s p =
     (let last = (case hander s of [] \<Rightarrow> None | x # q \<Rightarrow> Some (fst x));
          s1 = s\<lparr>hander := (case hander s of [] \<Rightarrow> [] | x # q \<Rightarrow> q), handing := False\<rparr>;
          data = (case tempBuf s of Some t \<Rightarrow> Some (t @ (case last of Some d \<Rightarrow> d | None \<Rightarrow> [])) | None \<Rightarrow> last)
      in case data of
           None \<Rightarrow> Ret (s1, p)
         | Some d \<Rightarrow>
             (case parse p (sref s1) d of
                Ret (p', n) \<Rightarrow> Ret (s1, p') | Panic \<Rightarrow> Ret (s1\<lparr>sockOpen := False\<rparr>, p) | Diverge \<Rightarrow> Diverge))"

text \<open>What \<open>dohand\<close> does with a sequence of buffers.\<close>

fun handAll ::
  "('p \<Rightarrow> sessRef \<Rightarrow> bytes \<Rightarrow> ('p \<times> int) go) \<Rightarrow> session \<Rightarrow> 'p \<Rightarrow> rsData list \<Rightarrow> (session \<times> 'p) go" where
  "handAll parse s p [] = Ret (s, p)"
| "handAll parse s p (x # xs) =
     (if handing s then go_bind (handData parse s p x) (\<lambda>(s', p'). handAll parse s' p' xs) else Ret (s, p))"


end
