(* ===== verification/Session_Stream.thy ===== *)
theory Session_Stream
  imports Session
begin

text \<open>
  Reassembly of a byte stream.  A parser that recognises frames (it takes a whole frame off
  the front of its input and asks for more on a proper beginning of one) is called by
  \<open>dohand\<close> exactly once for every frame of the stream, in order, no matter how the network
  has cut the stream into pieces.
\<close>

subsection \<open>Beginnings of a stream of frames\<close>

definition begins :: "('m \<Rightarrow> bytes) \<Rightarrow> ('m \<Rightarrow> bool) \<Rightarrow> bytes \<Rightarrow> bool" where
  "begins frm good part \<longleftrightarrow> part = [] \<or> (\<exists>m. good m \<and> strict_prefix part (frm m))"

lemma stream_split:
  assumes "list_all good ms" "begins frm good part" "a @ b = concat (map frm ms) @ part"
  shows "\<exists>ms1 ms2 part1. ms = ms1 @ ms2 \<and> a = concat (map frm ms1) @ part1 \<and> begins frm good part1 \<and>
    part1 @ b = concat (map frm ms2) @ part"
  using assms
proof (induction ms arbitrary: a)
  case Nil
  then have "prefix a part" by (auto simp: prefix_def)
  then have "begins frm good a"
    using Nil.prems(2) by (auto simp: begins_def intro: prefix_order.le_less_trans)
  then show ?case using Nil.prems(3) by (intro exI [of _ "[]"] exI [of _ a]) auto
next
  case (Cons m ms)
  show ?case
  proof (cases "length a < length (frm m)")
    case True
    have eq: "a @ b = frm m @ (concat (map frm ms) @ part)" using Cons.prems(3) by simp
    have "a = take (length a) (frm m)"
      using arg_cong [OF eq, of "take (length a)"] True by simp
    then have "strict_prefix a (frm m)"
      using True by (metis take_is_prefix strict_prefixI nat_neq_iff)
    then have "begins frm good a" using Cons.prems(1) by (auto simp: begins_def)
    with Cons.prems(3) show ?thesis by (intro exI [of _ "[]"] exI [of _ "m # ms"] exI [of _ a]) simp
  next
    case False
    have eq: "a @ b = frm m @ (concat (map frm ms) @ part)" using Cons.prems(3) by simp
    then obtain a' where a: "a = frm m @ a'"
      using False by (metis append_eq_append_conv_if le_less_linear append_take_drop_id)
    with eq have "a' @ b = concat (map frm ms) @ part" by simp
    from Cons.IH [OF _ Cons.prems(2) this] Cons.prems(1) obtain ms1 ms2 part1 where
      "ms = ms1 @ ms2" "a' = concat (map frm ms1) @ part1" "begins frm good part1" "part1 @ b = concat (map frm ms2) @ part"
      by auto
    with a show ?thesis by (intro exI [of _ "m # ms1"] exI [of _ ms2] exI [of _ part1]) simp
  qed
qed


subsection \<open>The contract of a frame parser\<close>

definition pending :: "session \<Rightarrow> bytes" where
  "pending s = (case tempBuf s of Some t \<Rightarrow> t | None \<Rightarrow> [])"

locale framing =
  fixes parse :: "'p \<Rightarrow> sessRef \<Rightarrow> bytes \<Rightarrow> ('p \<times> int) go"
    and frm :: "'m \<Rightarrow> bytes"
    and good :: "'m \<Rightarrow> bool"
    and pinv :: "'p \<Rightarrow> bool"
    and deliver :: "sessRef \<Rightarrow> 'm \<Rightarrow> 'p \<Rightarrow> 'p"
  assumes whole_law: "pinv p \<Longrightarrow> good m \<Longrightarrow> parse p r (frm m @ rest) = Ret (deliver r m p, int (length (frm m)))"
    and part_law: "pinv p \<Longrightarrow> good m \<Longrightarrow> strict_prefix d (frm m) \<Longrightarrow> parse p r d = Ret (p, 0)"
    and keep_law: "pinv p \<Longrightarrow> good m \<Longrightarrow> pinv (deliver r m p)"
    and size_law: "good m \<Longrightarrow> frm m \<noteq> [] \<and> length (frm m) \<le> MaxMsgSize"
begin

lemma pinv_fold: "pinv p \<Longrightarrow> list_all good ms \<Longrightarrow> pinv (fold (deliver r) ms p)"
  by (induction ms arbitrary: p) (auto simp: keep_law)

lemma parseLoop_stream:
  assumes "pinv p" "list_all good ms" "begins frm good part" "concat (map frm ms) @ part \<noteq> []"
  shows "parseLoop (\<lambda>p d. parse p r d) p (concat (map frm ms) @ part) =
    Ret (fold (deliver r) ms p, if part = [] then AllDone else NeedMore part)"
  using assms
proof (induction ms arbitrary: p)
  case Nil
  then obtain m where "good m" "strict_prefix part (frm m)" by (auto simp: begins_def)
  with part_law [OF Nil.prems(1)] Nil.prems(4) show ?case by (simp add: parseLoop.simps)
next
  case (Cons m ms)
  let ?rest = "concat (map frm ms) @ part"
  have m: "good m" "frm m \<noteq> []" using Cons.prems(2) size_law by auto
  have w: "parse p r (concat (map frm (m # ms)) @ part) = Ret (deliver r m p, int (length (frm m)))"
    using whole_law [OF Cons.prems(1) m(1), of r ?rest] by simp
  show ?case
  proof (cases "?rest = []")
    case True
    then have "ms = []" using size_law Cons.prems(2) by (cases ms) auto
    with True w show ?thesis by (simp add: parseLoop.simps)
  next
    case False
    have "parseLoop (\<lambda>p d. parse p r d) (deliver r m p) ?rest =
        Ret (fold (deliver r) ms (deliver r m p), if part = [] then AllDone else NeedMore part)"
      using Cons.IH [OF keep_law [OF Cons.prems(1) m(1)]] Cons.prems False by simp
    moreover have "parseLoop (\<lambda>p d. parse p r d) p (frm m @ x) = parseLoop (\<lambda>p d. parse p r d) (deliver r m p) x"
      if "x \<noteq> []" "parse p r (frm m @ x) = Ret (deliver r m p, int (length (frm m)))" for x
      using that m(2) by (subst parseLoop.simps) simp
    ultimately show ?thesis using w False by simp
  qed
qed

lemma handData_stream:
  assumes "pinv p" "list_all good ms" "begins frm good part" "\<not> isUdp s" "fst x \<noteq> []"
    "pending s @ fst x = concat (map frm ms) @ part"
  shows "\<exists>s'. handData parse s p x = Ret (s', fold (deliver (sref (s\<lparr>peer := snd x\<rparr>))) ms p) \<and>
    pending s' = part \<and> peer s' = snd x \<and> s_id s' = s_id s \<and> UserData s' = UserData s \<and> handing s' = handing s \<and>
    isUdp s' = isUdp s \<and> sockOpen s' = sockOpen s"
proof -
  have len: "length part \<le> MaxMsgSize"
    using assms(3) size_law by (auto simp: begins_def dest!: prefix_length_less intro: less_imp_le less_le_trans)
  have d: "(case tempBuf s of Some t \<Rightarrow> t @ fst x | None \<Rightarrow> fst x) = concat (map frm ms) @ part"
    using assms(6) by (auto simp: pending_def split: option.splits)
  have ne: "concat (map frm ms) @ part \<noteq> []" using assms(5,6) by (metis append_is_Nil_conv)
  show ?thesis
    using parseLoop_stream [OF assms(1-3) ne, of "sref (s\<lparr>peer := snd x\<rparr>)"] assms(4) len
    by (auto simp: handData_def d Let_def pending_def)
qed

lemma handAll_stream:
  assumes "pinv p" "list_all good ms" "begins frm good part" "\<not> isUdp s" "handing s"
    "\<forall>x \<in> set xs. fst x \<noteq> [] \<and> snd x = a" "begins frm good (pending s)"
    "pending s @ concat (map fst xs) = concat (map frm ms) @ part"
  shows "\<exists>s'. handAll parse s p xs = Ret (s', fold (deliver (sref (s\<lparr>peer := a\<rparr>))) ms p) \<and>
    pending s' = part \<and> handing s' \<and> sockOpen s' = sockOpen s"
  using assms
proof (induction xs arbitrary: s p ms)
  case Nil
  from stream_split [OF Nil.prems(2,3), of "[]" "pending s"] Nil.prems(8)
  have "pending s = concat (map frm ms) @ part" by simp
  have "ms = []"
  proof (rule ccontr)
    assume "ms \<noteq> []"
    then obtain m ms' where m: "ms = m # ms'" by (cases ms) auto
    from Nil.prems(7,8) m obtain m' where "good m'" "strict_prefix (frm m @ (concat (map frm ms') @ part)) (frm m')"
      using size_law Nil.prems(2) by (auto simp: begins_def)
    then have "strict_prefix (frm m) (frm m')" by (metis prefixI prefix_order.le_less_trans)
    with part_law [OF Nil.prems(1) \<open>good m'\<close>, of "frm m" "sref s"] whole_law [OF Nil.prems(1), of m "sref s" "[]"] m Nil.prems(2) size_law
    show False by auto
  qed
  with Nil.prems show ?case by simp
next
  case (Cons x xs)
  have "(pending s @ fst x) @ concat (map fst xs) = concat (map frm ms) @ part" using Cons.prems(8) by simp
  from stream_split [OF Cons.prems(2,3) this] obtain ms1 ms2 part1 where
    sp: "ms = ms1 @ ms2" "pending s @ fst x = concat (map frm ms1) @ part1" "begins frm good part1"
      "part1 @ concat (map fst xs) = concat (map frm ms2) @ part" by blast
  have x: "fst x \<noteq> []" "snd x = a" using Cons.prems(6) by auto
  have g: "list_all good ms1" "list_all good ms2" using Cons.prems(2) sp(1) by auto
  from handData_stream [OF Cons.prems(1) g(1) sp(3) Cons.prems(4) x(1) sp(2)] obtain s1 where
    s1: "handData parse s p x = Ret (s1, fold (deliver (sref (s\<lparr>peer := a\<rparr>))) ms1 p)" "pending s1 = part1"
      "peer s1 = a" "s_id s1 = s_id s" "UserData s1 = UserData s" "handing s1 = handing s" "isUdp s1 = isUdp s" "sockOpen s1 = sockOpen s"
    unfolding x(2) by blast
  have r: "sref (s1\<lparr>peer := a\<rparr>) = sref (s\<lparr>peer := a\<rparr>)" using s1 by (simp add: sref_def)
  have "\<exists>s'. handAll parse s1 (fold (deliver (sref (s\<lparr>peer := a\<rparr>))) ms1 p) xs =
      Ret (s', fold (deliver (sref (s1\<lparr>peer := a\<rparr>))) ms2 (fold (deliver (sref (s\<lparr>peer := a\<rparr>))) ms1 p)) \<and>
      pending s' = part \<and> handing s' \<and> sockOpen s' = sockOpen s1"
    using Cons.prems s1 sp g by (intro Cons.IH) (auto simp: pinv_fold)
  then show ?case using s1 sp(1) Cons.prems(5) unfolding r by auto
qed

end

end
