(* ===== verification/Services.thy ===== *)
theory Services
  imports Session_Stream
begin

text \<open>
  The ready-made service implementations of \<^verbatim>\<open>src/stnet/simpleimp.go\<close>.

  They act on sessions, connections and on the user's implementation behind them; these actions
  are recorded as \<open>events\<close>, which is the state of the implementations.  What the user's
  \<open>HashProcessor\<close> answers and which number \<open>rand.Int\<close> draws are arguments.
\<close>

datatype event =
    EvHandle current u64 imsg "encerr option"
  | EvLog encerr
  | EvSessClose u64
  | EvSend u64 bytes "addr option"
  | EvConnSend u64 bytes
  | EvConnClose u64
  | EvNewConnect string u64
  | EvUserLoop

definition nilDeref :: "'w \<Rightarrow> 'w outcome" where
  "nilDeref w = Panicked w"

definition withSess :: "sessRef option \<Rightarrow> (sessRef \<Rightarrow> event list \<Rightarrow> event list outcome) \<Rightarrow> event list \<Rightarrow> event list outcome" where
  "withSess s f w = (case s of None \<Rightarrow> nilDeref w | Some r \<Rightarrow> f r w)"

definition sessIdHash :: "current \<Rightarrow> u64 \<Rightarrow> imsg \<Rightarrow> int go" where
  "sessIdHash cur msgID msg = (case Sess cur of None \<Rightarrow> Panic | Some r \<Rightarrow> Ret (sint (sess_id r)))"


subsection \<open>\<open>ServiceBase\<close>, \<open>ServiceEcho\<close>, \<open>ServiceLoop\<close>\<close>

definition ServiceBase :: "event list serviceImp" where
  "ServiceBase =
     \<lparr>imp_Init = (\<lambda>w. (w, True)),
      imp_Loop = (\<lambda>w. Done w),
      imp_Destroy = (\<lambda>w. w),
      imp_HandleMessage = (\<lambda>cur i m w. Done w),
      imp_HandleError = (\<lambda>cur e w. withSess (Sess cur) (\<lambda>r w. Done (w @ [EvSessClose (sess_id r)])) (w @ [EvLog e])),
      imp_SessionClose = (\<lambda>s w. Done w),
      imp_HeartBeatTimeOut = (\<lambda>s w. withSess s (\<lambda>r w. Done (w @ [EvSessClose (sess_id r)])) w),
      imp_SessionOpen = (\<lambda>s w. Done w),
      imp_Unmarshal = (\<lambda>s d w. Ret (w, \<lparr>lenParsed = int (length d), pMsgID = -1, pMsg = MNil, pErr = None\<rparr>)),
      imp_HashProcessor = (\<lambda>cur i m. Ret (-1))\<rparr>"

definition ServiceEcho :: "event list serviceImp" where
  "ServiceEcho = ServiceBase
     \<lparr>imp_Unmarshal := (\<lambda>s d w. Ret (w @ [EvSend (sess_id s) d (sess_peer s)],
          \<lparr>lenParsed = int (length d), pMsgID = -1, pMsg = MNil, pErr = None\<rparr>)),
      imp_HashProcessor := sessIdHash\<rparr>"

definition ServiceLoop :: "bool \<Rightarrow> event list serviceImp" where
  "ServiceLoop userInit = ServiceBase\<lparr>imp_Init := (\<lambda>w. (w, userInit)), imp_Loop := (\<lambda>w. Done (w @ [EvUserLoop]))\<rparr>"


subsection \<open>The TCP proxy\<close>

text \<open>The loop of \<open>SessionOpen\<close> over the cumulated weights.\<close>

fun pickLoop :: "int \<Rightarrow> nat \<Rightarrow> int list \<Rightarrow> string list \<Rightarrow> string \<Rightarrow> string go" where
  "pickLoop r i [] remoteip rip = Ret rip"
| "pickLoop r i (w # ws) remoteip rip =
     (if r < w then (if i < length remoteip then Ret (remoteip ! i) else Panic)
      else pickLoop r (Suc i) ws remoteip rip)"

definition pickRemote :: "nat \<Rightarrow> string list \<Rightarrow> int list \<Rightarrow> string go" where
  "pickRemote rnd remoteip weight =
     (if remoteip = [] then Panic
      else if length weight > 1 then
        (if last weight = 0 then Panic
         else pickLoop (int rnd mod \<bar>last weight\<bar>) 0 weight remoteip (remoteip ! 0))
      else Ret (remoteip ! 0))"

definition ServiceProxyS :: "nat \<Rightarrow> string list \<Rightarrow> int list \<Rightarrow> event list serviceImp" where
  "ServiceProxyS rnd remoteip weight = ServiceBase
     \<lparr>imp_SessionOpen := (\<lambda>s w. withSess s (\<lambda>r w.
          case pickRemote rnd remoteip weight of
            Ret rip \<Rightarrow> Done (w @ [EvNewConnect rip (sess_id r)]) | Panic \<Rightarrow> Panicked w | Diverge \<Rightarrow> Stuck) w),
      imp_SessionClose := (\<lambda>s w. withSess s (\<lambda>r w.
          case sess_user r of UConnect c \<Rightarrow> Done (w @ [EvConnClose c]) | NoUser \<Rightarrow> Done w | _ \<Rightarrow> Panicked w) w),
      imp_HeartBeatTimeOut := (\<lambda>s w. withSess s (\<lambda>r w. Done (w @ [EvSessClose (sess_id r)])) w),
      imp_HandleError := (\<lambda>cur e w. withSess (Sess cur) (\<lambda>r w. Done (w @ [EvSessClose (sess_id r)])) w),
      imp_Unmarshal := (\<lambda>s d w. case sess_user s of
          UConnect c \<Rightarrow> Ret (w @ [EvConnSend c d], \<lparr>lenParsed = int (length d), pMsgID = -1, pMsg = MNil, pErr = None\<rparr>)
        | _ \<Rightarrow> Panic),
      imp_HashProcessor := sessIdHash\<rparr>"

definition ServiceProxyC :: "event list serviceImp" where
  "ServiceProxyC = ServiceBase
     \<lparr>imp_Unmarshal := (\<lambda>s d w. case sess_user s of
          USession i \<Rightarrow> Ret (w @ [EvSend i d (sess_peer s)], \<lparr>lenParsed = int (length d), pMsgID = -1, pMsg = MNil, pErr = None\<rparr>)
        | _ \<Rightarrow> Panic),
      imp_HashProcessor := sessIdHash\<rparr>"


subsection \<open>\<open>ServiceSpb\<close> and \<open>ServiceJson\<close>\<close>

text \<open>\<open>JsonProto\<close> as a Go value; its fields have no \<open>tag\<close> or \<open>require\<close> key.\<close>

definition bytes_val :: "bytes \<Rightarrow> goval" where
  "bytes_val d = VSlice TUint8 (map VUint8 d)"

fun val_bytes :: "goval \<Rightarrow> bytes" where
  "val_bytes (VSlice t vs) = map (\<lambda>v. case v of VUint8 b \<Rightarrow> b | _ \<Rightarrow> 0) vs"
| "val_bytes _ = []"

definition JsonProto :: "u64 \<Rightarrow> bytes \<Rightarrow> goval" where
  "JsonProto cmdId cmdData = VStruct [(no_tag, VUint64 cmdId), (no_tag, bytes_val cmdData)]"

fun jsonProto_fields :: "goval \<Rightarrow> u64 \<times> bytes" where
  "jsonProto_fields (VPtr t (Some (VStruct [(_, VUint64 i), (_, d)]))) = (i, val_bytes d)"
| "jsonProto_fields _ = (0, [])"

text \<open>The framing part that \<open>ServiceSpb\<close> and \<open>ServiceJson\<close> share; \<open>encode\<close> is the body's codec.\<close>

definition protoUnmarshal :: "json_lib \<Rightarrow> int \<Rightarrow> bytes \<Rightarrow> parsed go" where
  "protoUnmarshal js encode data =
     (if length data < 4 then Ret \<lparr>lenParsed = 0, pMsgID = 0, pMsg = MNil, pErr = None\<rparr>
      else go_bind (MsgLen data)
        (\<lambda>ml. if ml < 4 \<or> ml \<ge> of_nat MaxMsgSize
           then Ret \<lparr>lenParsed = int (length data), pMsgID = 0, pMsg = MNil, pErr = Some (EMsgLen ml)\<rparr>
           else if length data < unat ml then Ret \<lparr>lenParsed = 0, pMsgID = 0, pMsg = MNil, pErr = None\<rparr>
           else go_map
             (\<lambda>(cmd, e). if e \<noteq> None then \<lparr>lenParsed = int (unat ml), pMsgID = 0, pMsg = MNil, pErr = e\<rparr>
                else let (cmdId, cmdData) = jsonProto_fields cmd
                     in \<lparr>lenParsed = int (unat ml), pMsgID = sint cmdId, pMsg = MBytes cmdData, pErr = None\<rparr>)
             (Unmarshal js (subseg 4 (unat ml) data)
                (VPtr (type_of (JsonProto 0 [])) (Some (JsonProto 0 []))) encode)))"

definition RegisterMsg :: "(u64 \<rightharpoonup> gotype) \<Rightarrow> u64 \<Rightarrow> gotype option \<Rightarrow> (u64 \<rightharpoonup> gotype) \<times> encerr option" where
  "RegisterMsg reg msgId t =
     (case t of
        None \<Rightarrow> (reg, Some (EApp ''type of msg cannot be ptr or nil''))
      | Some (TPtr u) \<Rightarrow> (reg, Some (EApp ''type of msg cannot be ptr or nil''))
      | Some u \<Rightarrow> (reg(msgId \<mapsto> u), None))"

definition spbHandleMessage ::
  "json_lib \<Rightarrow> (u64 \<rightharpoonup> gotype) \<Rightarrow> current \<Rightarrow> u64 \<Rightarrow> imsg \<Rightarrow> event list \<Rightarrow> event list outcome" where
  "spbHandleMessage js reg cur msgID msg w =
     (case reg msgID of
        None \<Rightarrow> Done (w @ [EvHandle cur msgID msg None])
      | Some t \<Rightarrow>
          (case (case msg of MNil \<Rightarrow> Some [] | MBytes d \<Rightarrow> Some d | _ \<Rightarrow> None) of
             None \<Rightarrow> Done (w @ [EvHandle cur msgID msg (Some (EApp ''msg not marshaled bytes''))])
           | Some d \<Rightarrow>
               (case Unmarshal js d (VPtr t (Some (zero_of t))) EncodeTyepSpb of
                  Ret (m, None) \<Rightarrow> Done (w @ [EvHandle cur msgID (MVal m) None])
                | Ret (m, Some e) \<Rightarrow> Done (w @ [EvHandle cur msgID MNil (Some e)])
                | Panic \<Rightarrow> Panicked w
                | Diverge \<Rightarrow> Stuck)))"

definition ServiceSpb ::
  "json_lib \<Rightarrow> (u64 \<rightharpoonup> gotype) \<Rightarrow> bool \<Rightarrow> (current \<Rightarrow> u64 \<Rightarrow> int go) \<Rightarrow> event list serviceImp" where
  "ServiceSpb js reg userInit userHash = ServiceBase
     \<lparr>imp_Init := (\<lambda>w. (w, userInit)),
      imp_Loop := (\<lambda>w. Done (w @ [EvUserLoop])),
      imp_HandleMessage := spbHandleMessage js reg,
      imp_HandleError := (\<lambda>cur e w. Done (w @ [EvHandle cur 0 MNil (Some e)])),
      imp_Unmarshal := (\<lambda>s d w. go_map (\<lambda>p. (w, p)) (protoUnmarshal js EncodeTyepSpb d)),
      imp_HashProcessor := (\<lambda>cur i m. userHash cur i)\<rparr>"

definition SendSpbCmd :: "json_lib \<Rightarrow> u64 \<Rightarrow> goval \<Rightarrow> (bytes \<times> encerr option) go" where
  "SendSpbCmd js msgID msg =
     go_bind (Marshal js msg EncodeTyepSpb)
       (\<lambda>(d, e). if e \<noteq> None then Ret ([], e) else EncodeProtocol js (JsonProto msgID d) EncodeTyepSpb)"

definition jsonHandleMessage :: "current \<Rightarrow> u64 \<Rightarrow> imsg \<Rightarrow> event list \<Rightarrow> event list outcome" where
  "jsonHandleMessage cur msgID msg w =
     (case msg of
        MNil \<Rightarrow> Done (w @ [EvHandle cur msgID (MBytes []) None])
      | MBytes d \<Rightarrow> Done (w @ [EvHandle cur msgID (MBytes d) None])
      | _ \<Rightarrow> Done (w @ [EvHandle cur msgID (MBytes []) (Some (EApp ''format of msg should be []byte''))]))"

definition ServiceJson ::
  "json_lib \<Rightarrow> bool \<Rightarrow> (current \<Rightarrow> u64 \<Rightarrow> bytes \<Rightarrow> int go) \<Rightarrow> event list serviceImp" where
  "ServiceJson js userInit userHash = ServiceBase
     \<lparr>imp_Init := (\<lambda>w. (w, userInit)),
      imp_Loop := (\<lambda>w. Done (w @ [EvUserLoop])),
      imp_HandleMessage := jsonHandleMessage,
      imp_HandleError := (\<lambda>cur e w. Done (w @ [EvHandle cur 0 (MBytes []) (Some e)])),
      imp_Unmarshal := (\<lambda>s d w. go_map (\<lambda>p. (w, p)) (protoUnmarshal js EncodeTyepJson d)),
      imp_HashProcessor := (\<lambda>cur i m. case m of
          MNil \<Rightarrow> userHash cur i [] | MBytes d \<Rightarrow> userHash cur i d | _ \<Rightarrow> Panic)\<rparr>"

definition SendJsonCmd :: "json_lib \<Rightarrow> u64 \<Rightarrow> bytes \<Rightarrow> (bytes \<times> encerr option) go" where
  "SendJsonCmd js msgID msg = EncodeProtocol js (JsonProto msgID msg) EncodeTyepJson"

end
