(* ===== verification/Delivery.thy ===== *)
theory Delivery
  imports Session_Stream
begin

text \<open>
  From the bytes of a connection to the queues of the processor threads, for every service whose
  \<open>Unmarshal\<close> recognises frames and leaves the handling to \<open>HandleMessage\<close>.  The contract of
  such an \<open>Unmarshal\<close> is the locale \<open>message_frames\<close>; through \<open>ParseMsg\<close> it gives the contract
  \<open>framing\<close> of the session's reader, and with it the delivery of every message of a stream to
  the queue of the thread that the service's hash chooses.
\<close>

type_synonym 'w svcState = "'w service \<times> nat list \<times> 'w"

definition svcParse :: "'w svcState \<Rightarrow> sessRef \<Rightarrow> bytes \<Rightarrow> ('w svcState \<times> int) go" where
  "svcParse p r d = (case p of (sv, sig, w) \<Rightarrow> go_map (\<lambda>(sv', sig', w', n). ((sv', sig', w'), n)) (ParseMsg sv sig w r d))"

text \<open>The message \<open>ParseMsg\<close> makes of an id and a body, its thread and the effect of queueing it.\<close>

definition dataMessage :: "sessRef \<Rightarrow> int \<times> imsg \<Rightarrow> sessionMessage" where
  "dataMessage r c = \<lparr>mSess = Some r, DtType = Data, MsgID = fst c, Msg = snd c, MErr = None, mpeer = sess_peer r\<rparr>"

definition msgThread :: "'w service \<Rightarrow> sessRef \<Rightarrow> int \<times> imsg \<Rightarrow> int" where
  "msgThread sv r c = (case getProcessor sv (Some r) (fst c) (snd c) of Ret th \<Rightarrow> th | _ \<Rightarrow> 0)"

definition deliverMsg :: "sessRef \<Rightarrow> int \<times> imsg \<Rightarrow> 'w svcState \<Rightarrow> 'w svcState" where
  "deliverMsg r c p =
     (case p of (sv, sig, w) \<Rightarrow>
        let th = nat (msgThread sv r c) in
        (sv\<lparr>messageQ := (messageQ sv)[th := fst (trySend queueLen (dataMessage r c) (messageQ sv ! th))]\<rparr>, sig[th := 1], w))"

definition routed :: "'w service \<Rightarrow> sessRef \<Rightarrow> (int \<times> imsg) list \<Rightarrow> nat \<Rightarrow> sessionMessage list" where
  "routed sv r cs th = map (dataMessage r) (filter (\<lambda>c. nat (msgThread sv r c) = th) cs)"

text \<open>The invariant: a service in order, an implementation as expected, and a hash that returns on
  the messages in question.\<close>

definition svcInv :: "('w serviceImp \<Rightarrow> bool) \<Rightarrow> (imsg \<Rightarrow> bool) \<Rightarrow> 'w svcState \<Rightarrow> bool" where
  "svcInv ok msgs p \<longleftrightarrow> (case p of (sv, sig, w) \<Rightarrow> service_ok sv sig \<and> ok (imp sv) \<and>
     (\<forall>cur i m. msgs m \<longrightarrow> returns (imp_HashProcessor (imp sv) cur i m)))"

lemma msgThread_update [simp]: "msgThread (sv\<lparr>messageQ := q\<rparr>) = msgThread sv"
proof -
  have "getProcessor (sv\<lparr>messageQ := q\<rparr>) = getProcessor sv"
    by (intro ext) (simp add: getProcessor_def Let_def cong: if_cong option.case_cong)
  then show ?thesis by (simp add: msgThread_def fun_eq_iff)
qed

lemma msgThread_range:
  assumes "svcInv ok msgs (sv, sig, w)" "msgs (snd c)"
  shows "getProcessor sv (Some r) (fst c) (snd c) = Ret (msgThread sv r c)"
    "0 \<le> msgThread sv r c" "msgThread sv r c < threadsNum sv"
proof -
  from assms have i: "service_ok sv sig" "\<And>cur i. returns (imp_HashProcessor (imp sv) cur i (snd c))"
    by (auto simp: svcInv_def)
  from getProcessor_returns [OF i, of "Some r" "fst c"]
  show g: "getProcessor sv (Some r) (fst c) (snd c) = Ret (msgThread sv r c)"
    by (auto simp: msgThread_def)
  from getProcessor_range [OF i(1) g] show "0 \<le> msgThread sv r c" "msgThread sv r c < threadsNum sv" by auto
qed

text \<open>What \<open>ParseMsg\<close> does with a message that \<open>Unmarshal\<close> has recognised.\<close>

lemma svcParse_message:
  assumes "svcInv ok msgs (sv, sig, w)" "0 < n" "0 \<le> fst c" "msgs (snd c)"
    "imp_Unmarshal (imp sv) r d w = Ret (w, \<lparr>lenParsed = n, pMsgID = fst c, pMsg = snd c, pErr = None\<rparr>)"
  shows "svcParse (sv, sig, w) r d = Ret (deliverMsg r c (sv, sig, w), n)" "svcInv ok msgs (deliverMsg r c (sv, sig, w))"
proof -
  note th = msgThread_range [OF assms(1,4), of r]
  have ok: "service_ok sv sig" using assms(1) by (simp add: svcInv_def)
  let ?th = "nat (msgThread sv r c)"
  from enqueue_ok [OF ok th(2,3), of "dataMessage r c"] obtain sv' b where
    e: "enqueue sv (msgThread sv r c) (dataMessage r c) = Ret (sv', b)" "service_ok sv' sig" "imp sv' = imp sv" by blast
  have sv': "sv' = sv\<lparr>messageQ := (messageQ sv)[?th := fst (trySend queueLen (dataMessage r c) (messageQ sv ! ?th))]\<rparr>"
    using e(1) by (auto simp: enqueue_def Let_def split: if_splits prod.splits)
  have n: "threadsNum sv' = threadsNum sv" by (simp add: sv')
  from wakeup_ok [OF e(2) th(2)] th(3) n have k: "wakeup ?th sig = Ret (sig[?th := 1])"
    "service_ok sv' (sig[?th := 1])" by (auto simp: wakeup_def split: if_splits)
  have dl: "deliverMsg r c (sv, sig, w) = (sv', sig[?th := 1], w)" by (simp add: deliverMsg_def sv' Let_def)
  show "svcParse (sv, sig, w) r d = Ret (deliverMsg r c (sv, sig, w), n)"
    using assms(2,3,5) th(1) e(1) k(1) dl by (simp add: svcParse_def ParseMsg_def dataMessage_def)
  show "svcInv ok msgs (deliverMsg r c (sv, sig, w))"
    using assms(1) k(2) e(3) unfolding dl by (simp add: svcInv_def)
qed

lemma fold_deliver:
  assumes "svcInv ok msgs (sv, sig, w)" "\<forall>q \<in> set (messageQ sv). length q + length cs \<le> queueLen"
    "\<forall>c \<in> set cs. msgs (snd c)"
  shows "\<exists>sv' sig'. fold (deliverMsg r) cs (sv, sig, w) = (sv', sig', w) \<and> svcInv ok msgs (sv', sig', w) \<and>
    length (messageQ sv') = length (messageQ sv) \<and>
    (\<forall>th < length (messageQ sv). messageQ sv' ! th = messageQ sv ! th @ routed sv r cs th)"
  using assms
proof (induction cs arbitrary: sv sig)
  case Nil
  then show ?case by (simp add: routed_def)
next
  case (Cons c cs)
  let ?th = "nat (msgThread sv r c)"
  have th: "?th < length (messageQ sv)" "?th < length sig"
    using msgThread_range(2,3) [OF Cons.prems(1), of c r] Cons.prems(1,3) by (simp_all add: svcInv_def service_ok_def)
  then have len: "length (messageQ sv ! ?th) + length (c # cs) \<le> queueLen" using Cons.prems(2) nth_mem by blast
  then have ts: "trySend queueLen (dataMessage r c) (messageQ sv ! ?th) = (messageQ sv ! ?th @ [dataMessage r c], True)"
    by (simp add: trySend_def)
  let ?q = "(messageQ sv)[?th := messageQ sv ! ?th @ [dataMessage r c]]"
  have dl: "deliverMsg r c (sv, sig, w) = (sv\<lparr>messageQ := ?q\<rparr>, sig[?th := 1], w)"
    by (simp add: deliverMsg_def ts Let_def)
  have room: "\<forall>q \<in> set ?q. length q + length cs \<le> queueLen"
    using Cons.prems(2) len
      set_update_subset_insert [of "messageQ sv" ?th "messageQ sv ! ?th @ [dataMessage r c]"] by fastforce
  have s1: "\<forall>n \<in> set (sig[?th := 1]). n \<le> 1"
    using Cons.prems(1) set_update_subset_insert [of sig ?th 1] by (auto simp: svcInv_def service_ok_def)
  have inv: "svcInv ok msgs (sv\<lparr>messageQ := ?q\<rparr>, sig[?th := 1], w)"
    using Cons.prems(1) room s1 by (auto simp: svcInv_def service_ok_def)
  from Cons.IH [OF inv, unfolded service.select_convs service.surjective] room Cons.prems(3) obtain sv' sig' where
    f: "fold (deliverMsg r) cs (sv\<lparr>messageQ := ?q\<rparr>, sig[?th := 1], w) = (sv', sig', w)" "svcInv ok msgs (sv', sig', w)"
      "length (messageQ sv') = length ?q"
      "\<forall>th < length ?q. messageQ sv' ! th = ?q ! th @ routed (sv\<lparr>messageQ := ?q\<rparr>) r cs th"
    by auto
  have "messageQ sv' ! t = messageQ sv ! t @ routed sv r (c # cs) t" if "t < length (messageQ sv)" for t
    using f(4) that th by (cases "t = ?th") (auto simp: routed_def)
  with f dl show ?case by auto
qed


subsection \<open>The contract of an \<open>Unmarshal\<close>\<close>

locale message_frames =
  fixes ok :: "'w serviceImp \<Rightarrow> bool"
    and msgs :: "imsg \<Rightarrow> bool"
    and frm :: "'m \<Rightarrow> bytes"
    and good :: "'m \<Rightarrow> bool"
    and content :: "'m \<Rightarrow> int \<times> imsg"
  assumes unmarshal_whole: "ok im \<Longrightarrow> good m \<Longrightarrow> imp_Unmarshal im r (frm m @ rest) w =
      Ret (w, \<lparr>lenParsed = int (length (frm m)), pMsgID = fst (content m), pMsg = snd (content m), pErr = None\<rparr>)"
    and unmarshal_part: "ok im \<Longrightarrow> good m \<Longrightarrow> strict_prefix d (frm m) \<Longrightarrow>
      imp_Unmarshal im r d w = Ret (w, \<lparr>lenParsed = 0, pMsgID = 0, pMsg = MNil, pErr = None\<rparr>)"
    and id_law: "good m \<Longrightarrow> 0 \<le> fst (content m) \<and> msgs (snd (content m))"
    and length_law: "good m \<Longrightarrow> frm m \<noteq> [] \<and> length (frm m) \<le> MaxMsgSize"

sublocale message_frames \<subseteq> stream: framing svcParse frm good "svcInv ok msgs" "\<lambda>r m. deliverMsg r (content m)"
proof
  fix p :: "'w svcState" and m r rest
  assume p: "svcInv ok msgs p" and m: "good m"
  obtain sv sig w where s: "p = (sv, sig, w)" by (cases p)
  have "0 < int (length (frm m))" using length_law [OF m] by simp
  moreover have "imp_Unmarshal (imp sv) r (frm m @ rest) w =
      Ret (w, \<lparr>lenParsed = int (length (frm m)), pMsgID = fst (content m), pMsg = snd (content m), pErr = None\<rparr>)" for rest
    using p m unmarshal_whole by (simp add: s svcInv_def)
  ultimately show "svcParse p r (frm m @ rest) = Ret (deliverMsg r (content m) p, int (length (frm m)))"
    "svcInv ok msgs (deliverMsg r (content m) p)"
    using svcParse_message [OF p [unfolded s], of _ "content m"] id_law [OF m] unfolding s by blast+
next
  fix p :: "'w svcState" and m d r
  assume "svcInv ok msgs p" "good m" "strict_prefix d (frm m)"
  then show "svcParse p r d = Ret (p, 0)"
    using unmarshal_part by (cases p) (simp add: svcInv_def svcParse_def ParseMsg_def)
qed (rule length_law)

context message_frames
begin

lemma delivered:
  assumes "svcInv ok msgs (sv, sig, w)" "list_all good ms"
    "\<forall>q \<in> set (messageQ sv). length q + length ms \<le> queueLen"
    "\<not> isUdp s" "handing s" "tempBuf s = None"
    "concat (map fst segs) = concat (map frm ms)" "\<forall>x \<in> set segs. fst x \<noteq> [] \<and> snd x = a"
  shows "\<exists>s' sv' sig'. handAll svcParse s (sv, sig, w) segs = Ret (s', sv', sig', w) \<and>
    pending s' = [] \<and> handing s' \<and> sockOpen s' = sockOpen s \<and> svcInv ok msgs (sv', sig', w) \<and>
    (\<forall>th < length (messageQ sv). messageQ sv' ! th =
       messageQ sv ! th @ routed sv (sref (s\<lparr>peer := a\<rparr>)) (map content ms) th)"
proof -
  have p: "pending s = []" using assms(6) by (simp add: pending_def)
  have b: "begins frm good []" by (simp add: begins_def)
  let ?r = "sref (s\<lparr>peer := a\<rparr>)"
  obtain s' where s': "handAll svcParse s (sv, sig, w) segs =
      Ret (s', fold (deliverMsg ?r) (map content ms) (sv, sig, w))"
    "pending s' = []" "handing s'" "sockOpen s' = sockOpen s"
    using stream.handAll_stream [OF assms(1,2) b assms(4,5,8), unfolded p, OF b] assms(7)
    by (auto simp: fold_map comp_def)
  have "\<forall>c \<in> set (map content ms). msgs (snd c)" using assms(2) id_law by (auto simp: list_all_iff)
  from fold_deliver [OF assms(1) _ this, of ?r] assms(3) s' show ?thesis by (metis length_map)
qed

end

end
