(* ===== verification/Spb_Service.thy ===== *)
theory Spb_Service
  imports Services Delivery
begin

text \<open>
  The whole receiving path of a command service, put together: \<open>EncodeProtocol\<close> on the
  sender's side; on the receiver's the network's segments, \<open>dohand\<close>, \<open>ServiceSpb.Unmarshal\<close>,
  the codec, and the queues of the processor threads.
\<close>

type_synonym cmd = "u64 \<times> bytes"

definition cmdFrame :: "json_lib \<Rightarrow> cmd \<Rightarrow> bytes" where
  "cmdFrame js c = (case EncodeProtocol js (JsonProto (fst c) (snd c)) EncodeTyepSpb of Ret (b, None) \<Rightarrow> b | _ \<Rightarrow> [])"

text \<open>Commands the protocol can carry: an id that is not negative as an \<open>int64\<close>, and less than
  64 KB with the length field.\<close>

definition cmd_ok :: "json_lib \<Rightarrow> cmd \<Rightarrow> bool" where
  "cmd_ok js c \<longleftrightarrow> unat (fst c) < 2 ^ 63 \<and> length (snd c) < 2 ^ 16 \<and>
     (case Marshal js (JsonProto (fst c) (snd c)) EncodeTyepSpb of
        Ret (b, None) \<Rightarrow> length b + 4 < 2 ^ 16 | _ \<Rightarrow> False)"

lemma val_bytes_val [simp]: "val_bytes (bytes_val d) = d"
  by (simp add: bytes_val_def comp_def)

lemma codable_bytes: "length d \<le> max_values \<Longrightarrow> codable (bytes_val d)"
  by (simp add: bytes_val_def codable_simps list_all_iff)

lemma codable_JsonProto: "length d \<le> max_values \<Longrightarrow> codable (JsonProto i d)"
  using codable_bytes [of d]
  by (simp add: JsonProto_def codable_simps tags_ok_def no_tag_def find_field_def field_tag_def)

lemma JsonProto_type: "zero_of (type_of (JsonProto i d)) = JsonProto 0 []" "type_of (JsonProto i d) = type_of (JsonProto 0 [])"
  by (simp_all add: JsonProto_def bytes_val_def)

lemma cmd_body:
  assumes "cmd_ok js (i, d)"
  shows "\<exists>b. Marshal js (JsonProto i d) EncodeTyepSpb = Ret (b, None) \<and> cmdFrame js (i, d) = frame b \<and>
    length b + 4 < 2 ^ 16 \<and>
    Unmarshal js b (VPtr (type_of (JsonProto 0 [])) (Some (JsonProto 0 []))) EncodeTyepSpb =
      Ret (VPtr (type_of (JsonProto 0 [])) (Some (JsonProto i d)), None)"
proof -
  have c: "codable (JsonProto i d)" using assms by (intro codable_JsonProto) (simp add: cmd_ok_def max_values_def)
  let ?b = "enc 0 True (JsonProto i d)"
  have m: "Marshal js (JsonProto i d) EncodeTyepSpb = Ret (?b, None)" using pack_enc [OF c] by (simp add: Marshal_def)
  then have l: "length ?b + 4 < 2 ^ 16" using assms by (simp add: cmd_ok_def)
  moreover have "Unmarshal js ?b (VPtr (type_of (JsonProto 0 [])) (Some (JsonProto 0 []))) EncodeTyepSpb =
      Ret (VPtr (type_of (JsonProto 0 [])) (Some (JsonProto i d)), None)"
    using decode_enc [OF c, of "[]"] l JsonProto_type(1) [of 0 "[]"] unfolding JsonProto_type(2) [of i d] by (simp add: Unmarshal_def)
  ultimately show ?thesis using m EncodeProtocol_frame [OF m l] by (auto simp: cmdFrame_def)
qed

lemma protoUnmarshal_frame:
  assumes "cmd_ok js (i, d)"
  shows "protoUnmarshal js EncodeTyepSpb (cmdFrame js (i, d) @ rest) =
    Ret \<lparr>lenParsed = int (length (cmdFrame js (i, d))), pMsgID = sint i, pMsg = MBytes d, pErr = None\<rparr>"
proof -
  from cmd_body [OF assms] obtain b where b: "cmdFrame js (i, d) = frame b" "length b + 4 < 2 ^ 16"
    "Unmarshal js b (VPtr (type_of (JsonProto 0 [])) (Some (JsonProto 0 []))) EncodeTyepSpb =
      Ret (VPtr (type_of (JsonProto 0 [])) (Some (JsonProto i d)), None)" by blast
  from MsgLen_frame [of b rest] b(2) obtain w where w: "MsgLen (frame b @ rest) = Ret w" "unat w = length b + 4" by auto
  have n: "\<not> w < 4" "\<not> of_nat MaxMsgSize \<le> w"
    using w(2) b(2) by (simp_all add: word_less_nat_alt word_le_nat_alt MaxMsgSize_def)
  have s: "subseg 4 (unat w) (frame b @ rest) = b" by (simp add: subseg_def w(2))
  have f: "jsonProto_fields (VPtr (type_of (JsonProto 0 [])) (Some (JsonProto i d))) = (i, d)"
    by (simp add: JsonProto_def)
  show ?thesis using w n s b f by (simp add: protoUnmarshal_def)
qed

lemma protoUnmarshal_part:
  assumes "cmd_ok js (i, d)" "strict_prefix x (cmdFrame js (i, d))"
  shows "protoUnmarshal js EncodeTyepSpb x = Ret \<lparr>lenParsed = 0, pMsgID = 0, pMsg = MNil, pErr = None\<rparr>"
proof (cases "length x < 4")
  case False
  from cmd_body [OF assms(1)] obtain b where b: "cmdFrame js (i, d) = frame b" "length b + 4 < 2 ^ 16" by blast
  from assms(2) obtain y where y: "frame b = x @ y" "y \<noteq> []" unfolding b(1) by (auto simp: strict_prefix_def prefix_def)
  then have lx: "length x < length b + 4" by (metis add_less_cancel_left length_append length_frame length_greater_0_conv less_add_same_cancel1)
  from MsgLen_frame [of b "[]"] b(2) obtain w where w: "MsgLen (x @ y) = Ret w" "unat w = length b + 4" using y by auto
  have "MsgLen x = Ret w"
    using w(1) False by (simp add: MsgLen_def nth_append split: if_splits)
  moreover have "\<not> w < 4" "\<not> of_nat MaxMsgSize \<le> w"
    using w(2) b(2) by (simp_all add: word_less_nat_alt word_le_nat_alt MaxMsgSize_def)
  ultimately show ?thesis using False lx w(2) by (simp add: protoUnmarshal_def)
qed (simp add: protoUnmarshal_def)


subsection \<open>Delivery to the queues\<close>

definition cmdContent :: "cmd \<Rightarrow> int \<times> imsg" where
  "cmdContent c = (sint (fst c), MBytes (snd c))"

definition cmdMessage :: "sessRef \<Rightarrow> cmd \<Rightarrow> sessionMessage" where
  "cmdMessage r c = dataMessage r (cmdContent c)"

definition spbImp :: "json_lib \<Rightarrow> event list serviceImp \<Rightarrow> bool" where
  "spbImp js im \<longleftrightarrow> (\<exists>reg ui uh. im = ServiceSpb js reg ui uh)"

lemma sint_id_nonneg: "unat i < 2 ^ 63 \<Longrightarrow> 0 \<le> sint i" for i :: u64
proof -
  assume "unat i < 2 ^ 63"
  then have "int (unat i) < int (2 ^ 63)" by (simp only: of_nat_less_iff)
  then have "uint i < 2 ^ 63" by simp
  then have "wrap64 (uint i) = uint i" by (intro wrap64_id) (auto intro: order_trans [of _ 0])
  then show ?thesis by (simp add: wrap64_def)
qed

interpretation spb_frames: message_frames "spbImp js" "\<lambda>_. True" "cmdFrame js" "cmd_ok js" cmdContent for js
proof
  fix im m r rest and w :: "event list"
  assume "spbImp js im" "cmd_ok js m"
  then show "imp_Unmarshal im r (cmdFrame js m @ rest) w = Ret (w, \<lparr>lenParsed = int (length (cmdFrame js m)),
      pMsgID = fst (cmdContent m), pMsg = snd (cmdContent m), pErr = None\<rparr>)"
    using protoUnmarshal_frame [of js "fst m" "snd m" rest] by (auto simp: spbImp_def ServiceSpb_def cmdContent_def)
next
  fix im m d r and w :: "event list"
  assume "spbImp js im" "cmd_ok js m" "strict_prefix d (cmdFrame js m)"
  then show "imp_Unmarshal im r d w = Ret (w, \<lparr>lenParsed = 0, pMsgID = 0, pMsg = MNil, pErr = None\<rparr>)"
    using protoUnmarshal_part [of js "fst m" "snd m" d] by (auto simp: spbImp_def ServiceSpb_def)
next
  fix m assume "cmd_ok js m"
  then show "0 \<le> fst (cmdContent m) \<and> True" by (auto simp: cmd_ok_def cmdContent_def intro: sint_id_nonneg)
next
  fix m assume "cmd_ok js m"
  then obtain b where "cmdFrame js m = frame b" "length b + 4 < 2 ^ 16" using cmd_body [of js "fst m" "snd m"] by auto
  then show "cmdFrame js m \<noteq> [] \<and> length (cmdFrame js m) \<le> MaxMsgSize"
    by (auto simp: MaxMsgSize_def simp flip: length_0_conv)
qed


subsection \<open>From the wire to the queues\<close>

text \<open>C1: Whatever the segmentation, commands sent over a connection arrive: the frames
  \<open>EncodeProtocol\<close> makes of a list of commands, cut into arbitrary non-empty pieces and read by a
  session whose service is a \<open>ServiceSpb\<close>, put exactly these commands, decoded and in order, into
  the queues of the threads the service's hash chooses; afterwards nothing is pending, the
  connection is still open and the service well formed.\<close>

theorem spb_commands_delivered:
  assumes "svcInv (spbImp js) (\<lambda>_. True) (sv, sig, w)" "list_all (cmd_ok js) cmds"
    "\<forall>q \<in> set (messageQ sv). length q + length cmds \<le> queueLen"
    "\<not> isUdp s" "handing s" "tempBuf s = None"
    "concat (map fst segs) = concat (map (cmdFrame js) cmds)" "\<forall>x \<in> set segs. fst x \<noteq> [] \<and> snd x = a"
  shows "\<exists>s' sv' sig'. handAll svcParse s (sv, sig, w) segs = Ret (s', sv', sig', w) \<and>
    pending s' = [] \<and> handing s' \<and> sockOpen s' = sockOpen s \<and> svcInv (spbImp js) (\<lambda>_. True) (sv', sig', w) \<and>
    (\<forall>th < length (messageQ sv). messageQ sv' ! th =
       messageQ sv ! th @ routed sv (sref (s\<lparr>peer := a\<rparr>)) (map cmdContent cmds) th)"
  using assms by (rule spb_frames.delivered)

definition sample_service :: "event list service" where
  "sample_service = \<lparr>Name = ''cmd'', imp = ServiceSpb no_json (\<lambda>_. None) True (\<lambda>cur i. Ret (-1)),
     messageQ = [[], []], threadId = 0, threadsNum = 2\<rparr>"

definition sample_cmds :: "cmd list" where
  "sample_cmds = [(5, [1, 2]), (6, [])]"

definition sample_session :: session where
  "sample_session = \<lparr>s_id = 3, writer = [], writerCap = 256, hander = [], handerCap = 256, closer = OpenChan,
     isclose = False, heartbeat = 0, hasConn = False, isUdp = False, peer = None, UserData = NoUser,
     sockOpen = True, sent = [], tempBuf = None, handing = True\<rparr>"

lemma sample_service_inv: "svcInv (spbImp no_json) (\<lambda>_. True) (sample_service, [0, 0], [])"
proof -
  have "spbImp no_json (imp sample_service)"
    unfolding spbImp_def by (rule exI [of _ "\<lambda>_. None"], rule exI [of _ True], rule exI [of _ "\<lambda>cur i. Ret (-1)"])
      (simp add: sample_service_def)
  then show ?thesis by (simp add: svcInv_def service_ok_def sample_service_def ServiceSpb_def returns_def)
qed

lemma sample_cmds_ok: "list_all (cmd_ok no_json) sample_cmds"
  by (simp add: sample_cmds_def cmd_ok_def Marshal_def SpbEncode_def JsonProto_def bytes_val_def no_tag_def field_tag_def
      pack.simps packStructLoop.simps packSliceLoop.simps pack_append hdr_def varint.simps Let_def word_le_nat_alt)

theorem spb_commands_delivered_witness:
  "\<exists>s' sv' sig'. handAll svcParse sample_session (sample_service, [0, 0], [])
      (map (\<lambda>b. ([b], None)) (concat (map (cmdFrame no_json) sample_cmds))) = Ret (s', sv', sig', []) \<and>
    pending s' = [] \<and> (\<forall>th < 2. messageQ sv' ! th = routed sample_service (sref sample_session) (map cmdContent sample_cmds) th)"
proof -
  have c: "concat (map fst (map (\<lambda>b. ([b], None)) xs)) = xs" for xs :: bytes by (induction xs) auto
  have r: "sample_session\<lparr>peer := None\<rparr> = sample_session" by (simp add: sample_session_def)
  have q: "messageQ sample_service ! th = []" if "th < 2" for th
    using that by (auto simp: sample_service_def less_2_cases_iff)
  have l: "length (messageQ sample_service) = 2" "\<forall>q \<in> set (messageQ sample_service). length q + length sample_cmds \<le> queueLen"
    by (simp_all add: sample_service_def sample_cmds_def queueLen_def)
  from spb_commands_delivered [OF sample_service_inv sample_cmds_ok l(2), of sample_session
      "map (\<lambda>b. ([b], None)) (concat (map (cmdFrame no_json) sample_cmds))" None, unfolded r l(1) c]
  show ?thesis using q by (auto simp: sample_session_def)
qed

subsection \<open>Closing\<close>

text \<open>When a session closes, its handler goroutine takes one more buffer but calls the parser
  only once: of several complete commands waiting in that buffer only the first is delivered and
  the others are lost, as is everything behind that buffer.\<close>

theorem session_close_drops_commands:
  assumes "svcInv (spbImp js) (\<lambda>_. True) (sv, sig, w)" "cmd_ok js c" "tempBuf s = None" "hander s = (cmdFrame js c @ rest, a) # later"
  shows "\<exists>s'. handClose svcParse s (sv, sig, w) = Ret (s', deliverMsg (sref s) (cmdContent c) (sv, sig, w)) \<and> \<not> handing s' \<and> hander s' = later"
proof -
  have r: "sref (s\<lparr>hander := later, handing := False\<rparr>) = sref s" by (simp add: sref_def)
  show ?thesis
    using spb_frames.stream.whole_law [OF assms(1,2), of "sref s" rest] assms(3,4)
    by (simp add: handClose_def Let_def r)
qed

theorem session_close_drops_commands_witness:
  "\<exists>s'. handClose svcParse (sample_session\<lparr>hander := [(cmdFrame no_json (5, [1, 2]) @ cmdFrame no_json (6, []), None), ([1], None)]\<rparr>)
      (sample_service, [0, 0], []) = Ret (s', deliverMsg (sref sample_session) (cmdContent (5, [1, 2])) (sample_service, [0, 0], [])) \<and>
    \<not> handing s' \<and> hander s' = [([1], None)]"
proof -
  have c: "cmd_ok no_json (5, [1, 2])" using sample_cmds_ok by (simp add: sample_cmds_def)
  let ?s = "sample_session\<lparr>hander := [(cmdFrame no_json (5, [1, 2]) @ cmdFrame no_json (6, []), None), ([1], None)]\<rparr>"
  have "sref ?s = sref sample_session" by (simp add: sref_def)
  with session_close_drops_commands [OF sample_service_inv c, of ?s "cmdFrame no_json (6, [])" None "[([1], None)]"]
  show ?thesis by (simp add: sample_session_def)
qed

end
