(* ===== verification/Server.thy ===== *)
theory Server
  imports Spb_Service "HOL-Library.AList"
begin

text \<open>
  The server: \<^verbatim>\<open>src/stnet/server.go\<close>.

  Services are shared through pointers between the map by thread and the map by name; here
  they live in the list \<open>allSvcs\<close> and the maps hold positions in it.  The map by thread is an
  association list, whose order stands for the order in which Go happens to range over it.
  Whether the operating system lets the server listen on an address is an argument
  (\<open>listen\<close>, an error or none).  A goroutine started by \<open>Start\<close> is its thread index;
  one turn of its loop is \<open>threadTurn\<close>.
\<close>

record 'w server =
  loopmsec :: nat
  allSvcs :: "'w service list"
  services :: "(int \<times> nat list) list"
  nameServices :: "string \<rightharpoonup> nat"
  isClosed :: bool
  netSignal :: "nat list"
  ProcessorThreadsNum :: int

definition NewServer :: "nat \<Rightarrow> int \<Rightarrow> 'w server" where
  "NewServer msec threadnum =
     (let n = (if threadnum \<le> 0 then 1 else threadnum)
      in \<lparr>loopmsec = (if msec = 0 then 1 else msec), allSvcs = [], services = [], nameServices = (\<lambda>_. None),
          isClosed = False, netSignal = replicate (nat n) 0, ProcessorThreadsNum = n\<rparr>)"

definition newService ::
  "(string \<Rightarrow> string \<Rightarrow> encerr option) \<Rightarrow> 'w server \<Rightarrow> string \<Rightarrow> string \<Rightarrow> 'w serviceImp option \<Rightarrow> int \<Rightarrow> encerr + 'w service" where
  "newService listen svr name address im th =
     (case im of
        None \<Rightarrow> Inl (EApp ''ServiceImp should not be nil'')
      | Some i \<Rightarrow>
          let sve = \<lparr>Name = name, imp = i, messageQ = replicate (nat (ProcessorThreadsNum svr)) [],
                     threadId = th, threadsNum = ProcessorThreadsNum svr\<rparr>
          in if address \<noteq> '''' then
               (let (network, ipport) = parseAddress address
                in case listen network ipport of Some e \<Rightarrow> Inl e | None \<Rightarrow> Inr sve)
             else Inr sve)"

definition AddService ::
  "(string \<Rightarrow> string \<Rightarrow> encerr option) \<Rightarrow> 'w server \<Rightarrow> string \<Rightarrow> string \<Rightarrow> 'w serviceImp option \<Rightarrow> int \<Rightarrow> 'w server \<times> (encerr + nat)" where
  "AddService listen svr name address im th =
     (if th < 0 \<or> th > ProcessorThreadsNum svr then (svr, Inl (EApp ''threadId should be in range''))
      else let th' = th mod ProcessorThreadsNum svr
           in case newService listen svr name address im th' of
                Inl e \<Rightarrow> (svr, Inl e)
              | Inr s \<Rightarrow>
                  let i = length (allSvcs svr);
                      old = (case map_of (services svr) th' of Some l \<Rightarrow> l | None \<Rightarrow> [])
                  in (svr\<lparr>allSvcs := allSvcs svr @ [s],
                          services := AList.update th' (old @ [i]) (services svr),
                          nameServices := (if name \<noteq> '''' then (nameServices svr)(name \<mapsto> i) else nameServices svr)\<rparr>, Inr i))"

definition AddLoopService :: "(string \<Rightarrow> string \<Rightarrow> encerr option) \<Rightarrow> event list server \<Rightarrow> string \<Rightarrow> bool \<Rightarrow> int \<Rightarrow> event list server \<times> (encerr + nat)" where
  "AddLoopService listen svr name userInit th = AddService listen svr name '''' (Some (ServiceLoop userInit)) th"

definition AddEchoService :: "(string \<Rightarrow> string \<Rightarrow> encerr option) \<Rightarrow> event list server \<Rightarrow> string \<Rightarrow> string \<Rightarrow> int \<Rightarrow> event list server \<times> (encerr + nat)" where
  "AddEchoService listen svr name address th = AddService listen svr name address (Some ServiceEcho) th"

text \<open>\<open>weight[i] += weight[i-1]\<close> for \<open>i\<close> from 1 on.\<close>

fun cumulate :: "int \<Rightarrow> int list \<Rightarrow> int list" where
  "cumulate acc [] = []"
| "cumulate acc (w # ws) = (acc + w) # cumulate (acc + w) ws"

definition AddTcpProxyService ::
  "(string \<Rightarrow> string \<Rightarrow> encerr option) \<Rightarrow> nat \<Rightarrow> event list server \<Rightarrow> string \<Rightarrow> int \<Rightarrow> string list \<Rightarrow> int list \<Rightarrow> event list server \<times> encerr option" where
  "AddTcpProxyService listen rnd svr address th proxyaddr proxyweight =
     (if length proxyaddr > 1 \<and> length proxyaddr \<noteq> length proxyweight then (svr, Some (EApp ''error proxy param''))
      else case AddService listen svr '''' '''' (Some ServiceProxyC) th of
        (svr1, Inl e) \<Rightarrow> (svr1, Some e)
      | (svr1, Inr c) \<Rightarrow>
          let weight = (if length proxyaddr > 1 then cumulate 0 proxyweight else [])
          in case AddService listen svr1 '''' address (Some (ServiceProxyS rnd proxyaddr weight)) th of
               (svr2, Inl e) \<Rightarrow> (svr2, Some e)
             | (svr2, Inr s) \<Rightarrow> (svr2, None))"

definition svrPushRequest ::
  "'w server \<Rightarrow> string \<Rightarrow> sessRef option \<Rightarrow> int \<Rightarrow> imsg \<Rightarrow> ('w server \<times> encerr option) go" where
  "svrPushRequest svr servicename sess msgid msg =
     (if servicename = '''' then Ret (svr, Some (EApp ''servicename is null''))
      else case nameServices svr servicename of
        Some i \<Rightarrow>
          go_map (\<lambda>(sv', sig', e). (svr\<lparr>allSvcs := (allSvcs svr)[i := sv'], netSignal := sig'\<rparr>, e))
            (PushRequest (allSvcs svr ! i) (netSignal svr) sess msgid msg)
      | None \<Rightarrow> Ret (svr, Some (EApp ''no service named'')))"

text \<open>\<open>Start\<close>: initialise every service, then start a goroutine for every thread that owns
  services and one for every other thread.\<close>

fun initAll :: "'w service list \<Rightarrow> nat list \<Rightarrow> 'w \<Rightarrow> 'w \<times> encerr option" where
  "initAll svcs [] w = (w, None)"
| "initAll svcs (i # is) w =
     (case imp_Init (imp (svcs ! i)) w of
        (w', False) \<Rightarrow> (w', Some (EApp ''init failed!''))
      | (w', True) \<Rightarrow> initAll svcs is w')"

definition Start :: "'w server \<Rightarrow> 'w \<Rightarrow> 'w \<times> encerr option \<times> int list" where
  "Start svr w =
     (case initAll (allSvcs svr) (concat (map snd (services svr))) w of
        (w', Some e) \<Rightarrow> (w', Some e, [])
      | (w', None) \<Rightarrow>
          (w', None, map fst (services svr) @
             filter (\<lambda>i. map_of (services svr) i = None) (map int [0..<nat (ProcessorThreadsNum svr)])))"

text \<open>One turn of the loop of thread \<open>th\<close>: the service loops when they are due, then the
  messages of queue \<open>th\<close> of every service.\<close>

fun loopAll :: "'w service list \<Rightarrow> nat list \<Rightarrow> 'w \<Rightarrow> 'w go" where
  "loopAll svcs [] w = Ret w"
| "loopAll svcs (i # is) w = go_bind (loop (svcs ! i) w) (loopAll svcs is)"

fun messagesAll :: "'w service list \<Rightarrow> nat list \<Rightarrow> current \<Rightarrow> 'w \<Rightarrow> ('w service list \<times> current \<times> 'w \<times> nat) go" where
  "messagesAll svcs [] cur w = Ret (svcs, cur, w, 0)"
| "messagesAll svcs (i # is) cur w =
     go_bind (messageThread (svcs ! i) cur w)
       (\<lambda>(sv', cur', w', n). go_map (\<lambda>(svcs', cur'', w'', k). (svcs', cur'', w'', n + k))
          (messagesAll (svcs[i := sv']) is cur' w'))"

definition threadTurn :: "'w server \<Rightarrow> int \<Rightarrow> bool \<Rightarrow> current \<Rightarrow> 'w \<Rightarrow> ('w server \<times> current \<times> 'w) go" where
  "threadTurn svr th due cur w =
     (let all = concat (map snd (services svr));
          mine = (case map_of (services svr) th of Some l \<Rightarrow> l | None \<Rightarrow> [])
      in go_bind (if due then loopAll (allSvcs svr) mine w else Ret w)
           (\<lambda>w1. go_map (\<lambda>(svcs', cur', w', n). (svr\<lparr>allSvcs := svcs'\<rparr>, cur', w'))
              (messagesAll (allSvcs svr) all cur w1)))"

definition Stop :: "'w server \<Rightarrow> 'w \<Rightarrow> 'w server \<times> 'w" where
  "Stop svr w =
     (let all = concat (map snd (services svr))
      in (svr\<lparr>allSvcs := map destroyQueues (allSvcs svr), isClosed := True,
              netSignal := map (\<lambda>n. 1) (netSignal svr)\<rparr>,
          foldl (\<lambda>w i. imp_Destroy (imp (allSvcs svr ! i)) w) w all))"


subsection \<open>The server's invariant\<close>

definition server_ok :: "'w server \<Rightarrow> bool" where
  "server_ok svr \<longleftrightarrow> 0 < ProcessorThreadsNum svr \<and> length (netSignal svr) = nat (ProcessorThreadsNum svr) \<and>
     (\<forall>sv \<in> set (allSvcs svr). threadsNum sv = ProcessorThreadsNum svr \<and> service_ok sv (netSignal svr)) \<and>
     distinct (map fst (services svr)) \<and>
     (\<forall>(th, l) \<in> set (services svr). 0 \<le> th \<and> th < ProcessorThreadsNum svr \<and> (\<forall>i \<in> set l. i < length (allSvcs svr))) \<and>
     (\<forall>name i. nameServices svr name = Some i \<longrightarrow> i < length (allSvcs svr)) \<and> (\<forall>n \<in> set (netSignal svr). n \<le> 1)"

lemma server_okD:
  assumes "server_ok svr"
  shows "0 < ProcessorThreadsNum svr" "length (netSignal svr) = nat (ProcessorThreadsNum svr)"
    "sv \<in> set (allSvcs svr) \<Longrightarrow> threadsNum sv = ProcessorThreadsNum svr \<and> service_ok sv (netSignal svr)"
    "distinct (map fst (services svr))"
    "(th, l) \<in> set (services svr) \<Longrightarrow> 0 \<le> th \<and> th < ProcessorThreadsNum svr \<and> (\<forall>i \<in> set l. i < length (allSvcs svr))"
    "nameServices svr name = Some i \<Longrightarrow> i < length (allSvcs svr)" "\<forall>n \<in> set (netSignal svr). n \<le> 1"
  using assms unfolding server_ok_def by blast+

lemma server_okI:
  assumes "0 < ProcessorThreadsNum svr" "length (netSignal svr) = nat (ProcessorThreadsNum svr)"
    "\<And>sv. sv \<in> set (allSvcs svr) \<Longrightarrow> threadsNum sv = ProcessorThreadsNum svr \<and> service_ok sv (netSignal svr)"
    "distinct (map fst (services svr))"
    "\<And>th l. (th, l) \<in> set (services svr) \<Longrightarrow> 0 \<le> th \<and> th < ProcessorThreadsNum svr \<and> (\<forall>i \<in> set l. i < length (allSvcs svr))"
    "\<And>name i. nameServices svr name = Some i \<Longrightarrow> i < length (allSvcs svr)" "\<forall>n \<in> set (netSignal svr). n \<le> 1"
  shows "server_ok svr"
  using assms unfolding server_ok_def by blast

lemma NewServer_ok: "server_ok (NewServer msec n)"
  by (auto simp: server_ok_def NewServer_def Let_def)

lemma newService_ok:
  assumes "newService listen svr name address im th = Inr s" "server_ok svr" "0 \<le> th" "th < ProcessorThreadsNum svr"
  shows "threadsNum s = ProcessorThreadsNum svr \<and> service_ok s (netSignal svr)"
  using assms server_okD(2,7) [OF assms(2)]
  by (auto simp: newService_def Let_def service_ok_def queueLen_def split: option.splits if_splits prod.splits)

lemma AddService_ok:
  assumes "server_ok svr"
  shows "server_ok (fst (AddService listen svr name address im th))"
proof (cases "snd (AddService listen svr name address im th)")
  case (Inl e)
  then have "fst (AddService listen svr name address im th) = svr"
    by (auto simp: AddService_def Let_def split: sum.splits if_splits)
  with assms show ?thesis by simp
next
  case (Inr i)
  let ?th = "th mod ProcessorThreadsNum svr" and ?i = "length (allSvcs svr)"
  let ?old = "case map_of (services svr) ?th of Some l \<Rightarrow> l | None \<Rightarrow> []"
  note ok = server_okD [OF assms]
  from Inr obtain s where s: "newService listen svr name address im ?th = Inr s"
    "fst (AddService listen svr name address im th) = svr\<lparr>allSvcs := allSvcs svr @ [s],
        services := AList.update ?th (?old @ [?i]) (services svr),
        nameServices := (if name \<noteq> '''' then (nameServices svr)(name \<mapsto> ?i) else nameServices svr)\<rparr>"
    by (auto simp: AddService_def Let_def split: sum.splits if_splits)
  have th: "0 \<le> ?th" "?th < ProcessorThreadsNum svr" using ok(1) by simp_all
  have sv: "threadsNum s = ProcessorThreadsNum svr \<and> service_ok s (netSignal svr)"
    using newService_ok [OF s(1) assms th] .
  have old: "\<forall>j \<in> set ?old. j < ?i"
  proof (cases "map_of (services svr) ?th")
    case (Some l)
    with ok(5) [OF map_of_SomeD [OF Some]] show ?thesis by simp
  qed simp
  have upd: "0 \<le> t \<and> t < ProcessorThreadsNum svr \<and> (\<forall>j \<in> set l. j < Suc ?i)"
    if m: "(t, l) \<in> set (AList.update ?th (?old @ [?i]) (services svr))" for t l
  proof -
    have "map_of (AList.update ?th (?old @ [?i]) (services svr)) t = Some l"
      using m ok(4) by (intro map_of_is_SomeI) (simp_all add: distinct_update)
    then have "t = ?th \<and> l = ?old @ [?i] \<or> map_of (services svr) t = Some l"
      by (auto simp: update_conv' split: if_splits)
    then show ?thesis using ok(5) th old by (fastforce dest: map_of_SomeD)
  qed
  show ?thesis unfolding s(2)
  proof (rule server_okI, goal_cases)
    case (3 x)
    then show ?case using ok(3) [of x] sv by auto
  next
    case 4
    show ?case using ok(4) by (simp add: distinct_update)
  next
    case (5 t l)
    then show ?case using upd [of t l] by simp
  next
    case (6 nm j)
    then show ?case using ok(6) [of nm j] by (auto split: if_splits)
  qed (use ok(1,2,7) in simp_all)
qed
lemma server_ok_update:
  assumes "server_ok svr" "service_ok sv' (netSignal svr)" "threadsNum sv' = ProcessorThreadsNum svr"
  shows "server_ok (svr\<lparr>allSvcs := (allSvcs svr)[i := sv'], netSignal := (netSignal svr)[k := 1]\<rparr>)"
proof -
  note ok = server_okD [OF assms(1)]
  have ones: "\<forall>n \<in> set ((netSignal svr)[k := 1]). n \<le> 1"
    using ok(7) set_update_subset_insert [of "netSignal svr" k 1] by auto
  then have "service_ok x (netSignal svr) \<Longrightarrow> service_ok x ((netSignal svr)[k := 1])" for x
    by (simp add: service_ok_def)
  then have "\<forall>x \<in> set ((allSvcs svr)[i := sv']). threadsNum x = ProcessorThreadsNum svr \<and> service_ok x ((netSignal svr)[k := 1])"
    using ok(3) assms(2,3) set_update_subset_insert [of "allSvcs svr" i sv'] by auto
  with ones ok show ?thesis unfolding server_ok_def by auto
qed

subsection \<open>Properties\<close>

text \<open>The server's invariant (every service has one queue per thread, its main thread is
  one of them, the wake-up channels fit, the maps refer to existing services) holds for a new server
  and after every attempt to add a service, whether it succeeds or not.\<close>

theorem server_add_keeps_invariant:
  "server_ok (NewServer msec n) \<and> (server_ok svr \<longrightarrow> server_ok (fst (AddService listen svr name address im th)))"
  using NewServer_ok AddService_ok by blast

definition sample_server :: "event list server" where
  "sample_server = fst (AddService (\<lambda>n a. None) (NewServer 10 3) ''base'' ''udp:127.0.0.1:60'' (Some ServiceBase) 1)"

lemma sample_server_facts:
  "server_ok sample_server" "ProcessorThreadsNum sample_server = 3" "services sample_server = [(1, [0])]"
  "nameServices sample_server ''base'' = Some 0" "imp (allSvcs sample_server ! 0) = ServiceBase" "allSvcs sample_server \<noteq> []"
proof -
  show "server_ok sample_server" unfolding sample_server_def by (intro AddService_ok NewServer_ok)
qed (simp_all add: sample_server_def AddService_def NewServer_def newService_def Let_def split: prod.split)

theorem server_add_keeps_invariant_witness:
  "server_ok (NewServer 0 2 :: event list server) \<and>
   server_ok (fst (AddService (\<lambda>n a. None) sample_server ''echo'' '''' (Some ServiceEcho) 3))"
  using server_add_keeps_invariant [of 0 2 sample_server] sample_server_facts(1) by blast

text \<open>C17: A started server has exactly one goroutine for every queue index: the
  threads that own services and those that do not together are all the indices from 0 to
  \<open>ProcessorThreadsNum - 1\<close>, each once.  So every queued message has one and only one consumer.\<close>

theorem server_threads_cover:
  assumes "server_ok svr" "Start svr w = (w', None, threads)"
  shows "distinct threads \<and> set threads = {0..<ProcessorThreadsNum svr}"
proof -
  note ok = server_okD [OF assms(1)]
  let ?rest = "filter (\<lambda>i. map_of (services svr) i = None) (map int [0..<nat (ProcessorThreadsNum svr)])"
  have t: "threads = map fst (services svr) @ ?rest"
    using assms(2) by (auto simp: Start_def split: prod.splits option.splits)
  have keys: "fst ` set (services svr) \<subseteq> {0..<ProcessorThreadsNum svr}" using ok(5) by force
  have none: "map_of (services svr) i = None \<longleftrightarrow> i \<notin> fst ` set (services svr)" for i
    by (simp add: map_of_eq_None_iff)
  have ints: "set (map int [0..<nat (ProcessorThreadsNum svr)]) = {0..<ProcessorThreadsNum svr}"
    by (simp add: image_int_atLeastLessThan)
  have "distinct ?rest" by (simp add: distinct_map inj_on_def)
  moreover have "set ?rest = {0..<ProcessorThreadsNum svr} - fst ` set (services svr)"
    unfolding set_filter ints none by auto
  ultimately show ?thesis unfolding t using ok(4) keys by auto
qed

theorem server_threads_cover_witness:
  "\<exists>threads. Start sample_server [] = ([], None, threads) \<and> distinct threads \<and> set threads = {0..<3}"
proof -
  have "\<exists>threads. Start sample_server [] = ([], None, threads)"
    using sample_server_facts by (simp add: Start_def ServiceBase_def)
  then obtain threads where "Start sample_server [] = ([], None, threads)" by blast
  with server_threads_cover [OF sample_server_facts(1) this] show ?thesis by (simp add: sample_server_facts(2))
qed

text \<open>C16: Pushing a request to a named service never panics and keeps the invariant, provided the
  user's hash function returns: the chosen queue always exists.  The message goes to the end of
  that queue and its thread is woken, or the queue is full and the caller gets an error.\<close>

theorem server_push_safe:
  assumes "server_ok svr" "nameServices svr name = Some i" "name \<noteq> ''''"
    "\<And>cur j m. returns (imp_HashProcessor (imp (allSvcs svr ! i)) cur j m)"
  shows "\<exists>svr' err th. svrPushRequest svr name sess msgid msg = Ret (svr', err) \<and> server_ok svr' \<and>
    0 \<le> th \<and> th < ProcessorThreadsNum svr \<and>
    (err = None \<longrightarrow> last (messageQ (allSvcs svr' ! i) ! nat th) =
        \<lparr>mSess = sess, DtType = Data, MsgID = msgid, Msg = msg, MErr = None,
         mpeer = (case sess of Some s \<Rightarrow> sess_peer s | None \<Rightarrow> None)\<rparr> \<and> netSignal svr' ! nat th = 1) \<and>
    (err \<noteq> None \<longrightarrow> svr' = svr \<and> length (messageQ (allSvcs svr ! i) ! nat th) = queueLen)"
proof -
  note ok = server_okD [OF assms(1)]
  let ?sv = "allSvcs svr ! i"
  let ?m = "\<lparr>mSess = sess, DtType = Data, MsgID = msgid, Msg = msg, MErr = None,
         mpeer = (case sess of Some s \<Rightarrow> sess_peer s | None \<Rightarrow> None)\<rparr>"
  have i: "i < length (allSvcs svr)" using ok(6) [OF assms(2)] .
  then have sv: "threadsNum ?sv = ProcessorThreadsNum svr" "service_ok ?sv (netSignal svr)" using ok(3) [of ?sv] by auto
  from getProcessor_returns [OF sv(2) assms(4)] obtain th where g: "getProcessor ?sv sess msgid msg = Ret th" by blast
  from getProcessor_range [OF sv(2) g] have th: "0 \<le> th" "th < threadsNum ?sv" by auto
  from enqueue_ok [OF sv(2) th, of ?m] obtain sv' b where
    e: "enqueue ?sv th ?m = Ret (sv', b)" "service_ok sv' (netSignal svr)"
      "messageQ sv' = (if b then (messageQ ?sv)[nat th := messageQ ?sv ! nat th @ [?m]] else messageQ ?sv)"
      "b = (length (messageQ ?sv ! nat th) < queueLen)" by blast
  have n: "threadsNum sv' = threadsNum ?sv" "sv' = ?sv\<lparr>messageQ := messageQ sv'\<rparr>"
    using e(1) by (auto simp: enqueue_def Let_def split: if_splits prod.splits)
  have len: "nat th < length (messageQ ?sv)" using th sv(2) by (simp add: service_ok_def)
  show ?thesis
  proof (cases b)
    case True
    from wakeup_ok [OF e(2) th(1)] th(2) n(1) obtain sig' where k: "wakeup (nat th) (netSignal svr) = Ret sig'" "sig' ! nat th = 1"
      "sig' = (netSignal svr)[nat th := 1]" by (auto simp: wakeup_def split: if_splits)
    let ?svr = "svr\<lparr>allSvcs := (allSvcs svr)[i := sv'], netSignal := sig'\<rparr>"
    have r: "svrPushRequest svr name sess msgid msg = Ret (?svr, None)"
      using assms(2,3) g e(1) True k(1) by (simp add: svrPushRequest_def PushRequest_def)
    have "server_ok ?svr" unfolding k(3)
      using server_ok_update [OF assms(1) e(2)] sv(1) n(1) by simp
    then show ?thesis using r th sv(1) e(3) True i len k(2)
      by (intro exI [of _ ?svr] exI [of _ None] exI [of _ th]) simp
  next
    case False
    have "sv' = ?sv" using n(2) e(3) False by simp
    then have r: "svrPushRequest svr name sess msgid msg = Ret (svr, Some (EApp ''service recv queue is full''))"
      using assms(2,3) g e(1) False by (simp add: svrPushRequest_def PushRequest_def)
    have "length (messageQ ?sv ! nat th) \<le> queueLen" using sv(2) len by (auto simp: service_ok_def)
    with r th sv(1) e(4) False assms(1) show ?thesis
      by (intro exI [of _ svr] exI [of _ "Some (EApp ''service recv queue is full'')"] exI [of _ th]) simp
  qed
qed

theorem server_push_safe_witness:
  "\<exists>svr' err th. svrPushRequest sample_server ''base'' None 7 (MBytes [1]) = Ret (svr', err) \<and> server_ok svr' \<and> 0 \<le> th \<and> th < (3 :: int)"
proof -
  have "returns (imp_HashProcessor (imp (allSvcs sample_server ! 0)) cur j m)" for cur j m
    by (simp add: sample_server_facts(5) ServiceBase_def returns_def)
  from server_push_safe [OF sample_server_facts(1,4) _ this, of None 7 "MBytes [1]", unfolded sample_server_facts(2)] show ?thesis
    by auto
qed

text \<open>A handler that always finishes, as a function.\<close>

definition finishes :: "'w serviceImp \<Rightarrow> sessionMessage list \<Rightarrow> bool" where
  "finishes im q \<longleftrightarrow> (\<forall>m \<in> set q. \<forall>cur w. \<exists>w'. snd (handleMsg im cur m w) = Done w')"

definition handled :: "'w serviceImp \<Rightarrow> current \<Rightarrow> sessionMessage \<Rightarrow> 'w \<Rightarrow> 'w" where
  "handled im cur m w = (case snd (handleMsg im cur m w) of Done w' \<Rightarrow> w' | Panicked w' \<Rightarrow> w' | Stuck \<Rightarrow> w)"

lemma handled_cur: "GoroutineID c = GoroutineID c' \<Longrightarrow> UserDefined c = UserDefined c' \<Longrightarrow> handled im c m w = handled im c' m w"
proof -
  assume "GoroutineID c = GoroutineID c'" "UserDefined c = UserDefined c'"
  then have "c\<lparr>Sess := mSess m, Peer := mpeer m\<rparr> = c'\<lparr>Sess := mSess m, Peer := mpeer m\<rparr>" by (cases c; cases c') simp
  then show ?thesis by (simp add: handled_def handleMsg_def Let_def)
qed

lemma messageLoop_fifo:
  assumes "finishes im q"
  shows "\<exists>cur'. messageLoop k im cur q w n =
    Ret (cur', drop k q, fold (handled im cur) (take k q) w, n + min k (length q))"
  using assms
proof (induction k arbitrary: q w n cur)
  case (Suc k)
  show ?case
  proof (cases q)
    case (Cons m q')
    let ?c = "cur\<lparr>Sess := mSess m, Peer := mpeer m\<rparr>"
    have q': "finishes im q'" using Suc.prems Cons by (simp add: finishes_def)
    have "m \<in> set q" using Cons by simp
    with Suc.prems obtain w' where "snd (handleMsg im cur m w) = Done w'" unfolding finishes_def by blast
    then have h: "handleMsg im cur m w = (?c, Done w')" "handled im cur m w = w'"
      by (auto simp: handled_def) (auto simp: handleMsg_def Let_def)
    have "handled im ?c = handled im cur" by (intro ext handled_cur) simp_all
    with Suc.IH [OF q', of ?c w' "Suc n"] h Cons show ?thesis by simp
  qed simp
qed simp

text \<open>A turn of \<open>messageThread\<close> whose handlers finish takes up to 1024 messages
  from the front of its own queue, hands each of them to the implementation exactly once and in the
  order they were queued, leaves the rest and all other queues alone, and returns their number.\<close>

theorem message_thread_fifo:
  assumes "service_ok sv sig" "0 \<le> GoroutineID cur" "GoroutineID cur < threadsNum sv"
    "finishes (imp sv) (messageQ sv ! nat (GoroutineID cur))"
  shows "\<exists>cur'. messageThread sv cur w =
    (let th = nat (GoroutineID cur); q = messageQ sv ! th
     in Ret (sv\<lparr>messageQ := (messageQ sv)[th := drop 1024 q]\<rparr>, cur',
          fold (handled (imp sv) cur) (take 1024 q) w, min 1024 (length q)))"
proof -
  have th: "nat (GoroutineID cur) < length (messageQ sv)" using assms(1-3) by (simp add: service_ok_def)
  from messageLoop_fifo [OF assms(4), of 1024 cur w 0] th assms(2) show ?thesis
    by (auto simp: messageThread_def Let_def)
qed

theorem message_thread_fifo_witness:
  "\<exists>cur'. messageThread
     \<lparr>Name = ''s'', imp = ServiceSpb no_json (\<lambda>_. None) True (\<lambda>cur i. Ret 0),
      messageQ = [[cmdMessage \<lparr>sess_id = 1, sess_peer = None, sess_user = NoUser\<rparr> (4, [9])]], threadId = 0, threadsNum = 1\<rparr>
     \<lparr>GoroutineID = 0, Sess = None, UserDefined = NoUser, Peer = None\<rparr> [] =
     Ret (\<lparr>Name = ''s'', imp = ServiceSpb no_json (\<lambda>_. None) True (\<lambda>cur i. Ret 0), messageQ = [[]], threadId = 0, threadsNum = 1\<rparr>, cur',
       [EvHandle \<lparr>GoroutineID = 0, Sess = Some \<lparr>sess_id = 1, sess_peer = None, sess_user = NoUser\<rparr>, UserDefined = NoUser, Peer = None\<rparr>
          4 (MBytes [9]) None], 1)"
proof -
  let ?sv = "\<lparr>Name = ''s'', imp = ServiceSpb no_json (\<lambda>_. None) True (\<lambda>cur i. Ret 0),
      messageQ = [[cmdMessage \<lparr>sess_id = 1, sess_peer = None, sess_user = NoUser\<rparr> (4, [9])]], threadId = 0, threadsNum = 1\<rparr>"
  let ?cur = "\<lparr>GoroutineID = 0, Sess = None, UserDefined = NoUser, Peer = None\<rparr>"
  have f: "finishes (imp ?sv) (messageQ ?sv ! nat (GoroutineID ?cur))"
    by (simp add: finishes_def handleMsg_def cmdMessage_def cmdContent_def dataMessage_def ServiceSpb_def spbHandleMessage_def Let_def)
  have "service_ok ?sv [0]" by (simp add: service_ok_def queueLen_def)
  from message_thread_fifo [OF this _ _ f, of "[]"] show ?thesis
    by (simp add: handled_def handleMsg_def cmdMessage_def cmdContent_def dataMessage_def ServiceSpb_def spbHandleMessage_def Let_def)
qed

subsection \<open>Weighted choice of a proxy target\<close>

lemma pickLoop_cumulate:
  assumes "acc \<le> r" "r < acc + sum_list ws" "list_all (\<lambda>w. 0 \<le> w) ws" "k + length ws \<le> length addrs"
  shows "\<exists>j < length ws. acc + sum_list (take j ws) \<le> r \<and> r < acc + sum_list (take (Suc j) ws) \<and>
    pickLoop r k (cumulate acc ws) addrs rip = Ret (addrs ! (k + j))"
  using assms
proof (induction ws arbitrary: acc k)
  case (Cons w ws)
  show ?case
  proof (cases "r < acc + w")
    case True
    with Cons.prems show ?thesis by (intro exI [of _ 0]) auto
  next
    case False
    with Cons.IH [of "acc + w" "Suc k"] Cons.prems obtain j where
      "j < length ws" "acc + w + sum_list (take j ws) \<le> r" "r < acc + w + sum_list (take (Suc j) ws)"
      "pickLoop r (Suc k) (cumulate (acc + w) ws) addrs rip = Ret (addrs ! (Suc k + j))"
      by (auto simp: add.assoc)
    with False show ?thesis by (intro exI [of _ "Suc j"]) (auto simp: add.assoc)
  qed
qed simp

lemma sum_take_mono: "list_all (\<lambda>w. 0 \<le> w) ws \<Longrightarrow> i \<le> j \<Longrightarrow> sum_list (take i ws) \<le> (sum_list (take j ws) :: int)"
proof -
  assume nn: "list_all (\<lambda>w. 0 \<le> w) ws" and "i \<le> j"
  then have "take j ws = take i ws @ take (j - i) (drop i ws)" by (metis le_add_diff_inverse take_add)
  moreover have "0 \<le> sum_list (take (j - i) (drop i ws))"
    using nn by (intro sum_list_nonneg) (auto simp: list_all_iff dest!: in_set_takeD in_set_dropD)
  ultimately show ?thesis by simp
qed

lemma length_cumulate [simp]: "length (cumulate acc ws) = length ws"
  by (induction ws arbitrary: acc) auto

lemma cumulate_Nil_iff [simp]: "cumulate acc ws = [] \<longleftrightarrow> ws = []"
  by (cases ws) auto

lemma last_cumulate: "ws \<noteq> [] \<Longrightarrow> last (cumulate acc ws) = acc + sum_list ws"
  by (induction ws arbitrary: acc) auto

text \<open>The TCP proxy chooses its targets in proportion to their weights: of the possible random
  numbers below the total, exactly as many lead to target \<open>i\<close> as its weight says, so that a target
  with weight 0 is never chosen.\<close>

theorem proxy_weights_respected:
  assumes "list_all (\<lambda>w. 0 \<le> w) ws" "0 < sum_list ws" "length addrs = length ws" "1 < length ws" "distinct addrs" "i < length ws"
  shows "card {r. r < nat (sum_list ws) \<and> pickRemote r addrs (cumulate 0 ws) = Ret (addrs ! i)} = nat (ws ! i)"
proof -
  let ?s = "\<lambda>j. sum_list (take j ws)"
  have ne: "ws \<noteq> []" "addrs \<noteq> []" using assms(3,4) by auto
  have iff: "pickRemote r addrs (cumulate 0 ws) = Ret (addrs ! i) \<longleftrightarrow> ?s i \<le> int r \<and> int r < ?s (Suc i)"
    if r: "r < nat (sum_list ws)" for r
  proof -
    have "int r mod sum_list ws = int r" using r by (simp add: nat_less_iff zless_nat_eq_int_zless)
    then have p: "pickRemote r addrs (cumulate 0 ws) = pickLoop (int r) 0 (cumulate 0 ws) addrs (addrs ! 0)"
      using assms(2,4) ne by (simp add: pickRemote_def last_cumulate)
    from pickLoop_cumulate [of 0 "int r" ws 0 addrs "addrs ! 0"] r assms(1,2,3) obtain j where
      j: "j < length ws" "?s j \<le> int r" "int r < ?s (Suc j)" "pickLoop (int r) 0 (cumulate 0 ws) addrs (addrs ! 0) = Ret (addrs ! j)"
      by (auto simp: zless_nat_eq_int_zless)
    have "addrs ! j = addrs ! i \<longleftrightarrow> j = i" using assms(3,5,6) j(1) by (simp add: nth_eq_iff_index_eq)
    moreover have "j = i" if "?s i \<le> int r" "int r < ?s (Suc i)"
    proof (rule ccontr)
      assume "j \<noteq> i"
      then consider "Suc j \<le> i" | "Suc i \<le> j" by linarith
      then show False using sum_take_mono [OF assms(1), of "Suc j" i] sum_take_mono [OF assms(1), of "Suc i" j] that j(2,3)
        by cases linarith+
    qed
    ultimately show ?thesis using p j by auto
  qed
  have nn: "0 \<le> ?s i" using sum_take_mono [OF assms(1), of 0 i] by simp
  have top: "?s (Suc i) \<le> sum_list ws" using sum_take_mono [OF assms(1), of "Suc i" "length ws"] assms(6) by simp
  have step: "?s (Suc i) = ?s i + ws ! i" using assms(6) by (simp add: take_Suc_conv_app_nth)
  have "{r. r < nat (sum_list ws) \<and> pickRemote r addrs (cumulate 0 ws) = Ret (addrs ! i)} = {nat (?s i)..<nat (?s (Suc i))}"
    using iff nn top by (auto simp: zless_nat_eq_int_zless nat_le_iff)
  then show ?thesis using step nn by simp
qed

theorem proxy_weights_respected_witness:
  "card {r. r < 10 \<and> pickRemote r [''a'', ''b'', ''c''] [3, 3, 10] = Ret ''c''} = 7"
  using proxy_weights_respected [of "[3, 0, 7]" "[''a'', ''b'', ''c'']" 2] by simp

end
