(* ===== verification/Rpc.thy ===== *)
theory Rpc
  imports Server
begin

text \<open>
  Remote procedure calls: \<^verbatim>\<open>src/stnet/rpc.go\<close>.

  A caller packs the arguments, files the request under a fresh sequence number and sends it; the
  callee finds the method by name, unpacks the arguments, calls it and sends the packed results
  back; the caller finds the request again and calls its callback.  Functions of the user are known by
  their parameter types, methods also by what they return; calls of them, and messages handed
  to a session, are recorded as events.  What \<open>Session.Send\<close> returns (see \<open>Session\<close>) and the
  time are arguments.  The channel of a synchronous call is the list of responses in it
  (one slot).
\<close>

subsection \<open>Data\<close>

text \<open>What a caller may pass: a value, a function with its parameter types (and whether it
  returns something), or nil.\<close>

datatype rpcArg = AVal goval | AFunc "gotype list" bool | ANil

record rpcRequest =
  r_req :: reqProto
  callback :: "gotype list option"
  exception :: bool
  r_timeout :: int
  r_sess :: u64
  signal :: "rspProto list option"

record rpcMethod =
  m_in :: "gotype list"
  m_call :: "goval list \<Rightarrow> goval list go"

record rpcService =
  methods :: "bytes \<rightharpoonup> rpcMethod"
  rpcRequests :: "(u32 \<times> rpcRequest) list"
  rpcReqSequence :: u32

datatype rpcEvent =
    RSend u64 bytes "addr option"
  | RCall bytes "goval list"
  | RCallback u32 "goval list"
  | RException u32 u32
  | RLoop

abbreviation (input) RpcErrNoRemoteFunc :: u32 where "RpcErrNoRemoteFunc \<equiv> - 1"
abbreviation (input) RpcErrCallTimeout :: u32 where "RpcErrCallTimeout \<equiv> - 2"
abbreviation (input) RpcErrFuncParamErr :: u32 where "RpcErrFuncParamErr \<equiv> - 3"

definition TimeOut :: int where "TimeOut = 5"

definition NewServiceRpc :: "(bytes \<times> rpcMethod) list \<Rightarrow> rpcService" where
  "NewServiceRpc ms = \<lparr>methods = map_of (rev ms), rpcRequests = [], rpcReqSequence = 0\<rparr>"

text \<open>The two messages as Go values.\<close>

definition req_val :: "reqProto \<Rightarrow> goval" where
  "req_val r = VStruct [(no_tag, VUint32 (ReqCmdId r)), (no_tag, VUint32 (ReqCmdSeq r)), (no_tag, bytes_val (ReqData r)),
     (no_tag, VBool (IsOneWay r)), (no_tag, VString (ReqFuncName r))]"

definition zero_req :: reqProto where
  "zero_req = \<lparr>ReqCmdId = 0, ReqCmdSeq = 0, ReqData = [], IsOneWay = False, ReqFuncName = []\<rparr>"

text \<open>The fields of a decoded message.\<close>

definition fieldOf :: "goval \<Rightarrow> nat \<Rightarrow> goval" where
  "fieldOf v i = (case v of VPtr t (Some (VStruct fs)) \<Rightarrow> snd (fs ! i) | _ \<Rightarrow> VOther)"

definition asU32 :: "goval \<Rightarrow> u32" where
  "asU32 v = (case v of VUint32 x \<Rightarrow> x | VInt32 x \<Rightarrow> x | _ \<Rightarrow> 0)"

definition asBool :: "goval \<Rightarrow> bool" where
  "asBool v = (case v of VBool b \<Rightarrow> b | _ \<Rightarrow> False)"

definition asString :: "goval \<Rightarrow> bytes" where
  "asString v = (case v of VString s \<Rightarrow> s | _ \<Rightarrow> [])"

definition val_req :: "goval \<Rightarrow> reqProto" where
  "val_req v = \<lparr>ReqCmdId = asU32 (fieldOf v 0), ReqCmdSeq = asU32 (fieldOf v 1), ReqData = val_bytes (fieldOf v 2),
     IsOneWay = asBool (fieldOf v 3), ReqFuncName = asString (fieldOf v 4)\<rparr>"

definition rsp_val :: "rspProto \<Rightarrow> goval" where
  "rsp_val r = VStruct [(no_tag, VUint32 (RspCmdId r)), (no_tag, VUint32 (RspCmdSeq r)), (no_tag, VUint32 (PushSeqId r)),
     (no_tag, VInt32 (RspCode r)), (no_tag, bytes_val (RspData r)), (no_tag, VString (RspFuncName r))]"

definition zero_rsp :: rspProto where
  "zero_rsp = \<lparr>RspCmdId = 0, RspCmdSeq = 0, PushSeqId = 0, RspCode = 0, RspData = [], RspFuncName = []\<rparr>"

definition val_rsp :: "goval \<Rightarrow> rspProto" where
  "val_rsp v = \<lparr>RspCmdId = asU32 (fieldOf v 0), RspCmdSeq = asU32 (fieldOf v 1), PushSeqId = asU32 (fieldOf v 2),
     RspCode = asU32 (fieldOf v 3), RspData = val_bytes (fieldOf v 4), RspFuncName = asString (fieldOf v 5)\<rparr>"

definition ptr_to :: "goval \<Rightarrow> goval" where
  "ptr_to v = VPtr (type_of v) (Some v)"


subsection \<open>Packing arguments and results\<close>

text \<open>A nil interface among the parameters makes \<open>reflect.TypeOf(nil).Kind()\<close> panic; a function is
  a value the codec refuses.\<close>

fun packArgs :: "spb \<Rightarrow> nat \<Rightarrow> rpcArg list \<Rightarrow> (spb \<times> encerr option) go" where
  "packArgs s i [] = Ret (s, None)"
| "packArgs s i (ANil # as) = Panic"
| "packArgs s i (AFunc ts out # as) = rpcMarshal s (of_nat (Suc i)) VOther"
| "packArgs s i (AVal v # as) =
     go_bind (rpcMarshal s (of_nat (Suc i)) v)
       (\<lambda>(s1, e). if e \<noteq> None then Ret (s1, e) else packArgs s1 (Suc i) as)"

text \<open>The loop over the parameter types that \<open>handleRpcReq\<close> and \<open>handleRpcRsp\<close> share.\<close>

fun unpackArgs :: "spb \<Rightarrow> nat \<Rightarrow> gotype list \<Rightarrow> (spb \<times> goval list \<times> encerr option) go" where
  "unpackArgs s i [] = Ret (s, [], None)"
| "unpackArgs s i (t # ts) =
     go_bind (rpcUnmarshal s (of_nat (Suc i)) (newValByType t))
       (\<lambda>(s1, v, e). if e \<noteq> None then Ret (s1, [], e)
          else go_map (\<lambda>(s2, vs, e2). (s2, elem_of t v # vs, e2)) (unpackArgs s1 (Suc i) ts))"


subsection \<open>Calling\<close>

definition sendRpcReq :: "json_lib \<Rightarrow> reqProto \<Rightarrow> (bytes \<times> encerr option) go" where
  "sendRpcReq js req =
     go_map (\<lambda>(buf, e). if e \<noteq> None then ([], e) else (buf[0 := buf ! 0 OR 0x2], None)) (encodeProtocol js (ptr_to (req_val req)) 0)"

definition sendRpcRsp :: "json_lib \<Rightarrow> sessRef \<Rightarrow> addr option \<Rightarrow> rspProto \<Rightarrow> rpcEvent list go" where
  "sendRpcRsp js sess pr rsp =
     go_map (\<lambda>(buf, e). if e \<noteq> None then [] else [RSend (sess_id sess) (buf[0 := buf ! 0 OR 0x3]) pr])
       (encodeProtocol js (ptr_to (rsp_val rsp)) 0)"

datatype callRes = CallErr encerr | CallSendErr sesserr | CallDone | CallWaiting u32

definition isExceptionFunc :: "rpcArg \<Rightarrow> bool" where
  "isExceptionFunc a = (case a of AFunc ts out \<Rightarrow> ts = [TInt32] \<and> \<not> out | _ \<Rightarrow> False)"

text \<open>\<open>rpc_call\<close> up to the point where a synchronous call waits.\<close>

definition rpc_call ::
  "json_lib \<Rightarrow> int \<Rightarrow> (bytes \<Rightarrow> sesserr option) \<Rightarrow> bool \<Rightarrow> u64 \<Rightarrow> addr option \<Rightarrow> bytes \<Rightarrow> rpcArg list \<Rightarrow> rpcService
     \<Rightarrow> (rpcService \<times> rpcEvent list \<times> callRes) go" where
  "rpc_call js now send issync sess pr funcName params svc =
     (if length params < 2 then Ret (svc, [], CallErr (EApp ''no callback function or exception function''))
      else let ex = last params; cb = last (butlast params); args = butlast (butlast params) in
      if ex \<noteq> ANil \<and> \<not> isExceptionFunc ex then Ret (svc, [], CallErr (EApp ''invalid exception function''))
      else if (case cb of AVal v \<Rightarrow> True | _ \<Rightarrow> False) then Ret (svc, [], CallErr (EApp ''invalid callback function''))
      else go_bind (packArgs \<lparr>buf = [], index = 0\<rparr> 0 args)
        (\<lambda>(s, e). if e \<noteq> None then Ret (svc, [], CallErr (the e))
           else let seq = rpcReqSequence svc + 1;
                    req = \<lparr>ReqCmdId = 0, ReqCmdSeq = seq, ReqData = buf s,
                           IsOneWay = (cb = ANil \<and> ex = ANil), ReqFuncName = funcName\<rparr>;
                    rq = \<lparr>r_req = req, callback = (case cb of AFunc ts out \<Rightarrow> Some ts | _ \<Rightarrow> None), exception = (ex \<noteq> ANil),
                          r_timeout = now + TimeOut, r_sess = sess, signal = (if issync then Some [] else None)\<rparr>;
                    svc' = svc\<lparr>rpcReqSequence := seq, rpcRequests := AList.update seq rq (rpcRequests svc)\<rparr>
                in go_map
                     (\<lambda>(buf, e). case e of
                        Some er \<Rightarrow> (svc', [], CallErr er)
                      | None \<Rightarrow>
                          (case send buf of
                             Some er \<Rightarrow> (svc', [], CallSendErr er)
                           | None \<Rightarrow> (svc', [RSend sess buf pr], if issync then CallWaiting seq else CallDone)))
                     (sendRpcReq js req)))"


subsection \<open>Handling a request\<close>

definition handleRpcReq ::
  "json_lib \<Rightarrow> sessRef \<Rightarrow> addr option \<Rightarrow> reqProto \<Rightarrow> rpcService \<Rightarrow> rpcEvent list go" where
  "handleRpcReq js sess pr req svc =
     (let rsp = zero_rsp\<lparr>RspCmdSeq := ReqCmdSeq req, RspFuncName := ReqFuncName req\<rparr> in
      case methods svc (ReqFuncName req) of
        None \<Rightarrow> sendRpcRsp js sess pr (rsp\<lparr>RspCode := RpcErrNoRemoteFunc\<rparr>)
      | Some m \<Rightarrow>
          go_bind (unpackArgs \<lparr>buf = ReqData req, index = 0\<rparr> 0 (m_in m))
            (\<lambda>(s, vs, e). if e \<noteq> None then sendRpcRsp js sess pr (rsp\<lparr>RspCode := RpcErrFuncParamErr\<rparr>)
               else go_bind (m_call m vs)
                 (\<lambda>rets. let called = RCall (ReqFuncName req) vs in
                    if IsOneWay req then Ret [called]
                    else go_bind (packArgs \<lparr>buf = [], index = 0\<rparr> 0 (map AVal rets))
                      (\<lambda>(s2, e2). go_map (\<lambda>evs. called # evs)
                         (sendRpcRsp js sess pr
                            (if e2 \<noteq> None then rsp\<lparr>RspCode := RpcErrFuncParamErr\<rparr> else rsp\<lparr>RspData := buf s2\<rparr>))))))"


subsection \<open>Handling a response\<close>

definition handleRpcRsp :: "rspProto \<Rightarrow> rpcService \<Rightarrow> (rpcService \<times> rpcEvent list) go" where
  "handleRpcRsp rsp svc =
     (case map_of (rpcRequests svc) (RspCmdSeq rsp) of
        None \<Rightarrow> Ret (svc, [])
      | Some v \<Rightarrow>
          let svc' = svc\<lparr>rpcRequests := AList.delete (RspCmdSeq rsp) (rpcRequests svc)\<rparr>;
              exc = (\<lambda>code. if exception v then [RException (RspCmdSeq rsp) code] else [])
          in if RspCode rsp \<noteq> 0 then Ret (svc', exc (RspCode rsp))
             else case callback v of
               None \<Rightarrow> Ret (svc', [])
             | Some ts \<Rightarrow>
                 go_map (\<lambda>(s, vs, e). if e \<noteq> None then (svc', exc RpcErrFuncParamErr) else (svc', [RCallback (RspCmdSeq rsp) vs]))
                   (unpackArgs \<lparr>buf = RspData rsp, index = 0\<rparr> 0 ts))"

text \<open>The two ways a waiting synchronous call goes on: a response is in its channel, or its
  timer has fired.\<close>

definition syncRecv :: "u32 \<Rightarrow> rspProto \<Rightarrow> rpcService \<Rightarrow> (rpcService \<times> rpcEvent list) go" where
  "syncRecv seq rsp svc = handleRpcRsp rsp svc"

definition syncTimeout :: "u32 \<Rightarrow> rpcRequest \<Rightarrow> rpcService \<Rightarrow> rpcService \<times> rpcEvent list" where
  "syncTimeout seq rq svc =
     (svc\<lparr>rpcRequests := AList.delete seq (rpcRequests svc)\<rparr>,
      if exception rq then [RException seq RpcErrCallTimeout] else [])"

definition rpcLoop :: "int \<Rightarrow> rpcService \<Rightarrow> rpcService \<times> rpcEvent list" where
  "rpcLoop now svc =
     (let old = filter (\<lambda>(k, v). r_timeout v < now) (rpcRequests svc);
          timeouts = filter (\<lambda>(k, v). exception v \<and> signal v \<noteq> None) old
      in (svc\<lparr>rpcRequests := filter (\<lambda>(k, v). \<not> r_timeout v < now) (rpcRequests svc)\<rparr>,
          map (\<lambda>(k, v). RException k RpcErrCallTimeout) timeouts @ [RLoop]))"


subsection \<open>Parsing\<close>

text \<open>The message ids: 0 and 1 for plain requests and responses, 2 and 3 for the rpc ones, -1 for a
  response that was handed to a waiting call.  Handing it over blocks, with the mutex held,
  while the slot of the channel is taken.\<close>

definition rpcUnmarshalMsg :: "json_lib \<Rightarrow> bytes \<Rightarrow> rpcService \<Rightarrow> (rpcService \<times> parsed) go" where
  "rpcUnmarshalMsg js data svc =
     (if length data < 4 then Ret (svc, \<lparr>lenParsed = 0, pMsgID = 0, pMsg = MNil, pErr = None\<rparr>)
      else go_bind (msgLen data)
        (\<lambda>ml. if ml < 4 \<or> ml \<ge> of_nat MaxMsgSize
           then Ret (svc, \<lparr>lenParsed = int (length data), pMsgID = 0, pMsg = MNil, pErr = Some (EMsgLen ml)\<rparr>)
           else if length data < unat ml then Ret (svc, \<lparr>lenParsed = 0, pMsgID = 0, pMsg = MNil, pErr = None\<rparr>)
           else let flag = data ! 0; body = subseg 4 (unat ml) data; n = int (unat ml) in
           if flag AND 0x1 = 0 then
             go_map (\<lambda>(x, e). (svc, if e \<noteq> None then \<lparr>lenParsed = n, pMsgID = 0, pMsg = MNil, pErr = e\<rparr>
                 else \<lparr>lenParsed = n, pMsgID = (if flag AND 0x2 = 0 then 0 else 2), pMsg = MReq (val_req x), pErr = None\<rparr>))
               (Unmarshal js body (ptr_to (req_val zero_req)) 0)
           else
             go_bind (Unmarshal js body (ptr_to (rsp_val zero_rsp)) 0)
               (\<lambda>(x, e). if e \<noteq> None then Ret (svc, \<lparr>lenParsed = n, pMsgID = 0, pMsg = MNil, pErr = e\<rparr>)
                  else let rsp = val_rsp x in
                  if flag AND 0x2 = 0 then Ret (svc, \<lparr>lenParsed = n, pMsgID = 1, pMsg = MRsp rsp, pErr = None\<rparr>)
                  else case map_of (rpcRequests svc) (RspCmdSeq rsp) of
                    Some v \<Rightarrow>
                      (case signal v of
                         Some q \<Rightarrow>
                           if length q \<ge> 1 then Diverge
                           else Ret (svc\<lparr>rpcRequests := AList.update (RspCmdSeq rsp) (v\<lparr>signal := Some (q @ [rsp])\<rparr>) (rpcRequests svc)\<rparr>,
                                     \<lparr>lenParsed = n, pMsgID = -1, pMsg = MNil, pErr = None\<rparr>)
                       | None \<Rightarrow> Ret (svc, \<lparr>lenParsed = n, pMsgID = 3, pMsg = MRsp rsp, pErr = None\<rparr>))
                  | None \<Rightarrow> Ret (svc, \<lparr>lenParsed = n, pMsgID = 3, pMsg = MRsp rsp, pErr = None\<rparr>))))"

text \<open>\<open>HandleMessage\<close>; a message of another type than the id says would fail its type assertion.\<close>

definition rpcHandleMessage ::
  "json_lib \<Rightarrow> sessRef \<Rightarrow> addr option \<Rightarrow> u64 \<Rightarrow> imsg \<Rightarrow> rpcService \<Rightarrow> (rpcService \<times> rpcEvent list) go" where
  "rpcHandleMessage js sess pr msgID msg svc =
     (if msgID = 2 then (case msg of MReq req \<Rightarrow> go_map (\<lambda>evs. (svc, evs)) (handleRpcReq js sess pr req svc) | _ \<Rightarrow> Panic)
      else if msgID = 3 then (case msg of MRsp rsp \<Rightarrow> handleRpcRsp rsp svc | _ \<Rightarrow> Panic)
      else Ret (svc, []))"

end
