(* ===== verification/Rpc_Props.thy ===== *)
theory Rpc_Props
  imports Rpc
begin

text \<open>
  What a remote call amounts to when nothing is lost: the method is called with the caller's
  arguments and the callback with the method's results, each exactly once.
\<close>

subsection \<open>Arguments\<close>

fun encArgs :: "nat \<Rightarrow> goval list \<Rightarrow> bytes" where
  "encArgs i [] = []"
| "encArgs i (v # vs) = enc (of_nat (Suc i)) True v @ encArgs (Suc i) vs"

lemma packArgs_enc:
  "list_all codable_elem vs \<Longrightarrow> packArgs s i (map AVal vs) = Ret (s\<lparr>buf := buf s @ encArgs i vs\<rparr>, None)"
proof (induction vs arbitrary: s i)
  case (Cons v vs)
  then have "pack s (of_nat (Suc i)) v True True = Ret (s\<lparr>buf := buf s @ enc (of_nat (Suc i)) True v\<rparr>, None)"
    using pack_enc_all(1) by auto
  with Cons show ?case by (simp add: rpcMarshal_def del: of_nat_Suc)
qed simp

lemma rpcUnmarshal_at:
  assumes "codable_elem x" "at s (enc tag True x) rest" "length (buf s) < 2 ^ 48"
  shows "\<exists>z. rpcUnmarshal s tg (newValByType (type_of x)) = Ret (advance s (length (enc tag True x)), z, None) \<and>
    elem_of (type_of x) z = x"
proof -
  obtain y where y: "deref x = Some y" "codable y" using assms(1) by (auto dest: codable_elem_deref)
  have d: "deref (newValByType (type_of x)) = Some (zero_of (type_of y))"
    using y(1) assms(1) by (cases x) (auto simp: codable_elem.simps split: option.splits)
  have p: "\<exists>t u. newValByType (type_of x) = VPtr t (Some u)" by (cases "type_of x") auto
  have "unpack_all s (newValByType (type_of x)) True =
      Ret (advance s (length (enc tag True x)),
        (case newValByType (type_of x) of VPtr t q \<Rightarrow> VPtr t (Some y) | _ \<Rightarrow> y), None)"
    using unpack_first [OF codable_reads [OF y(2)], of s tag rest "Suc (length (buf s))" "newValByType (type_of x)"] assms(2,3) d
    by (simp add: unpack_all_def enc_required [OF y(1)] remaining_def)
  moreover have "elem_of (type_of x) (case newValByType (type_of x) of VPtr t q \<Rightarrow> VPtr t (Some y) | _ \<Rightarrow> y) = x"
    using y assms(1) by (cases x) (auto simp: elem_of_def codable_elem.simps split: option.splits)
  ultimately show ?thesis using p by (auto simp: rpcUnmarshal_def)
qed

lemma unpackArgs_at:
  assumes "list_all codable_elem vs" "at s (encArgs i vs) rest" "length (buf s) < 2 ^ 48"
  shows "unpackArgs s i (map type_of vs) = Ret (advance s (length (encArgs i vs)), vs, None)"
  using assms
proof (induction vs arbitrary: s i)
  case (Cons v vs)
  let ?e = "enc (of_nat (Suc i)) True v"
  have at: "at s ?e (encArgs (Suc i) vs @ rest)" "at (advance s (length ?e)) (encArgs (Suc i) vs) rest"
    using Cons.prems(2) at_append [of s ?e "encArgs (Suc i) vs" rest] by (simp_all add: at_def)
  from rpcUnmarshal_at [OF _ at(1), of "of_nat (Suc i)"] Cons.prems obtain z where
    z: "rpcUnmarshal s (of_nat (Suc i)) (newValByType (type_of v)) = Ret (advance s (length ?e), z, None)" "elem_of (type_of v) z = v"
    by auto
  have "unpackArgs (advance s (length ?e)) (Suc i) (map type_of vs) =
      Ret (advance (advance s (length ?e)) (length (encArgs (Suc i) vs)), vs, None)"
    using Cons.IH [OF _ at(2)] Cons.prems by simp
  with z show ?case by (simp add: add.assoc del: of_nat_Suc)
qed simp


subsection \<open>Messages\<close>

lemma codable_req: "length (ReqData r) \<le> max_values \<Longrightarrow> codable (req_val r)"
  using codable_bytes [of "ReqData r"]
  by (simp add: req_val_def codable_simps tags_ok_def no_tag_def find_field_def field_tag_def)

lemma codable_rsp: "length (RspData r) \<le> max_values \<Longrightarrow> codable (rsp_val r)"
  using codable_bytes [of "RspData r"]
  by (simp add: rsp_val_def codable_simps tags_ok_def no_tag_def find_field_def field_tag_def)

lemma val_req_ptr [simp]: "val_req (VPtr t (Some (req_val r))) = r"
  by (simp add: val_req_def req_val_def fieldOf_def asU32_def asBool_def asString_def)

lemma val_rsp_ptr [simp]: "val_rsp (VPtr t (Some (rsp_val r))) = r"
  by (simp add: val_rsp_def rsp_val_def fieldOf_def asU32_def asString_def)

lemma zero_vals: "zero_of (type_of (req_val r)) = req_val zero_req" "type_of (req_val r) = type_of (req_val zero_req)"
  "zero_of (type_of (rsp_val q)) = rsp_val zero_rsp" "type_of (rsp_val q) = type_of (rsp_val zero_rsp)"
  by (simp_all add: req_val_def rsp_val_def bytes_val_def zero_req_def zero_rsp_def)

text \<open>A message behind a pointer, framed: what the sender writes and what the receiver reads.\<close>

lemma framed:
  assumes "codable v" "length (enc 0 True v) + 4 < MaxMsgSize"
  shows "encodeProtocol js (ptr_to v) 0 = Ret (frame (enc 0 True v), None)"
    "Unmarshal js (enc 0 True v) (VPtr (type_of v) (Some (zero_of (type_of v)))) 0 = Ret (VPtr (type_of v) (Some v), None)"
    "\<exists>w. msgLen ((frame (enc 0 True v))[0 := x] @ rest) = Ret w \<and> unat w = length (enc 0 True v) + 4 \<and> \<not> w < 4 \<and> \<not> of_nat MaxMsgSize \<le> w"
    "frame (enc 0 True v) ! 0 = 0"
proof -
  let ?b = "enc 0 True v"
  have l: "length ?b + 4 < 2 ^ 24" using assms(2) by (simp add: MaxMsgSize_def)
  have "pack \<lparr>buf = [], index = 0\<rparr> 0 (ptr_to v) True True = Ret (\<lparr>buf = enc 0 True (ptr_to v), index = 0\<rparr>, None)"
    using pack_enc_all(1) [of "ptr_to v" True "\<lparr>buf = [], index = 0\<rparr>" 0 True] assms(1)
    by (simp add: ptr_to_def codable_elem.simps)
  moreover have "enc 0 True (ptr_to v) = ?b" using codable_not_ptr [OF assms(1)] by (simp add: ptr_to_def enc.simps)
  ultimately have "Marshal js (ptr_to v) 0 = Ret (?b, None)" by (simp add: Marshal_def SpbEncode_def)
  then show "encodeProtocol js (ptr_to v) 0 = Ret (frame ?b, None)" using l by (rule encodeProtocol_frame)
  show "Unmarshal js ?b (VPtr (type_of v) (Some (zero_of (type_of v)))) 0 = Ret (VPtr (type_of v) (Some v), None)"
    using decode_enc [OF assms(1), of "[]"] assms(2) by (simp add: Unmarshal_def MaxMsgSize_def)
  from msgLen_frame(1) [OF l, of x rest] obtain w where w: "msgLen ((frame ?b)[0 := x] @ rest) = Ret w" "unat w = length ?b + 4" by auto
  then show "\<exists>w. msgLen ((frame ?b)[0 := x] @ rest) = Ret w \<and> unat w = length ?b + 4 \<and> \<not> w < 4 \<and> \<not> of_nat MaxMsgSize \<le> w"
    using assms(2) by (intro exI [of _ w]) (simp add: word_less_nat_alt word_le_nat_alt MaxMsgSize_def)
  show "frame ?b ! 0 = 0" by (rule msgLen_frame(2) [OF l])
qed

lemma subseg_frame: "subseg 4 (length d + 4) ((frame d)[0 := x] @ rest) = d"
  by (simp add: subseg_def frame_def Let_def)

definition req_fits :: "reqProto \<Rightarrow> bool" where
  "req_fits r \<longleftrightarrow> length (ReqData r) \<le> max_values \<and> length (enc 0 True (req_val r)) + 4 < MaxMsgSize"

definition rsp_fits :: "rspProto \<Rightarrow> bool" where
  "rsp_fits r \<longleftrightarrow> length (RspData r) \<le> max_values \<and> length (enc 0 True (rsp_val r)) + 4 < MaxMsgSize"

definition reqBytes :: "reqProto \<Rightarrow> bytes" where
  "reqBytes r = (frame (enc 0 True (req_val r)))[0 := 2]"

definition rspBytes :: "rspProto \<Rightarrow> bytes" where
  "rspBytes r = (frame (enc 0 True (rsp_val r)))[0 := 3]"

lemma request_wire:
  assumes "req_fits r"
  shows "sendRpcReq js r = Ret (reqBytes r, None)"
    "rpcUnmarshalMsg js (reqBytes r @ rest) svc =
      Ret (svc, \<lparr>lenParsed = int (length (reqBytes r)), pMsgID = 2, pMsg = MReq r, pErr = None\<rparr>)"
proof -
  have c: "codable (req_val r)" "length (enc 0 True (req_val r)) + 4 < MaxMsgSize"
    using assms codable_req by (auto simp: req_fits_def)
  note f = framed [OF c]
  show "sendRpcReq js r = Ret (reqBytes r, None)" by (simp add: sendRpcReq_def f(1,4) reqBytes_def)
  from f(3) [of 2 rest] obtain w where w: "msgLen (reqBytes r @ rest) = Ret w" "unat w = length (enc 0 True (req_val r)) + 4"
    "\<not> w < 4" "\<not> of_nat MaxMsgSize \<le> w" unfolding reqBytes_def by blast
  have b: "(reqBytes r @ rest) ! 0 = 2" "length (reqBytes r) = unat w" "subseg 4 (unat w) (reqBytes r @ rest) = enc 0 True (req_val r)"
    using w(2) subseg_frame by (simp_all add: reqBytes_def nth_append)
  have "ptr_to (req_val zero_req) = VPtr (type_of (req_val r)) (Some (zero_of (type_of (req_val r))))"
    by (simp only: ptr_to_def zero_vals(2) [of r] zero_vals(1) [of zero_req])
  then show "rpcUnmarshalMsg js (reqBytes r @ rest) svc =
      Ret (svc, \<lparr>lenParsed = int (length (reqBytes r)), pMsgID = 2, pMsg = MReq r, pErr = None\<rparr>)"
    using w b f(2) by (simp add: rpcUnmarshalMsg_def Let_def)
qed

lemma response_wire:
  assumes "rsp_fits r"
  shows "sendRpcRsp js sess pr r = Ret [RSend (sess_id sess) (rspBytes r) pr]"
    "\<And>v. map_of (rpcRequests svc) (RspCmdSeq r) = Some v \<Longrightarrow> signal v = None \<Longrightarrow>
      rpcUnmarshalMsg js (rspBytes r @ rest) svc =
        Ret (svc, \<lparr>lenParsed = int (length (rspBytes r)), pMsgID = 3, pMsg = MRsp r, pErr = None\<rparr>)"
    "\<And>v. map_of (rpcRequests svc) (RspCmdSeq r) = Some v \<Longrightarrow> signal v = Some [] \<Longrightarrow>
      rpcUnmarshalMsg js (rspBytes r @ rest) svc =
        Ret (svc\<lparr>rpcRequests := AList.update (RspCmdSeq r) (v\<lparr>signal := Some [r]\<rparr>) (rpcRequests svc)\<rparr>,
          \<lparr>lenParsed = int (length (rspBytes r)), pMsgID = -1, pMsg = MNil, pErr = None\<rparr>)"
proof -
  have c: "codable (rsp_val r)" "length (enc 0 True (rsp_val r)) + 4 < MaxMsgSize"
    using assms codable_rsp by (auto simp: rsp_fits_def)
  note f = framed [OF c]
  show "sendRpcRsp js sess pr r = Ret [RSend (sess_id sess) (rspBytes r) pr]"
    by (simp add: sendRpcRsp_def f(1,4) rspBytes_def)
  from f(3) [of 3 rest] obtain w where w: "msgLen (rspBytes r @ rest) = Ret w" "unat w = length (enc 0 True (rsp_val r)) + 4"
    "\<not> w < 4" "\<not> of_nat MaxMsgSize \<le> w" unfolding rspBytes_def by blast
  have b: "(rspBytes r @ rest) ! 0 = 3" "length (rspBytes r) = unat w" "subseg 4 (unat w) (rspBytes r @ rest) = enc 0 True (rsp_val r)"
    using w(2) subseg_frame by (simp_all add: rspBytes_def nth_append)
  have p: "ptr_to (rsp_val zero_rsp) = VPtr (type_of (rsp_val r)) (Some (zero_of (type_of (rsp_val r))))"
    by (simp only: ptr_to_def zero_vals(4) [of r] zero_vals(3) [of zero_rsp])
  show "rpcUnmarshalMsg js (rspBytes r @ rest) svc =
        Ret (svc, \<lparr>lenParsed = int (length (rspBytes r)), pMsgID = 3, pMsg = MRsp r, pErr = None\<rparr>)"
    if "map_of (rpcRequests svc) (RspCmdSeq r) = Some v" "signal v = None" for v
    using w b f(2) p that by (simp add: rpcUnmarshalMsg_def Let_def)
  show "rpcUnmarshalMsg js (rspBytes r @ rest) svc =
        Ret (svc\<lparr>rpcRequests := AList.update (RspCmdSeq r) (v\<lparr>signal := Some [r]\<rparr>) (rpcRequests svc)\<rparr>,
          \<lparr>lenParsed = int (length (rspBytes r)), pMsgID = -1, pMsg = MNil, pErr = None\<rparr>)"
    if "map_of (rpcRequests svc) (RspCmdSeq r) = Some v" "signal v = Some []" for v
    using w b f(2) p that by (simp add: rpcUnmarshalMsg_def Let_def)
qed

subsection \<open>Sizes\<close>

lemma length_hdr: "length (hdr tag ty) \<le> 11"
proof -
  have "unat (ucast tag :: u64) < 2 ^ (7 * 10)" using unsigned_less [of "ucast tag :: u64", where ?'a = nat] by simp
  from length_varint [OF this] show ?thesis by (simp add: hdr_def)
qed

lemma length_enc: "deref v = Some v \<Longrightarrow> length (enc tag r v) \<le> 11 + length (body v)"
  using length_hdr [of tag "wire_type v"] by (simp add: enc.simps)

lemma length_elems: "length (encElems (map VUint8 d)) \<le> 3 * length d"
proof (induction d)
  case (Cons b d)
  have "unat (ucast b :: u64) < 2 ^ (7 * 2)" using unat_byte_less [of b] by (simp add: unsigned_ucast_eq take_bit_nat_eq_self)
  from length_varint [OF this] have "length (enc 0 True (VUint8 b)) \<le> 3"
    by (simp add: enc.simps hdr_def body.simps)
  with Cons show ?case by simp
qed simp

lemma body_lengths:
  "length (body (VUint32 x)) \<le> 10" "length (body (VInt32 x)) \<le> 10" "length (body (VBool b)) \<le> 10"
  "length (body (VString n)) \<le> 10 + length n" "length (body (bytes_val d)) \<le> 10 + 3 * length d"
proof -
  show "length (body (bytes_val d)) \<le> 10 + 3 * length d"
    using length_varint_10 [of "of_nat (length d)"] length_elems [of d] by (simp add: body.simps bytes_val_def)
qed (use length_varint_10 in \<open>auto simp: body.simps signed_val_def intro: add_mono\<close>)

lemma length_struct:
  "length (enc tag True (VStruct fs)) \<le> 22 + length (encFields 0 fs)"
  using length_hdr [of tag StructBegin] length_hdr [of 0 StructEnd] by (simp add: enc.simps body.simps)

lemma length_fields:
  "list_all (\<lambda>e. deref (snd e) = Some (snd e)) fs \<Longrightarrow> length (encFields i fs) \<le> (\<Sum>e\<leftarrow>fs. 11 + length (body (snd e)))"
proof (induction fs arbitrary: i)
  case (Cons e fs)
  obtain g v where e: "e = (g, v)" by (cases e)
  have "length (enc (word_of_int (field_tag i g)) (stag_require g = ''true'') v) \<le> 11 + length (body v)"
    using Cons.prems by (intro length_enc) (simp add: e)
  moreover have "length (encFields (Suc i) fs) \<le> (\<Sum>e\<leftarrow>fs. 11 + length (body (snd e)))" using Cons by simp
  ultimately show ?case by (simp add: e)
qed simp

lemma req_size: "length (enc 0 True (req_val r)) \<le> 200 + 3 * length (ReqData r) + length (ReqFuncName r)"
proof -
  obtain fs where fs: "req_val r = VStruct fs" "fs = [(no_tag, VUint32 (ReqCmdId r)), (no_tag, VUint32 (ReqCmdSeq r)),
      (no_tag, bytes_val (ReqData r)), (no_tag, VBool (IsOneWay r)), (no_tag, VString (ReqFuncName r))]"
    by (simp add: req_val_def)
  have "length (encFields 0 fs) \<le> (\<Sum>e\<leftarrow>fs. 11 + length (body (snd e)))"
    by (rule length_fields) (simp add: fs(2) bytes_val_def)
  also have "\<dots> \<le> 105 + 3 * length (ReqData r) + length (ReqFuncName r)"
    using body_lengths(1) [of "ReqCmdId r"] body_lengths(1) [of "ReqCmdSeq r"]
      body_lengths(3) [of "IsOneWay r"] body_lengths(4) [of "ReqFuncName r"] body_lengths(5) [of "ReqData r"]
    by (simp add: fs(2))
  finally show ?thesis using length_struct [of 0 fs] by (simp add: fs(1))
qed

lemma rsp_size: "length (enc 0 True (rsp_val r)) \<le> 200 + 3 * length (RspData r) + length (RspFuncName r)"
proof -
  obtain fs where fs: "rsp_val r = VStruct fs" "fs = [(no_tag, VUint32 (RspCmdId r)), (no_tag, VUint32 (RspCmdSeq r)),
      (no_tag, VUint32 (PushSeqId r)), (no_tag, VInt32 (RspCode r)), (no_tag, bytes_val (RspData r)), (no_tag, VString (RspFuncName r))]"
    by (simp add: rsp_val_def)
  have "length (encFields 0 fs) \<le> (\<Sum>e\<leftarrow>fs. 11 + length (body (snd e)))"
    by (rule length_fields) (simp add: fs(2) bytes_val_def)
  also have "\<dots> \<le> 126 + 3 * length (RspData r) + length (RspFuncName r)"
    using body_lengths(1) [of "RspCmdId r"] body_lengths(1) [of "RspCmdSeq r"] body_lengths(1) [of "PushSeqId r"]
      body_lengths(2) [of "RspCode r"] body_lengths(4) [of "RspFuncName r"] body_lengths(5) [of "RspData r"]
    by (simp add: fs(2))
  finally show ?thesis using length_struct [of 0 fs] by (simp add: fs(1))
qed

text \<open>Half a megabyte of arguments and function name is below the limit of a message.\<close>

lemma req_fitsI: "length (ReqData r) + length (ReqFuncName r) \<le> 2 ^ 19 \<Longrightarrow> req_fits r"
  using req_size [of r] by (simp add: req_fits_def max_values_def MaxMsgSize_def)

lemma rsp_fitsI: "length (RspData r) + length (RspFuncName r) \<le> 2 ^ 19 \<Longrightarrow> rsp_fits r"
  using rsp_size [of r] by (simp add: rsp_fits_def max_values_def MaxMsgSize_def)

subsection \<open>Calls end to end\<close>

definition callReq :: "rpcService \<Rightarrow> bytes \<Rightarrow> goval list \<Rightarrow> bool \<Rightarrow> reqProto" where
  "callReq svc name vs oneway = \<lparr>ReqCmdId = 0, ReqCmdSeq = rpcReqSequence svc + 1, ReqData = encArgs 0 vs, IsOneWay = oneway, ReqFuncName = name\<rparr>"

definition filed :: "rpcService \<Rightarrow> rpcRequest \<Rightarrow> rpcService" where
  "filed svc rq = svc\<lparr>rpcReqSequence := rpcReqSequence svc + 1,
     rpcRequests := AList.update (rpcReqSequence svc + 1) rq (rpcRequests svc)\<rparr>"

lemma caller_sends:
  assumes "list_all codable_elem vs" "length (encArgs 0 vs) + length name \<le> 2 ^ 19" "ex = ANil \<or> isExceptionFunc ex"
  shows "rpc_call js now (\<lambda>_. None) sync sid pr name (map AVal vs @ [AFunc ts out, ex]) svc =
    Ret (filed svc \<lparr>r_req = callReq svc name vs False, callback = Some ts, exception = (ex \<noteq> ANil), r_timeout = now + TimeOut,
           r_sess = sid, signal = (if sync then Some [] else None)\<rparr>,
         [RSend sid (reqBytes (callReq svc name vs False)) pr], if sync then CallWaiting (rpcReqSequence svc + 1) else CallDone)"
proof -
  have ps: "butlast (butlast (map AVal vs @ [AFunc ts out, ex])) = map AVal vs"
    "last (butlast (map AVal vs @ [AFunc ts out, ex])) = AFunc ts out" by (simp_all add: butlast_append)
  have "req_fits (callReq svc name vs False)" using assms(2) by (intro req_fitsI) (simp add: callReq_def)
  note w = request_wire(1) [OF this]
  show ?thesis
    using assms w ps packArgs_enc [OF assms(1), of "\<lparr>buf = [], index = 0\<rparr>" 0]
    by (auto simp: rpc_call_def Let_def filed_def callReq_def)
qed

definition okRsp :: "reqProto \<Rightarrow> goval list \<Rightarrow> rspProto" where
  "okRsp req rets = zero_rsp\<lparr>RspCmdSeq := ReqCmdSeq req, RspFuncName := ReqFuncName req, RspData := encArgs 0 rets\<rparr>"

lemma callee_replies:
  assumes "methods svc (ReqFuncName req) = Some m" "m_in m = map type_of vs" "list_all codable_elem vs" "ReqData req = encArgs 0 vs"
    "m_call m vs = Ret rets" "list_all codable_elem rets" "\<not> IsOneWay req"
    "length (encArgs 0 vs) < 2 ^ 48" "length (encArgs 0 rets) + length (ReqFuncName req) \<le> 2 ^ 19"
  shows "rpcHandleMessage js sess pr 2 (MReq req) svc =
    Ret (svc, [RCall (ReqFuncName req) vs, RSend (sess_id sess) (rspBytes (okRsp req rets)) pr])"
proof -
  have "at \<lparr>buf = encArgs 0 vs, index = 0\<rparr> (encArgs 0 vs) []" by (simp add: at_def)
  from unpackArgs_at [OF assms(3) this] assms(8)
  have u: "unpackArgs \<lparr>buf = encArgs 0 vs, index = 0\<rparr> 0 (map type_of vs) = Ret (\<lparr>buf = encArgs 0 vs, index = length (encArgs 0 vs)\<rparr>, vs, None)"
    by simp
  have p: "packArgs \<lparr>buf = [], index = 0\<rparr> 0 (map AVal rets) = Ret (\<lparr>buf = encArgs 0 rets, index = 0\<rparr>, None)"
    using packArgs_enc [OF assms(6)] by simp
  have "rsp_fits (okRsp req rets)" using assms(9) by (intro rsp_fitsI) (simp add: okRsp_def zero_rsp_def)
  note w = response_wire(1) [OF this, of js sess pr]
  show ?thesis
    using u p w assms by (simp add: rpcHandleMessage_def handleRpcReq_def Let_def okRsp_def)
qed

lemma caller_receives:
  assumes "map_of (rpcRequests svc) (RspCmdSeq rsp) = Some v" "callback v = Some (map type_of rets)" "list_all codable_elem rets"
    "RspCode rsp = 0" "RspData rsp = encArgs 0 rets" "length (encArgs 0 rets) < 2 ^ 48"
  shows "handleRpcRsp rsp svc =
    Ret (svc\<lparr>rpcRequests := AList.delete (RspCmdSeq rsp) (rpcRequests svc)\<rparr>, [RCallback (RspCmdSeq rsp) rets])"
proof -
  have "at \<lparr>buf = encArgs 0 rets, index = 0\<rparr> (encArgs 0 rets) []" by (simp add: at_def)
  from unpackArgs_at [OF assms(3) this] assms(6) show ?thesis
    using assms by (simp add: handleRpcRsp_def Let_def)
qed

lemma map_of_filed: "map_of (rpcRequests (filed svc rq)) = (map_of (rpcRequests svc))(rpcReqSequence svc + 1 \<mapsto> rq)"
  by (simp add: filed_def update_conv')

text \<open>C4: An asynchronous call works end to end.  The caller's message is parsed by the callee as
  the request that was made; handling it calls the method with the caller's arguments and sends one
  answer; the caller parses it as the response and calls its callback with the method's results, and
  the request is off the table.\<close>

theorem rpc_call_completes:
  assumes "methods B name = Some m" "m_in m = map type_of vs" "list_all codable_elem vs" "m_call m vs = Ret rets"
    "list_all codable_elem rets" "length (encArgs 0 vs) + length name \<le> 2 ^ 19" "length (encArgs 0 rets) + length name \<le> 2 ^ 19"
    "ex = ANil \<or> isExceptionFunc ex"
  shows "\<exists>A1 A2 req rsp b rb.
    rpc_call js now (\<lambda>_. None) False sid pr name (map AVal vs @ [AFunc (map type_of rets) out, ex]) A = Ret (A1, [RSend sid b pr], CallDone) \<and>
    rpcUnmarshalMsg js b B = Ret (B, \<lparr>lenParsed = int (length b), pMsgID = 2, pMsg = MReq req, pErr = None\<rparr>) \<and>
    rpcHandleMessage js s2 p2 2 (MReq req) B = Ret (B, [RCall name vs, RSend (sess_id s2) rb p2]) \<and>
    rpcUnmarshalMsg js rb A1 = Ret (A1, \<lparr>lenParsed = int (length rb), pMsgID = 3, pMsg = MRsp rsp, pErr = None\<rparr>) \<and>
    rpcHandleMessage js s1 p1 3 (MRsp rsp) A1 = Ret (A2, [RCallback (rpcReqSequence A + 1) rets]) \<and>
    map_of (rpcRequests A2) = (map_of (rpcRequests A))(rpcReqSequence A + 1 := None)"
proof -
  let ?req = "callReq A name vs False" and ?ts = "map type_of rets"
  let ?rq = "\<lparr>r_req = ?req, callback = Some ?ts, exception = (ex \<noteq> ANil), r_timeout = now + TimeOut, r_sess = sid, signal = None\<rparr>"
  let ?A1 = "filed A ?rq" and ?rsp = "okRsp ?req rets"
  let ?A2 = "?A1\<lparr>rpcRequests := AList.delete (RspCmdSeq ?rsp) (rpcRequests ?A1)\<rparr>"
  have rf: "req_fits ?req" "rsp_fits ?rsp" using assms(6,7)
    by (auto intro!: req_fitsI rsp_fitsI simp: callReq_def okRsp_def zero_rsp_def)
  have q: "ReqFuncName ?req = name" "ReqData ?req = encArgs 0 vs" "\<not> IsOneWay ?req" "ReqCmdSeq ?req = rpcReqSequence A + 1"
    by (simp_all add: callReq_def)
  have r: "RspCmdSeq ?rsp = rpcReqSequence A + 1" "RspCode ?rsp = 0" "RspData ?rsp = encArgs 0 rets"
    by (simp_all add: okRsp_def zero_rsp_def q)
  have m: "map_of (rpcRequests ?A1) (RspCmdSeq ?rsp) = Some ?rq" by (simp add: r map_of_filed)
  have "rpcHandleMessage js s2 p2 2 (MReq ?req) B = Ret (B, [RCall name vs, RSend (sess_id s2) (rspBytes ?rsp) p2])"
    using callee_replies [of B ?req m vs rets js s2 p2] assms q by simp
  moreover have "rpcHandleMessage js s1 p1 3 (MRsp ?rsp) ?A1 = Ret (?A2, [RCallback (rpcReqSequence A + 1) rets])"
    using caller_receives [OF m] assms(5,7) r by (simp add: rpcHandleMessage_def)
  moreover have "map_of (rpcRequests ?A2) = (map_of (rpcRequests A))(rpcReqSequence A + 1 := None)"
    by (simp add: delete_conv' map_of_filed r)
  ultimately show ?thesis
    using caller_sends [OF assms(3,6,8), of js now False sid pr ?ts out A] request_wire(2) [OF rf(1), of js "[]" B]
      response_wire(2) [OF rf(2) m, of js "[]"] by auto
qed

text \<open>The example of the README: \<open>Add(1, 2)\<close>.\<close>

definition addMethod :: rpcMethod where
  "addMethod = \<lparr>m_in = [TInt, TInt], m_call = (\<lambda>vs. case vs of [VInt a, VInt b] \<Rightarrow> Ret [VInt (a + b)] | _ \<Rightarrow> Panic)\<rparr>"

definition calcService :: rpcService where
  "calcService = NewServiceRpc [([65, 100, 100], addMethod)]"

lemma length_encArgs_ints: "length (encArgs i (map VInt ws)) \<le> 21 * length ws"
proof (induction ws arbitrary: i)
  case (Cons w ws)
  have "length (body (VInt w)) \<le> 10" using length_varint_10 by (auto simp: body.simps signed_val_def)
  moreover have "length (enc (of_nat (Suc i)) True (VInt w)) \<le> 11 + length (body (VInt w))" by (rule length_enc) simp
  ultimately show ?case using Cons [of "Suc i"] by simp
qed simp

lemma add_facts:
  "methods calcService [65, 100, 100] = Some addMethod" "m_in addMethod = map type_of [VInt 1, VInt 2]"
  "list_all codable_elem [VInt 1, VInt 2]" "m_call addMethod [VInt 1, VInt 2] = Ret [VInt 3]" "list_all codable_elem [VInt 3]"
  "length (encArgs 0 [VInt 1, VInt 2]) + length [65, 100, 100 :: byte] \<le> 2 ^ 19" "length (encArgs 0 [VInt 3]) + length [65, 100, 100 :: byte] \<le> 2 ^ 19"
  using length_encArgs_ints [of 0 "[1, 2]"] length_encArgs_ints [of 0 "[3]"]
  by (simp_all add: calcService_def NewServiceRpc_def addMethod_def codable_simps)

theorem rpc_call_completes_witness:
  "\<exists>A1 A2 req rsp b rb.
    rpc_call no_json 100 (\<lambda>_. None) False 1 None [65, 100, 100] [AVal (VInt 1), AVal (VInt 2), AFunc [TInt] False, ANil] (NewServiceRpc []) =
      Ret (A1, [RSend 1 b None], CallDone) \<and>
    rpcUnmarshalMsg no_json b calcService = Ret (calcService, \<lparr>lenParsed = int (length b), pMsgID = 2, pMsg = MReq req, pErr = None\<rparr>) \<and>
    rpcHandleMessage no_json \<lparr>sess_id = 7, sess_peer = None, sess_user = NoUser\<rparr> None 2 (MReq req) calcService =
      Ret (calcService, [RCall [65, 100, 100] [VInt 1, VInt 2], RSend 7 rb None]) \<and>
    rpcUnmarshalMsg no_json rb A1 = Ret (A1, \<lparr>lenParsed = int (length rb), pMsgID = 3, pMsg = MRsp rsp, pErr = None\<rparr>) \<and>
    rpcHandleMessage no_json \<lparr>sess_id = 1, sess_peer = None, sess_user = NoUser\<rparr> None 3 (MRsp rsp) A1 = Ret (A2, [RCallback 1 [VInt 3]])"
  using rpc_call_completes [OF add_facts, of ANil no_json 100 1 None False "NewServiceRpc []"
      "\<lparr>sess_id = 7, sess_peer = None, sess_user = NoUser\<rparr>" None "\<lparr>sess_id = 1, sess_peer = None, sess_user = NoUser\<rparr>" None]
  by (simp add: NewServiceRpc_def) blast

text \<open>C12: A synchronous call works end to end: the response is not queued for a processor thread
  but put into the channel of the waiting call, which takes it, calls the callback and clears the table.\<close>

theorem rpc_sync_completes:
  assumes "methods B name = Some m" "m_in m = map type_of vs" "list_all codable_elem vs" "m_call m vs = Ret rets"
    "list_all codable_elem rets" "length (encArgs 0 vs) + length name \<le> 2 ^ 19" "length (encArgs 0 rets) + length name \<le> 2 ^ 19"
    "ex = ANil \<or> isExceptionFunc ex"
  shows "\<exists>A1 A2 A3 req rsp rq b rb. let seq = rpcReqSequence A + 1 in
    rpc_call js now (\<lambda>_. None) True sid pr name (map AVal vs @ [AFunc (map type_of rets) out, ex]) A = Ret (A1, [RSend sid b pr], CallWaiting seq) \<and>
    rpcUnmarshalMsg js b B = Ret (B, \<lparr>lenParsed = int (length b), pMsgID = 2, pMsg = MReq req, pErr = None\<rparr>) \<and>
    rpcHandleMessage js s2 p2 2 (MReq req) B = Ret (B, [RCall name vs, RSend (sess_id s2) rb p2]) \<and>
    rpcUnmarshalMsg js rb A1 = Ret (A2, \<lparr>lenParsed = int (length rb), pMsgID = -1, pMsg = MNil, pErr = None\<rparr>) \<and>
    map_of (rpcRequests A2) seq = Some rq \<and> signal rq = Some [rsp] \<and>
    syncRecv seq rsp A2 = Ret (A3, [RCallback seq rets]) \<and>
    map_of (rpcRequests A3) = (map_of (rpcRequests A))(seq := None)"
proof -
  let ?req = "callReq A name vs False" and ?ts = "map type_of rets"
  let ?rq = "\<lparr>r_req = ?req, callback = Some ?ts, exception = (ex \<noteq> ANil), r_timeout = now + TimeOut, r_sess = sid, signal = Some []\<rparr>"
  let ?A1 = "filed A ?rq" and ?rsp = "okRsp ?req rets"
  let ?rq2 = "?rq\<lparr>signal := Some [?rsp]\<rparr>"
  let ?A2 = "?A1\<lparr>rpcRequests := AList.update (RspCmdSeq ?rsp) ?rq2 (rpcRequests ?A1)\<rparr>"
  let ?A3 = "?A2\<lparr>rpcRequests := AList.delete (RspCmdSeq ?rsp) (rpcRequests ?A2)\<rparr>"
  have rf: "req_fits ?req" "rsp_fits ?rsp" using assms(6,7)
    by (auto intro!: req_fitsI rsp_fitsI simp: callReq_def okRsp_def zero_rsp_def)
  have q: "ReqFuncName ?req = name" "ReqData ?req = encArgs 0 vs" "\<not> IsOneWay ?req" "ReqCmdSeq ?req = rpcReqSequence A + 1"
    by (simp_all add: callReq_def)
  have r: "RspCmdSeq ?rsp = rpcReqSequence A + 1" "RspCode ?rsp = 0" "RspData ?rsp = encArgs 0 rets"
    by (simp_all add: okRsp_def zero_rsp_def q)
  have m: "map_of (rpcRequests ?A1) (RspCmdSeq ?rsp) = Some ?rq" by (simp add: r map_of_filed)
  have m2: "map_of (rpcRequests ?A2) (RspCmdSeq ?rsp) = Some ?rq2" by (simp add: update_conv')
  have "rpcHandleMessage js s2 p2 2 (MReq ?req) B = Ret (B, [RCall name vs, RSend (sess_id s2) (rspBytes ?rsp) p2])"
    using callee_replies [of B ?req m vs rets js s2 p2] assms q by simp
  moreover have "syncRecv (rpcReqSequence A + 1) ?rsp ?A2 = Ret (?A3, [RCallback (rpcReqSequence A + 1) rets])"
    using caller_receives [OF m2] assms(5,7) r by (simp add: syncRecv_def)
  moreover have "map_of (rpcRequests ?A3) = (map_of (rpcRequests A))(rpcReqSequence A + 1 := None)"
    by (simp add: delete_conv' update_conv' map_of_filed r)
  moreover have "rpcUnmarshalMsg js (rspBytes ?rsp) ?A1 =
      Ret (?A2, \<lparr>lenParsed = int (length (rspBytes ?rsp)), pMsgID = -1, pMsg = MNil, pErr = None\<rparr>)"
    using response_wire(3) [OF rf(2) m, of js "[]"] by simp
  ultimately show ?thesis
    using caller_sends [OF assms(3,6,8), of js now True sid pr ?ts out A] request_wire(2) [OF rf(1), of js "[]" B] m2 r(1)
    unfolding Let_def
    by (intro exI [of _ ?A1] exI [of _ ?A2] exI [of _ ?A3] exI [of _ ?req] exI [of _ ?rsp] exI [of _ ?rq2]
        exI [of _ "reqBytes ?req"] exI [of _ "rspBytes ?rsp"]) simp
qed

theorem rpc_sync_completes_witness:
  "\<exists>A1 A2 A3 rsp b rb.
    rpc_call no_json 100 (\<lambda>_. None) True 1 None [65, 100, 100] [AVal (VInt 1), AVal (VInt 2), AFunc [TInt] False, ANil] (NewServiceRpc []) =
      Ret (A1, [RSend 1 b None], CallWaiting 1) \<and>
    rpcUnmarshalMsg no_json rb A1 = Ret (A2, \<lparr>lenParsed = int (length rb), pMsgID = -1, pMsg = MNil, pErr = None\<rparr>) \<and>
    syncRecv 1 rsp A2 = Ret (A3, [RCallback 1 [VInt 3]])"
  using rpc_sync_completes [OF add_facts, of ANil "NewServiceRpc []" no_json 100 1 None False
      "\<lparr>sess_id = 7, sess_peer = None, sess_user = NoUser\<rparr>" None]
  by (simp add: NewServiceRpc_def Let_def) blast

text \<open>A response is consumed at most once: after it has been handled, handling the same
  response again finds no request, calls nothing and changes nothing.\<close>

theorem rpc_response_once:
  assumes "handleRpcRsp rsp svc = Ret (svc', evs)"
  shows "map_of (rpcRequests svc') (RspCmdSeq rsp) = None \<and> length evs \<le> 1 \<and> handleRpcRsp rsp svc' = Ret (svc', [])"
proof -
  have "map_of (rpcRequests svc') (RspCmdSeq rsp) = None \<and> length evs \<le> 1"
    using assms by (auto simp: handleRpcRsp_def Let_def delete_conv' split: option.splits if_splits)
  then show ?thesis by (simp add: handleRpcRsp_def)
qed

definition pendingService :: rpcService where
  "pendingService = \<lparr>methods = (\<lambda>_. None),
     rpcRequests = [(9, \<lparr>r_req = zero_req, callback = Some [], exception = True, r_timeout = 20, r_sess = 1, signal = None\<rparr>)],
     rpcReqSequence = 9\<rparr>"

theorem rpc_response_once_witness:
  "\<exists>svc'. handleRpcRsp (zero_rsp\<lparr>RspCmdSeq := 9\<rparr>) pendingService = Ret (svc', [RCallback 9 []]) \<and>
    handleRpcRsp (zero_rsp\<lparr>RspCmdSeq := 9\<rparr>) svc' = Ret (svc', [])"
proof -
  have "handleRpcRsp (zero_rsp\<lparr>RspCmdSeq := 9\<rparr>) pendingService = Ret (pendingService\<lparr>rpcRequests := []\<rparr>, [RCallback 9 []])"
    by (simp add: handleRpcRsp_def pendingService_def zero_rsp_def)
  with rpc_response_once [OF this] show ?thesis by blast
qed

text \<open>An asynchronous request that is never answered is forgotten silently: once its
  deadline has passed \<open>Loop\<close> takes it off the table without calling its exception function
  (which it calls for synchronous requests only).\<close>

theorem rpc_async_timeout_silent:
  assumes "distinct (map fst (rpcRequests svc))" "map_of (rpcRequests svc) k = Some v" "exception v" "signal v = None" "r_timeout v < now"
  shows "map_of (rpcRequests (fst (rpcLoop now svc))) k = None \<and> (\<forall>code. RException k code \<notin> set (snd (rpcLoop now svc)))"
proof -
  have uniq: "v' = v" if "(k, v') \<in> set (rpcRequests svc)" for v'
    using that assms(1,2) by (simp add: map_of_is_SomeI)
  then show ?thesis using assms(4,5)
    by (auto simp: rpcLoop_def Let_def map_of_eq_None_iff)
qed

theorem rpc_async_timeout_silent_witness:
  "map_of (rpcRequests (fst (rpcLoop 21 pendingService))) 9 = None \<and> (\<forall>code. RException 9 code \<notin> set (snd (rpcLoop 21 pendingService)))"
  using rpc_async_timeout_silent [of pendingService 9
      "\<lparr>r_req = zero_req, callback = Some [], exception = True, r_timeout = 20, r_sess = 1, signal = None\<rparr>" 21]
  by (simp add: pendingService_def)

end
