(* ===== verification/Connector.thy ===== *)
theory Connector
  imports Session
begin

text \<open>
  The reconnecting client of \<open>src/stnet/connector.go\<close>.  The goroutine \<open>connect\<close>
  dials, hands the socket to the session and waits until the session reports its end; between
  attempts it waits for \<open>reconnCount\<close> squared times 100 ms, for a request to reconnect at
  once, or for the connector to be closed.

  The state holds the session (see the theory of sessions), the connector's fields with its
  three channels (the closed flag of \<open>closer\<close> and the fill of the two one-place signal
  channels), the program counter of \<open>connect\<close>, and how far the reading goroutine of the
  current session is: not past marking the session closed (\<open>Reading\<close>; its deferred function has
  begun when \<open>closer\<close> is closed), or about to send on \<open>sessCloseSignal\<close> from its close
  callback.  Each operation and each stretch of a goroutine between two blocking points is
  a function.  Two relations say when the stretches run: \<open>ownstep\<close> holds the steps that need
  nothing from the other end of the connection, \<open>netstep\<close> the read errors that the network may
  or may not cause; \<open>gostep\<close> is either of them and \<open>ustep\<close> the calls of users.
\<close>

datatype connPc = PTop | PWait | PDial | PConn | PUp | PExit

datatype reader = NoReader | Reading | Reporting

record connector =
  c_sess :: session
  c_network :: string
  c_address :: string
  reconnectMSec :: int
  reconnCount :: int
  c_closed :: bool
  sessCloseSignal :: nat
  reconnSignal :: nat
  c_pc :: connPc
  c_reader :: reader

definition NewConnector :: "sessGlobals \<Rightarrow> bool \<Rightarrow> string \<Rightarrow> udata \<Rightarrow> (sessGlobals \<times> connector) go" where
  "NewConnector g hasParse address userdata =
     (let (network, ipport) = parseAddress address in
      case newConnSession g hasParse (network = ''udp'') of
        (g', Inl _) \<Rightarrow> Panic
      | (g', Inr sess) \<Rightarrow> Ret (g', \<lparr>c_sess = sess\<lparr>UserData := userdata\<rparr>, c_network = network,
          c_address = ipport, reconnectMSec = 100, reconnCount = 0, c_closed = False,
          sessCloseSignal = 0, reconnSignal = 0, c_pc = PTop, c_reader = NoReader\<rparr>))"

subsection \<open>The goroutine \<open>connect\<close>\<close>

definition connTop :: "connector \<Rightarrow> connector" where
  "connTop c = (if c_closed c then c\<lparr>c_pc := PExit\<rparr>
     else if reconnCount c > 0 then c\<lparr>c_pc := PWait\<rparr> else c\<lparr>c_pc := PDial\<rparr>)"

text \<open>The timer of a waiting connector, in milliseconds.\<close>

definition reconnDelay :: "connector \<Rightarrow> int" where
  "reconnDelay c = reconnCount c * reconnCount c * reconnectMSec c"

datatype waitCase = WaitCloser | WaitNotify | WaitTimer

definition waitReady :: "waitCase \<Rightarrow> connector \<Rightarrow> bool" where
  "waitReady w c = (case w of WaitCloser \<Rightarrow> c_closed c | WaitNotify \<Rightarrow> reconnSignal c > 0 | WaitTimer \<Rightarrow> True)"

definition connWait :: "waitCase \<Rightarrow> connector \<Rightarrow> connector" where
  "connWait w c =
     (case w of
        WaitCloser \<Rightarrow> c\<lparr>c_pc := PExit\<rparr>
      | WaitNotify \<Rightarrow> c\<lparr>reconnSignal := reconnSignal c - 1, c_pc := PDial\<rparr>
      | WaitTimer \<Rightarrow> c\<lparr>c_pc := PDial\<rparr>)"

definition connDial :: "bool \<Rightarrow> connector \<Rightarrow> connector" where
  "connDial dialOk c0 =
     (let n = reconnCount c0 + 1;
          c = c0\<lparr>reconnCount := (if n > 30 then 10 else n)\<rparr> in
      if dialOk then c\<lparr>c_pc := PConn\<rparr>
      else if reconnectMSec c \<le> 0 \<or> c_closed c then c\<lparr>c_pc := PExit\<rparr>
      else c\<lparr>c_pc := PTop\<rparr>)"

text \<open>The part under \<open>closeLock\<close>: the result of \<open>restart\<close> is ignored; it starts the
  reading goroutine when the session was closed.\<close>

definition connUp :: "sessGlobals \<Rightarrow> connector \<Rightarrow> connector" where
  "connUp g c =
     (if c_closed c then c\<lparr>c_pc := PExit\<rparr>
      else let (s, err) = restart g (c_sess c) in
        c\<lparr>c_sess := s, c_reader := (if err = None then Reading else c_reader c),
          reconnCount := 0, c_pc := PUp\<rparr>)"

definition connLost :: "connector \<Rightarrow> connector" where
  "connLost c = c\<lparr>sessCloseSignal := sessCloseSignal c - 1,
     c_pc := (if reconnectMSec c \<le> 0 \<or> c_closed c then PExit else PTop)\<rparr>"

subsection \<open>The session's side\<close>

text \<open>The reading goroutine leaves its loop when \<open>Read\<close> fails; it closes the socket and the
  channel \<open>closer\<close>, waits for the two other goroutines of the session, marks the session
  closed and then calls \<open>onclose\<close>, which sends on a channel with one place.\<close>

definition readerStop :: "connector \<Rightarrow> connector" where
  "readerStop c = c\<lparr>c_sess := recvStop (c_sess c)\<rparr>"

definition readerExit :: "connector \<Rightarrow> connector" where
  "readerExit c = c\<lparr>c_sess := recvExit (c_sess c), c_reader := Reporting\<rparr>"

definition readerReport :: "connector \<Rightarrow> connector" where
  "readerReport c = c\<lparr>sessCloseSignal := sessCloseSignal c + 1, c_reader := NoReader\<rparr>"

subsection \<open>Operations\<close>

definition NotifyReconn :: "connector \<Rightarrow> connector" where
  "NotifyReconn c = (if reconnSignal c < 1 then c\<lparr>reconnSignal := reconnSignal c + 1\<rparr> else c)"

definition ChangeAddr :: "string \<Rightarrow> connector \<Rightarrow> connector" where
  "ChangeAddr addr c = NotifyReconn (c\<lparr>c_address := addr, c_sess := sessClose (c_sess c)\<rparr>)"

definition connClose :: "connector \<Rightarrow> connector" where
  "connClose c = (if c_closed c then c else c\<lparr>c_closed := True, c_sess := sessClose (c_sess c)\<rparr>)"

definition IsConnected :: "connector \<Rightarrow> bool" where
  "IsConnected c = (if c_closed c then False else \<not> isclose (c_sess c))"

definition connSend :: "bool \<Rightarrow> bytes \<Rightarrow> connector \<Rightarrow> connector \<times> sesserr option" where
  "connSend pick data c =
     (let c1 = NotifyReconn c; (s, err) = Send pick (c_sess c1) data None in (c1\<lparr>c_sess := s\<rparr>, err))"

subsection \<open>Interleaving\<close>

text \<open>The steps that the goroutines make by themselves.  \<open>Read\<close> fails by itself only on a closed
  socket; dialling returns, with one result or the other, and timers fire; the wait of the reading
  goroutine for the two others ends because these return when \<open>closer\<close> is closed.\<close>

inductive ownstep :: "connector \<Rightarrow> connector \<Rightarrow> bool" where
  "c_pc c = PTop \<Longrightarrow> ownstep c (connTop c)"
| "c_pc c = PWait \<Longrightarrow> waitReady w c \<Longrightarrow> ownstep c (connWait w c)"
| "c_pc c = PDial \<Longrightarrow> ownstep c (connDial dialOk c)"
| "c_pc c = PConn \<Longrightarrow> ownstep c (connUp g c)"
| "c_pc c = PUp \<Longrightarrow> sessCloseSignal c > 0 \<Longrightarrow> ownstep c (connLost c)"
| "c_reader c = Reading \<Longrightarrow> closer (c_sess c) \<noteq> ClosedChan \<Longrightarrow> \<not> sockOpen (c_sess c) \<Longrightarrow> ownstep c (readerStop c)"
| "c_reader c = Reading \<Longrightarrow> closer (c_sess c) = ClosedChan \<Longrightarrow> ownstep c (readerExit c)"
| "c_reader c = Reporting \<Longrightarrow> sessCloseSignal c < 1 \<Longrightarrow> ownstep c (readerReport c)"

text \<open>The other end hangs up, or the connection breaks: \<open>Read\<close> fails on an open socket.\<close>

inductive netstep :: "connector \<Rightarrow> connector \<Rightarrow> bool" where
  "c_reader c = Reading \<Longrightarrow> closer (c_sess c) \<noteq> ClosedChan \<Longrightarrow> netstep c (readerStop c)"

inductive gostep :: "connector \<Rightarrow> connector \<Rightarrow> bool" where
  own: "ownstep c c' \<Longrightarrow> gostep c c'"
| net: "netstep c c' \<Longrightarrow> gostep c c'"

text \<open>The calls of users.\<close>

inductive ustep :: "connector \<Rightarrow> connector \<Rightarrow> bool" where
  "ustep c (NotifyReconn c)"
| "ustep c (ChangeAddr addr c)"
| "ustep c (connClose c)"
| "ustep c (fst (connSend pick data c))"

inductive reachable :: "connector \<Rightarrow> bool" where
  init: "NewConnector g True address userdata = Ret (g', c) \<Longrightarrow> reachable c"
| go: "reachable c \<Longrightarrow> gostep c c' \<Longrightarrow> reachable c'"
| user: "reachable c \<Longrightarrow> ustep c c' \<Longrightarrow> reachable c'"


inductive_cases ownstepE: "ownstep c c'"
inductive_cases netstepE: "netstep c c'"
inductive_cases gostepE: "gostep c c'"
inductive_cases ustepE: "ustep c c'"

text \<open>The invariant: the counter stays small; the session is open only between \<open>restart\<close>
  and the end of its reader; and while \<open>connect\<close> waits for the session exactly one of
  the reader, its pending report and the delivered signal exists, at all other times none.\<close>

definition conn_inv :: "connector \<Rightarrow> bool" where
  "conn_inv c \<longleftrightarrow>
     0 \<le> reconnCount c \<and> reconnCount c \<le> 30 \<and> reconnectMSec c = 100 \<and> reconnSignal c \<le> 1 \<and>
     (isclose (c_sess c) \<longleftrightarrow> c_reader c \<noteq> Reading) \<and>
     (c_pc c = PUp \<longleftrightarrow> c_reader c \<noteq> NoReader \<or> sessCloseSignal c > 0) \<and>
     (c_reader c \<noteq> NoReader \<longrightarrow> sessCloseSignal c = 0) \<and> sessCloseSignal c \<le> 1 \<and>
     (c_closed c \<longrightarrow> c_reader c = Reading \<longrightarrow> \<not> sockOpen (c_sess c)) \<and>
     (c_pc c = PExit \<longrightarrow> c_closed c)"

lemmas conn_step_defs = connTop_def connWait_def connDial_def connUp_def connLost_def
  readerStop_def readerExit_def readerReport_def restart_def recvStop_def recvExit_def

lemmas conn_user_defs = NotifyReconn_def ChangeAddr_def connClose_def connSend_def sessClose_def Send_def

lemma conn_inv_init: "NewConnector g True address userdata = Ret (g', c) \<Longrightarrow> conn_inv c"
  by (auto simp: NewConnector_def conn_inv_def newConnSession_def Let_def split: prod.splits if_splits)

lemma conn_inv_own: "conn_inv c \<Longrightarrow> ownstep c c' \<Longrightarrow> conn_inv c'"
  by (erule ownstepE)
    (auto simp: conn_inv_def conn_step_defs Let_def waitReady_def split: if_splits waitCase.splits prod.splits)

lemma conn_inv_net: "conn_inv c \<Longrightarrow> netstep c c' \<Longrightarrow> conn_inv c'"
  by (erule netstepE) (auto simp: conn_inv_def conn_step_defs)

lemma conn_inv_go: "conn_inv c \<Longrightarrow> gostep c c' \<Longrightarrow> conn_inv c'"
  by (erule gostepE) (auto intro: conn_inv_own conn_inv_net)

lemma conn_inv_user: "conn_inv c \<Longrightarrow> ustep c c' \<Longrightarrow> conn_inv c'"
  by (erule ustepE) (auto simp: conn_inv_def conn_user_defs Let_def split: if_splits prod.splits)

lemma reachable_inv: "reachable c \<Longrightarrow> conn_inv c"
  by (induction rule: reachable.induct) (auto intro: conn_inv_init conn_inv_go conn_inv_user)











subsection \<open>The properties\<close>

text \<open>C15: in every reachable state of a connector the attempt counter is between 0 and 30, so
  that the delay before an attempt is at most 900 times 100 ms; whenever a dialled socket is
  handed to the session, \<open>restart\<close> accepts it; and the connector reports itself connected
  only while its goroutine waits for a session that its reading goroutine has not yet marked
  closed.\<close>

theorem connector_reachable:
  assumes "reachable c"
  shows "0 \<le> reconnCount c \<and> reconnCount c \<le> 30 \<and> 0 \<le> reconnDelay c \<and> reconnDelay c \<le> 90000
    \<and> (c_pc c = PConn \<longrightarrow> snd (restart g (c_sess c)) = None)
    \<and> (IsConnected c \<longrightarrow> c_pc c = PUp \<and> c_reader c = Reading)"
proof -
  have inv: "conn_inv c" by (rule reachable_inv [OF assms])
  then have n: "0 \<le> reconnCount c" "reconnCount c \<le> 30" "reconnectMSec c = 100" by (auto simp: conn_inv_def)
  then have "reconnCount c * reconnCount c \<le> 30 * 30" by (intro mult_mono) auto
  moreover from n have "0 \<le> reconnCount c * reconnCount c" by simp
  ultimately show ?thesis
    using inv n by (auto simp: conn_inv_def reconnDelay_def restart_def IsConnected_def)
qed

definition demo_globals :: sessGlobals where
  "demo_globals = \<lparr>WriterListLen = 256, RecvListLen = 256, GlobalSessionID = 0\<rparr>"

definition demo_connector :: connector where
  "demo_connector = (case NewConnector demo_globals True ''tcp:h:1'' NoUser of Ret (g, c) \<Rightarrow> c)"

lemma demo_connector_new:
  "\<exists>g. NewConnector demo_globals True ''tcp:h:1'' NoUser = Ret (g, demo_connector)"
  by (simp add: demo_connector_def NewConnector_def newConnSession_def Let_def split: prod.split)

lemma NewConnector_fields:
  assumes "NewConnector g True address userdata = Ret (g', c)"
  shows "c_pc c = PTop" "reconnCount c = 0" "\<not> c_closed c" "isclose (c_sess c)"
  using assms by (auto simp: NewConnector_def newConnSession_def Let_def split: prod.splits)

lemma demo_reachable: "reachable demo_connector" "reachable (connTop demo_connector)"
proof -
  obtain g where n: "NewConnector demo_globals True ''tcp:h:1'' NoUser = Ret (g, demo_connector)"
    using demo_connector_new by blast
  then show r: "reachable demo_connector" by (rule reachable.init)
  have "c_pc demo_connector = PTop" by (rule NewConnector_fields(1) [OF n])
  then show "reachable (connTop demo_connector)" by (intro reachable.go [OF r] gostep.own ownstep.intros)
qed

theorem connector_reachable_witness: "reconnDelay (connTop demo_connector) \<le> 90000"
  using connector_reachable [OF demo_reachable(2)] by blast





end
