(* ===== verification/Listener.thy ===== *)
theory Listener
  imports Connector
begin


datatype closePc = CIdle | CFlagged | CShut | CWait | CDone



subsection \<open>The accepting goroutine\<close>







subsection \<open>Operations\<close>







subsection \<open>Interleaving\<close>












lemma sessClose_simps [simp]:
  "\<not> isclose (sessClose s) \<Longrightarrow> \<not> sockOpen (sessClose s)" "s_id (sessClose s) = s_id s"
  "isclose (sessClose s) = isclose s" "closer (sessClose s) = closer s"
  by (auto simp: sessClose_def)












subsection \<open>Closing a TCP listener\<close>



text \<open>A session has three steps to its end.\<close>

definition sessRank :: "session \<Rightarrow> nat" where
  "sessRank s = (if isclose s then 1 else if closer s = ClosedChan then 2 else 3)"





lemma sessRank_sessClose [simp]: "sessRank (sessClose s) = sessRank s"
  by (simp add: sessRank_def)














subsection \<open>UDP listeners\<close>

datatype udpPc = UTop | UWait | URelisten | UExit

record udpListener =
  u_closed :: bool
  u_open :: bool
  u_err :: bool
  udpCh :: nat
  u_reader :: reader
  u_waitExit :: int
  u_pc :: udpPc
  u_close :: closePc

definition NewUdpListener :: "bool \<Rightarrow> bool \<Rightarrow> udpListener option" where
  "NewUdpListener hasParse listenOk =
     (if \<not> hasParse \<or> \<not> listenOk then None
      else Some \<lparr>u_closed = False, u_open = True, u_err = False, udpCh = 0, u_reader = NoReader, u_waitExit = 1,
        u_pc = UTop, u_close = CIdle\<rparr>)"

text \<open>The head of the loop: with a socket a session is started and its end awaited.\<close>

definition udpTop :: "udpListener \<Rightarrow> udpListener" where
  "udpTop u = (if u_closed u then u\<lparr>u_pc := UExit, u_waitExit := u_waitExit u - 1\<rparr>
     else if \<not> u_err u then u\<lparr>u_reader := Reading, u_pc := UWait\<rparr> else u\<lparr>u_pc := URelisten\<rparr>)"

definition udpWake :: "udpListener \<Rightarrow> udpListener" where
  "udpWake u = u\<lparr>udpCh := udpCh u - 1, u_pc := URelisten\<rparr>"

definition udpRelisten :: "bool \<Rightarrow> udpListener \<Rightarrow> udpListener" where
  "udpRelisten ok u = (if u_closed u then u\<lparr>u_pc := UTop\<rparr> else u\<lparr>u_err := \<not> ok, u_open := (u_open u \<or> ok), u_pc := UTop\<rparr>)"

text \<open>The session's reader leaves its loop and closes the socket.\<close>

definition udpSessEnd :: "udpListener \<Rightarrow> udpListener" where
  "udpSessEnd u = u\<lparr>u_open := False, u_reader := Reporting\<rparr>"

definition udpReport :: "udpListener \<Rightarrow> udpListener" where
  "udpReport u = u\<lparr>udpCh := udpCh u + 1, u_reader := NoReader\<rparr>"

definition udpClose1 :: "udpListener \<Rightarrow> udpListener" where
  "udpClose1 u = (if u_closed u then u else u\<lparr>u_closed := True, u_open := False, u_close := CShut\<rparr>)"

text \<open>\<open>ls.udpCh <- 1\<close>, which waits for a free place, and the return of the wait.\<close>

definition udpClose2 :: "udpListener \<Rightarrow> udpListener" where
  "udpClose2 u = u\<lparr>udpCh := udpCh u + 1, u_close := CWait\<rparr>"

definition udpClose3 :: "udpListener \<Rightarrow> udpListener" where
  "udpClose3 u = u\<lparr>u_close := CDone\<rparr>"

text \<open>As above: the steps the program makes by itself, and the failing of a read on an open socket.\<close>

inductive ustep_udp :: "udpListener \<Rightarrow> udpListener \<Rightarrow> bool" where
  "u_pc u = UTop \<Longrightarrow> ustep_udp u (udpTop u)"
| "u_pc u = UWait \<Longrightarrow> udpCh u > 0 \<Longrightarrow> ustep_udp u (udpWake u)"
| "u_pc u = URelisten \<Longrightarrow> ustep_udp u (udpRelisten ok u)"
| "u_reader u = Reading \<Longrightarrow> \<not> u_open u \<Longrightarrow> ustep_udp u (udpSessEnd u)"
| "u_reader u = Reporting \<Longrightarrow> udpCh u < 1 \<Longrightarrow> ustep_udp u (udpReport u)"
| "u_close u = CShut \<Longrightarrow> udpCh u < 1 \<Longrightarrow> ustep_udp u (udpClose2 u)"
| "u_close u = CWait \<Longrightarrow> u_waitExit u = 0 \<Longrightarrow> ustep_udp u (udpClose3 u)"

inductive unet_udp :: "udpListener \<Rightarrow> udpListener \<Rightarrow> bool" where
  "u_reader u = Reading \<Longrightarrow> unet_udp u (udpSessEnd u)"

text \<open>While the listener is open, a waiting loop has exactly one of the session, its pending
  report and the delivered one; the signal of \<open>Close\<close> comes on top.\<close>

definition udp_inv :: "udpListener \<Rightarrow> bool" where
  "udp_inv u \<longleftrightarrow>
     u_waitExit u = (if u_pc u = UExit then 0 else 1) \<and> udpCh u \<le> 1 \<and>
     (u_closed u \<longleftrightarrow> u_close u \<noteq> CIdle) \<and> u_close u \<noteq> CFlagged \<and>
     (\<not> u_closed u \<longrightarrow> u_pc u \<noteq> UExit) \<and>
     (u_close u = CIdle \<or> u_close u = CShut \<longrightarrow>
        (u_pc u = UWait \<longleftrightarrow> u_reader u \<noteq> NoReader \<or> udpCh u = 1) \<and> (u_reader u \<noteq> NoReader \<longrightarrow> udpCh u = 0)) \<and>
     (u_close u = CWait \<longrightarrow> u_pc u = UWait \<longrightarrow> udpCh u = 1) \<and>
     (u_closed u \<longrightarrow> \<not> u_open u) \<and>
     (u_close u = CDone \<longrightarrow> u_pc u = UExit)"

lemma udp_inv_new: "NewUdpListener True True = Some u \<Longrightarrow> udp_inv u"
  by (auto simp: NewUdpListener_def udp_inv_def)

lemma udp_inv_close: "udp_inv u \<Longrightarrow> udp_inv (udpClose1 u)"
  by (auto simp: udpClose1_def udp_inv_def)

lemma udp_inv_step: "ustep_udp u u' \<Longrightarrow> udp_inv u \<Longrightarrow> udp_inv u'"
  by (induction rule: ustep_udp.induct)
    (auto simp: udp_inv_def udpTop_def udpWake_def udpRelisten_def udpSessEnd_def udpReport_def
      udpClose2_def udpClose3_def)

lemma udp_inv_net: "unet_udp u u' \<Longrightarrow> udp_inv u \<Longrightarrow> udp_inv u'"
  by (induction rule: unet_udp.induct) (auto simp: udp_inv_def udpSessEnd_def)

text \<open>A closed UDP listener is not stuck before \<open>Close\<close> returns, so its signal is never lost, and its
  session's reader does not wait for a datagram.\<close>

lemma udp_not_stuck:
  assumes "udp_inv u" and "u_closed u"
  shows "u_close u \<noteq> CDone \<Longrightarrow> \<exists>u'. ustep_udp u u'" and "u_reader u = Reading \<Longrightarrow> ustep_udp u (udpSessEnd u)"
proof -
  assume "u_close u \<noteq> CDone"
  with assms consider "u_pc u = UTop" | "u_pc u = URelisten" | "u_pc u = UWait" "udpCh u > 0"
    | "u_close u = CShut" "udpCh u < 1" | "u_close u = CWait" "u_waitExit u = 0"
    by (cases "u_pc u"; cases "u_reader u"; cases "u_close u") (auto simp: udp_inv_def)
  then show "\<exists>u'. ustep_udp u u'" by cases (blast intro: ustep_udp.intros)+
next
  assume "u_reader u = Reading"
  then show "ustep_udp u (udpSessEnd u)" using assms by (auto simp: udp_inv_def intro: ustep_udp.intros)
qed

subsection \<open>The outgoing connections of a service\<close>

text \<open>\<open>connects\<close> is a map from session numbers to connectors.  \<open>Range\<close> visits its
  values in some order, which is an argument, and stops when the callback says so.  Closing
  a connection removes it at once; its connector is closed by a goroutine of its own.\<close>

definition NewConnect :: "sessGlobals \<Rightarrow> string \<Rightarrow> udata \<Rightarrow> (u64 \<rightharpoonup> connector)
    \<Rightarrow> (sessGlobals \<times> connector \<times> (u64 \<rightharpoonup> connector)) go" where
  "NewConnect g address userdata conns =
     go_map (\<lambda>(g', c). (g', c, conns(s_id (c_sess c) \<mapsto> c))) (NewConnector g True address userdata)"

definition GetConnect :: "u64 \<Rightarrow> (u64 \<rightharpoonup> connector) \<Rightarrow> connector option" where
  "GetConnect cid conns = conns cid"

fun IterateConnect :: "(connector \<Rightarrow> 'a \<Rightarrow> 'a \<times> bool) \<Rightarrow> connector list \<Rightarrow> 'a \<Rightarrow> 'a" where
  "IterateConnect f [] a = a"
| "IterateConnect f (c # cs) a = (case f c a of (a', goOn) \<Rightarrow> if goOn then IterateConnect f cs a' else a')"

definition connectClose :: "connector \<Rightarrow> (u64 \<rightharpoonup> connector) \<Rightarrow> connector \<times> (u64 \<rightharpoonup> connector)" where
  "connectClose c conns = (connClose c, conns(s_id (c_sess c) := None))"

lemma s_id_sessClose: "s_id (c_sess (connClose c)) = s_id (c_sess c)"
  by (simp add: connClose_def)

text \<open>A new connection can be looked up under its number, and no more once it is closed; the
  others are not touched.\<close>

lemma connect_registry:
  assumes "NewConnect g address userdata conns = Ret (g', c, conns')"
  shows "GetConnect (s_id (c_sess c)) conns' = Some c"
    and "GetConnect (s_id (c_sess c)) (snd (connectClose c conns')) = None"
    and "cid \<noteq> s_id (c_sess c) \<Longrightarrow> GetConnect cid (snd (connectClose c conns')) = conns cid"
  using assms by (auto simp: NewConnect_def GetConnect_def connectClose_def)

end
