(* ===== verification/Gotext.thy ===== *)
theory Gotext
  imports Prelude "HOL-Library.Sublist"
begin

text \<open>
  The part of Go's text functions that work on bytes and are shared by the components: decimal
  numbers, searching and splitting.  A Go string of single bytes is a HOL string; the functions
  that package \<open>bytes\<close> has as well work on lists of any type.
\<close>

subsection \<open>Decimal numbers\<close>

text \<open>\<open>strconv.Itoa\<close> for a non-negative number, and \<open>%03d\<close>.\<close>

fun decimal :: "nat \<Rightarrow> string" where
  "decimal n = (if n < 10 then [char_of (48 + n)] else decimal (n div 10) @ [char_of (48 + n mod 10)])"

declare decimal.simps [simp del]

definition decimal3 :: "nat \<Rightarrow> string" where
  "decimal3 n = replicate (3 - length (decimal n)) (CHR ''0'') @ decimal n"

text \<open>\<open>strconv.Itoa\<close> and \<open>%03d\<close> for any integer; the sign counts for the width.\<close>

definition Itoa :: "int \<Rightarrow> string" where
  "Itoa i = (if i < 0 then CHR ''-'' # decimal (nat (- i)) else decimal (nat i))"

definition fmt03d :: "int \<Rightarrow> string" where
  "fmt03d i = (if i < 0 then CHR ''-'' # replicate (2 - length (decimal (nat (- i)))) (CHR ''0'') @ decimal (nat (- i))
     else decimal3 (nat i))"

text \<open>\<open>strconv.ParseUint(s, 10, bits)\<close>: digits only, and the value must fit.\<close>

fun digits10 :: "nat \<Rightarrow> string \<Rightarrow> nat option" where
  "digits10 n [] = Some n"
| "digits10 n (c # cs) =
     (if (48 :: nat) \<le> of_char c \<and> of_char c \<le> (57 :: nat) then digits10 (n * 10 + (of_char c - 48)) cs else None)"

definition parseUint10 :: "nat \<Rightarrow> string \<Rightarrow> nat option" where
  "parseUint10 bits s =
     (if s = [] then None
      else case digits10 0 s of None \<Rightarrow> None | Some n \<Rightarrow> if n < 2 ^ bits then Some n else None)"

text \<open>\<open>strconv.Atoi\<close>: an optional sign and digits, at 64 bits.\<close>

definition Atoi :: "string \<Rightarrow> int option" where
  "Atoi s =
     (if s = [] then None
      else let neg = (hd s = CHR ''-''); body = (if hd s = CHR ''-'' \<or> hd s = CHR ''+'' then tl s else s) in
        case parseUint10 64 body of
          None \<Rightarrow> None
        | Some n \<Rightarrow> if \<not> neg \<and> 2 ^ 63 \<le> n \<or> neg \<and> 2 ^ 63 < n then None
            else Some (if neg then - int n else int n))"

text \<open>A string as the bytes it consists of, and back.\<close>

definition ascii :: "string \<Rightarrow> bytes" where
  "ascii s = map (\<lambda>c. of_nat (of_char c)) s"

definition text_of :: "bytes \<Rightarrow> string" where
  "text_of d = map (\<lambda>b. char_of (unat b)) d"

lemma text_of_ascii [simp]: "text_of (ascii s) = s"
  by (induction s) (simp_all add: text_of_def ascii_def unat_of_nat of_char_mod_256)

subsection \<open>Searching and splitting\<close>

fun hasPrefix :: "'a list \<Rightarrow> 'a list \<Rightarrow> bool" where
  "hasPrefix s [] \<longleftrightarrow> True"
| "hasPrefix [] (p # ps) \<longleftrightarrow> False"
| "hasPrefix (c # s) (p # ps) \<longleftrightarrow> c = p \<and> hasPrefix s ps"

text \<open>\<open>strings.Index\<close> and \<open>bytes.Index\<close>: the first position of the pattern, -1 without one.\<close>

fun indexFrom :: "int \<Rightarrow> 'a list \<Rightarrow> 'a list \<Rightarrow> int" where
  "indexFrom i [] pat = (if pat = [] then i else - 1)"
| "indexFrom i (c # s) pat = (if hasPrefix (c # s) pat then i else indexFrom (i + 1) s pat)"

definition textIndex :: "'a list \<Rightarrow> 'a list \<Rightarrow> int" where
  "textIndex s pat = indexFrom 0 s pat"

text \<open>\<open>strings.LastIndex\<close> for a pattern of one byte.\<close>

definition lastIndex :: "'a list \<Rightarrow> 'a \<Rightarrow> int" where
  "lastIndex s c = int (length s) - 1 - int (length (takeWhile (\<lambda>x. x \<noteq> c) (rev s)))"

lemma lastIndex_append: "c \<notin> set b \<Longrightarrow> lastIndex (a @ c # b) c = int (length a)"
proof -
  assume "c \<notin> set b"
  then have "takeWhile (\<lambda>x. x \<noteq> c) (rev b @ c # rev a) = rev b" by (subst takeWhile_append2) auto
  then show ?thesis by (simp add: lastIndex_def)
qed

text \<open>\<open>strings.Split\<close> with a separator that is not empty.\<close>

function textSplit :: "'a list \<Rightarrow> 'a list \<Rightarrow> 'a list list" where
  "textSplit s sep =
     (let i = textIndex s sep in
      if sep = [] \<or> i < 0 then [s]
      else take (nat i) s # textSplit (drop (nat i + length sep) s) sep)"
  by pat_completeness auto

lemma hasPrefix_iff: "hasPrefix s p \<longleftrightarrow> prefix p s"
  by (induction s p rule: hasPrefix.induct) auto

lemma indexFrom_found:
  "0 \<le> i \<Longrightarrow> 0 \<le> indexFrom i s pat \<Longrightarrow> \<exists>a b. s = a @ pat @ b \<and> indexFrom i s pat = i + int (length a)
     \<and> (\<forall>a' b'. s = a' @ pat @ b' \<longrightarrow> length a \<le> length a')"
proof (induction s arbitrary: i)
  case Nil
  then show ?case by (auto split: if_splits)
next
  case (Cons c s)
  show ?case
  proof (cases "hasPrefix (c # s) pat")
    case True
    then obtain b where "c # s = pat @ b" by (auto simp: hasPrefix_iff prefix_def)
    moreover have "indexFrom i (c # s) pat = i" using True by simp
    ultimately have "c # s = [] @ pat @ b \<and> indexFrom i (c # s) pat = i + int (length ([] :: 'a list))"
      by simp
    then show ?thesis by (metis le0 list.size(3))
  next
    case False
    with Cons.prems Cons.IH [of "i + 1"] obtain a b where ab: "s = a @ pat @ b"
        "indexFrom (i + 1) s pat = i + 1 + int (length a)"
        "\<forall>a' b'. s = a' @ pat @ b' \<longrightarrow> length a \<le> length a'"
      by auto
    have "length (c # a) \<le> length a'" if "c # s = a' @ pat @ b'" for a' b'
    proof (cases a')
      case Nil
      with that False show ?thesis by (auto simp: hasPrefix_iff prefix_def)
    next
      case (Cons d a'')
      with that ab(3) show ?thesis by auto
    qed
    with False ab(1,2) show ?thesis by (intro exI [of _ "c # a"] exI [of _ b]) simp
  qed
qed

lemma textIndex_found:
  assumes "0 \<le> textIndex s pat"
  obtains a b where "s = a @ pat @ b" "textIndex s pat = int (length a)"
  using indexFrom_found [of 0 s pat] assms unfolding textIndex_def by auto

lemma textIndex_first:
  assumes "0 \<le> textIndex s pat" "s = a @ pat @ b"
  shows "textIndex s pat \<le> int (length a)"
  using indexFrom_found [of 0 s pat] assms unfolding textIndex_def by auto

lemma textIndex_bound: "textIndex s pat + int (length pat) \<le> int (length s) \<or> textIndex s pat < 0"
proof (cases "0 \<le> textIndex s pat")
  case True
  then obtain a b where "s = a @ pat @ b" "textIndex s pat = int (length a)"
    by (rule textIndex_found)
  then show ?thesis by simp
qed simp

lemma indexFrom_absent: "0 \<le> i \<Longrightarrow> indexFrom i s pat < 0 \<Longrightarrow> s \<noteq> a @ pat @ b"
proof (induction s arbitrary: i a)
  case (Cons c s)
  then have no: "\<not> hasPrefix (c # s) pat" and "indexFrom (i + 1) s pat < 0" by (auto split: if_splits)
  with Cons.IH [of "i + 1"] Cons.prems(1) have "s \<noteq> a' @ pat @ b" for a' by simp
  with no show ?case by (cases a) (auto simp: hasPrefix_iff prefix_def)
qed (auto split: if_splits)

lemma textIndex_absent: "textIndex s pat < 0 \<Longrightarrow> s \<noteq> a @ pat @ b"
  unfolding textIndex_def by (rule indexFrom_absent) simp_all

text \<open>An occurrence stays the first one when the text grows at its end.\<close>

lemma textIndex_append:
  assumes "0 \<le> textIndex s pat"
  shows "textIndex (s @ t) pat = textIndex s pat"
proof -
  from assms obtain a b where s: "s = a @ pat @ b" "textIndex s pat = int (length a)" by (rule textIndex_found)
  then have "s @ t = a @ pat @ (b @ t)" by simp
  then have nn: "0 \<le> textIndex (s @ t) pat" using textIndex_absent [of "s @ t" pat a "b @ t"] by linarith
  then obtain a' b' where t: "s @ t = a' @ pat @ b'" "textIndex (s @ t) pat = int (length a')" by (rule textIndex_found)
  have le: "length a' \<le> length a" using textIndex_first [OF nn, of a "b @ t"] s(1) t(2) by simp
  have "length (a' @ pat) \<le> length s" using le s(1) by simp
  then have "prefix (a' @ pat) s" using t(1) by (metis append_assoc prefixI prefix_length_prefix)
  then obtain c where "s = a' @ pat @ c" by (auto simp: prefix_def)
  from textIndex_first [OF assms this] s(2) t(2) le show ?thesis by simp
qed

termination textSplit
proof (relation "measure (\<lambda>(s, sep). length s)")
  fix s sep :: "'a list" and i
  assume i: "i = textIndex s sep" and "\<not> (sep = [] \<or> i < 0)"
  then have ne: "sep \<noteq> []" and "0 \<le> textIndex s sep" by auto
  from this(2) obtain a b where "s = a @ sep @ b" "textIndex s sep = int (length a)"
    by (rule textIndex_found)
  with i have "drop (nat i + length sep) s = b" "length s = length a + length sep + length b" by simp_all
  moreover have "0 < length sep" using ne by simp
  ultimately show "((drop (nat i + length sep) s, sep), s, sep) \<in> measure (\<lambda>(s, sep). length s)"
    by simp
qed simp

declare textSplit.simps [simp del]

text \<open>\<open>strings.Join\<close>, the inverse of \<open>Split\<close>.\<close>

fun textJoin :: "'a list \<Rightarrow> 'a list list \<Rightarrow> 'a list" where
  "textJoin sep [] = []"
| "textJoin sep [x] = x"
| "textJoin sep (x # xs) = x @ sep @ textJoin sep xs"

lemma textSplit_ne [simp]: "textSplit s sep \<noteq> []"
  by (subst textSplit.simps) (simp add: Let_def)

lemma textJoin_textSplit: "textJoin sep (textSplit s sep) = s"
proof (induction s sep rule: textSplit.induct)
  case (1 s sep)
  show ?case
  proof (cases "sep = [] \<or> textIndex s sep < 0")
    case True
    then show ?thesis by (subst textSplit.simps) simp
  next
    case False
    then have "0 \<le> textIndex s sep" by simp
    then obtain a b where ab: "s = a @ sep @ b" "textIndex s sep = int (length a)"
      by (rule textIndex_found)
    obtain x xs where x: "textSplit b sep = x # xs" by (cases "textSplit b sep") auto
    have "drop (nat (textIndex s sep) + length sep) s = b" using ab by simp
    with 1 [OF refl False] have "textJoin sep (textSplit b sep) = b" by simp
    moreover have "textSplit s sep = a # textSplit b sep"
      using False ab(2) by (subst textSplit.simps) (simp add: Let_def ab(1))
    ultimately show ?thesis using x ab by simp
  qed
qed

text \<open>Splitting what was joined, when the separator begins with a letter that the parts do not have.\<close>

lemma textIndex_hd:
  assumes "c \<notin> set x"
  shows "textIndex (x @ c # sep @ rest) (c # sep) = int (length x)"
proof -
  let ?s = "x @ c # sep @ rest"
  have "\<not> textIndex ?s (c # sep) < 0" using textIndex_absent [of ?s "c # sep" x rest] by auto
  then have nn: "0 \<le> textIndex ?s (c # sep)" by simp
  then obtain a b where ab: "?s = a @ (c # sep) @ b" "textIndex ?s (c # sep) = int (length a)" by (rule textIndex_found)
  have "length a \<le> length x" using textIndex_first [OF nn, of x rest] ab(2) by simp
  moreover have "\<not> length a < length x"
  proof
    assume l: "length a < length x"
    then have "?s ! length a = x ! length a" by (simp add: nth_append)
    moreover have "?s ! length a = c" using ab(1) by (metis append_Cons nth_append_length)
    ultimately show False using assms l by (metis nth_mem)
  qed
  ultimately show ?thesis using ab(2) by simp
qed

lemma textIndex_without: "c \<notin> set x \<Longrightarrow> textIndex x (c # sep) < 0"
  using textIndex_found [of x "c # sep"] by (metis append_Cons in_set_conv_decomp not_less)

lemma textSplit_textJoin:
  "xs \<noteq> [] \<Longrightarrow> \<forall>x \<in> set xs. c \<notin> set x \<Longrightarrow> textSplit (textJoin (c # sep) xs) (c # sep) = xs"
proof (induction xs rule: induct_list012)
  case (2 x)
  then show ?case by (subst textSplit.simps) (simp add: textIndex_without)
next
  case (3 x y zs)
  then have i: "textIndex (x @ c # sep @ textJoin (c # sep) (y # zs)) (c # sep) = int (length x)"
    using textIndex_hd [of c x sep "textJoin (c # sep) (y # zs)"] by simp
  from 3 show ?case by (subst textSplit.simps) (simp add: Let_def i)
qed simp

text \<open>The same with the pieces written out, as they appear in a generated text.\<close>

lemma textSplit_piece:
  "c \<notin> set x \<Longrightarrow> textSplit (x @ c # rest) [c] = x # textSplit rest [c]"
  using textIndex_hd [of c x "[]" rest] by (subst textSplit.simps) (simp add: Let_def)

lemma textSplit_last: "c \<notin> set x \<Longrightarrow> textSplit x [c] = [x]"
  by (subst textSplit.simps) (simp add: textIndex_without)

lemma textSplit_pre:
  assumes "c \<notin> set x"
  shows "textSplit (x @ y) [c] = (x @ hd (textSplit y [c])) # tl (textSplit y [c])"
proof (cases "c \<in> set y")
  case True
  then obtain a b where y: "y = a @ c # b" "c \<notin> set a" by (meson split_list_first)
  with assms textSplit_piece [of c "x @ a" b] textSplit_piece [of c a b] show ?thesis by simp
next
  case False
  with assms show ?thesis by (simp add: textSplit_last)
qed

lemma set_textJoin: "set (textJoin sep xs) \<subseteq> set sep \<union> \<Union> (set ` set xs)"
  by (induction sep xs rule: textJoin.induct) auto


subsection \<open>Reading back decimal numbers\<close>

definition undecimal :: "string \<Rightarrow> nat" where
  "undecimal = foldl (\<lambda>n c. n * 10 + (of_char c - 48)) 0"

lemma undecimal_snoc: "undecimal (s @ [c]) = undecimal s * 10 + (of_char c - 48)"
  by (simp add: undecimal_def)

lemma undecimal_decimal: "undecimal (decimal n) = n"
proof (induction n rule: decimal.induct)
  case (1 n)
  show ?case
  proof (cases "n < 10")
    case True
    then show ?thesis
      using undecimal_snoc [of "[]" "char_of (48 + n)"]
      by (subst decimal.simps) (simp add: undecimal_def of_char_of)
  next
    case False
    with 1 show ?thesis
      by (subst decimal.simps) (simp add: undecimal_snoc of_char_of)
  qed
qed

lemma undecimal_zeros: "undecimal (replicate k (CHR ''0'') @ s) = undecimal s"
  by (induction k) (simp_all add: undecimal_def)

lemma undecimal_decimal3: "undecimal (decimal3 n) = n"
  by (simp add: decimal3_def undecimal_zeros undecimal_decimal)

lemma decimal_ne [simp]: "decimal n \<noteq> []"
  by (subst decimal.simps) simp

lemma digits10_append: "digits10 n (a @ b) = (case digits10 n a of None \<Rightarrow> None | Some m \<Rightarrow> digits10 m b)"
  by (induction n a rule: digits10.induct) auto

lemma digits10_decimal: "digits10 0 (decimal n) = Some n"
proof (induction n rule: decimal.induct)
  case (1 n)
  show ?case
  proof (cases "n < 10")
    case True
    then show ?thesis by (subst decimal.simps) (simp add: of_char_of)
  next
    case False
    with 1 show ?thesis by (subst decimal.simps) (simp add: of_char_of digits10_append)
  qed
qed

lemma decimal_digit: "c \<in> set (decimal n) \<Longrightarrow> of_char c \<in> {48..57 :: nat}"
proof (induction n rule: decimal.induct)
  case (1 n)
  show ?case
  proof (cases "n < 10")
    case True
    then show ?thesis using "1.prems" by (subst (asm) decimal.simps) (simp add: of_char_of)
  next
    case False
    with 1 show ?thesis by (subst (asm) (2) decimal.simps) (auto simp: of_char_of)
  qed
qed

lemma decimal_no_char: "of_char c \<notin> {48..57 :: nat} \<Longrightarrow> c \<notin> set (decimal n)"
  using decimal_digit by blast

text \<open>\<open>Atoi\<close> reads what \<open>Itoa\<close> writes.\<close>

lemma parseUint10_decimal: "n < 2 ^ bits \<Longrightarrow> parseUint10 bits (decimal n) = Some n"
  by (simp add: parseUint10_def digits10_decimal)

lemma Atoi_Itoa:
  assumes "- (2 ^ 63) \<le> i" "i < 2 ^ 63"
  shows "Atoi (Itoa i) = Some i"
proof (cases "i < 0")
  case True
  then have "nat (- i) \<le> 2 ^ 63" using assms(1) by (simp add: nat_le_iff)
  then have "parseUint10 64 (decimal (nat (- i))) = Some (nat (- i))" by (intro parseUint10_decimal) simp
  with True \<open>nat (- i) \<le> 2 ^ 63\<close> show ?thesis by (simp add: Atoi_def Itoa_def Let_def)
next
  case False
  let ?s = "decimal (nat i)"
  have n: "nat i < 2 ^ 63" using assms(2) by (simp add: nat_less_iff)
  then have "parseUint10 64 ?s = Some (nat i)" by (intro parseUint10_decimal) simp
  moreover have "CHR ''-'' \<notin> set ?s" "CHR ''+'' \<notin> set ?s" by (simp_all add: decimal_no_char)
  then have "hd ?s \<noteq> CHR ''-''" "hd ?s \<noteq> CHR ''+''" by (metis decimal_ne hd_in_set)+
  ultimately show ?thesis using False n by (simp add: Atoi_def Itoa_def Let_def)
qed

end
