(* ===== verification/Http_Mux.thy ===== *)
theory Http_Mux
  imports Gotext
begin

text \<open>
  The routing table of \<^verbatim>\<open>src/stnet/servicehttp.go\<close> (\<open>HttpHandler\<close>): registration of patterns,
  the list of the patterns that end in a slash, kept sorted by binary search, and the choice of a
  handler for a host and a path.  A handler is a value of any type; \<open>None\<close> is Go's nil.
\<close>

subsection \<open>Data and operations\<close>

record 'h muxEntry =
  me_h :: "'h option"
  me_pattern :: string

record 'h httpHandler =
  mux_m :: "string \<rightharpoonup> 'h muxEntry"
  mux_es :: "'h muxEntry list"
  mux_hosts :: bool

definition newMux :: "'h httpHandler" where
  "newMux = \<lparr>mux_m = Map.empty, mux_es = [], mux_hosts = False\<rparr>"

text \<open>\<open>sort.Search\<close>.\<close>

function searchLoop :: "(nat \<Rightarrow> bool) \<Rightarrow> nat \<Rightarrow> nat \<Rightarrow> nat" where
  "searchLoop f i j =
     (if i < j then let h = (i + j) div 2 in if \<not> f h then searchLoop f (h + 1) j else searchLoop f i h else i)"
  by pat_completeness auto
termination
  by (relation "measure (\<lambda>(f, i, j). j - i)") auto

declare searchLoop.simps [simp del]

definition appendSorted :: "'h muxEntry list \<Rightarrow> 'h muxEntry \<Rightarrow> 'h muxEntry list" where
  "appendSorted es e =
     (let n = length es; i = searchLoop (\<lambda>i. length (me_pattern (es ! i)) < length (me_pattern e)) 0 n in
      if i = n then es @ [e]
      else let es1 = es @ [\<lparr>me_h = None, me_pattern = []\<rparr>];
               es2 = blit (i + 1) (drop i es1) es1
           in es2[i := e])"

definition muxHandle :: "string \<Rightarrow> 'h option \<Rightarrow> 'h httpHandler \<Rightarrow> 'h httpHandler go" where
  "muxHandle pattern hdl h =
     (if pattern = [] then Panic
      else if hdl = None then Panic
      else if mux_m h pattern \<noteq> None then Panic
      else let e = \<lparr>me_h = hdl, me_pattern = pattern\<rparr> in
        Ret (h\<lparr>mux_m := (mux_m h)(pattern \<mapsto> e),
               mux_es := (if last pattern = CHR ''/'' then appendSorted (mux_es h) e else mux_es h),
               mux_hosts := (mux_hosts h \<or> pattern ! 0 \<noteq> CHR ''/'')\<rparr>))"

definition HandleFunc :: "string \<Rightarrow> 'h option \<Rightarrow> 'h httpHandler \<Rightarrow> 'h httpHandler go" where
  "HandleFunc pattern hdl h = (if hdl = None then Panic else muxHandle pattern hdl h)"

fun firstPrefix :: "'h muxEntry list \<Rightarrow> string \<Rightarrow> 'h option \<times> string" where
  "firstPrefix [] path = (None, [])"
| "firstPrefix (e # es) path = (if hasPrefix path (me_pattern e) then (me_h e, me_pattern e) else firstPrefix es path)"

definition muxMatch :: "'h httpHandler \<Rightarrow> string \<Rightarrow> 'h option \<times> string" where
  "muxMatch h path =
     (case mux_m h path of Some v \<Rightarrow> (me_h v, me_pattern v) | None \<Rightarrow> firstPrefix (mux_es h) path)"

definition muxHandler :: "'h \<Rightarrow> 'h httpHandler \<Rightarrow> string \<Rightarrow> string \<Rightarrow> 'h option \<times> string" where
  "muxHandler notFound h host path =
     (let r1 = (if mux_hosts h then muxMatch h (host @ path) else (None, []));
          r2 = (if fst r1 = None then muxMatch h path else r1)
      in if fst r2 = None then (Some notFound, []) else r2)"

text \<open>\<open>net.SplitHostPort\<close>: the host, if the text is a host and a port.\<close>

definition splitHostPort :: "string \<Rightarrow> string option" where
  "splitHostPort s =
     (let i = lastIndex s (CHR '':'') in
      if i < 0 then None
      else if s ! 0 = CHR ''['' then
        (let e = textIndex s [CHR '']''] in
         if e < 0 \<or> e + 1 \<noteq> i then None
         else if CHR ''['' \<in> set (drop 1 s) \<or> CHR '']'' \<in> set (drop (nat e + 1) s) then None
         else Some (drop 1 (take (nat e) s)))
      else if CHR '':'' \<in> set (take (nat i) s) then None
      else if CHR ''['' \<in> set s \<or> CHR '']'' \<in> set s then None
      else Some (take (nat i) s))"

text \<open>\<open>HttpHandler.Handler\<close> for the host and the path of a request: an error of \<open>SplitHostPort\<close>
  comes with an empty host.\<close>

definition Handler :: "'h \<Rightarrow> 'h httpHandler \<Rightarrow> string \<Rightarrow> string \<Rightarrow> 'h option \<times> string" where
  "Handler notFound h host path =
     muxHandler notFound h (if CHR '':'' \<in> set host \<and> splitHostPort host = None then [] else host) path"


subsection \<open>The sorted list\<close>

lemma searchLoop_found:
  assumes "i \<le> j" "\<And>a b. a \<le> b \<Longrightarrow> b < n \<Longrightarrow> f a \<Longrightarrow> f b" "j \<le> n" "\<forall>k < i. \<not> f k" "j < n \<longrightarrow> f j"
  shows "searchLoop f i j \<le> j \<and> (\<forall>k < searchLoop f i j. \<not> f k) \<and> (\<forall>k. searchLoop f i j \<le> k \<and> k < n \<longrightarrow> f k)"
  using assms
proof (induction f i j rule: searchLoop.induct)
  case (1 f i j)
  show ?case
  proof (cases "i < j")
    case False
    then show ?thesis using "1.prems" by (subst (1 2 3) searchLoop.simps) auto
  next
    case True
    let ?h = "(i + j) div 2"
    have h: "i \<le> ?h" "?h < j" using True by auto
    show ?thesis
    proof (cases "f ?h")
      case True
      then have "searchLoop f i j = searchLoop f i ?h" using \<open>i < j\<close> by (subst searchLoop.simps) simp
      with "1.IH"(2) [OF \<open>i < j\<close> refl] True h "1.prems" show ?thesis by auto
    next
      case False
      then have s: "searchLoop f i j = searchLoop f (?h + 1) j" using \<open>i < j\<close> by (subst searchLoop.simps) simp
      have "\<forall>k < ?h + 1. \<not> f k"
      proof (intro allI impI)
        fix k assume "k < ?h + 1"
        then show "\<not> f k" using "1.prems"(2) [of k ?h] False h "1.prems"(3) by auto
      qed
      with "1.IH"(1) [OF \<open>i < j\<close> refl False] h "1.prems" s show ?thesis by auto
    qed
  qed
qed

definition longFirst :: "'h muxEntry list \<Rightarrow> bool" where
  "longFirst es \<longleftrightarrow> sorted_wrt (\<lambda>a b. length (me_pattern b) \<le> length (me_pattern a)) es"

lemma longFirst_insert:
  assumes "longFirst (as @ bs)" "\<And>a. a \<in> set as \<Longrightarrow> length (me_pattern e) \<le> length (me_pattern a)"
    "\<And>b. b \<in> set bs \<Longrightarrow> length (me_pattern b) \<le> length (me_pattern e)"
  shows "longFirst (as @ e # bs)"
  using assms by (auto simp: longFirst_def sorted_wrt_append intro: order_trans)

lemma appendSorted_at:
  assumes "searchLoop (\<lambda>i. length (me_pattern (es ! i)) < length (me_pattern e)) 0 (length es) = i" "i \<le> length es"
  shows "appendSorted es e = take i es @ e # drop i es"
proof (cases "i = length es")
  case True
  with assms show ?thesis by (simp add: appendSorted_def Let_def)
next
  case False
  let ?z = "\<lparr>me_h = None, me_pattern = []\<rparr>"
  have "drop i (es @ [?z]) = drop i es @ [?z]" using assms(2) by simp
  then have "blit (i + 1) (drop i (es @ [?z])) (es @ [?z]) = take (i + 1) es @ drop i es"
    using False assms(2) by (simp add: blit_def Let_def min_def)
  moreover have "(take (i + 1) es @ drop i es)[i := e] = take i es @ e # drop i es"
    using False assms(2) by (simp add: take_Suc_conv_app_nth list_update_append)
  ultimately show ?thesis using False assms(1) by (simp add: appendSorted_def Let_def)
qed

lemma appendSorted_insert:
  assumes "longFirst es"
  shows "\<exists>as bs. es = as @ bs \<and> appendSorted es e = as @ e # bs \<and> longFirst (as @ e # bs)"
proof -
  define f where "f = (\<lambda>i. length (me_pattern (es ! i)) < length (me_pattern e))"
  obtain i where i_def: "searchLoop f 0 (length es) = i" by blast
  have mono: "f a \<Longrightarrow> f b" if "a \<le> b" "b < length es" for a b
    using assms that unfolding longFirst_def sorted_wrt_iff_nth_less f_def
    by (cases "a = b") (auto intro: le_less_trans [of _ "length (me_pattern (es ! a))"])
  have "searchLoop f 0 (length es) \<le> length es \<and> (\<forall>k < searchLoop f 0 (length es). \<not> f k) \<and>
      (\<forall>k. searchLoop f 0 (length es) \<le> k \<and> k < length es \<longrightarrow> f k)"
    by (rule searchLoop_found [OF _ mono]) simp_all
  then have i: "i \<le> length es" "\<And>k. k < i \<Longrightarrow> \<not> f k" "\<And>k. i \<le> k \<Longrightarrow> k < length es \<Longrightarrow> f k"
    unfolding i_def by blast+
  have eq: "appendSorted es e = take i es @ e # drop i es"
    using appendSorted_at [OF i_def [unfolded f_def] i(1)] .
  have "longFirst (take i es @ e # drop i es)"
  proof (rule longFirst_insert)
    show "longFirst (take i es @ drop i es)" using assms by simp
  next
    fix a assume "a \<in> set (take i es)"
    then obtain k where "k < i" "a = es ! k" by (auto simp: in_set_conv_nth)
    then show "length (me_pattern e) \<le> length (me_pattern a)" using i(2) [of k] by (simp add: f_def)
  next
    fix b assume "b \<in> set (drop i es)"
    then obtain k where "k < length es - i" "b = es ! (i + k)" by (auto simp: in_set_conv_nth)
    moreover from this have "f (i + k)" by (intro i(3)) simp_all
    ultimately show "length (me_pattern b) \<le> length (me_pattern e)" by (simp add: f_def)
  qed
  with eq show ?thesis by (metis append_take_drop_id)
qed


subsection \<open>The invariant of the table\<close>

definition slashed :: "string \<Rightarrow> bool" where
  "slashed p \<longleftrightarrow> p \<noteq> [] \<and> last p = CHR ''/''"

definition muxInv :: "'h httpHandler \<Rightarrow> bool" where
  "muxInv h \<longleftrightarrow> (\<forall>p e. mux_m h p = Some e \<longrightarrow> me_pattern e = p \<and> me_h e \<noteq> None \<and> p \<noteq> []) \<and>
     longFirst (mux_es h) \<and> (\<forall>e. e \<in> set (mux_es h) \<longleftrightarrow> mux_m h (me_pattern e) = Some e \<and> slashed (me_pattern e)) \<and>
     (mux_hosts h \<longleftrightarrow> (\<exists>p \<in> dom (mux_m h). p ! 0 \<noteq> CHR ''/''))"

lemma muxInv_new: "muxInv newMux"
  by (auto simp: muxInv_def newMux_def longFirst_def)

lemma muxInv_handle:
  assumes "muxInv h" "muxHandle p hdl h = Ret h'"
  shows "muxInv h'"
proof -
  let ?e = "\<lparr>me_h = hdl, me_pattern = p\<rparr>"
  from assms(2) have p: "p \<noteq> []" "hdl \<noteq> None" "mux_m h p = None"
    and h': "mux_m h' = (mux_m h)(p \<mapsto> ?e)"
      "mux_es h' = (if last p = CHR ''/'' then appendSorted (mux_es h) ?e else mux_es h)"
      "mux_hosts h' = (mux_hosts h \<or> p ! 0 \<noteq> CHR ''/'')"
    by (auto simp: muxHandle_def Let_def split: if_splits)
  have lf: "longFirst (mux_es h)" and es: "e \<in> set (mux_es h) \<longleftrightarrow> mux_m h (me_pattern e) = Some e \<and> slashed (me_pattern e)" for e
    using assms(1) by (auto simp: muxInv_def)
  from appendSorted_insert [OF lf, of ?e] have a: "longFirst (appendSorted (mux_es h) ?e)"
    "set (appendSorted (mux_es h) ?e) = insert ?e (set (mux_es h))" by fastforce+
  have "longFirst (mux_es h')" using a(1) lf by (simp add: h'(2))
  moreover have "e \<in> set (mux_es h') \<longleftrightarrow> mux_m h' (me_pattern e) = Some e \<and> slashed (me_pattern e)" for e
    using a(2) es [of e] p by (cases e) (auto simp: h' slashed_def)
  moreover have "mux_hosts h' \<longleftrightarrow> (\<exists>q \<in> dom (mux_m h'). q ! 0 \<noteq> CHR ''/'')"
    using assms(1) by (auto simp: h' muxInv_def)
  moreover have "\<forall>q e. mux_m h' q = Some e \<longrightarrow> me_pattern e = q \<and> me_h e \<noteq> None \<and> q \<noteq> []"
    using assms(1) p by (auto simp: h' muxInv_def)
  ultimately show ?thesis unfolding muxInv_def by blast
qed

text \<open>A sequence of registrations.\<close>

fun registerAll :: "(string \<times> 'h option) list \<Rightarrow> 'h httpHandler \<Rightarrow> 'h httpHandler go" where
  "registerAll [] h = Ret h"
| "registerAll ((p, hdl) # rs) h = go_bind (muxHandle p hdl h) (registerAll rs)"

definition registrable :: "(string \<times> 'h option) list \<Rightarrow> bool" where
  "registrable rs \<longleftrightarrow> distinct (map fst rs) \<and> (\<forall>(p, hdl) \<in> set rs. p \<noteq> [] \<and> hdl \<noteq> None)"

definition entryOf :: "string \<times> 'h option \<Rightarrow> 'h muxEntry" where
  "entryOf r = \<lparr>me_h = snd r, me_pattern = fst r\<rparr>"

lemma registerAll_ok:
  assumes "muxInv h" "registrable rs" "fst ` set rs \<inter> dom (mux_m h) = {}"
  shows "\<exists>h'. registerAll rs h = Ret h' \<and> muxInv h' \<and>
    mux_m h' = mux_m h ++ (\<lambda>p. map_option (\<lambda>x. \<lparr>me_h = x, me_pattern = p\<rparr>) (map_of rs p))"
  using assms
proof (induction rs arbitrary: h)
  case Nil
  then show ?case by simp
next
  case (Cons r rs)
  obtain p hdl where r: "r = (p, hdl)" by (cases r)
  from Cons.prems(2,3) have p: "p \<noteq> []" "hdl \<noteq> None" "mux_m h p = None" "p \<notin> fst ` set rs"
    by (auto simp: r registrable_def domIff)
  then obtain h1 where h1: "muxHandle p hdl h = Ret h1" "mux_m h1 = (mux_m h)(p \<mapsto> \<lparr>me_h = hdl, me_pattern = p\<rparr>)"
    by (auto simp: muxHandle_def Let_def)
  have "registrable rs" "fst ` set rs \<inter> dom (mux_m h1) = {}"
    using Cons.prems(2,3) p(4) by (auto simp: r registrable_def h1(2))
  from Cons.IH [OF muxInv_handle [OF Cons.prems(1) h1(1)] this] obtain h' where
    h': "registerAll rs h1 = Ret h'" "muxInv h'"
      "mux_m h' = mux_m h1 ++ (\<lambda>p. map_option (\<lambda>x. \<lparr>me_h = x, me_pattern = p\<rparr>) (map_of rs p))" by blast
  have "map_of rs p = None" using p(4) by (simp add: map_of_eq_None_iff)
  then have "mux_m h' = mux_m h ++ (\<lambda>q. map_option (\<lambda>x. \<lparr>me_h = x, me_pattern = q\<rparr>) (map_of (r # rs) q))"
    by (auto simp: h'(3) h1(2) r map_add_def fun_eq_iff split: option.splits)
  with h' h1(1) show ?case by (simp add: r)
qed

lemma registerAll_panics:
  assumes "muxInv h" "\<not> (registrable rs \<and> fst ` set rs \<inter> dom (mux_m h) = {})"
  shows "registerAll rs h = Panic"
  using assms
proof (induction rs arbitrary: h)
  case Nil
  then show ?case by (simp add: registrable_def)
next
  case (Cons r rs)
  obtain p hdl where r: "r = (p, hdl)" by (cases r)
  show ?case
  proof (cases "p = [] \<or> hdl = None \<or> mux_m h p \<noteq> None")
    case True
    then have "muxHandle p hdl h = Panic" by (auto simp: muxHandle_def)
    then show ?thesis by (simp add: r)
  next
    case False
    then obtain h1 where h1: "muxHandle p hdl h = Ret h1" "mux_m h1 = (mux_m h)(p \<mapsto> \<lparr>me_h = hdl, me_pattern = p\<rparr>)"
      by (auto simp: muxHandle_def Let_def)
    have "\<not> (registrable rs \<and> fst ` set rs \<inter> dom (mux_m h1) = {})"
      using Cons.prems(2) False by (auto simp: r registrable_def h1(2) domIff)
    with Cons.IH [OF muxInv_handle [OF Cons.prems(1) h1(1)]] h1(1) show ?thesis by (simp add: r)
  qed
qed


subsection \<open>The choice of a handler\<close>

text \<open>The rule the code states, on the list of registrations: the pattern that is the path
  itself, otherwise the longest of the patterns that end in a slash and begin the path.\<close>

definition candidates :: "(string \<times> 'h option) list \<Rightarrow> string \<Rightarrow> (string \<times> 'h option) list" where
  "candidates rs path = filter (\<lambda>(p, _). slashed p \<and> prefix p path) rs"

definition best :: "(string \<times> 'h option) list \<Rightarrow> string \<Rightarrow> 'h option \<times> string" where
  "best rs path =
     (case map_of rs path of
        Some x \<Rightarrow> (x, path)
      | None \<Rightarrow>
          (case candidates rs path of
             [] \<Rightarrow> (None, [])
           | cs \<Rightarrow> let n = Max (length ` fst ` set cs) in
               (case map_of cs (take n path) of Some x \<Rightarrow> (x, take n path) | None \<Rightarrow> (None, []))))"

lemma firstPrefix_longest:
  assumes "longFirst es"
  shows "(\<forall>e \<in> set es. \<not> prefix (me_pattern e) path) \<and> firstPrefix es path = (None, []) \<or>
    (\<exists>e \<in> set es. prefix (me_pattern e) path \<and> firstPrefix es path = (me_h e, me_pattern e) \<and>
      (\<forall>e' \<in> set es. prefix (me_pattern e') path \<longrightarrow> length (me_pattern e') \<le> length (me_pattern e)))"
  using assms
proof (induction es)
  case (Cons e es)
  then show ?case by (cases "prefix (me_pattern e) path") (auto simp: hasPrefix_iff longFirst_def)
qed simp

text \<open>A table whose map holds the given registrations chooses as the rule says.\<close>

lemma muxMatch_best:
  assumes "muxInv h" "distinct (map fst rs)"
    "mux_m h = (\<lambda>p. map_option (\<lambda>x. \<lparr>me_h = x, me_pattern = p\<rparr>) (map_of rs p))"
  shows "muxMatch h path = best rs path"
proof (cases "map_of rs path")
  case (Some x)
  then show ?thesis by (simp add: muxMatch_def best_def assms(3))
next
  case None
  have es: "e \<in> set (mux_es h) \<longleftrightarrow> (me_pattern e, me_h e) \<in> set rs \<and> slashed (me_pattern e)" for e
    using assms(1,2) by (cases e) (auto simp: muxInv_def assms(3) intro: map_of_SomeD)
  have cand: "(p, x) \<in> set (candidates rs path) \<longleftrightarrow>
      (\<exists>e \<in> set (mux_es h). prefix p path \<and> me_pattern e = p \<and> me_h e = x)" for p x
  proof
    assume "(p, x) \<in> set (candidates rs path)"
    then show "\<exists>e \<in> set (mux_es h). prefix p path \<and> me_pattern e = p \<and> me_h e = x"
      by (intro bexI [of _ "\<lparr>me_h = x, me_pattern = p\<rparr>"]) (auto simp: es candidates_def)
  qed (auto simp: es candidates_def)
  have m: "muxMatch h path = firstPrefix (mux_es h) path" using None by (simp add: muxMatch_def assms(3))
  have lf: "longFirst (mux_es h)" using assms(1) by (simp add: muxInv_def)
  from firstPrefix_longest [OF lf, of path] show ?thesis
  proof
    assume n: "(\<forall>e \<in> set (mux_es h). \<not> prefix (me_pattern e) path) \<and> firstPrefix (mux_es h) path = (None, [])"
    then have "(p, x) \<notin> set (candidates rs path)" for p x using cand [of p x] by blast
    then have "candidates rs path = []" by (cases "candidates rs path") auto
    then show ?thesis using m n None by (simp add: best_def)
  next
    assume "\<exists>e \<in> set (mux_es h). prefix (me_pattern e) path \<and> firstPrefix (mux_es h) path = (me_h e, me_pattern e) \<and>
      (\<forall>e' \<in> set (mux_es h). prefix (me_pattern e') path \<longrightarrow> length (me_pattern e') \<le> length (me_pattern e))"
    then obtain e where e: "e \<in> set (mux_es h)" "prefix (me_pattern e) path"
      "firstPrefix (mux_es h) path = (me_h e, me_pattern e)"
      "\<And>e'. e' \<in> set (mux_es h) \<Longrightarrow> prefix (me_pattern e') path \<Longrightarrow> length (me_pattern e') \<le> length (me_pattern e)" by blast
    have in_c: "(me_pattern e, me_h e) \<in> set (candidates rs path)" using e cand by blast
    have "Max (length ` fst ` set (candidates rs path)) = length (me_pattern e)"
    proof (rule Max_eqI)
      fix n assume "n \<in> length ` fst ` set (candidates rs path)"
      then obtain q x where "(q, x) \<in> set (candidates rs path)" "n = length q" by auto
      then show "n \<le> length (me_pattern e)" using cand [of q x] e(4) by blast
    qed (use in_c in \<open>auto intro!: image_eqI\<close>)
    moreover have "take (length (me_pattern e)) path = me_pattern e" using e(2) by (auto simp: prefix_def)
    moreover have "map_of (candidates rs path) (me_pattern e) = Some (me_h e)"
      using in_c assms(2) by (intro map_of_is_SomeI) (auto simp: candidates_def distinct_map_filter)
    ultimately show ?thesis using m e(3) None in_c by (auto simp: best_def Let_def split: list.splits)
  qed
qed

text \<open>C20: The routing table implements the rule of the longest pattern: registering a list of
  patterns panics exactly when a pattern is empty or repeated or a handler is nil; otherwise the
  table that results finds, for every path, the handler of the pattern that is the path itself, or
  of the longest registered pattern that ends in a slash and begins the path, or none.\<close>

theorem http_longest_match:
  "registerAll rs newMux \<noteq> Diverge \<and> (returns (registerAll rs newMux) \<longleftrightarrow> registrable rs) \<and>
   (case registerAll rs newMux of Ret h \<Rightarrow> muxMatch h path = best rs path | _ \<Rightarrow> True)"
proof (cases "registrable rs")
  case False
  then show ?thesis using registerAll_panics [OF muxInv_new, of rs] by (simp add: returns_def)
next
  case True
  from registerAll_ok [OF muxInv_new True] obtain h where
    h: "registerAll rs newMux = Ret h" "muxInv h"
      "mux_m h = (\<lambda>p. map_option (\<lambda>x. \<lparr>me_h = x, me_pattern = p\<rparr>) (map_of rs p))"
    by (auto simp: newMux_def)
  from True have "distinct (map fst rs)" by (simp add: registrable_def)
  with muxMatch_best [OF h(2) _ h(3)] h(1) True show ?thesis by (simp add: returns_def)
qed

subsection \<open>Patterns with a host\<close>

lemma splitHostPort_host:
  assumes "CHR '':'' \<notin> set a" "CHR '':'' \<notin> set b" "CHR ''['' \<notin> set (a @ b)" "CHR '']'' \<notin> set (a @ b)"
  shows "splitHostPort (a @ CHR '':'' # b) = Some a"
proof -
  have i: "lastIndex (a @ CHR '':'' # b) (CHR '':'') = int (length a)" using assms(2) by (rule lastIndex_append)
  have "(a @ CHR '':'' # b) ! 0 \<noteq> CHR ''[''" using assms(3) by (cases a) auto
  then show ?thesis using assms i by (simp add: splitHostPort_def Let_def)
qed

text \<open>No pattern without a colon matches a text that begins with a host and a port.\<close>

lemma colon_prefix:
  assumes "prefix p (a @ CHR '':'' # r)" "CHR '':'' \<notin> set p" "CHR ''/'' \<notin> set a"
  shows "\<not> slashed p \<and> p \<noteq> a @ CHR '':'' # r"
proof
  have "prefix p a"
    using assms(1,2) by (auto simp: prefix_append prefix_Cons)
  then have "set p \<subseteq> set a" by (rule set_mono_prefix)
  then show "\<not> slashed p" using assms(3) by (metis last_in_set slashed_def subsetD)
  show "p \<noteq> a @ CHR '':'' # r" using assms(2) by auto
qed

lemma muxMatch_colon:
  assumes "muxInv h" "\<forall>p \<in> dom (mux_m h). CHR '':'' \<notin> set p" "CHR ''/'' \<notin> set a"
  shows "muxMatch h (a @ CHR '':'' # r) = (None, [])"
proof -
  let ?t = "a @ CHR '':'' # r"
  have "?t \<notin> dom (mux_m h)" using assms(2) [THEN bspec, of ?t] by auto
  then have "muxMatch h ?t = firstPrefix (mux_es h) ?t" by (simp add: muxMatch_def domIff)
  moreover have "\<not> prefix (me_pattern e) ?t" if e: "e \<in> set (mux_es h)" for e
  proof
    assume "prefix (me_pattern e) ?t"
    moreover have "slashed (me_pattern e)" "CHR '':'' \<notin> set (me_pattern e)"
      using e assms(1,2) unfolding muxInv_def by (blast, metis domI)
    ultimately show False using colon_prefix assms(3) by blast
  qed
  ultimately show ?thesis
    using firstPrefix_longest [of "mux_es h" ?t] assms(1) by (auto simp: muxInv_def)
qed

text \<open>Patterns with a host are dead for requests that name a port: \<open>Handler\<close> replaces the host
  by the one \<open>SplitHostPort\<close> returns only when that call has failed.  A request for a valid
  \<open>host:port\<close> is therefore routed by its path alone, whatever patterns for that host are
  registered, as long as the patterns themselves have no port.\<close>

theorem http_host_patterns_dead:
  assumes "registerAll rs newMux = Ret h" "\<forall>(p, x) \<in> set rs. CHR '':'' \<notin> set p"
    "set a \<inter> {CHR '':'', CHR ''/'', CHR ''['', CHR '']''} = {}" "set b \<inter> {CHR '':'', CHR ''['', CHR '']''} = {}"
  shows "splitHostPort (a @ '':'' @ b) = Some a \<and>
    Handler notFound h (a @ '':'' @ b) path =
      (case best rs path of (None, _) \<Rightarrow> (Some notFound, []) | (Some x, p) \<Rightarrow> (Some x, p))"
proof -
  have ok: "registrable rs"
    using registerAll_panics [OF muxInv_new, of rs] assms(1) by (auto simp: newMux_def)
  from registerAll_ok [OF muxInv_new ok] assms(1) have h: "muxInv h"
      "mux_m h = (\<lambda>p. map_option (\<lambda>x. \<lparr>me_h = x, me_pattern = p\<rparr>) (map_of rs p))"
    by (auto simp: newMux_def)
  have d: "\<forall>p \<in> dom (mux_m h). CHR '':'' \<notin> set p" using assms(2) by (auto simp: h(2) dest!: map_of_SomeD)
  have s: "splitHostPort (a @ CHR '':'' # b) = Some a" using assms(3,4) by (intro splitHostPort_host) auto
  have m: "muxMatch h path = best rs path" using muxMatch_best [OF h(1) _ h(2)] ok by (simp add: registrable_def)
  have n: "muxMatch h (a @ CHR '':'' # (b @ path)) = (None, [])" using assms(3) by (intro muxMatch_colon [OF h(1) d]) auto
  show ?thesis using s m n by (auto simp: Handler_def muxHandler_def Let_def split: prod.splits option.splits)
qed

theorem http_host_patterns_dead_witness:
  "case registerAll [(''example.com/'', Some True), (''/'', Some False)] newMux of
     Ret h \<Rightarrow> Handler False h ''example.com'' ''/x'' = (Some True, ''example.com/'') \<and>
       Handler False h (''example.com'' @ '':'' @ ''8080'') ''/x'' = (Some False, ''/'')
   | _ \<Rightarrow> False"
proof -
  let ?rs = "[(''example.com/'', Some True), (''/'', Some False)]"
  obtain h where h: "registerAll ?rs newMux = Ret h"
      "Handler False h ''example.com'' ''/x'' = (Some True, ''example.com/'')"
    by (simp add: muxHandle_def newMux_def appendSorted_def searchLoop.simps Handler_def muxHandler_def muxMatch_def Let_def)
  have "best ?rs ''/x'' = (Some False, ''/'')"
    by (simp add: best_def candidates_def slashed_def Let_def)
  with http_host_patterns_dead [OF h(1), of "''example.com''" "''8080''" False "''/x''"] h show ?thesis by simp
qed

end
