(* ===== verification/Http.thy ===== *)
theory Http
  imports Services Delivery Http_Mux
begin

text \<open>
  The http service of \<^verbatim>\<open>src/stnet/servicehttp.go\<close>: the response writer, the parser that cuts
  requests out of the byte stream, and the service that passes them on; the routing table is in
  \<open>Http_Mux\<close>.

  Of the packages \<open>net/http\<close> and \<open>net/textproto\<close> the parser calls two readers, which are
  arguments (\<open>http_lib\<close>): the reader of the header lines, given as the function \<open>Get\<close> of the map
  it returns, and the reader of a whole request.  A \<open>http.Header\<close> is an association list in the
  order in which the code's one iteration over the map visits it.
\<close>

subsection \<open>The response writer\<close>

type_synonym httpHeader = "(string \<times> string list) list"

text \<open>The session is represented by the messages that \<open>Send\<close> has been called with; \<open>e\<close> is what that
  call answers.\<close>

record httpWriter =
  wSent :: "bytes list"
  wHeader :: httpHeader
  wStatus :: int
  isWroteHeader :: bool
  wBuf :: bytes

definition newWriter :: httpWriter where
  "newWriter = \<lparr>wSent = [], wHeader = [], wStatus = 0, isWroteHeader = False, wBuf = []\<rparr>"

definition crlf :: bytes where
  "crlf = [13, 10]"

text \<open>\<open>Write\<close> after the header has been written to the buffer.\<close>

definition writeBody :: "sesserr option \<Rightarrow> bytes \<Rightarrow> httpWriter \<Rightarrow> httpWriter \<times> int \<times> sesserr option" where
  "writeBody e b w =
     (if wBuf w \<noteq> [] then
        let buf = wBuf w @ (if wHeader w = [] then ascii (''Content-Length: '' @ Itoa (int (length b))) @ crlf else [])
              @ crlf @ b
        in (w\<lparr>wSent := wSent w @ [buf], wBuf := []\<rparr>, int (length b), e)
      else (w\<lparr>wSent := wSent w @ [b]\<rparr>, int (length b), e))"

definition headerLines :: "httpHeader \<Rightarrow> bytes" where
  "headerLines h = concat (map (\<lambda>(k, ss). concat (map (\<lambda>s.
     ascii (k @ '': '' @ map (\<lambda>c. if c = CHR 0x0A then CHR '' '' else c) s) @ crlf) ss)) h)"

definition noBody :: "int \<Rightarrow> bool" where
  "noBody st \<longleftrightarrow> 100 \<le> st \<and> st \<le> 199 \<or> st = 204 \<or> st = 304"

definition statusLine :: "(int \<Rightarrow> string) \<Rightarrow> int \<Rightarrow> bytes" where
  "statusLine statusText st =
     ascii (''HTTP/1.1 '' @ fmt03d st @ '' '' @ (if statusText st = [] then ''status code '' @ Itoa st else statusText st)) @ crlf"

definition WriteHeader :: "(int \<Rightarrow> string) \<Rightarrow> sesserr option \<Rightarrow> int \<Rightarrow> httpWriter \<Rightarrow> httpWriter" where
  "WriteHeader statusText e statusCode w =
     (let st = (if statusCode = 0 then 200 else statusCode);
          w1 = w\<lparr>wStatus := st, isWroteHeader := True, wBuf := wBuf w @ statusLine statusText st @ headerLines (wHeader w)\<rparr>
      in if noBody st then fst (writeBody e [] w1) else w1)"

definition httpWrite :: "(int \<Rightarrow> string) \<Rightarrow> sesserr option \<Rightarrow> bytes \<Rightarrow> httpWriter \<Rightarrow> httpWriter \<times> int \<times> sesserr option" where
  "httpWrite statusText e b w =
     writeBody e b
       (if isWroteHeader w then w
        else WriteHeader statusText e 200
          (if map_of (wHeader w) ''Content-Length'' = None
           then w\<lparr>wHeader := wHeader w @ [(''Content-Length'', [Itoa (int (length b))])]\<rparr> else w))"


text \<open>The first \<open>Write\<close> of a handler sends one message: the status line, the header lines, of which
  one is the length, an empty line and the body.  A handler that only calls \<open>WriteHeader\<close> sends
  nothing, except for the status codes without a body.\<close>

lemma http_response:
  assumes "\<not> isWroteHeader w" "wBuf w = []"
  shows "\<exists>w' h. httpWrite statusText e b w = (w', int (length b), e) \<and>
    wSent w' = wSent w @ [statusLine statusText 200 @ headerLines h @ crlf @ b] \<and> wBuf w' = [] \<and> isWroteHeader w' \<and>
    h \<noteq> [] \<and> map_of h ''Content-Length'' = (case map_of (wHeader w) ''Content-Length'' of
      None \<Rightarrow> Some [Itoa (int (length b))] | Some v \<Rightarrow> Some v)"
  using assms
  by (auto simp: httpWrite_def WriteHeader_def writeBody_def noBody_def statusLine_def crlf_def Let_def map_add_def
      split: option.splits)

lemma header_only_unsent: "\<not> noBody st \<Longrightarrow> st \<noteq> 0 \<Longrightarrow> wSent (WriteHeader statusText e st w) = wSent w"
  by (simp add: WriteHeader_def Let_def)


subsection \<open>Cutting requests out of the stream\<close>

record http_lib =
  ReadMIMEHeader :: "bytes \<Rightarrow> string + (string \<Rightarrow> string)"
  ReadRequest :: "bytes \<Rightarrow> string + httpReq"

text \<open>\<open>textproto.Reader.ReadLine\<close>: the line without its end, and what follows; no line at the end
  of the input.\<close>

definition readLine :: "bytes \<Rightarrow> (bytes \<times> bytes) option" where
  "readLine d =
     (if d = [] then None
      else let l = takeWhile (\<lambda>b. b \<noteq> 10) d in
        Some (if length l < length d \<and> l \<noteq> [] \<and> last l = 13 then butlast l else l, drop (Suc (length l)) d))"

definition asciiSpace :: "char \<Rightarrow> bool" where
  "asciiSpace c \<longleftrightarrow> c \<in> {CHR '' '', CHR 0x09, CHR 0x0A, CHR 0x0D}"

definition TrimString :: "string \<Rightarrow> string" where
  "TrimString s = rev (dropWhile asciiSpace (rev (dropWhile asciiSpace s)))"

definition needMore :: parsed where
  "needMore = \<lparr>lenParsed = 0, pMsgID = 0, pMsg = MNil, pErr = None\<rparr>"

definition httpErr :: "int \<Rightarrow> string \<Rightarrow> parsed" where
  "httpErr n e = \<lparr>lenParsed = n, pMsgID = 0, pMsg = MNil, pErr = Some (EApp e)\<rparr>"

definition readWhole :: "http_lib \<Rightarrow> bytes \<Rightarrow> int \<Rightarrow> parsed go" where
  "readWhole lib data dataLen =
     (if dataLen < 0 \<or> int (length data) < dataLen then Panic
      else case ReadRequest lib (take (nat dataLen) data) of
          Inl e \<Rightarrow> Ret (httpErr dataLen e)
        | Inr req \<Rightarrow> Ret \<lparr>lenParsed = dataLen, pMsgID = 0, pMsg = MHttp req, pErr = None\<rparr>)"

text \<open>The length of the request from its header; \<open>None\<close> when the rest has not arrived.\<close>

definition bodyLen :: "(string \<Rightarrow> string) \<Rightarrow> bytes \<Rightarrow> int \<Rightarrow> string + int option" where
  "bodyLen get data dataLen =
     (let cl = TrimString (get ''Content-Length'') in
      if cl \<noteq> [] then
        (case parseUint10 63 cl of
           None \<Rightarrow> Inl (''bad Content-Length %!d(string='' @ cl @ '')'')
         | Some n \<Rightarrow>
             let dl = wrap64 (dataLen + int n) in
             if int (length data) < dl then Inr None else Inr (Some dl))
      else if TrimString (get ''Transfer-Encoding'') = ''chunked'' then
        (let i = textIndex data (crlf @ [48] @ crlf) in if i \<le> 0 then Inr None else Inr (Some (i + 5)))
      else Inr (Some dataLen))"

definition httpUnmarshal :: "http_lib \<Rightarrow> bytes \<Rightarrow> parsed go" where
  "httpUnmarshal lib data =
     (let nIndex = textIndex data (crlf @ crlf); dataLen = nIndex + 4; all = int (length data) in
      if nIndex \<le> 0 then Ret needMore
      else case readLine (take (nat dataLen) data) of
          None \<Rightarrow> Ret (httpErr all ''EOF'')
        | Some (line, rest) \<Rightarrow>
            let ss = map text_of (textSplit line [32]) in
            if length ss \<noteq> 3 then Ret (httpErr all ''not http'')
            else if ss ! 2 \<noteq> ''HTTP/1.1'' then
              Ret (httpErr all (''not http/1.1 method:'' @ ss ! 0 @ '' requestURI:'' @ ss ! 1 @ '' requestURI:'' @ ss ! 2))
            else case ReadMIMEHeader lib rest of
                Inl e \<Rightarrow> Ret (httpErr all e)
              | Inr get \<Rightarrow>
                  (case bodyLen get data dataLen of
                     Inl e \<Rightarrow> Ret (httpErr all e)
                   | Inr None \<Rightarrow> Ret needMore
                   | Inr (Some n) \<Rightarrow> readWhole lib data n))"

subsection \<open>The service\<close>

text \<open>A \<open>http.Handler\<close> is what it does to the response writer.\<close>

type_synonym httpServe = "httpReq \<Rightarrow> httpWriter \<Rightarrow> httpWriter outcome"

text \<open>The sends of a response writer, which panic when there is no session.\<close>

definition sendAll :: "current \<Rightarrow> bytes list \<Rightarrow> event list \<Rightarrow> event list outcome" where
  "sendAll cur ds w =
     (if ds = [] then Done w
      else withSess (Sess cur) (\<lambda>r w. Done (w @ map (\<lambda>d. EvSend (sess_id r) d None) ds)) w)"

definition httpHandleMessage ::
  "httpServe \<Rightarrow> httpServe httpHandler option \<Rightarrow> current \<Rightarrow> u64 \<Rightarrow> imsg \<Rightarrow> event list \<Rightarrow> event list outcome" where
  "httpHandleMessage notFound mux cur msgID msg w =
     (case msg of
        MHttp r \<Rightarrow>
          (case mux of
             None \<Rightarrow> Done (w @ [EvHandle cur 0 (MHttp r) None])
           | Some h \<Rightarrow>
               (case Handler notFound h (rHost r) (rPath r) of
                  (Some serve, _) \<Rightarrow>
                    (case serve r newWriter of
                       Done wr \<Rightarrow> sendAll cur (wSent wr) w
                     | Panicked wr \<Rightarrow> (case sendAll cur (wSent wr) w of Done w' \<Rightarrow> Panicked w' | x \<Rightarrow> x)
                     | Stuck \<Rightarrow> Stuck)
                | (None, _) \<Rightarrow> Panicked w))
      | _ \<Rightarrow> Panicked w)"

definition ServiceHttp ::
  "http_lib \<Rightarrow> bool \<Rightarrow> (current \<Rightarrow> httpReq option \<Rightarrow> int go) \<Rightarrow> httpServe \<Rightarrow> httpServe httpHandler option \<Rightarrow> event list serviceImp" where
  "ServiceHttp lib userInit userHash notFound mux = ServiceBase
     \<lparr>imp_Init := (\<lambda>w. (w, userInit)),
      imp_Loop := (\<lambda>w. Done (w @ [EvUserLoop])),
      imp_HandleMessage := httpHandleMessage notFound mux,
      imp_HandleError := (\<lambda>cur e w. Done (w @ [EvHandle cur 0 MNil (Some e)])),
      imp_Unmarshal := (\<lambda>s d w. go_map (\<lambda>p. (w, p)) (httpUnmarshal lib d)),
      imp_HashProcessor := (\<lambda>cur i m. case m of
          MNil \<Rightarrow> userHash cur None | MHttp r \<Rightarrow> userHash cur (Some r) | _ \<Rightarrow> Panic)\<rparr>"

text \<open>\<open>HttpHandler.ServeHTTP\<close>: the table used as a handler itself.\<close>

definition muxServeHTTP ::
  "(int \<Rightarrow> string) \<Rightarrow> sesserr option \<Rightarrow> httpServe \<Rightarrow> httpServe httpHandler \<Rightarrow> httpServe" where
  "muxServeHTTP statusText e notFound h r w =
     (if rURI r = ''*'' then
        Done (WriteHeader statusText e 400
          (if rProto11 r then w\<lparr>wHeader := AList.update ''Connection'' [''close''] (wHeader w)\<rparr> else w))
      else case Handler notFound h (rHost r) (rPath r) of
          (Some serve, _) \<Rightarrow> serve r w
        | (None, _) \<Rightarrow> Panicked w)"


subsection \<open>Requests as frames\<close>

text \<open>The parts of a request that decide about its length, as functions of its bytes.\<close>

definition headOf :: "http_lib \<Rightarrow> bytes \<Rightarrow> (string \<Rightarrow> string) option" where
  "headOf lib data =
     (let n = textIndex data (crlf @ crlf) in
      if n \<le> 0 then None
      else case readLine (take (nat (n + 4)) data) of
          None \<Rightarrow> None
        | Some (line, rest) \<Rightarrow>
            if length (textSplit line [32]) = 3 \<and> text_of (textSplit line [32] ! 2) = ''HTTP/1.1'' then
              (case ReadMIMEHeader lib rest of Inl e \<Rightarrow> None | Inr get \<Rightarrow> Some get)
            else None)"

text \<open>Requests with a \<open>Content-Length\<close>, or without a body, that the library accepts.\<close>

definition httpOk :: "http_lib \<Rightarrow> bytes \<times> httpReq \<Rightarrow> bool" where
  "httpOk lib m \<longleftrightarrow>
     (case headOf lib (fst m) of
        None \<Rightarrow> False
      | Some get \<Rightarrow>
          let cl = TrimString (get ''Content-Length''); n = textIndex (fst m) (crlf @ crlf) + 4 in
          ReadRequest lib (fst m) = Inr (snd m) \<and> length (fst m) \<le> MaxMsgSize \<and>
          (if cl = [] then TrimString (get ''Transfer-Encoding'') \<noteq> ''chunked'' \<and> int (length (fst m)) = n
           else \<exists>k. parseUint10 63 cl = Some k \<and> int (length (fst m)) = n + int k))"

lemma httpUnmarshal_head:
  assumes "headOf lib data = Some get"
  shows "httpUnmarshal lib data =
     (case bodyLen get data (textIndex data (crlf @ crlf) + 4) of
        Inl e \<Rightarrow> Ret (httpErr (int (length data)) e)
      | Inr None \<Rightarrow> Ret needMore
      | Inr (Some n) \<Rightarrow> readWhole lib data n)"
proof -
  let ?n = "textIndex data (crlf @ crlf)"
  from assms obtain line rest where r: "\<not> ?n \<le> 0" "readLine (take (nat (?n + 4)) data) = Some (line, rest)"
      "length (textSplit line [32]) = 3" "text_of (textSplit line [32] ! 2) = ''HTTP/1.1''" "ReadMIMEHeader lib rest = Inr get"
    by (auto simp: headOf_def Let_def split: if_splits option.splits sum.splits)
  from r(3) have "map text_of (textSplit line [32]) ! 2 = ''HTTP/1.1''" using r(4) by simp
  with r show ?thesis by (simp add: httpUnmarshal_def Let_def del: nth_map)
qed

lemma headOf_append:
  assumes "0 < textIndex x (crlf @ crlf)"
  shows "textIndex (x @ y) (crlf @ crlf) = textIndex x (crlf @ crlf)" "headOf lib (x @ y) = headOf lib x"
    "textIndex x (crlf @ crlf) + 4 \<le> int (length x)"
proof -
  show i: "textIndex (x @ y) (crlf @ crlf) = textIndex x (crlf @ crlf)" using assms by (intro textIndex_append) simp
  show b: "textIndex x (crlf @ crlf) + 4 \<le> int (length x)"
    using textIndex_bound [of x "crlf @ crlf"] assms by (simp add: crlf_def)
  then have "take (nat (textIndex x (crlf @ crlf) + 4)) (x @ y) = take (nat (textIndex x (crlf @ crlf) + 4)) x" by simp
  then show "headOf lib (x @ y) = headOf lib x" by (simp only: headOf_def i Let_def)
qed

lemma headOf_index: "headOf lib d = Some get \<Longrightarrow> 0 < textIndex d (crlf @ crlf)"
  by (auto simp: headOf_def Let_def split: if_splits)

lemma wrap64_length:
  assumes "int n = i + int k" "0 \<le> i" "n \<le> MaxMsgSize"
  shows "wrap64 (i + int k) = int n"
  using assms by (simp add: wrap64_id MaxMsgSize_def)

lemma httpOk_parts:
  assumes "httpOk lib m"
  obtains get where "headOf lib (fst m) = Some get" "ReadRequest lib (fst m) = Inr (snd m)" "length (fst m) \<le> MaxMsgSize"
    "TrimString (get ''Content-Length'') = [] \<and> TrimString (get ''Transfer-Encoding'') \<noteq> ''chunked'' \<and>
       int (length (fst m)) = textIndex (fst m) (crlf @ crlf) + 4 \<or>
     TrimString (get ''Content-Length'') \<noteq> [] \<and> (\<exists>k. parseUint10 63 (TrimString (get ''Content-Length'')) = Some k \<and>
       int (length (fst m)) = textIndex (fst m) (crlf @ crlf) + 4 + int k)"
  using assms by (auto simp: httpOk_def Let_def split: option.splits if_splits)

lemma httpUnmarshal_whole:
  assumes "httpOk lib m"
  shows "httpUnmarshal lib (fst m @ rest) =
    Ret \<lparr>lenParsed = int (length (fst m)), pMsgID = 0, pMsg = MHttp (snd m), pErr = None\<rparr>"
proof -
  from assms obtain get where g: "headOf lib (fst m) = Some get" "ReadRequest lib (fst m) = Inr (snd m)"
      "length (fst m) \<le> MaxMsgSize"
    and l: "TrimString (get ''Content-Length'') = [] \<and> TrimString (get ''Transfer-Encoding'') \<noteq> ''chunked'' \<and>
       int (length (fst m)) = textIndex (fst m) (crlf @ crlf) + 4 \<or>
     TrimString (get ''Content-Length'') \<noteq> [] \<and> (\<exists>k. parseUint10 63 (TrimString (get ''Content-Length'')) = Some k \<and>
       int (length (fst m)) = textIndex (fst m) (crlf @ crlf) + 4 + int k)"
    by (rule httpOk_parts)
  note i = headOf_index [OF g(1)]
  note a = headOf_append(1,2) [OF i, where y = rest]
  have "bodyLen get (fst m @ rest) (textIndex (fst m) (crlf @ crlf) + 4) = Inr (Some (int (length (fst m))))"
    using l
  proof
    assume "TrimString (get ''Content-Length'') \<noteq> [] \<and> (\<exists>k. parseUint10 63 (TrimString (get ''Content-Length'')) = Some k \<and>
       int (length (fst m)) = textIndex (fst m) (crlf @ crlf) + 4 + int k)"
    then obtain k where k: "TrimString (get ''Content-Length'') \<noteq> []" "parseUint10 63 (TrimString (get ''Content-Length'')) = Some k"
      "int (length (fst m)) = textIndex (fst m) (crlf @ crlf) + 4 + int k" by blast
    have "wrap64 (textIndex (fst m) (crlf @ crlf) + 4 + int k) = int (length (fst m))"
      using wrap64_length [OF k(3) _ g(3)] i by simp
    with k show ?thesis by (simp add: bodyLen_def Let_def)
  qed (simp add: bodyLen_def)
  then show ?thesis using httpUnmarshal_head [of lib "fst m @ rest" get] a g by (simp add: readWhole_def)
qed

lemma httpUnmarshal_part:
  assumes "httpOk lib m" "strict_prefix d (fst m)"
  shows "httpUnmarshal lib d = Ret needMore"
proof (cases "0 < textIndex d (crlf @ crlf)")
  case False
  then show ?thesis by (simp add: httpUnmarshal_def Let_def)
next
  case True
  from assms(2) obtain y where y: "fst m = d @ y" "length d < length (fst m)" by (auto simp: strict_prefix_def prefix_def)
  from assms(1) obtain get where g: "headOf lib (fst m) = Some get" "length (fst m) \<le> MaxMsgSize"
    and l: "TrimString (get ''Content-Length'') = [] \<and> TrimString (get ''Transfer-Encoding'') \<noteq> ''chunked'' \<and>
       int (length (fst m)) = textIndex (fst m) (crlf @ crlf) + 4 \<or>
     TrimString (get ''Content-Length'') \<noteq> [] \<and> (\<exists>k. parseUint10 63 (TrimString (get ''Content-Length'')) = Some k \<and>
       int (length (fst m)) = textIndex (fst m) (crlf @ crlf) + 4 + int k)"
    by (rule httpOk_parts)
  note a = headOf_append(1,2) [OF True, where y = y, folded y(1)] headOf_append(3) [OF True]
  have h: "headOf lib d = Some get" using g(1) a(2) by simp
  from l a y(2) obtain k where k: "TrimString (get ''Content-Length'') \<noteq> []"
    "parseUint10 63 (TrimString (get ''Content-Length'')) = Some k"
    "int (length (fst m)) = textIndex d (crlf @ crlf) + 4 + int k" by auto
  have "wrap64 (textIndex d (crlf @ crlf) + 4 + int k) = int (length (fst m))"
    using wrap64_length [OF k(3) _ g(2)] True by simp
  then have "bodyLen get d (textIndex d (crlf @ crlf) + 4) = Inr None" using k y(2) by (simp add: bodyLen_def Let_def)
  with httpUnmarshal_head [OF h] show ?thesis by simp
qed

definition httpImp :: "http_lib \<Rightarrow> event list serviceImp \<Rightarrow> bool" where
  "httpImp lib im \<longleftrightarrow> (\<exists>ui uh nf mux. im = ServiceHttp lib ui uh nf mux)"

definition isRequest :: "imsg \<Rightarrow> bool" where
  "isRequest m \<longleftrightarrow> (case m of MHttp r \<Rightarrow> True | _ \<Rightarrow> False)"

definition httpContent :: "bytes \<times> httpReq \<Rightarrow> int \<times> imsg" where
  "httpContent m = (0, MHttp (snd m))"

interpretation http_frames: message_frames "httpImp lib" isRequest fst "httpOk lib" httpContent for lib
proof
  fix im m r rest and w :: "event list"
  assume "httpImp lib im" "httpOk lib m"
  then show "imp_Unmarshal im r (fst m @ rest) w = Ret (w, \<lparr>lenParsed = int (length (fst m)),
      pMsgID = fst (httpContent m), pMsg = snd (httpContent m), pErr = None\<rparr>)"
    using httpUnmarshal_whole by (auto simp: httpImp_def ServiceHttp_def httpContent_def)
next
  fix im m d r and w :: "event list"
  assume "httpImp lib im" "httpOk lib m" "strict_prefix d (fst m)"
  then show "imp_Unmarshal im r d w = Ret (w, \<lparr>lenParsed = 0, pMsgID = 0, pMsg = MNil, pErr = None\<rparr>)"
    using httpUnmarshal_part [of lib m d] by (auto simp: httpImp_def ServiceHttp_def needMore_def)
next
  fix m assume m: "httpOk lib m"
  then obtain get where "headOf lib (fst m) = Some get" "length (fst m) \<le> MaxMsgSize" by (rule httpOk_parts)
  then show "fst m \<noteq> [] \<and> length (fst m) \<le> MaxMsgSize"
    using headOf_index [of lib "fst m" get] headOf_append(3) [of "fst m"] by auto
qed (simp add: httpContent_def isRequest_def)

subsection \<open>Properties\<close>

text \<open>C6: Pipelined requests arrive: requests with a \<open>Content-Length\<close> or without a body, written
  one after the other on a connection and cut into arbitrary non-empty pieces, are all recognised,
  in order, and put into the queues of the threads that the service's hash chooses; afterwards
  nothing is pending and the connection is still open.\<close>

theorem http_requests_delivered:
  assumes "svcInv (httpImp lib) isRequest (sv, sig, w)" "list_all (httpOk lib) reqs"
    "\<forall>q \<in> set (messageQ sv). length q + length reqs \<le> queueLen"
    "\<not> isUdp s" "handing s" "tempBuf s = None"
    "concat (map fst segs) = concat (map fst reqs)" "\<forall>x \<in> set segs. fst x \<noteq> [] \<and> snd x = a"
  shows "\<exists>s' sv' sig'. handAll svcParse s (sv, sig, w) segs = Ret (s', sv', sig', w) \<and>
    pending s' = [] \<and> handing s' \<and> sockOpen s' = sockOpen s \<and> svcInv (httpImp lib) isRequest (sv', sig', w) \<and>
    (\<forall>th < length (messageQ sv). messageQ sv' ! th =
       messageQ sv ! th @ routed sv (sref (s\<lparr>peer := a\<rparr>)) (map httpContent reqs) th)"
  using assms by (rule http_frames.delivered)

text \<open>A library for the witnesses: of the header it knows the one line of these requests, and a
  request is its bytes.\<close>

definition tinyLib :: http_lib where
  "tinyLib = \<lparr>ReadMIMEHeader = (\<lambda>d. Inr (\<lambda>k. if k = ''Content-Length'' then text_of (takeWhile (\<lambda>b. b \<noteq> 13) (drop 16 d)) else [])),
     ReadRequest = (\<lambda>d. Inr \<lparr>rHost = [], rPath = ''/a'', rURI = ''/a'', rProto11 = True, rBody = d\<rparr>)\<rparr>"

definition tinyReq :: bytes where
  "tinyReq = ascii ''PUT /a HTTP/1.1'' @ crlf @ ascii ''Content-Length: 3'' @ crlf @ crlf @ [1, 2, 3]"

definition tinyService :: "event list service" where
  "tinyService = \<lparr>Name = ''http'', imp = ServiceHttp tinyLib True (\<lambda>cur r. Ret 0) (\<lambda>r w. Done w) None,
     messageQ = [[]], threadId = 0, threadsNum = 1\<rparr>"

definition tinySession :: session where
  "tinySession = \<lparr>s_id = 3, writer = [], writerCap = 256, hander = [], handerCap = 256, closer = OpenChan,
     isclose = False, heartbeat = 0, hasConn = False, isUdp = False, peer = None, UserData = NoUser,
     sockOpen = True, sent = [], tempBuf = None, handing = True\<rparr>"

lemma tinyReq_head: "textIndex tinyReq (crlf @ crlf) = 34" "length tinyReq = 41"
  "map_option (\<lambda>g. g ''Content-Length'') (headOf tinyLib tinyReq) = Some ''3''"
  by code_simp+

lemma tinyReq_ok: "httpOk tinyLib (tinyReq, \<lparr>rHost = [], rPath = ''/a'', rURI = ''/a'', rProto11 = True, rBody = tinyReq\<rparr>)"
proof -
  from tinyReq_head(3) obtain g where g: "headOf tinyLib tinyReq = Some g" "g ''Content-Length'' = ''3''" by auto
  have "TrimString ''3'' = ''3''" by code_simp
  moreover have "parseUint10 63 ''3'' = Some 3" by (simp add: parseUint10_def)
  ultimately show ?thesis using tinyReq_head(1,2) g by (simp add: httpOk_def MaxMsgSize_def Let_def tinyLib_def)
qed

lemma tinyService_inv: "svcInv (httpImp tinyLib) isRequest (tinyService, [0], [])"
proof -
  have "httpImp tinyLib (imp tinyService)" by (auto simp: httpImp_def tinyService_def)
  then show ?thesis by (simp add: svcInv_def service_ok_def tinyService_def ServiceHttp_def returns_def isRequest_def split: imsg.splits)
qed

theorem http_requests_delivered_witness:
  "\<exists>s' sv' sig'. handAll svcParse tinySession (tinyService, [0], [])
      [(take 7 (tinyReq @ tinyReq), None), (drop 7 (tinyReq @ tinyReq), None)] = Ret (s', sv', sig', []) \<and>
    pending s' = [] \<and> length (messageQ sv' ! 0) = 2"
proof -
  let ?m = "(tinyReq, \<lparr>rHost = [], rPath = ''/a'', rURI = ''/a'', rProto11 = True, rBody = tinyReq\<rparr>)"
  have r: "tinySession\<lparr>peer := None\<rparr> = tinySession" by (simp add: tinySession_def)
  have th: "msgThread tinyService (sref tinySession) (httpContent ?m) = 0"
    by (simp add: msgThread_def httpContent_def getProcessor_def tinyService_def ServiceHttp_def)
  have n: "tinyReq \<noteq> []" "take 7 (tinyReq @ tinyReq) \<noteq> []" "drop 7 (tinyReq @ tinyReq) \<noteq> []"
    using tinyReq_head(2) by auto
  have l: "\<forall>q \<in> set (messageQ tinyService). length q + length [?m, ?m] \<le> queueLen"
    by (simp add: tinyService_def queueLen_def)
  have "\<exists>s' sv' sig'. handAll svcParse tinySession (tinyService, [0], [])
      [(take 7 (tinyReq @ tinyReq), None), (drop 7 (tinyReq @ tinyReq), None)] = Ret (s', sv', sig', []) \<and>
    pending s' = [] \<and> handing s' \<and> sockOpen s' = sockOpen tinySession \<and> svcInv (httpImp tinyLib) isRequest (sv', sig', []) \<and>
    (\<forall>th < length (messageQ tinyService). messageQ sv' ! th = messageQ tinyService ! th @
       routed tinyService (sref (tinySession\<lparr>peer := None\<rparr>)) (map httpContent [?m, ?m]) th)"
    using tinyReq_ok n by (intro http_requests_delivered [OF tinyService_inv _ l])
      (simp_all add: tinySession_def del: take_append drop_append)
  then obtain s' sv' sig' where s: "handAll svcParse tinySession (tinyService, [0], [])
      [(take 7 (tinyReq @ tinyReq), None), (drop 7 (tinyReq @ tinyReq), None)] = Ret (s', sv', sig', [])"
    "pending s' = []" "\<forall>th < length (messageQ tinyService). messageQ sv' ! th = messageQ tinyService ! th @
       routed tinyService (sref tinySession) (map httpContent [?m, ?m]) th" unfolding r by blast
  have "messageQ tinyService = [[]]" by (simp add: tinyService_def)
  with s(3) th have "length (messageQ sv' ! 0) = 2" by (simp add: routed_def)
  with s(1,2) show ?thesis by blast
qed

text \<open>The \<open>Content-Length\<close> a complete header announces.\<close>

definition announced :: "http_lib \<Rightarrow> bytes \<Rightarrow> nat option" where
  "announced lib data =
     (case headOf lib data of
        None \<Rightarrow> None
      | Some get \<Rightarrow> let cl = TrimString (get ''Content-Length'') in if cl = [] then None else parseUint10 63 cl)"

lemma parseUint10_less: "parseUint10 bits s = Some n \<Longrightarrow> n < 2 ^ bits"
  by (auto simp: parseUint10_def split: if_splits option.splits)

lemma wrap64_over: "2 ^ 63 \<le> z \<Longrightarrow> z < 2 ^ 64 \<Longrightarrow> wrap64 z = z - 2 ^ 64"
proof -
  assume z: "2 ^ 63 \<le> z" "z < 2 ^ 64"
  have "(word_of_int z :: u64) = word_of_int (z - 2 ^ 64)"
    by (simp add: word_of_int_eq_iff take_bit_eq_mod)
  then have "wrap64 z = wrap64 (z - 2 ^ 64)" by (simp only: wrap64_def)
  then show ?thesis using z by (simp add: wrap64_id)
qed

lemma httpUnmarshal_nohead:
  assumes "headOf lib data = None"
  shows "\<exists>p. httpUnmarshal lib data = Ret p \<and> (lenParsed p = 0 \<or> lenParsed p = int (length data))"
proof -
  let ?n = "textIndex data (crlf @ crlf)"
  show ?thesis
  proof (cases "?n \<le> 0 \<or> readLine (take (nat (?n + 4)) data) = None")
    case True
    then show ?thesis by (auto simp: httpUnmarshal_def Let_def needMore_def httpErr_def)
  next
    case False
    then obtain line rest where r: "\<not> ?n \<le> 0" "readLine (take (nat (?n + 4)) data) = Some (line, rest)" by auto
    let ?ss = "map text_of (textSplit line [32])"
    show ?thesis
    proof (cases "length ?ss = 3 \<and> ?ss ! 2 = ''HTTP/1.1''")
      case True
      then have "length (textSplit line [32]) = 3" "text_of (textSplit line [32] ! 2) = ''HTTP/1.1''" by auto
      with r assms obtain e where "ReadMIMEHeader lib rest = Inl e"
        by (auto simp: headOf_def Let_def split: sum.splits)
      with r True show ?thesis by (simp add: httpUnmarshal_def Let_def httpErr_def del: nth_map)
    next
      case False
      with r show ?thesis by (cases "length ?ss = 3") (simp_all add: httpUnmarshal_def Let_def httpErr_def del: nth_map)
    qed
  qed
qed

text \<open>C35: The parser stays inside its buffer except for one case: for a buffer of less than \<open>2^62\<close>
  bytes \<open>Unmarshal\<close> always returns or panics; it panics exactly when the header announces a
  \<open>Content-Length\<close> that overflows the length of the request, \<open>int(n)\<close> added to the header's
  length; otherwise the number of bytes it takes is neither negative nor more than there are.\<close>

theorem http_unmarshal_bounds:
  assumes "length data < 2 ^ 62"
  shows "httpUnmarshal lib data \<noteq> Diverge \<and>
    (httpUnmarshal lib data = Panic \<longleftrightarrow>
       (\<exists>n. announced lib data = Some n \<and> 2 ^ 63 \<le> textIndex data (crlf @ crlf) + 4 + int n)) \<and>
    (\<forall>p. httpUnmarshal lib data = Ret p \<longrightarrow> 0 \<le> lenParsed p \<and> lenParsed p \<le> int (length data))"
proof (cases "headOf lib data")
  case None
  with httpUnmarshal_nohead [OF None] show ?thesis by (auto simp: announced_def)
next
  case (Some get)
  let ?n = "textIndex data (crlf @ crlf)" and ?cl = "TrimString (get ''Content-Length'')"
  note h = httpUnmarshal_head [OF Some]
  have i: "0 < ?n" "?n + 4 \<le> int (length data)" using headOf_index [OF Some] headOf_append(3) [of data] by auto
  have ann: "announced lib data = (if ?cl = [] then None else parseUint10 63 ?cl)"
    by (simp add: announced_def Some Let_def)
  have whole: "0 \<le> d \<Longrightarrow> d \<le> int (length data) \<Longrightarrow> \<exists>p. readWhole lib data d = Ret p \<and> lenParsed p = d" for d
    by (auto simp: readWhole_def httpErr_def split: sum.splits)
  show ?thesis
  proof (cases "?cl = []")
    case True
    have "textIndex data (crlf @ [48] @ crlf) + 5 \<le> int (length data) \<or> textIndex data (crlf @ [48] @ crlf) < 0"
      using textIndex_bound [of data "crlf @ [48] @ crlf"] by (simp add: crlf_def)
    with True i whole [of "?n + 4"] whole [of "textIndex data (crlf @ [48] @ crlf) + 5"] have "bodyLen get data (?n + 4) = Inr None \<or>
        (\<exists>d p. bodyLen get data (?n + 4) = Inr (Some d) \<and> readWhole lib data d = Ret p \<and> lenParsed p = d \<and> 0 \<le> d \<and> d \<le> int (length data))"
      by (auto simp add: bodyLen_def Let_def)
    with h True ann show ?thesis by (auto simp: needMore_def)
  next
    case False
    show ?thesis
    proof (cases "parseUint10 63 ?cl")
      case None
      with h False ann show ?thesis by (simp add: bodyLen_def Let_def httpErr_def)
    next
      case (Some n)
      have n: "int n < 2 ^ 63" using parseUint10_less [OF Some] by (metis of_nat_less_iff of_nat_numeral of_nat_power)
      let ?z = "?n + 4 + int n"
      have l: "int (length data) < 2 ^ 62" using assms by (metis of_nat_less_iff of_nat_numeral of_nat_power)
      show ?thesis
      proof (cases "2 ^ 63 \<le> ?z")
        case True
        then have w: "wrap64 ?z = ?z - 2 ^ 64" "wrap64 ?z < 0" using wrap64_over [of ?z] i l n by auto
        then have "bodyLen get data (?n + 4) = Inr (Some (wrap64 ?z))"
          using False Some by (simp add: bodyLen_def Let_def)
        with h w(2) ann False Some True show ?thesis by (simp add: readWhole_def)
      next
        case nov: False
        then have w: "wrap64 ?z = ?z" using i by (intro wrap64_id) auto
        then have "bodyLen get data (?n + 4) = (if int (length data) < ?z then Inr None else Inr (Some ?z))"
          using False Some by (simp add: bodyLen_def Let_def)
        with h whole [of ?z] i ann False Some nov show ?thesis by (auto simp: needMore_def)
      qed
    qed
  qed
qed

theorem http_unmarshal_bounds_witness: "length tinyReq < 2 ^ 62 \<and> httpUnmarshal tinyLib tinyReq \<noteq> Diverge"
  using http_unmarshal_bounds [of tinyReq tinyLib] tinyReq_head(2) by simp

text \<open>C39: A chunked request spoils the connection: \<open>Unmarshal\<close> ends a chunked body at the first line
  \<open>0\<close> and leaves the empty line that ends the request in the buffer.  The request that follows on the
  connection then begins with an empty line, is refused as not being http and dropped with
  everything behind it.\<close>

theorem http_chunked_breaks_next:
  assumes "headOf lib req = Some get" "TrimString (get ''Content-Length'') = []"
    "TrimString (get ''Transfer-Encoding'') = ''chunked''"
    "textIndex req (crlf @ [48] @ crlf) = int (length req) - 5" "ReadRequest lib req = Inr r"
    "0 < textIndex nxt (crlf @ crlf)" "nxt ! 0 \<noteq> 13"
  shows "httpUnmarshal lib (req @ crlf @ nxt) =
      Ret \<lparr>lenParsed = int (length req), pMsgID = 0, pMsg = MHttp r, pErr = None\<rparr> \<and>
    httpUnmarshal lib (crlf @ nxt) = Ret (httpErr (int (length (crlf @ nxt))) ''not http'')"
proof
  note i = headOf_index [OF assms(1)]
  note a = headOf_append(1,2) [OF i, where y = "crlf @ nxt"] headOf_append(3) [OF i]
  have z: "0 < textIndex req (crlf @ [48] @ crlf)"
  proof (rule ccontr)
    assume "\<not> 0 < textIndex req (crlf @ [48] @ crlf)"
    then have l: "length req = 5" using a(3) i assms(4) by linarith
    then have "0 \<le> textIndex req (crlf @ [48] @ crlf)" using assms(4) by simp
    then obtain x y where "req = x @ (crlf @ [48] @ crlf) @ y" by (rule textIndex_found)
    moreover from this l have "x = []" "y = []" by (auto simp: crlf_def)
    ultimately have "req = crlf @ [48] @ crlf" by simp
    then have "textIndex req (crlf @ crlf) < 0" by (simp add: crlf_def textIndex_def)
    with i show False by simp
  qed
  have "textIndex (req @ crlf @ nxt) (crlf @ [48] @ crlf) = int (length req) - 5"
    using textIndex_append [of req "crlf @ [48] @ crlf" "crlf @ nxt"] z assms(4) by simp
  then have "bodyLen get (req @ crlf @ nxt) (textIndex req (crlf @ crlf) + 4) = Inr (Some (int (length req)))"
    using assms(2-4) z by (simp add: bodyLen_def Let_def)
  then show "httpUnmarshal lib (req @ crlf @ nxt) =
      Ret \<lparr>lenParsed = int (length req), pMsgID = 0, pMsg = MHttp r, pErr = None\<rparr>"
    using httpUnmarshal_head [of lib "req @ crlf @ nxt" get] a assms(1,5) by (simp add: readWhole_def)
next
  let ?d = "crlf @ nxt" and ?i = "textIndex (crlf @ nxt) (crlf @ crlf)"
  have "0 \<le> textIndex nxt (crlf @ crlf)" using assms(6) by simp
  then obtain x y where n: "nxt = x @ (crlf @ crlf) @ y" by (rule textIndex_found)
  then have "0 \<le> ?i" using textIndex_absent [of ?d "crlf @ crlf" "crlf @ x" y] by force
  moreover have "?i \<noteq> 0"
  proof
    assume "?i = 0"
    then have "0 \<le> ?i" by simp
    then obtain x' y' where "?d = x' @ (crlf @ crlf) @ y'" "?i = int (length x')" by (rule textIndex_found)
    with \<open>?i = 0\<close> have "nxt = crlf @ y'" by simp
    with assms(7) show False by (simp add: crlf_def)
  qed
  ultimately have p: "\<not> ?i \<le> 0" by simp
  then obtain k where k: "take (nat (?i + 4)) ?d = 13 # 10 # k"
    by (cases "nat (?i + 4)"; cases "nat (?i + 4) - 1") (auto simp: crlf_def)
  have "readLine (13 # 10 # k) = Some ([], k)" by (simp add: readLine_def Let_def)
  moreover have "textSplit [] [32 :: byte] = [[]]" by (subst textSplit.simps) (simp add: textIndex_def)
  ultimately show "httpUnmarshal lib ?d = Ret (httpErr (int (length ?d)) ''not http'')"
    using p k by (simp add: httpUnmarshal_def Let_def)
qed

definition chunkLib :: http_lib where
  "chunkLib = \<lparr>ReadMIMEHeader = (\<lambda>d. Inr (\<lambda>k. if k = ''Transfer-Encoding'' then ''chunked'' else [])),
     ReadRequest = (\<lambda>d. Inr \<lparr>rHost = [], rPath = ''/a'', rURI = ''/a'', rProto11 = True, rBody = d\<rparr>)\<rparr>"

definition chunkReq :: bytes where
  "chunkReq = ascii ''PUT /a HTTP/1.1'' @ crlf @ ascii ''Transfer-Encoding: chunked'' @ crlf @ crlf @
     ascii ''1'' @ crlf @ [7] @ crlf @ ascii ''0'' @ crlf"

lemma chunkReq_head: "map_option (\<lambda>g. (g ''Content-Length'', g ''Transfer-Encoding'')) (headOf chunkLib chunkReq) = Some ([], ''chunked'')"
  "textIndex chunkReq (crlf @ [48] @ crlf) = int (length chunkReq) - 5" "0 < textIndex tinyReq (crlf @ crlf)"
  "tinyReq ! 0 \<noteq> 13"
  by code_simp+

theorem http_chunked_breaks_next_witness:
  "httpUnmarshal chunkLib (crlf @ tinyReq) = Ret (httpErr 43 ''not http'') \<and>
   (case httpUnmarshal chunkLib (chunkReq @ crlf @ tinyReq) of Ret p \<Rightarrow> lenParsed p = int (length chunkReq) | _ \<Rightarrow> False)"
proof -
  from chunkReq_head(1) obtain g where g: "headOf chunkLib chunkReq = Some g" "g ''Content-Length'' = []" "g ''Transfer-Encoding'' = ''chunked''"
    by auto
  have t: "TrimString [] = []" "TrimString ''chunked'' = ''chunked''" by code_simp+
  have r: "ReadRequest chunkLib chunkReq = Inr \<lparr>rHost = [], rPath = ''/a'', rURI = ''/a'', rProto11 = True, rBody = chunkReq\<rparr>"
    by (simp add: chunkLib_def)
  from http_chunked_breaks_next [OF g(1) _ _ chunkReq_head(2) r chunkReq_head(3,4)] g t tinyReq_head(2)
  show ?thesis by (simp add: crlf_def)
qed

end
