(* ===== verification/Filelog.thy ===== *)
theory Filelog
  imports Gotext
begin

text \<open>
  The rotating file writer of the logger, \<open>src/stlog/filelog.go\<close> (the package
  \<open>stnet\<close> carries a copy of it): \<open>write\<close> opens the file on first use, rotates it
  when the day changes or the size limit is reached, and appends; \<open>renameFiles\<close> shifts
  the numbered backups.

  The file system is a map from paths to contents.  What the operating system decides is in
  the record \<open>fsenv\<close>: the date, which paths can be opened, which renames fail for another
  reason than a missing file, and whether a write is cut short.
\<close>

type_synonym fsys = "string \<rightharpoonup> string"

record fsenv =
  now_day :: int
  now_date :: string
  can_open :: "string \<Rightarrow> bool"
  can_rename :: "string \<Rightarrow> string \<Rightarrow> bool"
  short_write :: "nat option"

text \<open>The field \<open>file\<close> of the writer is nil, or a handle of the path \<open>filename\<close> that
  is open or has been closed.\<close>

datatype fhandle = NilFile | OpenFile | ClosedFile

record FileLogWriter =
  filename :: string
  basename :: string
  wfile :: fhandle
  maxsize :: int
  cursize :: int
  daily :: bool
  daily_opendate :: int
  maxbackup :: int

definition newFileLogger :: "fsenv \<Rightarrow> string \<Rightarrow> int \<Rightarrow> int \<Rightarrow> int \<Rightarrow> FileLogWriter" where
  "newFileLogger env fname msize dly mbackup =
     \<lparr>filename = fname, basename = fname, wfile = NilFile, maxsize = msize, cursize = 0,
      daily = (dly > 0), daily_opendate = now_day env, maxbackup = mbackup\<rparr>"

definition newFileWriter :: "fsenv \<Rightarrow> FileLogWriter \<Rightarrow> fsys \<Rightarrow> bool \<times> FileLogWriter \<times> fsys" where
  "newFileWriter env w0 fs =
     (let w1 = w0\<lparr>daily_opendate := now_day env\<rparr>;
          w = (if daily w1 then w1\<lparr>filename := basename w1 @ ''.'' @ now_date env\<rparr> else w1) in
      if \<not> can_open env (filename w) then (False, w, fs)
      else let fs' = (if fs (filename w) = None then fs(filename w \<mapsto> []) else fs) in
        (True, w\<lparr>wfile := OpenFile, cursize := int (length (the (fs' (filename w))))\<rparr>, fs'))"

definition flClose :: "FileLogWriter \<Rightarrow> FileLogWriter" where
  "flClose w = (if wfile w \<noteq> NilFile then w\<lparr>wfile := ClosedFile\<rparr> else w)"

text \<open>\<open>name + fmt.Sprintf(".%03d", i)\<close>.\<close>

definition backupName :: "string \<Rightarrow> nat \<Rightarrow> string" where
  "backupName name i =
     name @ ''.'' @ decimal3 i"

text \<open>\<open>os.Rename\<close>: \<open>None\<close> is an error that is not "does not exist"; a missing source
  leaves everything as it is.\<close>

definition osRename :: "fsenv \<Rightarrow> string \<Rightarrow> string \<Rightarrow> fsys \<Rightarrow> fsys option" where
  "osRename env frm to fs =
     (case fs frm of
        None \<Rightarrow> Some fs
      | Some c \<Rightarrow> if can_rename env frm to then Some ((fs(frm := None))(to \<mapsto> c)) else None)"

text \<open>The loop of \<open>renameFiles\<close> from \<open>i\<close> down to 2; \<open>fst\<close> tells whether it ended
  without an error.\<close>

fun shiftBackups :: "fsenv \<Rightarrow> string \<Rightarrow> nat \<Rightarrow> fsys \<Rightarrow> bool \<times> fsys" where
  "shiftBackups env name i fs =
     (if i \<le> 1 then (True, fs)
      else case osRename env (backupName name (i - 1)) (backupName name i) fs of
        None \<Rightarrow> (False, fs)
      | Some fs' \<Rightarrow> shiftBackups env name (i - 1) fs')"

declare shiftBackups.simps [simp del]

definition renameFiles :: "fsenv \<Rightarrow> string \<Rightarrow> int \<Rightarrow> fsys \<Rightarrow> bool \<times> fsys" where
  "renameFiles env name maxFiles fs =
     (if maxFiles < 2 then (True, fs)
      else case shiftBackups env name (nat (maxFiles - 1)) fs of
        (False, fs1) \<Rightarrow> (False, fs1)
      | (True, fs1) \<Rightarrow>
          (case osRename env name (name @ ''.001'') fs1 of
             None \<Rightarrow> (False, fs1)
           | Some fs2 \<Rightarrow> (True, fs2)))"

definition flRotate :: "fsenv \<Rightarrow> bool \<Rightarrow> FileLogWriter \<Rightarrow> fsys \<Rightarrow> bool \<times> FileLogWriter \<times> fsys" where
  "flRotate env oversize w fs =
     (let w1 = w\<lparr>wfile := NilFile\<rparr>;
          fs1 = (if oversize then snd (renameFiles env (filename w1) (maxbackup w1) fs) else fs) in
      newFileWriter env w1 fs1)"

text \<open>Appending to the handle: a closed handle is an error, a short write leaves a part of
  the message in the file and does not count towards the size.\<close>

definition appendFile :: "fsenv \<Rightarrow> string \<Rightarrow> FileLogWriter \<Rightarrow> fsys \<Rightarrow> bool \<times> FileLogWriter \<times> fsys" where
  "appendFile env msg w fs =
     (if wfile w \<noteq> OpenFile then (False, w, fs)
      else let old = (case fs (filename w) of None \<Rightarrow> [] | Some c \<Rightarrow> c) in
        case short_write env of
          Some k \<Rightarrow> (False, w, fs(filename w \<mapsto> old @ take k msg))
        | None \<Rightarrow> (True, w\<lparr>cursize := cursize w + int (length msg)\<rparr>, fs(filename w \<mapsto> old @ msg)))"

definition flWrite :: "fsenv \<Rightarrow> string \<Rightarrow> FileLogWriter \<Rightarrow> fsys \<Rightarrow> bool \<times> FileLogWriter \<times> fsys" where
  "flWrite env msg w0 fs0 =
     (case (if wfile w0 = NilFile then newFileWriter env w0 fs0 else (True, w0, fs0)) of
        (False, w, fs) \<Rightarrow> (False, w, fs)
      | (True, w, fs) \<Rightarrow>
          let day = (daily w \<and> now_day env \<noteq> daily_opendate w);
              oversize = (maxsize w > 0 \<and> cursize w \<ge> maxsize w) in
          case (if day \<or> oversize then flRotate env oversize w fs else (True, w, fs)) of
            (False, w', fs') \<Rightarrow> (False, w', fs')
          | (True, w', fs') \<Rightarrow> appendFile env msg w' fs')"


subsection \<open>Backup names\<close>

lemma backupName_inj [simp]: "backupName name i = backupName name j \<longleftrightarrow> i = j"
proof
  assume "backupName name i = backupName name j"
  then have "undecimal (decimal3 i) = undecimal (decimal3 j)" by (simp add: backupName_def)
  then show "i = j" by (simp add: undecimal_decimal3)
qed simp

lemma backupName_neq [simp]: "backupName name i \<noteq> name" "name \<noteq> backupName name i"
  by (simp_all add: backupName_def)

lemma backupName_1: "backupName name 1 = name @ ''.001''"
  by (simp add: backupName_def decimal3_def decimal.simps numeral_2_eq_2) code_simp

subsection \<open>Shifting the backups\<close>

definition env_ok :: "fsenv \<Rightarrow> bool" where
  "env_ok env \<longleftrightarrow> (\<forall>p. can_open env p) \<and> (\<forall>a b. can_rename env a b) \<and> short_write env = None"

text \<open>The generations of a log: number 0 is the current file.\<close>

definition gen :: "string \<Rightarrow> nat \<Rightarrow> string" where
  "gen name k = (if k = 0 then name else backupName name k)"

lemma gen_inj [simp]: "gen name i = gen name j \<longleftrightarrow> i = j"
  by (auto simp: gen_def)

definition no_gap :: "string \<Rightarrow> nat \<Rightarrow> fsys \<Rightarrow> bool" where
  "no_gap name m fs \<longleftrightarrow> (\<forall>k. Suc k < m \<longrightarrow> fs (gen name k) = None \<longrightarrow> fs (gen name (Suc k)) = None)"

lemma osRename_ok:
  "env_ok env \<Longrightarrow> osRename env a b fs =
     Some (case fs a of None \<Rightarrow> fs | Some c \<Rightarrow> (fs(a := None))(b \<mapsto> c))"
  by (simp add: osRename_def env_ok_def split: option.split)

lemma shiftBackups_shift:
  assumes "env_ok env" and "1 \<le> i"
    and "\<And>k. 1 \<le> k \<Longrightarrow> k < i \<Longrightarrow> fs (gen name k) = None \<Longrightarrow> fs (gen name (Suc k)) = None"
  shows "\<exists>fs'. shiftBackups env name i fs = (True, fs')
    \<and> (\<forall>k. 2 \<le> k \<longrightarrow> k \<le> i \<longrightarrow> fs' (gen name k) = fs (gen name (k - 1)))
    \<and> (2 \<le> i \<longrightarrow> fs' (gen name 1) = None)
    \<and> (\<forall>p. (\<forall>k. 1 \<le> k \<longrightarrow> k \<le> i \<longrightarrow> p \<noteq> gen name k) \<longrightarrow> fs' p = fs p)"
  using assms(2,3)
proof (induction i arbitrary: fs)
  case (Suc i)
  show ?case
  proof (cases "i = 0")
    case True
    then show ?thesis by (auto simp: shiftBackups.simps)
  next
    case False
    let ?f = "gen name i" and ?t = "gen name (Suc i)"
    define fs1 where "fs1 = (case fs ?f of None \<Rightarrow> fs | Some c \<Rightarrow> (fs(?f := None))(?t \<mapsto> c))"
    have f: "fs1 ?f = None" "fs1 ?t = fs ?f" "\<And>p. p \<noteq> ?f \<Longrightarrow> p \<noteq> ?t \<Longrightarrow> fs1 p = fs p"
      using Suc.prems(2) [of i] False by (auto simp: fs1_def split: option.splits)
    have pre: "fs1 (gen name (Suc k)) = None" if "1 \<le> k" "k < i" "fs1 (gen name k) = None" for k
      using that f Suc.prems(2) [of k] by (cases "Suc k = i") auto
    from False have "1 \<le> i" by simp
    from Suc.IH [of fs1, OF this pre] obtain fs' where fs':
      "shiftBackups env name i fs1 = (True, fs')"
      "\<And>k. 2 \<le> k \<Longrightarrow> k \<le> i \<Longrightarrow> fs' (gen name k) = fs1 (gen name (k - 1))"
      "2 \<le> i \<Longrightarrow> fs' (gen name 1) = None"
      "\<And>p. (\<forall>k. 1 \<le> k \<longrightarrow> k \<le> i \<longrightarrow> p \<noteq> gen name k) \<Longrightarrow> fs' p = fs1 p"
      by blast
    have "shiftBackups env name (Suc i) fs = (True, fs')"
    proof -
      have g: "backupName name i = ?f" "backupName name (Suc i) = ?t"
        using False by (simp_all add: gen_def)
      from False fs'(1) show ?thesis
        by (subst shiftBackups.simps) (simp add: osRename_ok [OF assms(1)] fs1_def g)
    qed
    moreover have "fs' (gen name k) = fs (gen name (k - 1))" if "2 \<le> k" "k \<le> Suc i" for k
    proof (cases "k = Suc i")
      case True
      then show ?thesis using fs'(4) [of ?t] f(2) by auto
    next
      case False
      with that show ?thesis using fs'(2) [of k] f(3) [of "gen name (k - 1)"] by auto
    qed
    moreover have "fs' (gen name 1) = None"
      using fs'(3) fs'(4) [of ?t] f(1) \<open>i \<noteq> 0\<close> fs'(1)
      by (cases "i = 1") (auto simp: shiftBackups.simps)
    moreover have "fs' p = fs p" if "\<forall>k. 1 \<le> k \<longrightarrow> k \<le> Suc i \<longrightarrow> p \<noteq> gen name k" for p
      using that fs'(4) [of p] f(3) [of p] False by auto
    ultimately show ?thesis by blast
  qed
qed simp

lemma renameFiles_shift:
  assumes "env_ok env" and "2 \<le> m" and "no_gap name (nat m) fs" and "fs name = Some c"
  shows "\<exists>fs'. renameFiles env name m fs = (True, fs') \<and> fs' name = None
    \<and> (\<forall>k. Suc k < nat m \<longrightarrow> fs' (gen name (Suc k)) = fs (gen name k))
    \<and> (\<forall>p. (\<forall>k<nat m. p \<noteq> gen name k) \<longrightarrow> fs' p = fs p)"
proof -
  let ?i = "nat (m - 1)"
  have "\<exists>fs'. shiftBackups env name ?i fs = (True, fs')
    \<and> (\<forall>k. 2 \<le> k \<longrightarrow> k \<le> ?i \<longrightarrow> fs' (gen name k) = fs (gen name (k - 1)))
    \<and> (2 \<le> ?i \<longrightarrow> fs' (gen name 1) = None)
    \<and> (\<forall>p. (\<forall>k. 1 \<le> k \<longrightarrow> k \<le> ?i \<longrightarrow> p \<noteq> gen name k) \<longrightarrow> fs' p = fs p)"
    using assms(1-3) by (intro shiftBackups_shift) (auto simp: no_gap_def)
  then obtain fs1 where fs1: "shiftBackups env name ?i fs = (True, fs1)"
    "\<And>k. 2 \<le> k \<Longrightarrow> k \<le> ?i \<Longrightarrow> fs1 (gen name k) = fs (gen name (k - 1))"
    "\<And>p. (\<forall>k. 1 \<le> k \<longrightarrow> k \<le> ?i \<longrightarrow> p \<noteq> gen name k) \<Longrightarrow> fs1 p = fs p"
    by blast
  let ?fs = "(fs1(name := None))(gen name 1 \<mapsto> c)"
  have n: "fs1 name = Some c" using fs1(3) [of name] assms(4) by (simp add: gen_def)
  then have "renameFiles env name m fs = (True, ?fs)"
    using assms(1,2) fs1(1) backupName_1 [of name]
    by (simp add: renameFiles_def osRename_ok gen_def)
  moreover have "?fs (gen name (Suc k)) = fs (gen name k)" if "Suc k < nat m" for k
    using that fs1(2) [of "Suc k"] assms(4) by (cases "k = 0") (auto simp: gen_def)
  moreover have "?fs p = fs p" if "\<forall>k<nat m. p \<noteq> gen name k" for p
  proof -
    have "p \<noteq> name" using that assms(2) by (auto simp: gen_def dest: spec [of _ 0])
    moreover have "p \<noteq> gen name 1" using that assms(2) by auto
    moreover have "\<forall>k. 1 \<le> k \<longrightarrow> k \<le> ?i \<longrightarrow> p \<noteq> gen name k" using that assms(2) by auto
    ultimately show ?thesis using fs1(3) [of p] by simp
  qed
  moreover have "?fs name = None" by (simp add: gen_def)
  ultimately show ?thesis by blast
qed

end
