(* ===== verification/Filelog_Props.thy ===== *)
theory Filelog_Props
  imports Filelog
begin

text \<open>
  The contract between the logger and its file: a sink takes messages and keeps a text; a
  write succeeds, keeps the sink's invariant, and the new text is a suffix of the old text
  followed by the message (rotation may drop the oldest generation, nothing else).  The
  locale \<open>log_sink\<close> states it and derives the law for a sequence of writes; the rotating
  file writer is shown to be a sink.
\<close>

lemma suffix_append_same: "suffix a b \<Longrightarrow> suffix (a @ c) (b @ c)"
  by (auto simp: suffix_def)

locale log_sink =
  fixes put :: "'e \<Rightarrow> string \<Rightarrow> 'w \<Rightarrow> bool \<times> 'w"
    and sink_inv :: "'w \<Rightarrow> bool"
    and txt_of :: "'w \<Rightarrow> string"
    and unlimited :: "'w \<Rightarrow> bool"
    and good :: "'e \<Rightarrow> bool"
  assumes write_ok: "sink_inv w \<Longrightarrow> good e \<Longrightarrow> fst (put e m w) \<and> sink_inv (snd (put e m w))"
    and write_suffix: "sink_inv w \<Longrightarrow> good e \<Longrightarrow> suffix (txt_of (snd (put e m w))) (txt_of w @ m)"
    and write_keeps: "sink_inv w \<Longrightarrow> good e \<Longrightarrow> unlimited w
      \<Longrightarrow> unlimited (snd (put e m w)) \<and> txt_of (snd (put e m w)) = txt_of w @ m"
begin

primrec writes :: "('e \<times> string) list \<Rightarrow> 'w \<Rightarrow> 'w" where
  "writes [] w = w"
| "writes (em # ems) w = writes ems (snd (put (fst em) (snd em) w))"

lemma writes_inv: "sink_inv w \<Longrightarrow> list_all (good \<circ> fst) ems \<Longrightarrow> sink_inv (writes ems w)"
  by (induction ems arbitrary: w) (auto simp: write_ok)

lemma writes_suffix:
  "sink_inv w \<Longrightarrow> list_all (good \<circ> fst) ems
   \<Longrightarrow> suffix (txt_of (writes ems w)) (txt_of w @ concat (map snd ems))"
proof (induction ems arbitrary: w)
  case (Cons em ems)
  let ?w = "snd (put (fst em) (snd em) w)"
  have "suffix (txt_of (writes ems ?w)) (txt_of ?w @ concat (map snd ems))"
    using Cons write_ok by auto
  moreover have "suffix (txt_of ?w @ concat (map snd ems)) ((txt_of w @ snd em) @ concat (map snd ems))"
    using Cons.prems write_suffix by (intro suffix_append_same) auto
  ultimately show ?case by (auto intro: suffix_order.trans)
qed simp

lemma writes_keeps:
  "sink_inv w \<Longrightarrow> list_all (good \<circ> fst) ems \<Longrightarrow> unlimited w
   \<Longrightarrow> unlimited (writes ems w) \<and> txt_of (writes ems w) = txt_of w @ concat (map snd ems)"
  by (induction ems arbitrary: w) (auto simp: write_ok write_keeps)

lemma writes_snoc: "writes (ems @ [em]) w = snd (put (fst em) (snd em) (writes ems w))"
  by (induction ems arbitrary: w) auto

end


subsection \<open>The invariant of the writer\<close>

text \<open>How many generations a writer keeps, and their text, oldest first.\<close>

definition generations :: "FileLogWriter \<Rightarrow> nat" where
  "generations w = max 1 (nat (maxbackup w))"

definition content :: "fsys \<Rightarrow> string \<Rightarrow> string" where
  "content fs p = (case fs p of None \<Rightarrow> [] | Some c \<Rightarrow> c)"

definition logtext :: "FileLogWriter \<times> fsys \<Rightarrow> string" where
  "logtext x = concat (map (\<lambda>k. content (snd x) (gen (filename (fst x)) k)) (rev [0..<generations (fst x)]))"

definition writer_inv :: "FileLogWriter \<times> fsys \<Rightarrow> bool" where
  "writer_inv x \<longleftrightarrow> (let w = fst x; fs = snd x in
     \<not> daily w \<and> wfile w \<noteq> ClosedFile \<and> no_gap (filename w) (generations w) fs \<and>
     (wfile w = OpenFile \<longrightarrow> fs (filename w) \<noteq> None \<and> cursize w = int (length (content fs (filename w)))))"

definition sinkWrite :: "fsenv \<Rightarrow> string \<Rightarrow> FileLogWriter \<times> fsys \<Rightarrow> bool \<times> FileLogWriter \<times> fsys" where
  "sinkWrite env m x = flWrite env m (fst x) (snd x)"

lemma generations_upt: "rev [0..<generations w] = rev [1..<generations w] @ [0]"
  by (simp add: generations_def upt_conv_Cons)

lemma logtext_split:
  "logtext (w, fs) = concat (map (\<lambda>k. content fs (gen (filename w) k)) (rev [1..<generations w]))
     @ content fs (filename w)"
  by (simp add: logtext_def generations_upt gen_def)

lemma newFileWriter_open:
  assumes "env_ok env" and "\<not> daily w"
    and "no_gap (filename w) (generations w) (if fs (filename w) = None then fs(filename w \<mapsto> []) else fs)"
  shows "\<exists>w' fs'. newFileWriter env w fs = (True, w', fs') \<and> writer_inv (w', fs') \<and> wfile w' = OpenFile
    \<and> filename w' = filename w \<and> maxbackup w' = maxbackup w \<and> maxsize w' = maxsize w
    \<and> fs' = (if fs (filename w) = None then fs(filename w \<mapsto> []) else fs)"
  using assms
  by (auto simp: newFileWriter_def env_ok_def writer_inv_def generations_def content_def Let_def)

lemma no_gap_touch:
  "no_gap n m fs \<Longrightarrow> no_gap n m (if fs n = None then fs(n \<mapsto> []) else fs)"
  by (auto simp: no_gap_def gen_def)

lemma logtext_touch: "fs p = None \<Longrightarrow> logtext (w, fs(p \<mapsto> [])) = logtext (w, fs)"
proof -
  assume "fs p = None"
  then have "content (fs(p \<mapsto> [])) = content fs" by (auto simp: content_def fun_eq_iff)
  then show ?thesis by (simp add: logtext_def)
qed

lemma logtext_cong:
  "filename w' = filename w \<Longrightarrow> maxbackup w' = maxbackup w \<Longrightarrow> logtext (w', fs) = logtext (w, fs)"
  by (simp add: logtext_def generations_def)

lemma open_step:
  assumes "env_ok env" and "writer_inv (w, fs)"
  shows "\<exists>w' fs'. (if wfile w = NilFile then newFileWriter env w fs else (True, w, fs)) = (True, w', fs')
    \<and> writer_inv (w', fs') \<and> wfile w' = OpenFile \<and> filename w' = filename w
    \<and> maxbackup w' = maxbackup w \<and> maxsize w' = maxsize w \<and> logtext (w', fs') = logtext (w, fs)
    \<and> fs' = (if fs (filename w) = None then fs(filename w \<mapsto> []) else fs)"
proof (cases "wfile w = NilFile")
  case True
  from assms newFileWriter_open [OF assms(1), of w fs] obtain w' fs' where
    "newFileWriter env w fs = (True, w', fs')" "writer_inv (w', fs')" "wfile w' = OpenFile"
    "filename w' = filename w" "maxbackup w' = maxbackup w" "maxsize w' = maxsize w"
    "fs' = (if fs (filename w) = None then fs(filename w \<mapsto> []) else fs)"
    by (auto simp: writer_inv_def Let_def no_gap_touch)
  with True show ?thesis
    using logtext_cong [of w' w fs'] logtext_touch [of fs "filename w" w] by auto
next
  case False
  with assms show ?thesis by (cases "wfile w") (auto simp: writer_inv_def Let_def)
qed

lemma logtext_shift:
  assumes "generations w = m" and "filename w = n" and "2 \<le> m"
    and "\<And>k. Suc k < m \<Longrightarrow> fs1 (gen n (Suc k)) = fs (gen n k)"
  shows "logtext (w, fs) = content fs (gen n (m - 1)) @ logtext (w, fs1(n \<mapsto> []))"
proof -
  obtain j where j: "m = Suc j" using assms(3) by (cases m) auto
  let ?c = "\<lambda>k. content fs (gen n k)"
  have "map (\<lambda>k. content (fs1(n \<mapsto> [])) (gen n k)) (rev [1..<Suc j]) = map ?c (rev [0..<j])"
    using assms(4) j by (auto simp: content_def gen_def rev_map map_Suc_upt [symmetric] simp del: upt_Suc)
  then have "logtext (w, fs1(n \<mapsto> [])) = concat (map ?c (rev [0..<j]))"
    using assms(1,2) j by (simp add: logtext_split content_def del: upt_Suc)
  moreover have "logtext (w, fs) = ?c j @ concat (map ?c (rev [0..<j]))"
    using assms(1,2) j by (simp add: logtext_def)
  ultimately show ?thesis using j by simp
qed

text \<open>The effect of a rotation on the files: every generation moves up by one, the oldest is
  overwritten, and the current file is new.\<close>

definition shifted :: "string \<Rightarrow> nat \<Rightarrow> string \<Rightarrow> fsys \<Rightarrow> fsys \<Rightarrow> bool" where
  "shifted n m cur fs fs' \<longleftrightarrow> fs' n = Some cur
     \<and> (\<forall>k. Suc k < m \<longrightarrow> fs' (gen n (Suc k)) = fs (gen n k))
     \<and> (\<forall>p. (\<forall>k<m. p \<noteq> gen n k) \<longrightarrow> fs' p = fs p)"

lemma shifted_append: "shifted n m c fs fs' \<Longrightarrow> 0 < m \<Longrightarrow> shifted n m d fs (fs'(n \<mapsto> d))"
  by (auto simp: shifted_def gen_def)

lemma shifted_logtext:
  assumes "shifted (filename w) (generations w) [] fs fs'" and "2 \<le> generations w"
  shows "logtext (w, fs) = content fs (gen (filename w) (generations w - 1)) @ logtext (w, fs')"
proof -
  have "fs'(filename w \<mapsto> []) = fs'" using assms(1) by (simp add: shifted_def fun_upd_idem)
  with logtext_shift [of w _ "filename w" fs' fs, OF refl refl assms(2)] assms(1) show ?thesis
    by (simp add: shifted_def)
qed

lemma flRotate_step:
  assumes "env_ok env" and "writer_inv (w, fs)" and "wfile w = OpenFile"
  shows "\<exists>w' fs'. flRotate env True w fs = (True, w', fs')
    \<and> writer_inv (w', fs') \<and> wfile w' = OpenFile \<and> filename w' = filename w
    \<and> maxbackup w' = maxbackup w \<and> maxsize w' = maxsize w
    \<and> (if 2 \<le> maxbackup w then shifted (filename w) (generations w) [] fs fs' else fs' = fs)"
proof -
  let ?n = "filename w" and ?w = "w\<lparr>wfile := NilFile\<rparr>"
  let ?fs = "snd (renameFiles env ?n (maxbackup w) fs)"
  obtain c where c: "fs ?n = Some c" using assms(2,3) by (auto simp: writer_inv_def Let_def)
  have gap: "no_gap ?n (generations w) fs" and nd: "\<not> daily w"
    using assms(2) by (auto simp: writer_inv_def Let_def)
  show ?thesis
  proof (cases "maxbackup w < 2")
    case True
    then have "?fs = fs" by (simp add: renameFiles_def)
    then have r: "flRotate env True w fs = newFileWriter env ?w fs" by (simp add: flRotate_def)
    have "\<exists>w' fs'. newFileWriter env ?w fs = (True, w', fs') \<and> writer_inv (w', fs')
        \<and> wfile w' = OpenFile \<and> filename w' = filename ?w \<and> maxbackup w' = maxbackup ?w
        \<and> maxsize w' = maxsize ?w \<and> fs' = (if fs (filename ?w) = None then fs(filename ?w \<mapsto> []) else fs)"
      using gap nd c by (intro newFileWriter_open [OF assms(1)]) (auto simp: generations_def)
    then obtain w' where w': "newFileWriter env ?w fs = (True, w', fs)"
        "writer_inv (w', fs)" "wfile w' = OpenFile" "filename w' = ?n"
        "maxbackup w' = maxbackup w" "maxsize w' = maxsize w"
      using c by auto
    with True r show ?thesis by auto
  next
    case False
    then have g: "generations w = nat (maxbackup w)" by (simp add: generations_def)
    from renameFiles_shift [OF assms(1) _ gap [unfolded g] c] False obtain fs1 where
      fs1: "renameFiles env ?n (maxbackup w) fs = (True, fs1)" "fs1 ?n = None"
        "\<And>k. Suc k < nat (maxbackup w) \<Longrightarrow> fs1 (gen ?n (Suc k)) = fs (gen ?n k)"
        "\<And>p. \<forall>k<nat (maxbackup w). p \<noteq> gen ?n k \<Longrightarrow> fs1 p = fs p"
      by auto
    have gap1: "no_gap ?n (generations w) (fs1(?n \<mapsto> []))"
    proof (unfold no_gap_def, intro allI impI)
      fix k
      assume k: "Suc k < generations w" and n: "(fs1(?n \<mapsto> [])) (gen ?n k) = None"
      then obtain j where "k = Suc j" by (cases k) (auto simp: gen_def)
      with k n fs1(3) gap g show "(fs1(?n \<mapsto> [])) (gen ?n (Suc k)) = None"
        by (auto simp: no_gap_def gen_def split: if_splits)
    qed
    have r: "flRotate env True w fs = newFileWriter env ?w fs1"
      by (simp add: flRotate_def fs1(1))
    have "\<exists>w' fs'. newFileWriter env ?w fs1 = (True, w', fs') \<and> writer_inv (w', fs')
        \<and> wfile w' = OpenFile \<and> filename w' = filename ?w \<and> maxbackup w' = maxbackup ?w
        \<and> maxsize w' = maxsize ?w \<and> fs' = (if fs1 (filename ?w) = None then fs1(filename ?w \<mapsto> []) else fs1)"
      using gap1 nd fs1(2) by (intro newFileWriter_open [OF assms(1)]) (auto simp: generations_def)
    then obtain w' where w': "newFileWriter env ?w fs1 = (True, w', fs1(?n \<mapsto> []))"
        "writer_inv (w', fs1(?n \<mapsto> []))" "wfile w' = OpenFile" "filename w' = ?n"
        "maxbackup w' = maxbackup w" "maxsize w' = maxsize w"
      using fs1(2) by auto
    moreover have "shifted ?n (generations w) [] fs (fs1(?n \<mapsto> []))"
      using fs1(3,4) False by (auto simp: shifted_def g gen_def dest: spec [of _ 0])
    ultimately show ?thesis using r False by auto
  qed
qed

lemma append_step:
  assumes "env_ok env" and "writer_inv (w, fs)" and "wfile w = OpenFile"
  shows "\<exists>w' fs'. appendFile env m w fs = (True, w', fs') \<and> writer_inv (w', fs')
    \<and> maxsize w' = maxsize w \<and> filename w' = filename w \<and> maxbackup w' = maxbackup w
    \<and> logtext (w', fs') = logtext (w, fs) @ m \<and> fs' = fs(filename w \<mapsto> content fs (filename w) @ m)"
proof -
  let ?n = "filename w"
  let ?fs = "fs(?n \<mapsto> content fs ?n @ m)"
  let ?w = "w\<lparr>cursize := cursize w + int (length m)\<rparr>"
  have a: "appendFile env m w fs = (True, ?w, ?fs)"
    using assms(1,3) by (simp add: appendFile_def env_ok_def content_def)
  have "no_gap ?n (generations w) ?fs"
    using assms(2) by (auto simp: writer_inv_def no_gap_def gen_def Let_def)
  then have "writer_inv (?w, ?fs)"
    using assms(2,3) by (simp add: writer_inv_def Let_def generations_def content_def)
  moreover have "logtext (?w, ?fs) = logtext (w, fs) @ m"
  proof -
    have "map (\<lambda>k. content ?fs (gen ?n k)) (rev [1..<generations w]) =
        map (\<lambda>k. content fs (gen ?n k)) (rev [1..<generations w])"
      by (auto simp: content_def gen_def)
    moreover have "logtext (?w, ?fs) = logtext (w, ?fs)" by (rule logtext_cong) auto
    moreover have "content ?fs ?n = content fs ?n @ m" by (simp add: content_def)
    ultimately show ?thesis using logtext_split [of w ?fs] logtext_split [of w fs]
      by (simp only: append_assoc)
  qed
  ultimately show ?thesis using a by auto
qed

text \<open>When a write rotates: the current file has reached the limit and backups are kept.\<close>

definition rotates :: "FileLogWriter \<Rightarrow> fsys \<Rightarrow> bool" where
  "rotates w fs \<longleftrightarrow> 0 < maxsize w \<and> maxsize w \<le> int (length (content fs (filename w))) \<and> 2 \<le> maxbackup w"

definition touched :: "string \<Rightarrow> fsys \<Rightarrow> fsys" where
  "touched n fs = (if fs n = None then fs(n \<mapsto> []) else fs)"

lemma touched_simps [simp]:
  "content (touched n fs) = content fs" "(touched n fs)(n \<mapsto> c) = fs(n \<mapsto> c)" "content fs n \<noteq> [] \<Longrightarrow> touched n fs = fs"
  by (auto simp: touched_def content_def fun_eq_iff split: option.splits)

lemma rotate_step:
  assumes "env_ok env" and "writer_inv (w, fs)" and "wfile w = OpenFile"
  defines "over \<equiv> maxsize w > 0 \<and> cursize w \<ge> maxsize w"
  shows "\<exists>w' fs'. (if over then flRotate env over w fs else (True, w, fs)) = (True, w', fs')
    \<and> writer_inv (w', fs') \<and> wfile w' = OpenFile \<and> filename w' = filename w
    \<and> maxbackup w' = maxbackup w \<and> maxsize w' = maxsize w
    \<and> (if rotates w fs then shifted (filename w) (generations w) [] fs fs' else fs' = fs)"
proof (cases over)
  case True
  have "cursize w = int (length (content fs (filename w)))" using assms(2,3) by (simp add: writer_inv_def Let_def)
  with True have "rotates w fs \<longleftrightarrow> 2 \<le> maxbackup w" by (simp add: rotates_def over_def)
  with True flRotate_step [OF assms(1-3)] show ?thesis by (simp add: over_def)
next
  case False
  have "cursize w = int (length (content fs (filename w)))" using assms(2,3) by (simp add: writer_inv_def Let_def)
  with False have "\<not> rotates w fs" by (auto simp: rotates_def over_def)
  with False assms(2,3) show ?thesis by simp
qed

lemma flWrite_exact:
  assumes "env_ok env" and "writer_inv (w, fs)"
  shows "\<exists>w' fs'. flWrite env m w fs = (True, w', fs') \<and> writer_inv (w', fs')
    \<and> maxsize w' = maxsize w \<and> filename w' = filename w \<and> maxbackup w' = maxbackup w
    \<and> (if rotates w fs
       then shifted (filename w) (generations w) m fs fs'
         \<and> logtext (w, fs) @ m = content fs (gen (filename w) (generations w - 1)) @ logtext (w', fs')
       else fs' = fs(filename w \<mapsto> content fs (filename w) @ m) \<and> logtext (w', fs') = logtext (w, fs) @ m)"
proof -
  let ?n = "filename w"
  from open_step [OF assms] obtain w1 where o:
    "(if wfile w = NilFile then newFileWriter env w fs else (True, w, fs)) = (True, w1, touched ?n fs)"
    "writer_inv (w1, touched ?n fs)" "wfile w1 = OpenFile" "filename w1 = ?n"
    "maxbackup w1 = maxbackup w" "maxsize w1 = maxsize w" "logtext (w1, touched ?n fs) = logtext (w, fs)"
    unfolding touched_def by blast
  have nd: "\<not> daily w1" using o(2) by (simp add: writer_inv_def Let_def)
  have rot: "rotates w1 (touched ?n fs) = rotates w fs" "generations w1 = generations w"
    using o(4-6) by (simp_all add: rotates_def generations_def)
  let ?over = "maxsize w1 > 0 \<and> cursize w1 \<ge> maxsize w1"
  from rotate_step [OF assms(1) o(2,3)] obtain w2 fs2 where
    r: "(if ?over then flRotate env ?over w1 (touched ?n fs) else (True, w1, touched ?n fs)) = (True, w2, fs2)"
      "writer_inv (w2, fs2)" "wfile w2 = OpenFile" "filename w2 = ?n" "maxbackup w2 = maxbackup w" "maxsize w2 = maxsize w"
      "if rotates w fs then shifted ?n (generations w) [] (touched ?n fs) fs2 else fs2 = touched ?n fs"
    unfolding rot o(4-6) by blast
  from append_step [OF assms(1) r(2,3), of m] obtain w' where a:
    "appendFile env m w2 fs2 = (True, w', fs2(?n \<mapsto> content fs2 ?n @ m))" "writer_inv (w', fs2(?n \<mapsto> content fs2 ?n @ m))"
    "maxsize w' = maxsize w" "filename w' = ?n" "maxbackup w' = maxbackup w"
    "logtext (w', fs2(?n \<mapsto> content fs2 ?n @ m)) = logtext (w2, fs2) @ m"
    unfolding r(4-6) by blast
  have W: "flWrite env m w fs = (True, w', fs2(?n \<mapsto> content fs2 ?n @ m))"
    using nd by (simp add: flWrite_def o(1) Let_def r(1) a(1))
  have l2: "logtext (w2, f) = logtext (w, f)" for f using r(4,5) by (rule logtext_cong)
  show ?thesis
  proof (cases "rotates w fs")
    case True
    then have "content fs ?n \<noteq> []" by (auto simp: rotates_def)
    with True r(7) have s: "shifted ?n (generations w) [] fs fs2" by simp
    then have c: "content fs2 ?n = []" by (simp add: shifted_def content_def)
    have g: "2 \<le> generations w" using True by (auto simp: rotates_def generations_def)
    have "shifted ?n (generations w) m fs (fs2(?n \<mapsto> m))" using s g by (intro shifted_append) simp_all
    with True W a c l2 shifted_logtext [OF s g] show ?thesis by simp
  next
    case False
    with r(7) have f: "fs2 = touched ?n fs" by simp
    have "logtext (w2, touched ?n fs) = logtext (w, fs)"
      using o(4,5,7) r(4,5) logtext_cong [of w2 w1 "touched ?n fs"] by simp
    with False W a f show ?thesis by simp
  qed
qed

lemma flWrite_law:
  assumes "env_ok env" and "writer_inv (w, fs)"
  shows "\<exists>w' fs'. flWrite env m w fs = (True, w', fs') \<and> writer_inv (w', fs')
    \<and> maxsize w' = maxsize w
    \<and> suffix (logtext (w', fs')) (logtext (w, fs) @ m)
    \<and> (maxsize w \<le> 0 \<longrightarrow> logtext (w', fs') = logtext (w, fs) @ m)"
proof -
  from flWrite_exact [OF assms, of m] obtain w' fs' where
    w: "flWrite env m w fs = (True, w', fs')" "writer_inv (w', fs')" "maxsize w' = maxsize w"
      "if rotates w fs
       then logtext (w, fs) @ m = content fs (gen (filename w) (generations w - 1)) @ logtext (w', fs')
       else logtext (w', fs') = logtext (w, fs) @ m"
    by (auto split: if_splits)
  then have "suffix (logtext (w', fs')) (logtext (w, fs) @ m)" by (auto simp: suffix_def split: if_splits)
  moreover have "maxsize w \<le> 0 \<longrightarrow> logtext (w', fs') = logtext (w, fs) @ m" using w(4) by (simp add: rotates_def)
  ultimately show ?thesis using w by blast
qed

interpretation file_sink: log_sink sinkWrite writer_inv logtext "\<lambda>x. maxsize (fst x) \<le> 0" env_ok
proof
  fix x :: "FileLogWriter \<times> fsys" and env m
  assume *: "writer_inv x" "env_ok env"
  obtain w fs where x: "x = (w, fs)" by (cases x)
  from flWrite_law [OF *(2) *(1) [unfolded x], of m] obtain w' fs' where
    l: "sinkWrite env m x = (True, w', fs')" "writer_inv (w', fs')" "maxsize w' = maxsize w"
      "suffix (logtext (w', fs')) (logtext x @ m)"
      "maxsize w \<le> 0 \<longrightarrow> logtext (w', fs') = logtext x @ m"
    by (auto simp: sinkWrite_def x)
  then show "fst (sinkWrite env m x) \<and> writer_inv (snd (sinkWrite env m x))" by simp
  from l show "suffix (logtext (snd (sinkWrite env m x))) (logtext x @ m)" by simp
  assume "maxsize (fst x) \<le> 0"
  with l x show "maxsize (fst (snd (sinkWrite env m x))) \<le> 0 \<and> logtext (snd (sinkWrite env m x)) = logtext x @ m"
    by simp
qed

end
