(* ===== verification/Stlog.thy ===== *)
theory Stlog
  imports Filelog_Props
begin

text \<open>
  The asynchronous logger of \<open>src/stlog/stlog.go\<close> (copied in \<open>src/stnet/stlog.go\<close>).
  Callers put records into a buffered channel; one goroutine takes them out, prints them,
  collects the text for the file in a buffer and writes the buffer when 1024 rounds have
  passed or the 300 ms ticker fires; a record of level \<open>CLOSE\<close> ends it.

  The state is the record \<open>Logger\<close>: the channel as a list, the two channels that are only
  ever closed as flags, the levels, the file writer, and the goroutine's local variables.
  Every atomic step of a caller or of the goroutine is a function; a \<open>select\<close> with more
  than one ready case takes the alternative that is passed to the step.  A panic of the
  goroutine ends the process and is \<open>Panic\<close>.
\<close>

type_synonym Level = int

definition SYSTEM :: Level where "SYSTEM = 0"
definition DEBUG :: Level where "DEBUG = 1"
definition INFO :: Level where "INFO = 2"
definition WARNING :: Level where "WARNING = 3"
definition ERROR :: Level where "ERROR = 4"
definition CRITICAL :: Level where "CRITICAL = 5"
definition CLOSE :: Level where "CLOSE = 6"

definition levelStrings :: "string list" where
  "levelStrings = [''SYSM'', ''DEBG'', ''INFO'', ''WARN'', ''EROR'', ''CRIT'']"

definition levelString :: "Level \<Rightarrow> string go" where
  "levelString l =
     (if l < 0 \<or> l > int (length levelStrings) then Ret ''UNKNOWN''
      else if nat l < length levelStrings then Ret (levelStrings ! nat l) else Panic)"

record LogRecord =
  rec_level :: Level
  rec_created :: int
  rec_source :: string
  rec_message :: string

text \<open>The cache of the formatted time: the millisecond it was made for and the text.
  \<open>fmtTime\<close> stands for \<open>time.Time.Format\<close> with the layout
  \<open>2006-01-02 15:04:05.000\<close> applied to a time given in nanoseconds.\<close>

type_synonym formatCache = "int \<times> string"

definition unixMilli :: "int \<Rightarrow> int" where
  "unixMilli ns = (if ns < 0 then - ((- ns) div 1000000) else ns div 1000000)"

definition FormatLogRecord :: "(int \<Rightarrow> string) \<Rightarrow> formatCache \<Rightarrow> LogRecord option \<Rightarrow> (string \<times> formatCache) go" where
  "FormatLogRecord fmtTime cache orec =
     (case orec of
        None \<Rightarrow> Ret (''<nil>'', cache)
      | Some rec \<Rightarrow>
          let millSecs = unixMilli (rec_created rec);
              cache' = (if fst cache \<noteq> millSecs then (millSecs, fmtTime (rec_created rec)) else cache) in
          go_bind (levelString (rec_level rec)) (\<lambda>ls.
            Ret (snd cache' @ ''|'' @ ls @ ''|'' @ rec_source rec @ ''|'' @ rec_message rec @ [CHR 0x0A], cache')))"

text \<open>The cache of the formatted second is a package variable; each logger has its own here, which is
  the same for a program with one logger.  (Several loggers would use it without a lock.)\<close>

record Logger =
  recv :: "LogRecord list"
  clos_closed :: bool
  wait_closed :: bool
  term_lvl :: Level
  file_lvl :: Level
  fileWrite :: "FileLogWriter option"
  lbuff :: string
  lcount :: int
  lcache :: formatCache
  lstdout :: string
  full_warnings :: nat
  write_errors :: nat
  lfs :: fsys

definition recvCap :: nat where
  "recvCap = 1024 * 1024"

definition NewLogger :: "fsys \<Rightarrow> Logger" where
  "NewLogger fs = \<lparr>recv = [], clos_closed = False, wait_closed = False, term_lvl = DEBUG,
     file_lvl = CLOSE, fileWrite = None, lbuff = [], lcount = 0, lcache = (0, []), lstdout = [],
     full_warnings = 0, write_errors = 0, lfs = fs\<rparr>"

subsection \<open>Callers\<close>

text \<open>The select of \<open>intLogf\<close> for the finished record: dropped when the logger is closed,
  queued when there is room, and reported as an overflow when neither is possible.\<close>

definition intLogf :: "bool \<Rightarrow> LogRecord \<Rightarrow> Logger \<Rightarrow> Logger" where
  "intLogf prefer_clos rec lg =
     (let room = length (recv lg) < recvCap in
      if clos_closed lg \<and> (prefer_clos \<or> \<not> room) then lg
      else if room then lg\<lparr>recv := recv lg @ [rec]\<rparr>
      else lg\<lparr>full_warnings := full_warnings lg + 1\<rparr>)"

text \<open>The message of a call: the format itself, or \<open>fmt.Sprintf\<close> of it when there are
  arguments; an argument in place of the format is printed with \<open>fmt.Sprint\<close>.  The
  source position comes from \<open>runtime.Caller\<close> and the time from \<open>time.Now\<close>; both
  are arguments.\<close>

definition logMessage :: "(string \<Rightarrow> 'a list \<Rightarrow> string) \<Rightarrow> string \<Rightarrow> 'a list \<Rightarrow> string" where
  "logMessage sprintf format args = (if args \<noteq> [] then sprintf format args else format)"

definition logPrint :: "(string \<Rightarrow> 'a list \<Rightarrow> string) \<Rightarrow> ('a \<Rightarrow> string) \<Rightarrow> bool \<Rightarrow> int \<Rightarrow> string
    \<Rightarrow> Level \<Rightarrow> string + 'a \<Rightarrow> 'a list \<Rightarrow> Logger \<Rightarrow> Logger" where
  "logPrint sprintf sprint prefer_clos created src lvl arg0 args lg =
     (let format = (case arg0 of
          Inl first \<Rightarrow> first
        | Inr v \<Rightarrow> sprint v @ concat (replicate (length args) '' %v'')) in
      intLogf prefer_clos \<lparr>rec_level = lvl, rec_created = created, rec_source = src,
        rec_message = logMessage sprintf format args\<rparr> lg)"

definition logSystem where "logSystem sprintf sprint pc created src = logPrint sprintf sprint pc created src SYSTEM"
definition logDebug where "logDebug sprintf sprint pc created src = logPrint sprintf sprint pc created src DEBUG"
definition logInfo where "logInfo sprintf sprint pc created src = logPrint sprintf sprint pc created src INFO"
definition logWarn where "logWarn sprintf sprint pc created src = logPrint sprintf sprint pc created src WARNING"
definition logError where "logError sprintf sprint pc created src = logPrint sprintf sprint pc created src ERROR"
definition logCritical where "logCritical sprintf sprint pc created src = logPrint sprintf sprint pc created src CRITICAL"

text \<open>\<open>Close\<close> first sends the end record, which blocks (\<open>None\<close>) while the channel is
  full, and then closes \<open>clos\<close>; a second call stops at that point (\<open>fst\<close> is false).\<close>

definition closeSend :: "Logger \<Rightarrow> Logger option" where
  "closeSend lg =
     (if length (recv lg) < recvCap
      then Some (lg\<lparr>recv := recv lg @ [\<lparr>rec_level = CLOSE, rec_created = 0, rec_source = [], rec_message = []\<rparr>]\<rparr>)
      else None)"

definition closeSignal :: "Logger \<Rightarrow> bool \<times> Logger" where
  "closeSignal lg = (if clos_closed lg then (False, lg) else (True, lg\<lparr>clos_closed := True\<rparr>))"

text \<open>The end of \<open>Close\<close>: it waits until the goroutine has ended (\<open>None\<close> otherwise)
  and closes the file.\<close>

definition closeFinish :: "Logger \<Rightarrow> Logger option" where
  "closeFinish lg =
     (if wait_closed lg then Some (lg\<lparr>fileWrite := map_option flClose (fileWrite lg)\<rparr>) else None)"

definition SetLevel :: "Level \<Rightarrow> Logger \<Rightarrow> Logger" where
  "SetLevel lvl lg = lg\<lparr>term_lvl := lvl, file_lvl := lvl\<rparr>"

definition SetTermLevel :: "Level \<Rightarrow> Logger \<Rightarrow> Logger" where
  "SetTermLevel lvl lg = lg\<lparr>term_lvl := lvl\<rparr>"

definition SetFileLevel :: "fsenv \<Rightarrow> Level \<Rightarrow> string \<Rightarrow> int list \<Rightarrow> Logger \<Rightarrow> Logger" where
  "SetFileLevel env lvl fname param lg =
     (let lg1 = lg\<lparr>file_lvl := lvl\<rparr>;
          p = (\<lambda>i. if i < length param then param ! i else 0) in
      if lvl = CLOSE then lg1\<lparr>fileWrite := map_option flClose (fileWrite lg1)\<rparr>
      else lg1\<lparr>fileWrite := Some (newFileLogger env fname (p 0) (p 1) (p 2))\<rparr>)"

definition NewFileLogger :: "fsenv \<Rightarrow> string \<Rightarrow> fsys \<Rightarrow> Logger" where
  "NewFileLogger env fname fs = SetFileLevel env DEBUG fname [1024 * 1024 * 1024, 0, 10] (NewLogger fs)"

definition NewFileLoggerWithoutTerm :: "fsenv \<Rightarrow> string \<Rightarrow> fsys \<Rightarrow> Logger" where
  "NewFileLoggerWithoutTerm env fname fs = SetTermLevel CLOSE (NewFileLogger env fname fs)"

subsection \<open>The goroutine\<close>

text \<open>Writing the buffer to the file: without a writer this is a nil dereference.  \<open>fst\<close> is
  the success of the write.\<close>

definition flushTo :: "fsenv \<Rightarrow> Logger \<Rightarrow> (bool \<times> Logger) go" where
  "flushTo env lg =
     (case fileWrite lg of
        None \<Rightarrow> Panic
      | Some w \<Rightarrow> (case flWrite env (lbuff lg) w (lfs lg) of
          (ok, w', fs') \<Rightarrow> Ret (ok, lg\<lparr>fileWrite := Some w', lfs := fs'\<rparr>)))"

text \<open>The second half of a round: flush once \<open>count\<close> has reached 1024.\<close>

definition flushPart :: "fsenv \<Rightarrow> Logger \<Rightarrow> Logger go" where
  "flushPart env lg =
     (if lcount lg < 1024 then Ret lg
      else let lg1 = lg\<lparr>lcount := 0\<rparr> in
        if lbuff lg1 = [] then Ret lg1
        else go_bind (flushTo env lg1) (\<lambda>(ok, lg2).
          Ret (lg2\<lparr>lbuff := [], write_errors := write_errors lg2 + (if ok then 0 else 1)\<rparr>)))"

text \<open>A round in which the ticker fires.\<close>

definition tickRound :: "fsenv \<Rightarrow> Logger \<Rightarrow> Logger go" where
  "tickRound env lg = (if wait_closed lg then Ret lg else flushPart env (lg\<lparr>lcount := 1024\<rparr>))"

text \<open>A round that receives a record; without one (or after its end) the goroutine does not
  move.\<close>

definition recvRound :: "(int \<Rightarrow> string) \<Rightarrow> fsenv \<Rightarrow> Logger \<Rightarrow> Logger go" where
  "recvRound fmtTime env lg =
     (case recv lg of
        [] \<Rightarrow> Ret lg
      | rec # rest \<Rightarrow>
          if wait_closed lg then Ret lg
          else let lg1 = lg\<lparr>recv := rest, lcount := lcount lg + 1\<rparr> in
          if rec_level rec = CLOSE then
            (if lbuff lg1 = [] then Ret (lg1\<lparr>wait_closed := True\<rparr>)
             else go_bind (flushTo env lg1) (\<lambda>(_, lg2). Ret (lg2\<lparr>wait_closed := True\<rparr>)))
          else go_bind (FormatLogRecord fmtTime (lcache lg1) (Some rec)) (\<lambda>(msg, cache').
            flushPart env (lg1\<lparr>lcache := cache',
              lstdout := (if term_lvl lg1 \<le> rec_level rec then lstdout lg1 @ msg else lstdout lg1),
              lbuff := (if file_lvl lg1 \<le> rec_level rec then lbuff lg1 @ msg else lbuff lg1)\<rparr>)))"

end
