(* ===== verification/Stlog_Props.thy ===== *)
theory Stlog_Props
  imports Stlog
begin

text \<open>
  The logger delivers: every record that was accepted reaches the file in order, at the
  latest when the logger is closed, whatever the interleaving of callers, ticks and receives.
  The proof carries an invariant through the steps that relates the records taken out of the
  channel to the batches handed to the file, and uses the contract of the sink for the file.
\<close>

definition levelText :: "Level \<Rightarrow> string" where
  "levelText l = levelStrings ! nat l"

text \<open>The text of a record without the time cache.\<close>

definition recText :: "(int \<Rightarrow> string) \<Rightarrow> LogRecord \<Rightarrow> string" where
  "recText fmtTime r = fmtTime (rec_created r) @ ''|'' @ levelText (rec_level r) @ ''|'' @
     rec_source r @ ''|'' @ rec_message r @ [CHR 0x0A]"

definition texts :: "(int \<Rightarrow> string) \<Rightarrow> Level \<Rightarrow> LogRecord list \<Rightarrow> string" where
  "texts fmtTime lvl rs = concat (map (recText fmtTime) (filter (\<lambda>r. lvl \<le> rec_level r) rs))"

text \<open>Records that callers make: a proper level, and a time after the first millisecond of the
  epoch (the cache starts with millisecond 0 and an empty text).\<close>

definition rec_ok :: "LogRecord \<Rightarrow> bool" where
  "rec_ok r \<longleftrightarrow> 0 \<le> rec_level r \<and> rec_level r < CLOSE \<and> 1000000 \<le> rec_created r"

text \<open>The layout prints milliseconds and nothing finer.\<close>

definition fmt_millis :: "(int \<Rightarrow> string) \<Rightarrow> bool" where
  "fmt_millis fmtTime \<longleftrightarrow>
     (\<forall>a b. 0 \<le> a \<longrightarrow> 0 \<le> b \<longrightarrow> a div 1000000 = b div 1000000 \<longrightarrow> fmtTime a = fmtTime b)"

definition cache_ok :: "(int \<Rightarrow> string) \<Rightarrow> formatCache \<Rightarrow> bool" where
  "cache_ok fmtTime c \<longleftrightarrow> (\<forall>t\<ge>1000000. unixMilli t = fst c \<longrightarrow> snd c = fmtTime t)"

lemma cache_ok_init: "cache_ok fmtTime (0, [])"
  by (auto simp: cache_ok_def unixMilli_def)

lemma levelString_ok: "0 \<le> l \<Longrightarrow> l < CLOSE \<Longrightarrow> levelString l = Ret (levelText l)"
  by (auto simp: levelString_def levelText_def CLOSE_def levelStrings_def)

lemma FormatLogRecord_cache:
  assumes "fmt_millis fmtTime" and "cache_ok fmtTime c" and "rec_ok r"
  shows "\<exists>c'. FormatLogRecord fmtTime c (Some r) = Ret (recText fmtTime r, c') \<and> cache_ok fmtTime c'"
proof (cases "fst c = unixMilli (rec_created r)")
  case True
  then have "snd c = fmtTime (rec_created r)" using assms(2,3) by (auto simp: cache_ok_def rec_ok_def)
  with True assms(2,3) show ?thesis
    by (simp add: FormatLogRecord_def Let_def recText_def levelString_ok rec_ok_def)
next
  case False
  have "cache_ok fmtTime (unixMilli (rec_created r), fmtTime (rec_created r))"
    using assms(1,3) by (auto simp: cache_ok_def unixMilli_def rec_ok_def fmt_millis_def)
  with False assms(3) show ?thesis
    by (simp add: FormatLogRecord_def Let_def recText_def levelString_ok rec_ok_def)
qed

subsection \<open>The invariant\<close>

definition logger_inv ::
    "(int \<Rightarrow> string) \<Rightarrow> FileLogWriter \<times> fsys \<Rightarrow> LogRecord list \<Rightarrow> Logger \<Rightarrow> bool" where
  "logger_inv fmtTime x0 acc lg \<longleftrightarrow>
     (\<exists>w ems ds. fileWrite lg = Some w \<and> (w, lfs lg) = file_sink.writes ems x0
        \<and> list_all (env_ok \<circ> fst) ems
        \<and> concat (map snd ems) @ lbuff lg = texts fmtTime (file_lvl lg) ds
        \<and> acc = ds @ recv lg)
     \<and> cache_ok fmtTime (lcache lg) \<and> \<not> wait_closed lg"

lemma flushTo_ok:
  assumes "writer_inv x0" and "env_ok env" and "list_all (env_ok \<circ> fst) ems"
    and "fileWrite lg = Some w" and "(w, lfs lg) = file_sink.writes ems x0"
  shows "\<exists>w' fs'. flushTo env lg = Ret (True, lg\<lparr>fileWrite := Some w', lfs := fs'\<rparr>)
    \<and> (w', fs') = file_sink.writes (ems @ [(env, lbuff lg)]) x0"
proof -
  have "writer_inv (w, lfs lg)" using file_sink.writes_inv [OF assms(1,3)] assms(5) by simp
  from file_sink.write_ok [OF this assms(2), of "lbuff lg"]
  obtain w' fs' where "sinkWrite env (lbuff lg) (w, lfs lg) = (True, w', fs')"
    by (cases "sinkWrite env (lbuff lg) (w, lfs lg)") auto
  then show ?thesis
    using assms(4) assms(5) [symmetric]
    by (auto simp: flushTo_def sinkWrite_def file_sink.writes_snoc)
qed

lemma flushPart_inv:
  assumes "writer_inv x0" and "env_ok env" and inv: "logger_inv fmtTime x0 acc lg"
  shows "\<exists>lg'. flushPart env lg = Ret lg' \<and> logger_inv fmtTime x0 acc lg'
    \<and> recv lg' = recv lg \<and> full_warnings lg' = full_warnings lg \<and> file_lvl lg' = file_lvl lg
    \<and> clos_closed lg' = clos_closed lg"
proof -
  consider "lcount lg < 1024" | "lcount lg \<ge> 1024" "lbuff lg = []" | "lcount lg \<ge> 1024" "lbuff lg \<noteq> []"
    by fastforce
  then show ?thesis
  proof cases
    case 3
    from inv obtain w ems ds where *: "fileWrite lg = Some w" "(w, lfs lg) = file_sink.writes ems x0"
        "list_all (env_ok \<circ> fst) ems"
        "concat (map snd ems) @ lbuff lg = texts fmtTime (file_lvl lg) ds" "acc = ds @ recv lg"
        "cache_ok fmtTime (lcache lg)" "\<not> wait_closed lg"
      by (auto simp: logger_inv_def)
    from flushTo_ok [OF assms(1,2) *(3), of "lg\<lparr>lcount := 0\<rparr>" w] *(1,2) obtain w' fs' where
      f: "flushTo env (lg\<lparr>lcount := 0\<rparr>) = Ret (True, lg\<lparr>lcount := 0, fileWrite := Some w', lfs := fs'\<rparr>)"
         "(w', fs') = file_sink.writes (ems @ [(env, lbuff lg)]) x0"
      by auto
    let ?lg = "lg\<lparr>lcount := 0, fileWrite := Some w', lfs := fs', lbuff := []\<rparr>"
    have "flushPart env lg = Ret ?lg" using 3 by (simp add: flushPart_def Let_def f(1))
    moreover have "logger_inv fmtTime x0 acc ?lg"
      unfolding logger_inv_def using * f(2) assms(2)
      by (intro conjI exI [of _ w'] exI [of _ "ems @ [(env, lbuff lg)]"] exI [of _ ds]) auto
    ultimately show ?thesis by auto
  qed (use inv in \<open>auto simp: flushPart_def logger_inv_def Let_def\<close>)
qed

lemma texts_snoc:
  "texts fmtTime lvl (ds @ [r]) = texts fmtTime lvl ds @ (if lvl \<le> rec_level r then recText fmtTime r else [])"
  by (simp add: texts_def)

lemma recvRound_inv:
  assumes "writer_inv x0" and "env_ok env" and "fmt_millis fmtTime"
    and inv: "logger_inv fmtTime x0 acc lg" and ok: "recv lg \<noteq> [] \<Longrightarrow> rec_ok (hd (recv lg))"
  shows "\<exists>lg'. recvRound fmtTime env lg = Ret lg' \<and> logger_inv fmtTime x0 acc lg'
    \<and> recv lg' = tl (recv lg) \<and> full_warnings lg' = full_warnings lg \<and> file_lvl lg' = file_lvl lg
    \<and> clos_closed lg' = clos_closed lg"
proof (cases "recv lg")
  case Nil
  with inv show ?thesis by (simp add: recvRound_def)
next
  case (Cons r rest)
  from inv obtain w ems ds where *: "fileWrite lg = Some w" "(w, lfs lg) = file_sink.writes ems x0"
      "list_all (env_ok \<circ> fst) ems"
      "concat (map snd ems) @ lbuff lg = texts fmtTime (file_lvl lg) ds" "acc = ds @ recv lg"
      "cache_ok fmtTime (lcache lg)" "\<not> wait_closed lg"
    by (auto simp: logger_inv_def)
  have r: "rec_ok r" "rec_level r \<noteq> CLOSE" using ok Cons by (auto simp: rec_ok_def)
  from FormatLogRecord_cache [OF assms(3) *(6) r(1)] obtain c' where
    c': "FormatLogRecord fmtTime (lcache lg) (Some r) = Ret (recText fmtTime r, c')" "cache_ok fmtTime c'"
    by blast
  let ?msg = "recText fmtTime r"
  let ?lg = "lg\<lparr>recv := rest, lcount := lcount lg + 1, lcache := c',
      lstdout := (if term_lvl lg \<le> rec_level r then lstdout lg @ ?msg else lstdout lg),
      lbuff := (if file_lvl lg \<le> rec_level r then lbuff lg @ ?msg else lbuff lg)\<rparr>"
  have e: "recvRound fmtTime env lg = flushPart env ?lg"
    using *(7) r(2) by (simp add: recvRound_def Cons Let_def c'(1))
  have "logger_inv fmtTime x0 acc ?lg"
    unfolding logger_inv_def using * c'(2) Cons
    by (intro conjI exI [of _ w] exI [of _ ems] exI [of _ "ds @ [r]"]) (auto simp: texts_snoc)
  from flushPart_inv [OF assms(1,2) this] show ?thesis unfolding e by (simp add: Cons)
qed

lemma tickRound_inv:
  assumes "writer_inv x0" and "env_ok env" and inv: "logger_inv fmtTime x0 acc lg"
  shows "\<exists>lg'. tickRound env lg = Ret lg' \<and> logger_inv fmtTime x0 acc lg'
    \<and> recv lg' = recv lg \<and> full_warnings lg' = full_warnings lg \<and> file_lvl lg' = file_lvl lg
    \<and> clos_closed lg' = clos_closed lg"
proof -
  have "logger_inv fmtTime x0 acc (lg\<lparr>lcount := 1024\<rparr>)" using inv by (simp add: logger_inv_def)
  from flushPart_inv [OF assms(1,2) this] inv show ?thesis by (simp add: tickRound_def logger_inv_def)
qed

lemma intLogf_inv:
  assumes "logger_inv fmtTime x0 acc lg" and "\<not> clos_closed lg"
  shows "logger_inv fmtTime x0 (if length (recv lg) < recvCap then acc @ [r] else acc) (intLogf p r lg)"
  using assms by (auto simp: intLogf_def logger_inv_def Let_def)


subsection \<open>Runs\<close>

datatype logEvent = PrintEv bool LogRecord | TickEv fsenv | RecvEv fsenv

definition logStep :: "(int \<Rightarrow> string) \<Rightarrow> logEvent \<Rightarrow> Logger \<Rightarrow> Logger go" where
  "logStep fmtTime ev lg =
     (case ev of
        PrintEv p r \<Rightarrow> Ret (intLogf p r lg)
      | TickEv env \<Rightarrow> tickRound env lg
      | RecvEv env \<Rightarrow> recvRound fmtTime env lg)"

fun logRun :: "(int \<Rightarrow> string) \<Rightarrow> logEvent list \<Rightarrow> Logger \<Rightarrow> Logger go" where
  "logRun fmtTime [] lg = Ret lg"
| "logRun fmtTime (ev # evs) lg = go_bind (logStep fmtTime ev lg) (logRun fmtTime evs)"

fun event_ok :: "logEvent \<Rightarrow> bool" where
  "event_ok (PrintEv p r) \<longleftrightarrow> rec_ok r"
| "event_ok (TickEv env) \<longleftrightarrow> env_ok env"
| "event_ok (RecvEv env) \<longleftrightarrow> env_ok env"

fun printed :: "logEvent list \<Rightarrow> LogRecord list" where
  "printed [] = []"
| "printed (PrintEv p r # evs) = r # printed evs"
| "printed (_ # evs) = printed evs"

text \<open>One event: the run goes on, and as long as no overflow was reported the accepted records
  are the printed ones.\<close>

lemma logStep_inv:
  assumes "writer_inv x0" and "fmt_millis fmtTime" and "event_ok ev"
    and "logger_inv fmtTime x0 acc lg" and "list_all rec_ok acc" and "\<not> clos_closed lg"
  shows "\<exists>lg' acc'. logStep fmtTime ev lg = Ret lg' \<and> logger_inv fmtTime x0 acc' lg'
    \<and> list_all rec_ok acc' \<and> \<not> clos_closed lg' \<and> file_lvl lg' = file_lvl lg
    \<and> full_warnings lg \<le> full_warnings lg'
    \<and> (full_warnings lg' = full_warnings lg \<longrightarrow> acc' = acc @ printed [ev])"
proof (cases ev)
  case (PrintEv p r)
  with intLogf_inv [OF assms(4,6), of r p] assms(3,5,6) show ?thesis
    by (intro exI [of _ "intLogf p r lg"] exI [of _ "if length (recv lg) < recvCap then acc @ [r] else acc"])
      (auto simp: logStep_def intLogf_def Let_def)
next
  case (TickEv env)
  with tickRound_inv [OF assms(1) _ assms(4), of env] assms(3) obtain lg' where
    "logStep fmtTime ev lg = Ret lg'" "logger_inv fmtTime x0 acc lg'"
    "full_warnings lg' = full_warnings lg" "file_lvl lg' = file_lvl lg"
    "clos_closed lg' = clos_closed lg"
    by (auto simp: logStep_def)
  with TickEv assms(5,6) show ?thesis by (intro exI [of _ lg'] exI [of _ acc]) simp
next
  case (RecvEv env)
  have "rec_ok (hd (recv lg))" if "recv lg \<noteq> []"
    using that assms(4,5) by (cases "recv lg") (auto simp: logger_inv_def)
  with RecvEv recvRound_inv [OF assms(1) _ assms(2,4), of env] assms(3) obtain lg' where
    "logStep fmtTime ev lg = Ret lg'" "logger_inv fmtTime x0 acc lg'"
    "full_warnings lg' = full_warnings lg" "file_lvl lg' = file_lvl lg"
    "clos_closed lg' = clos_closed lg"
    by (auto simp: logStep_def)
  with RecvEv assms(5,6) show ?thesis by (intro exI [of _ lg'] exI [of _ acc]) simp
qed

lemma printed_Cons: "printed (ev # evs) = printed [ev] @ printed evs"
  by (cases ev) auto

lemma logRun_inv:
  assumes "writer_inv x0" and "fmt_millis fmtTime" and "list_all event_ok evs"
    and "logger_inv fmtTime x0 acc lg" and "list_all rec_ok acc" and "\<not> clos_closed lg"
  shows "\<exists>lg' acc'. logRun fmtTime evs lg = Ret lg' \<and> logger_inv fmtTime x0 acc' lg'
    \<and> list_all rec_ok acc' \<and> \<not> clos_closed lg' \<and> file_lvl lg' = file_lvl lg
    \<and> full_warnings lg \<le> full_warnings lg'
    \<and> (full_warnings lg' = full_warnings lg \<longrightarrow> acc' = acc @ printed evs)"
  using assms(3-6)
proof (induction evs arbitrary: lg acc)
  case Nil
  then show ?case by auto
next
  case (Cons ev evs)
  from logStep_inv [OF assms(1,2) _ Cons.prems(2-4), of ev] Cons.prems(1) obtain lg1 acc1 where
    1: "logStep fmtTime ev lg = Ret lg1" "logger_inv fmtTime x0 acc1 lg1" "list_all rec_ok acc1"
      "\<not> clos_closed lg1" "file_lvl lg1 = file_lvl lg" "full_warnings lg \<le> full_warnings lg1"
      "full_warnings lg1 = full_warnings lg \<longrightarrow> acc1 = acc @ printed [ev]"
    by auto
  from Cons.IH [OF _ 1(2-4)] Cons.prems(1) obtain lg2 acc2 where
    2: "logRun fmtTime evs lg1 = Ret lg2" "logger_inv fmtTime x0 acc2 lg2" "list_all rec_ok acc2"
      "\<not> clos_closed lg2" "file_lvl lg2 = file_lvl lg1" "full_warnings lg1 \<le> full_warnings lg2"
      "full_warnings lg2 = full_warnings lg1 \<longrightarrow> acc2 = acc1 @ printed evs"
    by auto
  show ?case
    by (rule exI [of _ lg2], rule exI [of _ acc2])
      (use 1 2 in \<open>auto simp: printed_Cons [of ev evs]\<close>)
qed

subsection \<open>Closing\<close>

fun drain :: "(int \<Rightarrow> string) \<Rightarrow> fsenv \<Rightarrow> nat \<Rightarrow> Logger \<Rightarrow> Logger go" where
  "drain fmtTime env 0 lg = Ret lg"
| "drain fmtTime env (Suc n) lg = go_bind (recvRound fmtTime env lg) (drain fmtTime env n)"

definition closeRec :: LogRecord where
  "closeRec = \<lparr>rec_level = CLOSE, rec_created = 0, rec_source = [], rec_message = []\<rparr>"

text \<open>The last round takes the end record, writes what is left and ends the goroutine.\<close>

lemma recvRound_close:
  assumes "writer_inv x0" and "env_ok env" and inv: "logger_inv fmtTime x0 (acc @ [closeRec]) lg"
    and "recv lg = [closeRec]"
  shows "\<exists>lg' w ems. recvRound fmtTime env lg = Ret lg' \<and> wait_closed lg' \<and> fileWrite lg' = Some w
    \<and> (w, lfs lg') = file_sink.writes ems x0 \<and> list_all (env_ok \<circ> fst) ems
    \<and> concat (map snd ems) = texts fmtTime (file_lvl lg) acc"
proof -
  from inv assms(4) obtain w ems where *: "fileWrite lg = Some w" "(w, lfs lg) = file_sink.writes ems x0"
      "list_all (env_ok \<circ> fst) ems" "concat (map snd ems) @ lbuff lg = texts fmtTime (file_lvl lg) acc"
      "\<not> wait_closed lg"
    by (auto simp: logger_inv_def)
  let ?lg = "lg\<lparr>recv := [], lcount := lcount lg + 1\<rparr>"
  show ?thesis
  proof (cases "lbuff lg = []")
    case True
    with * assms(4) show ?thesis
      by (intro exI [of _ "?lg\<lparr>wait_closed := True\<rparr>"] exI [of _ w] exI [of _ ems])
        (simp add: recvRound_def closeRec_def)
  next
    case False
    from flushTo_ok [OF assms(1,2) *(3), of ?lg w] *(1,2) obtain w' fs' where
      f: "flushTo env ?lg = Ret (True, ?lg\<lparr>fileWrite := Some w', lfs := fs'\<rparr>)"
         "(w', fs') = file_sink.writes (ems @ [(env, lbuff lg)]) x0"
      by auto
    have "recvRound fmtTime env lg = Ret (?lg\<lparr>fileWrite := Some w', lfs := fs', wait_closed := True\<rparr>)"
      using False *(5) assms(4) f(1) by (simp add: recvRound_def closeRec_def)
    with * f(2) assms(2) show ?thesis
      by (intro exI [of _ "?lg\<lparr>fileWrite := Some w', lfs := fs', wait_closed := True\<rparr>"] exI [of _ w']
          exI [of _ "ems @ [(env, lbuff lg)]"]) simp
  qed
qed

lemma drain_close:
  assumes "writer_inv x0" and "env_ok env" and "fmt_millis fmtTime"
    and "logger_inv fmtTime x0 (acc @ [closeRec]) lg" and "recv lg = rs @ [closeRec]"
    and "list_all rec_ok rs"
  shows "\<exists>lg' w ems. drain fmtTime env (length (recv lg)) lg = Ret lg' \<and> wait_closed lg'
    \<and> fileWrite lg' = Some w \<and> (w, lfs lg') = file_sink.writes ems x0
    \<and> list_all (env_ok \<circ> fst) ems \<and> concat (map snd ems) = texts fmtTime (file_lvl lg) acc"
  using assms(4-6)
proof (induction rs arbitrary: lg)
  case Nil
  then have d: "drain fmtTime env (length (recv lg)) lg = recvRound fmtTime env lg"
    by (cases "recvRound fmtTime env lg") simp_all
  show ?case unfolding d by (rule recvRound_close [OF assms(1,2)]) (use Nil in simp_all)
next
  case (Cons r rs)
  have "\<exists>lg'. recvRound fmtTime env lg = Ret lg' \<and> logger_inv fmtTime x0 (acc @ [closeRec]) lg'
      \<and> recv lg' = tl (recv lg) \<and> full_warnings lg' = full_warnings lg \<and> file_lvl lg' = file_lvl lg
      \<and> clos_closed lg' = clos_closed lg"
    by (rule recvRound_inv [OF assms(1,2,3) Cons.prems(1)]) (use Cons.prems(2,3) in simp)
  then obtain lg1 where 1: "recvRound fmtTime env lg = Ret lg1"
      "logger_inv fmtTime x0 (acc @ [closeRec]) lg1" "recv lg1 = rs @ [closeRec]" "file_lvl lg1 = file_lvl lg"
    using Cons.prems(2) by auto
  from Cons.IH [OF 1(2,3)] Cons.prems(2,3) 1 show ?case by simp
qed


subsection \<open>The properties\<close>

text \<open>C11: a write to the rotating log file succeeds whenever the operating system lets it and keeps
  the writer's invariant.  If the current file has reached the size limit and backups are kept,
  the write rotates: every generation moves up by one, only the oldest is overwritten, the new
  current file holds exactly the message, no other file is touched, and the text of all
  generations is the old text and the message without the text of the oldest generation.  In all
  other cases the message is appended to the current file and nothing else changes.  With a limit
  and at least two generations no current file grows beyond the limit by more than one message.\<close>

theorem log_write_keeps_newest:
  assumes "env_ok env" and "writer_inv (w, fs)"
  defines "n \<equiv> filename w" and "m \<equiv> nat (maxbackup w)"
  shows "\<exists>w' fs'. flWrite env msg w fs = (True, w', fs') \<and> writer_inv (w', fs') \<and> filename w' = n \<and>
    (if 0 < maxsize w \<and> maxsize w \<le> int (length (content fs n)) \<and> 2 \<le> maxbackup w
     then fs' n = Some msg \<and> (\<forall>k. Suc k < m \<longrightarrow> fs' (gen n (Suc k)) = fs (gen n k))
       \<and> (\<forall>p. (\<forall>k<m. p \<noteq> gen n k) \<longrightarrow> fs' p = fs p)
       \<and> logtext (w, fs) @ msg = content fs (gen n (m - 1)) @ logtext (w', fs')
     else fs' = fs(n \<mapsto> content fs n @ msg) \<and> logtext (w', fs') = logtext (w, fs) @ msg)
    \<and> (0 < maxsize w \<longrightarrow> 2 \<le> maxbackup w \<longrightarrow> int (length (content fs' n)) < maxsize w + int (length msg))"
proof -
  from flWrite_exact [OF assms(1,2), of msg] obtain w' fs' where
    w: "flWrite env msg w fs = (True, w', fs')" "writer_inv (w', fs')" "filename w' = n"
      "if rotates w fs then shifted n (generations w) msg fs fs'
         \<and> logtext (w, fs) @ msg = content fs (gen n (generations w - 1)) @ logtext (w', fs')
       else fs' = fs(n \<mapsto> content fs n @ msg) \<and> logtext (w', fs') = logtext (w, fs) @ msg"
    unfolding n_def by blast
  show ?thesis
  proof (cases "rotates w fs")
    case True
    then have "generations w = m" by (simp add: rotates_def generations_def m_def)
    with True w show ?thesis by (auto simp: rotates_def shifted_def n_def content_def)
  next
    case False
    then have c: "\<not> (0 < maxsize w \<and> maxsize w \<le> int (length (content fs n)) \<and> 2 \<le> maxbackup w)"
      by (simp add: rotates_def n_def)
    with False w show ?thesis by (auto simp: content_def)
  qed
qed

definition demo_env :: fsenv where
  "demo_env = \<lparr>now_day = 3, now_date = ''20240103'', can_open = (\<lambda>_. True),
     can_rename = (\<lambda>_ _. True), short_write = None\<rparr>"

lemma demo_env_ok: "env_ok demo_env"
  by (simp add: env_ok_def demo_env_def)

text \<open>The witness rotates: the file \<^verbatim>\<open>a\<close> is full and \<^verbatim>\<open>a.001\<close> exists.\<close>

theorem log_write_keeps_newest_witness:
  "\<exists>w' fs'. flWrite demo_env ''m'' (newFileLogger demo_env ''a'' 3 0 3) [''a'' \<mapsto> ''old'', ''a.001'' \<mapsto> ''x''] = (True, w', fs')
     \<and> fs' ''a'' = Some ''m'' \<and> fs' (gen ''a'' 1) = Some ''old'' \<and> fs' (gen ''a'' 2) = Some ''x''"
proof -
  let ?w = "newFileLogger demo_env ''a'' 3 0 3" and ?fs = "[''a'' \<mapsto> ''old'', ''a.001'' \<mapsto> ''x'']"
  have b: "backupName ''a'' (Suc 0) = ''a.001''" using backupName_1 [of "''a''"] by simp
  have inv: "writer_inv (?w, ?fs)"
    using b by (simp add: writer_inv_def newFileLogger_def no_gap_def gen_def generations_def less_Suc_eq numeral_3_eq_3)
  have g: "?fs (gen ''a'' 0) = Some ''old''" "?fs (gen ''a'' 1) = Some ''x''" using b by (simp_all add: gen_def)
  from log_write_keeps_newest [OF demo_env_ok inv, of "''m''"] g show ?thesis
    by (force simp: newFileLogger_def content_def numeral_2_eq_2)
qed

text \<open>C5: the logger delivers.  Take a logger that writes to a file, and let callers print
  records while the goroutine receives and the ticker fires in any order.  No step panics, and
  if the channel never overflowed, closing the logger ends the goroutine after it has received
  every queued record, and the batches it wrote are together the formatted printed records of
  sufficient level in order: the file's text is a suffix of the old text followed by them, and
  exactly that when no size limit is set.\<close>

theorem logger_delivers:
  assumes "fmt_millis fmtTime" and "lvl < CLOSE" and "env_ok env"
    and x0: "x0 = (newFileLogger env0 fname msize 0 mbackup, fs)" and "writer_inv x0"
    and "list_all event_ok evs"
  shows "\<exists>lg. logRun fmtTime evs (SetFileLevel env0 lvl fname [msize, 0, mbackup] (NewLogger fs)) = Ret lg
    \<and> (full_warnings lg = 0 \<longrightarrow> length (recv lg) < recvCap \<longrightarrow>
       (\<exists>lg1 lg2 lg3 lg4 w. closeSend lg = Some lg1 \<and> closeSignal lg1 = (True, lg2)
        \<and> drain fmtTime env (length (recv lg2)) lg2 = Ret lg3 \<and> closeFinish lg3 = Some lg4
        \<and> fileWrite lg3 = Some w
        \<and> suffix (logtext (w, lfs lg3)) (logtext x0 @ texts fmtTime lvl (printed evs))
        \<and> (msize \<le> 0 \<longrightarrow> logtext (w, lfs lg3) = logtext x0 @ texts fmtTime lvl (printed evs))))"
proof -
  let ?lg0 = "SetFileLevel env0 lvl fname [msize, 0, mbackup] (NewLogger fs)"
  have "logger_inv fmtTime x0 [] ?lg0"
    using assms(2) x0 cache_ok_init [of fmtTime]
    by (auto simp: logger_inv_def SetFileLevel_def NewLogger_def Let_def texts_def
        intro!: exI [of _ "[]"])
  moreover have l0: "\<not> clos_closed ?lg0" "file_lvl ?lg0 = lvl" "full_warnings ?lg0 = 0"
    by (simp_all add: SetFileLevel_def NewLogger_def Let_def)
  ultimately obtain lg acc where
    r: "logRun fmtTime evs ?lg0 = Ret lg" "logger_inv fmtTime x0 acc lg" "list_all rec_ok acc"
      "\<not> clos_closed lg" "file_lvl lg = file_lvl ?lg0"
      "full_warnings lg = full_warnings ?lg0 \<longrightarrow> acc = printed evs"
    using logRun_inv [OF assms(5,1,6), of "[]" ?lg0] by auto
  have "\<exists>lg1 lg2 lg3 lg4 w. closeSend lg = Some lg1 \<and> closeSignal lg1 = (True, lg2)
        \<and> drain fmtTime env (length (recv lg2)) lg2 = Ret lg3 \<and> closeFinish lg3 = Some lg4
        \<and> fileWrite lg3 = Some w
        \<and> suffix (logtext (w, lfs lg3)) (logtext x0 @ texts fmtTime lvl (printed evs))
        \<and> (msize \<le> 0 \<longrightarrow> logtext (w, lfs lg3) = logtext x0 @ texts fmtTime lvl (printed evs))"
    if *: "full_warnings lg = 0" "length (recv lg) < recvCap"
  proof -
    have acc: "acc = printed evs" using r(6) * l0(3) by simp
    have lvl: "file_lvl lg = lvl" using r(5) l0(2) by simp
    let ?lg1 = "lg\<lparr>recv := recv lg @ [closeRec]\<rparr>"
    let ?lg2 = "?lg1\<lparr>clos_closed := True\<rparr>"
    have "logger_inv fmtTime x0 (acc @ [closeRec]) ?lg2"
      using r(2) by (auto simp: logger_inv_def)
    moreover have "list_all rec_ok (recv lg)" using r(2,3) by (auto simp: logger_inv_def)
    ultimately obtain lg3 w ems where d:
      "drain fmtTime env (length (recv ?lg2)) ?lg2 = Ret lg3" "wait_closed lg3"
      "fileWrite lg3 = Some w" "(w, lfs lg3) = file_sink.writes ems x0"
      "list_all (env_ok \<circ> fst) ems" "concat (map snd ems) = texts fmtTime lvl (printed evs)"
      using drain_close [OF assms(5,3,1), of acc ?lg2 "recv lg"] acc lvl by auto
    have 1: "closeSend lg = Some ?lg1" "closeSignal ?lg1 = (True, ?lg2)"
      using * r(4) by (simp_all add: closeSend_def closeRec_def closeSignal_def)
    have 2: "closeFinish lg3 = Some (lg3\<lparr>fileWrite := map_option flClose (fileWrite lg3)\<rparr>)"
      using d(2) by (simp add: closeFinish_def)
    have 3: "suffix (logtext (w, lfs lg3)) (logtext x0 @ texts fmtTime lvl (printed evs))"
      using file_sink.writes_suffix [OF assms(5) d(5)] d(4,6) by simp
    have "logtext (w, lfs lg3) = logtext x0 @ texts fmtTime lvl (printed evs)" if "msize \<le> 0"
      using file_sink.writes_keeps [OF assms(5) d(5)] d(4,6) that x0 by (simp add: newFileLogger_def)
    with 1 2 3 d(1,3) show ?thesis by blast
  qed
  with r(1) show ?thesis by (rule_tac x = lg in exI) simp
qed

definition demo_rec :: "Level \<Rightarrow> string \<Rightarrow> LogRecord" where
  "demo_rec lvl m = \<lparr>rec_level = lvl, rec_created = 5000000, rec_source = ''f'', rec_message = m\<rparr>"

theorem logger_delivers_witness:
  "\<exists>lg. logRun (\<lambda>_. ''T'')
      [PrintEv False (demo_rec INFO ''a''), TickEv demo_env, PrintEv False (demo_rec DEBUG ''b''),
       RecvEv demo_env, PrintEv False (demo_rec ERROR ''c'')]
      (SetFileLevel demo_env INFO ''log'' [0, 0, 3] (NewLogger Map.empty)) = Ret lg"
proof -
  let ?x = "(newFileLogger demo_env ''log'' 0 0 3, Map.empty)"
  have "writer_inv ?x" by (simp add: writer_inv_def newFileLogger_def no_gap_def)
  moreover have "fmt_millis (\<lambda>_. ''T'')" by (simp add: fmt_millis_def)
  ultimately show ?thesis
    using logger_delivers [of "\<lambda>_. ''T''" INFO demo_env ?x demo_env "''log''" 0 3 Map.empty
      "[PrintEv False (demo_rec INFO ''a''), TickEv demo_env, PrintEv False (demo_rec DEBUG ''b''),
       RecvEv demo_env, PrintEv False (demo_rec ERROR ''c'')]"] demo_env_ok
    by (auto simp: demo_rec_def rec_ok_def INFO_def DEBUG_def ERROR_def CLOSE_def)
qed

end
