(* ===== verification/Gostring.thy ===== *)
theory Gostring
  imports Prelude
begin

text \<open>
  The part of Go's string library that the configuration reader uses.  A Go string is the
  list of its code points (the source text is taken to be valid UTF-8, so that this list and
  the bytes determine each other); \<open>utf8Len\<close> gives back the length in bytes where the
  library counts bytes.  \<open>runes\<close> turns a literal into such a list.

  The functions are \<open>unicode.IsSpace\<close>, \<open>strings.TrimSpace\<close>, \<open>strings.Trim\<close>,
  \<open>strings.Index\<close> for a one-character pattern, \<open>strconv.ParseBool\<close>,
  \<open>strconv.ParseInt\<close> with base 0 and 64 bits, and \<open>bufio.Scanner\<close> with its line
  splitter, whose tokens are limited to 64 KiB.
\<close>

type_synonym rune = nat
type_synonym gostr = "rune list"

definition runes :: "string \<Rightarrow> gostr" where
  "runes s = map of_char s"

definition isSpace :: "rune \<Rightarrow> bool" where
  "isSpace r \<longleftrightarrow>
     9 \<le> r \<and> r \<le> 13 \<or> r \<in> set [32, 0x85, 0xA0, 0x1680, 0x2028, 0x2029, 0x202F, 0x205F, 0x3000] \<or>
     0x2000 \<le> r \<and> r \<le> 0x200A"

definition TrimLeftFunc :: "(rune \<Rightarrow> bool) \<Rightarrow> gostr \<Rightarrow> gostr" where
  "TrimLeftFunc f s = dropWhile f s"

definition TrimRightFunc :: "(rune \<Rightarrow> bool) \<Rightarrow> gostr \<Rightarrow> gostr" where
  "TrimRightFunc f s = rev (dropWhile f (rev s))"

definition TrimFunc :: "(rune \<Rightarrow> bool) \<Rightarrow> gostr \<Rightarrow> gostr" where
  "TrimFunc f s = TrimRightFunc f (TrimLeftFunc f s)"

definition TrimSpace :: "gostr \<Rightarrow> gostr" where
  "TrimSpace s = TrimFunc isSpace s"

definition Trim :: "gostr \<Rightarrow> gostr \<Rightarrow> gostr" where
  "Trim s cutset = TrimFunc (\<lambda>r. r \<in> set cutset) s"

text \<open>The position of the first occurrence of a character, -1 when there is none.\<close>

definition strIndex :: "gostr \<Rightarrow> rune \<Rightarrow> int" where
  "strIndex s c = (if c \<in> set s then int (length (takeWhile (\<lambda>x. x \<noteq> c) s)) else - 1)"

subsection \<open>Numbers and truth values\<close>

definition ParseBool :: "gostr \<Rightarrow> bool option" where
  "ParseBool s =
     (if s \<in> set (map runes [''1'', ''t'', ''T'', ''true'', ''TRUE'', ''True'']) then Some True
      else if s \<in> set (map runes [''0'', ''f'', ''F'', ''false'', ''FALSE'', ''False'']) then Some False
      else None)"

definition lowerRune :: "rune \<Rightarrow> rune" where
  "lowerRune c = (if 65 \<le> c \<and> c \<le> 90 then c + 32 else c)"

definition digitVal :: "rune \<Rightarrow> nat option" where
  "digitVal c =
     (if 48 \<le> c \<and> c \<le> 57 then Some (c - 48)
      else if 97 \<le> lowerRune c \<and> lowerRune c \<le> 122 then Some (lowerRune c - 97 + 10)
      else None)"

fun digitsVal :: "nat \<Rightarrow> nat \<Rightarrow> gostr \<Rightarrow> nat option" where
  "digitsVal base n [] = Some n"
| "digitsVal base n (c # cs) =
     (if c = 95 then digitsVal base n cs
      else case digitVal c of
        None \<Rightarrow> None
      | Some d \<Rightarrow> if base \<le> d then None else digitsVal base (n * base + d) cs)"

text \<open>\<open>underscoreOK\<close>: underscores may only separate digits (or follow the base prefix).
  \<open>saw\<close> is 0 at a digit, 1 at an underscore, 2 at anything else or at the start.\<close>

fun underscoreScan :: "bool \<Rightarrow> nat \<Rightarrow> gostr \<Rightarrow> bool" where
  "underscoreScan hex saw [] \<longleftrightarrow> saw \<noteq> 1"
| "underscoreScan hex saw (c # cs) \<longleftrightarrow>
     (if 48 \<le> c \<and> c \<le> 57 \<or> hex \<and> 97 \<le> lowerRune c \<and> lowerRune c \<le> 102 then underscoreScan hex 0 cs
      else if c = 95 then saw = 0 \<and> underscoreScan hex 1 cs
      else saw \<noteq> 1 \<and> underscoreScan hex 2 cs)"

definition underscoreOK :: "gostr \<Rightarrow> bool" where
  "underscoreOK s \<longleftrightarrow>
     (if 2 \<le> length s \<and> s ! 0 = 48 \<and> lowerRune (s ! 1) \<in> set [98, 111, 120]
      then underscoreScan (lowerRune (s ! 1) = 120) 0 (drop 2 s)
      else underscoreScan False 2 s)"

text \<open>The magnitude: the digits are accumulated in the unbounded naturals, and the range is
  checked at the end; the library stops as soon as the value leaves 64 bits, which is an error
  in either case.\<close>

definition ParseUint0 :: "gostr \<Rightarrow> nat option" where
  "ParseUint0 s =
     (if s = [] then None else
      let (base, body) =
        (if s ! 0 \<noteq> 48 then (10, s)
         else if 3 \<le> length s \<and> lowerRune (s ! 1) = 98 then (2, drop 2 s)
         else if 3 \<le> length s \<and> lowerRune (s ! 1) = 111 then (8, drop 2 s)
         else if 3 \<le> length s \<and> lowerRune (s ! 1) = 120 then (16, drop 2 s)
         else (8, drop 1 s)) in
      case digitsVal base 0 body of
        None \<Rightarrow> None
      | Some n \<Rightarrow> if 95 \<in> set body \<and> \<not> underscoreOK s then None
          else if n < 2 ^ 64 then Some n else None)"

definition ParseInt0 :: "gostr \<Rightarrow> int option" where
  "ParseInt0 s =
     (if s = [] then None else
      let neg = (hd s = 45); body = (if hd s = 43 \<or> hd s = 45 then tl s else s) in
      case ParseUint0 body of
        None \<Rightarrow> None
      | Some un \<Rightarrow>
          if \<not> neg \<and> 2 ^ 63 \<le> un then None
          else if neg \<and> 2 ^ 63 < un then None
          else Some (if neg then - int un else int un))"

subsection \<open>Reading lines\<close>

definition runeLen :: "rune \<Rightarrow> nat" where
  "runeLen r = (if r < 0x80 then 1 else if r < 0x800 then 2 else if r < 0x10000 then 3 else 4)"

definition utf8Len :: "gostr \<Rightarrow> nat" where
  "utf8Len s = sum_list (map runeLen s)"

definition MaxScanTokenSize :: nat where
  "MaxScanTokenSize = 65536"

definition dropCR :: "gostr \<Rightarrow> gostr" where
  "dropCR s = (if s \<noteq> [] \<and> last s = 13 then butlast s else s)"

text \<open>The lines a scanner delivers, and whether it stopped because a line filled its buffer.\<close>

function scanLines :: "gostr \<Rightarrow> gostr list \<times> bool" where
  "scanLines s =
     (if s = [] then ([], False) else
      let l = takeWhile (\<lambda>c. c \<noteq> 10) s; rest = drop (Suc (length l)) s in
      if MaxScanTokenSize \<le> utf8Len l then ([], True) else
      let (ls, long) = scanLines rest in (dropCR l # ls, long))"
  by pat_completeness auto

termination scanLines
  by (relation "measure length") auto

declare scanLines.simps [simp del]


subsection \<open>Facts\<close>

definition trimmed :: "gostr \<Rightarrow> bool" where
  "trimmed s \<longleftrightarrow> s = [] \<or> \<not> isSpace (hd s) \<and> \<not> isSpace (last s)"

lemma takeWhile_upto: "c \<notin> set a \<Longrightarrow> takeWhile (\<lambda>x. x \<noteq> c) (a @ c # b) = a"
  by (induction a) auto

lemma dropWhile_hd: "xs = [] \<or> \<not> P (hd xs) \<Longrightarrow> dropWhile P xs = xs"
  by (cases xs) auto

lemma TrimFunc_id: "s = [] \<or> \<not> f (hd s) \<and> \<not> f (last s) \<Longrightarrow> TrimFunc f s = s"
  by (auto simp: TrimFunc_def TrimLeftFunc_def TrimRightFunc_def dropWhile_hd hd_rev)

lemma TrimSpace_trimmed: "trimmed s \<Longrightarrow> TrimSpace s = s"
  unfolding TrimSpace_def trimmed_def by (rule TrimFunc_id) auto

lemma TrimFunc_Cons: "f x \<Longrightarrow> TrimFunc f (x # s) = TrimFunc f s"
  by (simp add: TrimFunc_def TrimLeftFunc_def)

lemma TrimFunc_snoc: "f x \<Longrightarrow> TrimFunc f (s @ [x]) = TrimFunc f s"
proof (cases "\<forall>y\<in>set s. f y")
  case True
  moreover assume "f x"
  ultimately show ?thesis
    by (auto simp: TrimFunc_def TrimLeftFunc_def TrimRightFunc_def dropWhile_append2
        dest: set_dropWhileD)
next
  case False
  moreover assume "f x"
  ultimately show ?thesis
    by (auto simp: TrimFunc_def TrimLeftFunc_def TrimRightFunc_def dropWhile_append1)
qed

lemma hd_TrimFunc: "TrimFunc f s \<noteq> [] \<Longrightarrow> \<not> f (hd (TrimFunc f s)) \<and> \<not> f (last (TrimFunc f s))"
proof -
  let ?t = "dropWhile f s"
  assume "TrimFunc f s \<noteq> []"
  then have ne: "dropWhile f (rev ?t) \<noteq> []"
    by (simp add: TrimFunc_def TrimLeftFunc_def TrimRightFunc_def)
  have "\<not> f (last (TrimFunc f s))"
    using hd_dropWhile [OF ne]
    by (simp add: TrimFunc_def TrimLeftFunc_def TrimRightFunc_def last_rev)
  moreover have "?t \<noteq> []" using ne by (cases ?t) auto
  moreover have "hd (TrimFunc f s) = hd ?t"
  proof -
    have "rev ?t = takeWhile f (rev ?t) @ dropWhile f (rev ?t)" by simp
    then have "?t = rev (dropWhile f (rev ?t)) @ rev (takeWhile f (rev ?t))"
      by (metis rev_append rev_rev_ident)
    with ne show ?thesis
      unfolding TrimFunc_def TrimLeftFunc_def TrimRightFunc_def
      by (metis Nil_is_rev_conv hd_append2)
  qed
  ultimately show ?thesis using hd_dropWhile [of f s] by simp
qed

lemma trimmed_TrimSpace [simp]: "trimmed (TrimSpace s)"
  using hd_TrimFunc [of isSpace s] by (auto simp: trimmed_def TrimSpace_def)

lemma set_TrimFunc: "set (TrimFunc f s) \<subseteq> set s"
  by (auto simp: TrimFunc_def TrimLeftFunc_def TrimRightFunc_def dest!: set_dropWhileD)

lemma strIndex_append: "c \<notin> set a \<Longrightarrow> strIndex (a @ c # b) c = int (length a)"
  by (simp add: strIndex_def takeWhile_upto)

lemma strIndex_pos: "0 < strIndex s c \<Longrightarrow> c \<in> set s \<and> s \<noteq> [] \<and> hd s \<noteq> c"
  by (cases s) (auto simp: strIndex_def split: if_splits)

lemma scanLines_Nil [simp]: "scanLines [] = ([], False)"
  by (simp add: scanLines.simps)

lemma scanLines_line:
  "10 \<notin> set l \<Longrightarrow> utf8Len l < MaxScanTokenSize
   \<Longrightarrow> scanLines (l @ 10 # s) = (let (ls, long) = scanLines s in (dropCR l # ls, long))"
  by (subst scanLines.simps) (simp add: takeWhile_upto Let_def)

lemma scanLines_concat:
  assumes "\<And>l. l \<in> set ls \<Longrightarrow> 10 \<notin> set l \<and> utf8Len l < MaxScanTokenSize"
  shows "scanLines (concat (map (\<lambda>l. l @ [10]) ls)) = (map dropCR ls, False)"
  using assms by (induction ls) (simp_all add: scanLines_line)

lemma isSpace_values [simp]:
  "isSpace 13" "isSpace 32" "\<not> isSpace 61" "\<not> isSpace 91" "\<not> isSpace 93"
  by (simp_all add: isSpace_def)

lemma TrimSpace_dropCR: "TrimSpace (dropCR l) = TrimSpace l"
proof (cases "l \<noteq> [] \<and> last l = 13")
  case True
  then have "l = butlast l @ [13]" by (metis append_butlast_last_id)
  then have "TrimSpace l = TrimSpace (butlast l)"
    unfolding TrimSpace_def by (metis TrimFunc_snoc isSpace_values(1))
  with True show ?thesis by (simp add: dropCR_def)
qed (auto simp: dropCR_def)

lemma ParseInt0_range: "ParseInt0 s = Some i \<Longrightarrow> - (2 ^ 63) \<le> i \<and> i < 2 ^ 63"
  by (auto simp: ParseInt0_def Let_def split: if_splits option.splits)

end
