(* ===== verification/Ini.thy ===== *)
theory Ini
  imports Gostring
begin

text \<open>
  The configuration files of \<open>src/stconfig/ini.go\<close>: reading (\<open>LoadINI\<close>,
  \<open>readIniFile\<close>), writing (\<open>Save\<close>), editing (\<open>Set\<close>, \<open>SectionSet\<close>,
  \<open>DelSection\<close>) and the typed getters.  The file system is a map from paths to contents.

  The sections of a configuration are reached through pointers that are never shared between
  two names, so the map holds the sections themselves and the reader's
  \<open>currentSection\<close> is the name of the section it points to.  The reader is a fold of
  \<open>iniLine\<close> over the lines of the file.
\<close>

record configSection =
  sec_name :: gostr
  sec_values :: "gostr \<rightharpoonup> gostr"
  commentSection :: gostr
  commentValues :: "gostr \<rightharpoonup> gostr"
  sec_keys :: "gostr list"

record Config =
  cfg_top :: configSection
  cfg_sections :: "gostr \<rightharpoonup> configSection"
  sectionkeys :: "gostr list"
  cfg_path :: gostr

datatype iniError = OpenFailed | CreateFailed | NoBracket nat | NoEquals nat | TooLong

subsection \<open>Reading\<close>

definition trimSpaceAndComment :: "gostr \<Rightarrow> gostr \<times> gostr" where
  "trimSpaceAndComment l =
     (let s = TrimSpace l in
      if s = [] then ([], [])
      else if hd s = 35 \<or> hd s = 59 then ([], s)
      else (s, []))"

definition new_section :: "gostr \<Rightarrow> gostr \<Rightarrow> configSection" where
  "new_section n com = \<lparr>sec_name = n, sec_values = Map.empty, commentSection = com,
     commentValues = Map.empty, sec_keys = []\<rparr>"

definition addKey :: "gostr \<Rightarrow> gostr \<Rightarrow> gostr \<Rightarrow> configSection \<Rightarrow> configSection" where
  "addKey key value com sec =
     sec\<lparr>sec_values := (sec_values sec)(key \<mapsto> value),
       commentValues := (commentValues sec)(key \<mapsto> com),
       sec_keys := sec_keys sec @ [key]\<rparr>"

text \<open>The local variables of \<open>readIniFile\<close>.\<close>

record iniReader =
  rd_ln :: nat
  rd_comment :: gostr
  rd_section :: "gostr option"
  rcfg :: Config

definition emptyConfig :: Config where
  "emptyConfig = \<lparr>cfg_top = new_section [] [], cfg_sections = Map.empty, sectionkeys = [], cfg_path = []\<rparr>"

definition dropBOM :: "nat \<Rightarrow> gostr \<Rightarrow> gostr" where
  "dropBOM n l = (if n = 1 \<and> l \<noteq> [] \<and> hd l = 65279 then tl l else l)"

definition openSection :: "gostr \<Rightarrow> iniReader \<Rightarrow> iniReader" where
  "openSection n st =
     (let c = rcfg st in
      case cfg_sections c n of
        None \<Rightarrow> st\<lparr>rd_section := Some n, rd_comment := [],
          rcfg := c\<lparr>cfg_sections := (cfg_sections c)(n \<mapsto> new_section n (rd_comment st)),
            sectionkeys := sectionkeys c @ [n]\<rparr>\<rparr>
      | Some _ \<Rightarrow> st\<lparr>rd_section := Some n, rd_comment := []\<rparr>)"

definition putKey :: "gostr \<Rightarrow> gostr \<Rightarrow> iniReader \<Rightarrow> iniReader" where
  "putKey key value st =
     (let c = rcfg st in
      case rd_section st of
        Some n \<Rightarrow> st\<lparr>rd_comment := [], rcfg := c\<lparr>cfg_sections :=
          (cfg_sections c)(n := map_option (addKey key value (rd_comment st)) (cfg_sections c n))\<rparr>\<rparr>
      | None \<Rightarrow> st\<lparr>rd_comment := [], rcfg := c\<lparr>cfg_top := addKey key value (rd_comment st) (cfg_top c)\<rparr>\<rparr>)"

definition iniLine :: "iniReader \<Rightarrow> gostr \<Rightarrow> iniError + iniReader" where
  "iniLine st0 raw =
     (let st = st0\<lparr>rd_ln := rd_ln st0 + 1\<rparr>;
          (curLine, curComment) = trimSpaceAndComment (dropBOM (rd_ln st) raw) in
      if curLine = [] then Inr (st\<lparr>rd_comment := rd_comment st @ curComment\<rparr>)
      else if hd curLine = 91 then
        (if last curLine \<noteq> 93 then Inl (NoBracket (rd_ln st))
         else Inr (openSection (subseg 1 (length curLine - 1) curLine) st))
      else let index = strIndex curLine 61 in
        if index \<le> 0 then Inl (NoEquals (rd_ln st))
        else Inr (putKey (TrimSpace (take (nat index) curLine))
               (Trim (TrimSpace (drop (nat index + 1) curLine)) [34, 39]) st))"

fun iniLines :: "iniReader \<Rightarrow> gostr list \<Rightarrow> iniError + iniReader" where
  "iniLines st [] = Inr st"
| "iniLines st (l # ls) =
     (case iniLine st l of Inl e \<Rightarrow> Inl e | Inr st' \<Rightarrow> iniLines st' ls)"

definition startReader :: iniReader where
  "startReader = \<lparr>rd_ln = 0, rd_comment = [], rd_section = None, rcfg = emptyConfig\<rparr>"

definition readIniFile :: "gostr \<Rightarrow> iniError + Config" where
  "readIniFile input =
     (let (ls, long) = scanLines input in
      case iniLines startReader ls of
        Inl e \<Rightarrow> Inl e
      | Inr st \<Rightarrow> if long then Inl TooLong else Inr (rcfg st))"

definition LoadINI :: "(gostr \<rightharpoonup> gostr) \<Rightarrow> gostr \<Rightarrow> iniError + Config" where
  "LoadINI fs path =
     (case fs path of
        None \<Rightarrow> Inl OpenFailed
      | Some input \<Rightarrow>
          (case readIniFile input of Inl e \<Rightarrow> Inl e | Inr c \<Rightarrow> Inr (c\<lparr>cfg_path := path\<rparr>)))"

subsection \<open>Writing\<close>

definition entryText :: "configSection \<Rightarrow> gostr \<Rightarrow> gostr" where
  "entryText sec key =
     (case sec_values sec key of
        None \<Rightarrow> []
      | Some val \<Rightarrow>
          (case commentValues sec key of
             Some com \<Rightarrow> if com \<noteq> [] then com @ [10] else []
           | None \<Rightarrow> []) @
          key @ runes '' = '' @ val @ [10])"

definition sectionText :: "Config \<Rightarrow> gostr \<Rightarrow> gostr" where
  "sectionText c seckey =
     (case cfg_sections c seckey of
        None \<Rightarrow> []
      | Some sec \<Rightarrow>
          [10] @
          (if commentSection sec \<noteq> [] then commentSection sec @ [10] else []) @
          runes ''['' @ sec_name sec @ runes '']'' @ [10] @
          concat (map (entryText sec) (sec_keys sec)))"

definition saveText :: "Config \<Rightarrow> gostr" where
  "saveText c =
     concat (map (entryText (cfg_top c)) (sec_keys (cfg_top c))) @
     concat (map (sectionText c) (sectionkeys c))"

text \<open>\<open>can_create\<close> says for which paths \<open>os.Create\<close> succeeds.\<close>

definition Save :: "(gostr \<Rightarrow> bool) \<Rightarrow> Config \<Rightarrow> (gostr \<rightharpoonup> gostr)
    \<Rightarrow> iniError option \<times> (gostr \<rightharpoonup> gostr)" where
  "Save can_create c fs =
     (if can_create (cfg_path c) then (None, fs(cfg_path c \<mapsto> saveText c))
      else (Some CreateFailed, fs))"

subsection \<open>Editing\<close>

definition sectionSetKey :: "gostr \<Rightarrow> gostr \<Rightarrow> gostr \<Rightarrow> configSection \<Rightarrow> configSection" where
  "sectionSetKey key val com0 sec =
     (let com = (if com0 \<noteq> [] then 35 # com0 else com0) in
      case sec_values sec key of
        Some _ \<Rightarrow> sec\<lparr>sec_values := (sec_values sec)(key \<mapsto> val),
          commentValues := (if com \<noteq> [] then (commentValues sec)(key \<mapsto> com) else commentValues sec)\<rparr>
      | None \<Rightarrow> sec\<lparr>sec_values := (sec_values sec)(key \<mapsto> val),
          commentValues := (commentValues sec)(key \<mapsto> com),
          sec_keys := sec_keys sec @ [key]\<rparr>)"

definition cfgSet :: "gostr \<Rightarrow> gostr \<Rightarrow> gostr \<Rightarrow> Config \<Rightarrow> Config" where
  "cfgSet key val com c = c\<lparr>cfg_top := sectionSetKey key val com (cfg_top c)\<rparr>"

definition SectionSet :: "gostr \<Rightarrow> gostr \<Rightarrow> gostr \<Rightarrow> gostr \<Rightarrow> Config \<Rightarrow> Config" where
  "SectionSet section key val com c =
     (case cfg_sections c section of
        Some sec \<Rightarrow> c\<lparr>cfg_sections := (cfg_sections c)(section \<mapsto> sectionSetKey key val com sec)\<rparr>
      | None \<Rightarrow>
          c\<lparr>cfg_sections := (cfg_sections c)(section \<mapsto>
               \<lparr>sec_name = section, sec_values = [key \<mapsto> val], commentSection = [],
                commentValues = (if com \<noteq> [] then [key \<mapsto> 35 # com] else Map.empty),
                sec_keys = [key]\<rparr>),
            sectionkeys := sectionkeys c @ [section]\<rparr>)"

definition DelSection :: "gostr \<Rightarrow> Config \<Rightarrow> Config" where
  "DelSection section c = c\<lparr>cfg_sections := (cfg_sections c)(section := None)\<rparr>"

subsection \<open>Getters\<close>

definition cfg_string :: "(gostr \<rightharpoonup> gostr) \<Rightarrow> gostr \<Rightarrow> gostr \<Rightarrow> gostr" where
  "cfg_string kv key d = (case kv key of None \<Rightarrow> d | Some v \<Rightarrow> v)"

definition cfg_boolean :: "(gostr \<rightharpoonup> gostr) \<Rightarrow> gostr \<Rightarrow> bool \<Rightarrow> bool" where
  "cfg_boolean kv key d =
     (case kv key of None \<Rightarrow> d | Some v \<Rightarrow> (case ParseBool v of None \<Rightarrow> d | Some b \<Rightarrow> b))"

definition cfg_integer :: "(gostr \<rightharpoonup> gostr) \<Rightarrow> gostr \<Rightarrow> int \<Rightarrow> int" where
  "cfg_integer kv key d =
     (case kv key of None \<Rightarrow> d | Some v \<Rightarrow> (case ParseInt0 v of None \<Rightarrow> d | Some i \<Rightarrow> i))"

text \<open>\<open>strconv.ParseFloat\<close> is the parameter \<open>parseFloat\<close>; \<open>None\<close> is its error.\<close>

definition cfg_float :: "(gostr \<Rightarrow> 'f option) \<Rightarrow> (gostr \<rightharpoonup> gostr) \<Rightarrow> gostr \<Rightarrow> 'f \<Rightarrow> 'f" where
  "cfg_float parseFloat kv key d =
     (case kv key of None \<Rightarrow> d | Some v \<Rightarrow> (case parseFloat v of None \<Rightarrow> d | Some f \<Rightarrow> f))"

definition String :: "Config \<Rightarrow> gostr \<Rightarrow> gostr \<Rightarrow> gostr" where
  "String c key d = cfg_string (sec_values (cfg_top c)) key d"

definition Boolean :: "Config \<Rightarrow> gostr \<Rightarrow> bool \<Rightarrow> bool" where
  "Boolean c key d = cfg_boolean (sec_values (cfg_top c)) key d"

definition Integer :: "Config \<Rightarrow> gostr \<Rightarrow> int \<Rightarrow> int" where
  "Integer c key d = cfg_integer (sec_values (cfg_top c)) key d"

definition Float :: "(gostr \<Rightarrow> 'f option) \<Rightarrow> Config \<Rightarrow> gostr \<Rightarrow> 'f \<Rightarrow> 'f" where
  "Float parseFloat c key d = cfg_float parseFloat (sec_values (cfg_top c)) key d"

definition StringSection :: "Config \<Rightarrow> gostr \<Rightarrow> gostr \<Rightarrow> gostr \<Rightarrow> gostr" where
  "StringSection c sec key d =
     (case cfg_sections c sec of None \<Rightarrow> d | Some m \<Rightarrow> cfg_string (sec_values m) key d)"

definition BooleanSection :: "Config \<Rightarrow> gostr \<Rightarrow> gostr \<Rightarrow> bool \<Rightarrow> bool" where
  "BooleanSection c sec key d =
     (case cfg_sections c sec of None \<Rightarrow> d | Some m \<Rightarrow> cfg_boolean (sec_values m) key d)"

definition IntegerSection :: "Config \<Rightarrow> gostr \<Rightarrow> gostr \<Rightarrow> int \<Rightarrow> int" where
  "IntegerSection c sec key d =
     (case cfg_sections c sec of None \<Rightarrow> d | Some m \<Rightarrow> cfg_integer (sec_values m) key d)"

definition FloatSection :: "(gostr \<Rightarrow> 'f option) \<Rightarrow> Config \<Rightarrow> gostr \<Rightarrow> gostr \<Rightarrow> 'f \<Rightarrow> 'f" where
  "FloatSection parseFloat c sec key d =
     (case cfg_sections c sec of None \<Rightarrow> d | Some m \<Rightarrow> cfg_float parseFloat (sec_values m) key d)"

definition Section :: "Config \<Rightarrow> gostr \<Rightarrow> (gostr \<rightharpoonup> gostr) option" where
  "Section c sec = (case cfg_sections c sec of None \<Rightarrow> None | Some m \<Rightarrow> Some (sec_values m))"

end
