(* ===== verification/Ini_Props.thy ===== *)
theory Ini_Props
  imports Ini
begin

text \<open>
  What the configuration component promises: editing is a map update that keeps the
  configuration well formed, a malformed file is reported with the number of its first bad
  line, and a configuration that is saved and loaded again answers every getter as before.
\<close>

subsection \<open>Well-formed configurations\<close>

text \<open>The key list enumerates the values, comments belong to keys, every section is stored
  under its own name and listed in \<open>sectionkeys\<close> (which may list deleted sections too).\<close>

definition section_wf :: "configSection \<Rightarrow> bool" where
  "section_wf s \<longleftrightarrow> set (sec_keys s) = dom (sec_values s) \<and> dom (commentValues s) \<subseteq> dom (sec_values s)"

definition config_wf :: "Config \<Rightarrow> bool" where
  "config_wf c \<longleftrightarrow>
     section_wf (cfg_top c) \<and>
     (\<forall>n s. cfg_sections c n = Some s \<longrightarrow> section_wf s \<and> sec_name s = n \<and> n \<in> set (sectionkeys c))"

lemma section_wf_new [simp]: "section_wf (new_section n com)"
  by (simp add: section_wf_def new_section_def)

lemma section_wf_addKey [simp]: "section_wf s \<Longrightarrow> section_wf (addKey k v com s)"
  by (auto simp: section_wf_def addKey_def)

lemma section_wf_sectionSetKey [simp]: "section_wf s \<Longrightarrow> section_wf (sectionSetKey k v com s)"
  by (auto simp: section_wf_def sectionSetKey_def Let_def split: option.splits if_splits)

lemma sec_name_edit [simp]:
  "sec_name (addKey k v com s) = sec_name s" "sec_name (sectionSetKey k v com s) = sec_name s"
  "sec_name (new_section n com) = n"
  by (simp_all add: addKey_def sectionSetKey_def new_section_def Let_def split: option.splits)

lemma sec_values_sectionSetKey [simp]:
  "sec_values (sectionSetKey k v com s) = (sec_values s)(k \<mapsto> v)"
  by (simp add: sectionSetKey_def Let_def split: option.splits)

lemma config_wf_cfgSet: "config_wf c \<Longrightarrow> config_wf (cfgSet k v com c)"
  by (simp add: config_wf_def cfgSet_def)

lemma config_wf_SectionSet: "config_wf c \<Longrightarrow> config_wf (SectionSet n k v com c)"
  by (cases "cfg_sections c n")
    (auto simp: config_wf_def SectionSet_def, auto simp: section_wf_def)

lemma config_wf_DelSection: "config_wf c \<Longrightarrow> config_wf (DelSection n c)"
  by (auto simp: config_wf_def DelSection_def)

lemma config_wf_empty: "config_wf emptyConfig"
  by (simp add: config_wf_def emptyConfig_def)

lemma reader_wf_step:
  assumes "config_wf (rcfg st)" and "iniLine st l = Inr st'"
  shows "config_wf (rcfg st')"
  using assms
  by (auto simp: iniLine_def Let_def openSection_def putKey_def config_wf_def
      split: if_splits prod.splits option.splits)

lemma reader_wf: "config_wf (rcfg st) \<Longrightarrow> iniLines st ls = Inr st' \<Longrightarrow> config_wf (rcfg st')"
  by (induction ls arbitrary: st) (auto split: sum.splits dest: reader_wf_step)

lemma config_wf_readIniFile: "readIniFile input = Inr c \<Longrightarrow> config_wf c"
  using reader_wf [of startReader] config_wf_empty
  by (auto simp: readIniFile_def startReader_def split: sum.splits prod.splits if_splits)

lemma config_wf_LoadINI: "LoadINI fs p = Inr c \<Longrightarrow> config_wf c"
  by (auto simp: LoadINI_def config_wf_def split: option.splits sum.splits
      dest!: config_wf_readIniFile)


subsection \<open>The text as lines\<close>

definition entryLines :: "configSection \<Rightarrow> gostr \<Rightarrow> gostr list" where
  "entryLines sec key =
     (case sec_values sec key of
        None \<Rightarrow> []
      | Some val \<Rightarrow>
          (case commentValues sec key of
             Some com \<Rightarrow> if com \<noteq> [] then [com] else []
           | None \<Rightarrow> []) @ [key @ runes '' = '' @ val])"

definition sectionLines :: "Config \<Rightarrow> gostr \<Rightarrow> gostr list" where
  "sectionLines c n =
     (case cfg_sections c n of
        None \<Rightarrow> []
      | Some sec \<Rightarrow>
          [[]] @ (if commentSection sec \<noteq> [] then [commentSection sec] else []) @
          [runes ''['' @ sec_name sec @ runes '']''] @
          concat (map (entryLines sec) (sec_keys sec)))"

definition configLines :: "Config \<Rightarrow> gostr list" where
  "configLines c =
     concat (map (entryLines (cfg_top c)) (sec_keys (cfg_top c))) @
     concat (map (sectionLines c) (sectionkeys c))"

definition unlines :: "gostr list \<Rightarrow> gostr" where
  "unlines ls = concat (map (\<lambda>l. l @ [10]) ls)"

lemma unlines_simps [simp]:
  "unlines [] = []" "unlines (l # ls) = l @ 10 # unlines ls" "unlines (ls @ ms) = unlines ls @ unlines ms"
  by (simp_all add: unlines_def)

lemma unlines_concat: "unlines (concat (map f xs)) = concat (map (\<lambda>x. unlines (f x)) xs)"
  by (induction xs) auto

lemma unlines_entry: "unlines (entryLines sec key) = entryText sec key"
  by (simp add: entryLines_def entryText_def split: option.splits)

lemma unlines_section: "unlines (sectionLines c n) = sectionText c n"
  by (simp add: sectionLines_def sectionText_def unlines_concat unlines_entry split: option.splits)

lemma saveText_lines: "saveText c = unlines (configLines c)"
  by (simp add: saveText_def configLines_def unlines_concat unlines_entry unlines_section)


subsection \<open>Reading back one entry\<close>

text \<open>The texts that the format can carry: trimmed, on one line, keys without an equals sign
  and not mistaken for a comment, a section or a byte order mark, values without quotes at
  their ends.\<close>

definition key_ok :: "gostr \<Rightarrow> bool" where
  "key_ok k \<longleftrightarrow> k \<noteq> [] \<and> trimmed k \<and> 61 \<notin> set k \<and> 10 \<notin> set k \<and> hd k \<notin> set [35, 59, 91, 65279]"

definition value_ok :: "gostr \<Rightarrow> bool" where
  "value_ok v \<longleftrightarrow> v = [] \<or>
     trimmed v \<and> 10 \<notin> set v \<and> hd v \<notin> set [34, 39] \<and> last v \<notin> set [34, 39]"

definition comment_ok :: "gostr \<Rightarrow> bool" where
  "comment_ok com \<longleftrightarrow> com = [] \<or> trimmed com \<and> 10 \<notin> set com \<and> hd com \<in> set [35, 59]"

lemma iniLine_dropCR: "iniLine st (dropCR l) = iniLine st l"
proof -
  have "TrimSpace (dropBOM n (dropCR l)) = TrimSpace (dropBOM n l)" for n
    by (cases l rule: rev_cases; cases "tl l" rule: rev_cases)
      (auto simp: dropBOM_def dropCR_def hd_append TrimSpace_def TrimFunc_snoc
        split: if_splits)
  then show ?thesis by (simp add: iniLine_def trimSpaceAndComment_def Let_def)
qed

lemma iniLines_dropCR: "iniLines st (map dropCR ls) = iniLines st ls"
  by (induction ls arbitrary: st) (auto simp: iniLine_dropCR split: sum.splits)

lemma iniLines_append:
  "iniLines st (xs @ ys) = (case iniLines st xs of Inl e \<Rightarrow> Inl e | Inr st' \<Rightarrow> iniLines st' ys)"
  by (induction xs arbitrary: st) (auto split: sum.splits)

lemma iniLine_empty: "iniLine st [] = Inr (st\<lparr>rd_ln := rd_ln st + 1\<rparr>)"
  by (simp add: iniLine_def trimSpaceAndComment_def dropBOM_def TrimSpace_trimmed trimmed_def)

lemma iniLine_comment:
  assumes "comment_ok com" and "com \<noteq> []"
  shows "iniLine st com = Inr (st\<lparr>rd_ln := rd_ln st + 1, rd_comment := rd_comment st @ com\<rparr>)"
proof -
  have "dropBOM n com = com" for n using assms by (auto simp: dropBOM_def comment_ok_def)
  with assms show ?thesis
    by (auto simp: iniLine_def trimSpaceAndComment_def comment_ok_def TrimSpace_trimmed Let_def)
qed

lemma iniLine_section:
  "iniLine st (runes ''['' @ n @ runes '']'') = Inr (openSection n (st\<lparr>rd_ln := rd_ln st + 1\<rparr>))"
proof -
  let ?l = "91 # n @ [93]"
  have "TrimSpace ?l = ?l" by (rule TrimSpace_trimmed) (simp add: trimmed_def isSpace_def)
  moreover have "dropBOM m ?l = ?l" for m by (simp add: dropBOM_def)
  moreover have "subseg 1 (length ?l - 1) ?l = n" by (simp add: subseg_def)
  ultimately show ?thesis
    by (simp add: iniLine_def trimSpaceAndComment_def runes_def Let_def)
qed

lemma TrimSpace_entry:
  assumes "key_ok k" and "value_ok v"
  shows "TrimSpace (k @ runes '' = '' @ v) = k @ [32, 61] @ (if v = [] then [] else 32 # v)"
proof (cases "v = []")
  case True
  have "trimmed (k @ [32, 61])" using assms(1) by (auto simp: trimmed_def key_ok_def)
  moreover have "TrimSpace (k @ runes '' = '' @ v) = TrimSpace (k @ [32, 61])"
    using TrimFunc_snoc [of isSpace 32 "k @ [32, 61]"] True
    by (simp add: TrimSpace_def runes_def isSpace_def)
  ultimately show ?thesis using True by (simp add: TrimSpace_trimmed)
next
  case False
  with assms have "trimmed (k @ 32 # 61 # 32 # v)"
    by (auto simp: trimmed_def key_ok_def value_ok_def)
  with False show ?thesis by (simp add: TrimSpace_trimmed runes_def)
qed

lemma iniLine_entry:
  assumes "key_ok k" and "value_ok v"
  shows "iniLine st (k @ runes '' = '' @ v) = Inr (putKey k v (st\<lparr>rd_ln := rd_ln st + 1\<rparr>))"
proof -
  let ?w = "if v = [] then [] else 32 # v"
  let ?l = "k @ [32, 61] @ ?w"
  have k: "k \<noteq> []" "hd k \<noteq> 35" "hd k \<noteq> 59" "hd k \<noteq> 91" "hd k \<noteq> 65279" "61 \<notin> set k" "trimmed k"
    using assms(1) by (auto simp: key_ok_def)
  have "dropBOM n (k @ runes '' = '' @ v) = k @ runes '' = '' @ v" for n
    using k by (simp add: dropBOM_def)
  moreover have "strIndex ?l 61 = int (length (k @ [32]))"
    using strIndex_append [of 61 "k @ [32]" ?w] k by simp
  moreover have "TrimSpace (k @ [32]) = k"
    using TrimFunc_snoc [of isSpace 32 k] TrimSpace_trimmed [OF k(7)]
    by (simp add: TrimSpace_def isSpace_def)
  moreover have "TrimSpace ?w = v"
    using TrimSpace_trimmed [of v] TrimFunc_Cons [of isSpace 32 v] assms(2)
    by (auto simp: TrimSpace_def value_ok_def trimmed_def)
  moreover have "Trim v [34, 39] = v"
    unfolding Trim_def using assms(2) by (intro TrimFunc_id) (auto simp: value_ok_def)
  ultimately show ?thesis
    using k by (simp add: iniLine_def trimSpaceAndComment_def TrimSpace_entry [OF assms] Let_def nat_add_distrib)
qed

subsection \<open>Reading back a section\<close>

definition com_of :: "configSection \<Rightarrow> gostr \<Rightarrow> gostr" where
  "com_of s k = (case commentValues s k of None \<Rightarrow> [] | Some com \<Rightarrow> com)"

definition printable_section :: "configSection \<Rightarrow> bool" where
  "printable_section s \<longleftrightarrow>
     10 \<notin> set (sec_name s) \<and> comment_ok (commentSection s) \<and>
     list_all (\<lambda>k. case sec_values s k of None \<Rightarrow> True
        | Some v \<Rightarrow> key_ok k \<and> value_ok v \<and> comment_ok (com_of s k)) (sec_keys s)"

text \<open>The update of the section that the reader is in, and the effect of one entry on it.\<close>

definition updSec :: "gostr option \<Rightarrow> (configSection \<Rightarrow> configSection) \<Rightarrow> Config \<Rightarrow> Config" where
  "updSec cur f c =
     (case cur of
        None \<Rightarrow> c\<lparr>cfg_top := f (cfg_top c)\<rparr>
      | Some n \<Rightarrow> c\<lparr>cfg_sections := (cfg_sections c)(n := map_option f (cfg_sections c n))\<rparr>)"

definition readBack :: "configSection \<Rightarrow> gostr \<Rightarrow> configSection \<Rightarrow> configSection" where
  "readBack t k s = (case sec_values t k of None \<Rightarrow> s | Some v \<Rightarrow> addKey k v (com_of t k) s)"

lemma putKey_updSec:
  "putKey k v st = st\<lparr>rd_comment := [], rcfg := updSec (rd_section st) (addKey k v (rd_comment st)) (rcfg st)\<rparr>"
  by (simp add: putKey_def updSec_def Let_def split: option.splits)

lemma updSec_comp: "updSec cur g (updSec cur f c) = updSec cur (\<lambda>s. g (f s)) c"
  by (simp add: updSec_def option.map_comp comp_def split: option.splits)

lemma updSec_id: "updSec cur (\<lambda>s. s) c = c"
  by (simp add: updSec_def option.map_ident split: option.splits)

lemma iniLines_entry:
  assumes "rd_comment st = []"
    and "\<And>v. sec_values t k = Some v \<Longrightarrow> key_ok k \<and> value_ok v \<and> comment_ok (com_of t k)"
  shows "iniLines st (entryLines t k) = Inr (st\<lparr>rd_ln := rd_ln st + length (entryLines t k),
           rcfg := updSec (rd_section st) (readBack t k) (rcfg st)\<rparr>)"
proof (cases "sec_values t k")
  case None
  then have "readBack t k = (\<lambda>s. s)" by (simp add: readBack_def fun_eq_iff)
  with None show ?thesis by (simp add: entryLines_def updSec_id)
next
  case (Some v)
  with assms(2) have ok: "key_ok k" "value_ok v" "comment_ok (com_of t k)" by auto
  have e: "entryLines t k = (if com_of t k \<noteq> [] then [com_of t k] else []) @ [k @ runes '' = '' @ v]"
    by (simp add: entryLines_def Some com_of_def split: option.splits)
  have r: "readBack t k = addKey k v (com_of t k)" by (simp add: readBack_def Some fun_eq_iff)
  show ?thesis
    by (cases "com_of t k = []"; cases st)
      (use assms(1) in \<open>simp_all add: e iniLine_entry [OF ok(1,2)] iniLine_comment [OF ok(3)]
        putKey_updSec r\<close>)
qed

lemma iniLines_entries:
  assumes "rd_comment st = []"
    and "list_all (\<lambda>k. case sec_values t k of None \<Rightarrow> True
        | Some v \<Rightarrow> key_ok k \<and> value_ok v \<and> comment_ok (com_of t k)) ks"
  shows "iniLines st (concat (map (entryLines t) ks)) =
           Inr (st\<lparr>rd_ln := rd_ln st + length (concat (map (entryLines t) ks)),
             rcfg := updSec (rd_section st) (fold (readBack t) ks) (rcfg st)\<rparr>)"
  using assms
proof (induction ks arbitrary: st)
  case Nil
  then show ?case by (simp add: updSec_id id_def)
next
  case (Cons k ks)
  have "iniLines st (entryLines t k) = Inr (st\<lparr>rd_ln := rd_ln st + length (entryLines t k),
           rcfg := updSec (rd_section st) (readBack t k) (rcfg st)\<rparr>)"
    using Cons.prems by (intro iniLines_entry) (auto split: option.splits)
  with Cons show ?case
    by (simp add: iniLines_append updSec_comp comp_def add.assoc)
qed

lemma readBack_fold:
  "sec_values (fold (readBack t) ks s) k =
     (if k \<in> set ks \<and> sec_values t k \<noteq> None then sec_values t k else sec_values s k)"
  "com_of (fold (readBack t) ks s) k =
     (if k \<in> set ks \<and> sec_values t k \<noteq> None then com_of t k else com_of s k)"
  "sec_name (fold (readBack t) ks s) = sec_name s"
  "commentSection (fold (readBack t) ks s) = commentSection s"
  by (induction ks arbitrary: s)
    (auto simp: readBack_def addKey_def com_of_def split: option.splits)

definition sec_sim :: "configSection \<Rightarrow> configSection \<Rightarrow> bool" where
  "sec_sim t s \<longleftrightarrow> sec_name s = sec_name t \<and> sec_values s = sec_values t \<and>
     commentSection s = commentSection t \<and> com_of s = com_of t"

lemma com_of_outside: "section_wf t \<Longrightarrow> sec_values t k = None \<Longrightarrow> com_of t k = []"
  by (auto simp: section_wf_def com_of_def split: option.splits)

lemma readBack_values:
  assumes "section_wf t" and "sec_values s = Map.empty \<and> com_of s = (\<lambda>_. []) \<or>
      sec_values s = sec_values t \<and> com_of s = com_of t"
  shows "sec_values (fold (readBack t) (sec_keys t) s) = sec_values t"
    and "com_of (fold (readBack t) (sec_keys t) s) = com_of t"
proof -
  have "k \<in> set (sec_keys t)" if "sec_values t k = Some v" for k v
    using assms(1) that by (auto simp: section_wf_def)
  then show "sec_values (fold (readBack t) (sec_keys t) s) = sec_values t"
    using assms(2) by (auto simp: fun_eq_iff readBack_fold) (metis not_None_eq)
  show "com_of (fold (readBack t) (sec_keys t) s) = com_of t"
  proof
    fix k
    show "com_of (fold (readBack t) (sec_keys t) s) k = com_of t k"
      using assms com_of_outside [of t k]
      by (cases "sec_values t k") (auto simp: readBack_fold section_wf_def)
  qed
qed

lemma new_section_simps [simp]:
  "com_of (new_section n com) = (\<lambda>_. [])" "sec_values (new_section n com) = Map.empty"
  "commentSection (new_section n com) = com"
  by (simp_all add: fun_eq_iff com_of_def new_section_def)

lemma readBack_sim:
  assumes "section_wf t" and "s = new_section (sec_name t) (commentSection t) \<or> sec_sim t s"
  shows "sec_sim t (fold (readBack t) (sec_keys t) s)"
proof -
  have "sec_values s = Map.empty \<and> com_of s = (\<lambda>_. []) \<or>
      sec_values s = sec_values t \<and> com_of s = com_of t"
    using assms(2) by (auto simp: sec_sim_def)
  from readBack_values [OF assms(1) this] show ?thesis
    using assms(2) by (auto simp: sec_sim_def readBack_fold)
qed

subsection \<open>Reading back a file\<close>

definition openCfg :: "gostr \<Rightarrow> gostr \<Rightarrow> Config \<Rightarrow> Config" where
  "openCfg n com c =
     (case cfg_sections c n of
        None \<Rightarrow> c\<lparr>cfg_sections := (cfg_sections c)(n \<mapsto> new_section n com),
                   sectionkeys := sectionkeys c @ [n]\<rparr>
      | Some _ \<Rightarrow> c)"

lemma openSection_openCfg:
  "openSection n st = st\<lparr>rd_section := Some n, rd_comment := [], rcfg := openCfg n (rd_comment st) (rcfg st)\<rparr>"
  by (simp add: openSection_def openCfg_def Let_def split: option.splits)

definition loadSection :: "Config \<Rightarrow> gostr \<Rightarrow> Config \<Rightarrow> Config" where
  "loadSection c n d =
     (case cfg_sections c n of
        None \<Rightarrow> d
      | Some t \<Rightarrow> updSec (Some n) (fold (readBack t) (sec_keys t)) (openCfg n (commentSection t) d))"

lemma iniLines_section:
  assumes "rd_comment st = []"
    and "\<And>t. cfg_sections c n = Some t \<Longrightarrow> printable_section t \<and> sec_name t = n"
  shows "\<exists>cur m. iniLines st (sectionLines c n) =
    Inr (st\<lparr>rd_ln := m, rd_section := cur, rd_comment := [], rcfg := loadSection c n (rcfg st)\<rparr>)"
proof (cases "cfg_sections c n")
  case None
  then have "iniLines st (sectionLines c n) = Inr (st\<lparr>rd_ln := rd_ln st,
      rd_section := rd_section st, rd_comment := [], rcfg := loadSection c n (rcfg st)\<rparr>)"
    using assms(1) by (simp add: sectionLines_def loadSection_def)
  then show ?thesis by blast
next
  case (Some t)
  with assms(2) have t: "printable_section t" "sec_name t = n" by auto
  then have com: "comment_ok (commentSection t)" by (simp add: printable_section_def)
  define pre where "pre = [[]] @ (if commentSection t \<noteq> [] then [commentSection t] else []) @
    [runes ''['' @ n @ runes '']'']"
  let ?st = "st\<lparr>rd_ln := rd_ln st + length pre, rd_section := Some n, rd_comment := [],
       rcfg := openCfg n (commentSection t) (rcfg st)\<rparr>"
  let ?es = "concat (map (entryLines t) (sec_keys t))"
  have 1: "iniLines st pre = Inr ?st"
    by (cases "commentSection t = []")
      (simp_all add: pre_def iniLine_empty iniLine_comment [OF com] iniLine_section
        openSection_openCfg assms(1))
  have 2: "sectionLines c n = pre @ ?es"
    by (simp add: sectionLines_def Some t pre_def)
  have 3: "iniLines ?st ?es = Inr (?st\<lparr>rd_ln := rd_ln ?st + length ?es,
      rcfg := updSec (rd_section ?st) (fold (readBack t) (sec_keys t)) (rcfg ?st)\<rparr>)"
    by (rule iniLines_entries) (use t in \<open>auto simp: printable_section_def\<close>)
  have "iniLines st (sectionLines c n) = Inr (st\<lparr>rd_ln := rd_ln st + length pre + length ?es,
      rd_section := Some n, rd_comment := [], rcfg := loadSection c n (rcfg st)\<rparr>)"
    by (simp add: iniLines_append 1 2 3 [simplified] loadSection_def Some)
  then show ?thesis by blast
qed

lemma iniLines_sections:
  assumes "rd_comment st = []"
    and "\<And>n t. cfg_sections c n = Some t \<Longrightarrow> printable_section t \<and> sec_name t = n"
  shows "\<exists>cur m. iniLines st (concat (map (sectionLines c) ns)) =
    Inr (st\<lparr>rd_ln := m, rd_section := cur, rd_comment := [], rcfg := fold (loadSection c) ns (rcfg st)\<rparr>)"
  using assms(1)
proof (induction ns arbitrary: st)
  case Nil
  then have "st = st\<lparr>rd_ln := rd_ln st, rd_section := rd_section st, rd_comment := [], rcfg := rcfg st\<rparr>"
    by simp
  then show ?case by (metis concat.simps(1) fold_simps(1) iniLines.simps(1) list.simps(8))
next
  case (Cons n ns)
  obtain cur m where 1: "iniLines st (sectionLines c n) =
      Inr (st\<lparr>rd_ln := m, rd_section := cur, rd_comment := [], rcfg := loadSection c n (rcfg st)\<rparr>)"
    using iniLines_section [OF Cons.prems assms(2)] by blast
  from Cons.IH [of "st\<lparr>rd_ln := m, rd_section := cur, rd_comment := [], rcfg := loadSection c n (rcfg st)\<rparr>"]
  show ?case using Cons.prems by (simp add: iniLines_append 1)
qed

text \<open>While sections are read, every section of the new configuration agrees with the saved
  one of the same name.\<close>

definition partly_loaded :: "Config \<Rightarrow> Config \<Rightarrow> bool" where
  "partly_loaded c d \<longleftrightarrow>
     (\<forall>n s. cfg_sections d n = Some s \<longrightarrow> (\<exists>t. cfg_sections c n = Some t \<and> sec_sim t s))"

lemma partly_loadedD:
  "partly_loaded c d \<Longrightarrow> cfg_sections d n = Some s \<Longrightarrow> \<exists>t. cfg_sections c n = Some t \<and> sec_sim t s"
  by (simp add: partly_loaded_def)

lemma loadSection_step:
  assumes "config_wf c" and "partly_loaded c d"
  shows "partly_loaded c (loadSection c n d)"
    and "cfg_sections c n \<noteq> None \<Longrightarrow> cfg_sections (loadSection c n d) n \<noteq> None"
    and "cfg_sections d m \<noteq> None \<Longrightarrow> cfg_sections (loadSection c n d) m \<noteq> None"
    and "cfg_top (loadSection c n d) = cfg_top d"
proof -
  show "partly_loaded c (loadSection c n d)"
  proof (cases "cfg_sections c n")
    case (Some t)
    then have t: "section_wf t" "sec_name t = n" using assms(1) by (auto simp: config_wf_def)
    have sim: "sec_sim t s" if "cfg_sections d n = Some s" for s
      using that assms(2) Some by (fastforce simp: partly_loaded_def)
    have "sec_sim t (fold (readBack t) (sec_keys t) s)"
      if "cfg_sections (openCfg n (commentSection t) d) n = Some s" for s
      using that t(2) sim by (intro readBack_sim [OF t(1)]) (auto simp: openCfg_def split: option.splits)
    moreover have "cfg_sections (openCfg n (commentSection t) d) m = cfg_sections d m" if "m \<noteq> n" for m
      using that by (simp add: openCfg_def split: option.splits)
    ultimately show ?thesis
      using assms(2) Some by (auto simp: loadSection_def partly_loaded_def updSec_def)
  qed (use assms in \<open>auto simp: loadSection_def\<close>)
qed (auto simp: loadSection_def updSec_def openCfg_def split: option.splits)

lemma loadSections:
  assumes "config_wf c" and "partly_loaded c d"
  shows "partly_loaded c (fold (loadSection c) ns d)
    \<and> (\<forall>n. (n \<in> set ns \<and> cfg_sections c n \<noteq> None) \<or> cfg_sections d n \<noteq> None
          \<longrightarrow> cfg_sections (fold (loadSection c) ns d) n \<noteq> None)
    \<and> cfg_top (fold (loadSection c) ns d) = cfg_top d"
  using assms(2)
proof (induction ns arbitrary: d)
  case (Cons n ns)
  note step = loadSection_step [OF assms(1) Cons.prems]
  note IH = Cons.IH [OF step(1) [of n]]
  have "cfg_sections (fold (loadSection c) (n # ns) d) m \<noteq> None"
    if "m \<in> set (n # ns) \<and> cfg_sections c m \<noteq> None \<or> cfg_sections d m \<noteq> None" for m
  proof -
    have "m \<in> set ns \<and> cfg_sections c m \<noteq> None \<or> cfg_sections (loadSection c n d) m \<noteq> None"
      using that step(2) [of n] step(3) [of m n] unfolding list.set by blast
    with IH have "cfg_sections (fold (loadSection c) ns (loadSection c n d)) m \<noteq> None" by blast
    then show ?thesis by simp
  qed
  with IH step(4) show ?case by (simp del: not_None_eq)
qed simp

definition printable :: "Config \<Rightarrow> bool" where
  "printable c \<longleftrightarrow>
     printable_section (cfg_top c) \<and>
     list_all (\<lambda>n. case cfg_sections c n of None \<Rightarrow> True | Some s \<Rightarrow> printable_section s) (sectionkeys c) \<and>
     list_all (\<lambda>l. utf8Len l < MaxScanTokenSize) (configLines c)"

definition config_sim :: "Config \<Rightarrow> Config \<Rightarrow> bool" where
  "config_sim c d \<longleftrightarrow>
     sec_values (cfg_top d) = sec_values (cfg_top c) \<and> com_of (cfg_top d) = com_of (cfg_top c) \<and>
     (\<forall>n. rel_option sec_sim (cfg_sections c n) (cfg_sections d n))"

lemma no_newline:
  "key_ok k \<Longrightarrow> 10 \<notin> set k" "value_ok v \<Longrightarrow> 10 \<notin> set v" "comment_ok com \<Longrightarrow> 10 \<notin> set com"
  by (auto simp: key_ok_def value_ok_def comment_ok_def)

lemma entryLines_one_line:
  assumes "list_all (\<lambda>k. case sec_values s k of None \<Rightarrow> True
        | Some v \<Rightarrow> key_ok k \<and> value_ok v \<and> comment_ok (com_of s k)) ks"
    and "k \<in> set ks" and l: "l \<in> set (entryLines s k)"
  shows "10 \<notin> set l"
proof (cases "sec_values s k")
  case (Some v)
  with assms(1,2) have "10 \<notin> set k" "10 \<notin> set v" "10 \<notin> set (com_of s k)"
    by (auto simp: list_all_iff dest: no_newline dest!: bspec)
  with Some l show ?thesis
    by (auto simp: entryLines_def com_of_def runes_def split: option.splits if_splits)
qed (use l in \<open>simp add: entryLines_def\<close>)

lemma configLines_one_line:
  assumes "printable c" and "config_wf c" and "l \<in> set (configLines c)"
  shows "10 \<notin> set l"
proof -
  from assms(3) consider k where "k \<in> set (sec_keys (cfg_top c))" "l \<in> set (entryLines (cfg_top c) k)"
    | n where "n \<in> set (sectionkeys c)" "l \<in> set (sectionLines c n)"
    by (auto simp: configLines_def)
  then show ?thesis
  proof cases
    case 1
    with assms(1) show ?thesis
      by (intro entryLines_one_line) (auto simp: printable_def printable_section_def)
  next
    case 2
    show ?thesis
    proof (cases "cfg_sections c n")
      case (Some s)
      then have s: "printable_section s" using assms(1) 2 by (auto simp: printable_def list_all_iff)
      then have "10 \<notin> set l'" if "k \<in> set (sec_keys s)" "l' \<in> set (entryLines s k)" for k l'
        using that by (intro entryLines_one_line) (auto simp: printable_section_def)
      with 2 Some s show ?thesis
        by (auto simp: sectionLines_def printable_section_def runes_def dest: no_newline split: if_splits)
    qed (use 2 in \<open>simp add: sectionLines_def\<close>)
  qed
qed

lemma scan_saveText:
  assumes "printable c" and "config_wf c"
  shows "scanLines (saveText c) = (map dropCR (configLines c), False)"
  unfolding saveText_lines unlines_def
  by (rule scanLines_concat)
    (use assms configLines_one_line [OF assms] in \<open>auto simp: printable_def list_all_iff\<close>)

lemma startReader_simps [simp]:
  "rd_comment startReader = []" "rd_section startReader = None" "rcfg startReader = emptyConfig"
  by (simp_all add: startReader_def)

lemma read_saveText:
  assumes "printable c" and "config_wf c"
  shows "\<exists>d. readIniFile (saveText c) = Inr d \<and> config_sim c d"
proof -
  let ?t = "cfg_top c"
  let ?e = "updSec None (fold (readBack ?t) (sec_keys ?t)) emptyConfig"
  let ?d = "fold (loadSection c) (sectionkeys c) ?e"
  have wf: "section_wf ?t" using assms(2) by (simp add: config_wf_def)
  have top: "iniLines startReader (concat (map (entryLines ?t) (sec_keys ?t))) = Inr (startReader\<lparr>
      rd_ln := rd_ln startReader + length (concat (map (entryLines ?t) (sec_keys ?t))),
      rcfg := updSec (rd_section startReader) (fold (readBack ?t) (sec_keys ?t)) (rcfg startReader)\<rparr>)"
    by (rule iniLines_entries)
      (use assms(1) in \<open>auto simp: printable_def printable_section_def\<close>)
  have secs: "printable_section s \<and> sec_name s = n" if "cfg_sections c n = Some s" for n s
    using assms that by (fastforce simp: printable_def list_all_iff config_wf_def)
  obtain cur m where "iniLines startReader (configLines c) =
      Inr (startReader\<lparr>rd_ln := m, rd_section := cur, rd_comment := [], rcfg := ?d\<rparr>)"
    using iniLines_sections [of "startReader\<lparr>
        rd_ln := rd_ln startReader + length (concat (map (entryLines ?t) (sec_keys ?t))),
        rcfg := ?e\<rparr>" c "sectionkeys c", OF _ secs]
    by (auto simp: configLines_def iniLines_append top)
  then have r: "readIniFile (saveText c) = Inr ?d"
    by (simp add: readIniFile_def scan_saveText [OF assms] iniLines_dropCR)
  have "partly_loaded c ?e" by (simp add: partly_loaded_def updSec_def emptyConfig_def)
  note L = loadSections [OF assms(2) this, of "sectionkeys c"]
  have "cfg_top ?d = fold (readBack ?t) (sec_keys ?t) (new_section [] [])"
    using L by (simp add: updSec_def emptyConfig_def)
  moreover have "rel_option sec_sim (cfg_sections c n) (cfg_sections ?d n)" for n
  proof (cases "cfg_sections c n")
    case None
    with L have "cfg_sections ?d n = None"
      using partly_loadedD by (metis not_None_eq option.distinct(1))
    with None show ?thesis by simp
  next
    case (Some s)
    then have "n \<in> set (sectionkeys c)" using assms(2) by (auto simp: config_wf_def)
    with L Some have "cfg_sections ?d n \<noteq> None" by blast
    then obtain s' where s': "cfg_sections ?d n = Some s'" by blast
    with L Some have "sec_sim s s'" using partly_loadedD by (metis option.inject)
    with s' Some show ?thesis by simp
  qed
  ultimately have "config_sim c ?d"
    using readBack_values [OF wf, of "new_section [] []"] by (simp add: config_sim_def)
  with r show ?thesis by blast
qed

subsection \<open>Malformed lines\<close>

definition line_error :: "nat \<Rightarrow> gostr \<Rightarrow> iniError option" where
  "line_error n l =
     (let s = TrimSpace (dropBOM n l) in
      if s = [] \<or> hd s = 35 \<or> hd s = 59 then None
      else if hd s = 91 then (if last s = 93 then None else Some (NoBracket n))
      else if 61 \<in> set (tl s) \<and> hd s \<noteq> 61 then None else Some (NoEquals n))"

lemma strIndex_nonpos: "s \<noteq> [] \<Longrightarrow> strIndex s c \<le> 0 \<longleftrightarrow> \<not> (c \<in> set (tl s) \<and> hd s \<noteq> c)"
  by (cases s) (auto simp: strIndex_def)

lemma iniLine_error:
  "line_error (rd_ln st + 1) l = Some e \<Longrightarrow> iniLine st l = Inl e"
  "line_error (rd_ln st + 1) l = None \<Longrightarrow> \<exists>st'. iniLine st l = Inr st'"
  by (auto simp: iniLine_def line_error_def trimSpaceAndComment_def Let_def strIndex_nonpos
      split: if_splits)

lemma iniLine_ln: "iniLine st l = Inr st' \<Longrightarrow> rd_ln st' = rd_ln st + 1"
  by (auto simp: iniLine_def Let_def openSection_def putKey_def
      split: if_splits prod.splits option.splits)

text \<open>The first malformed line among lines numbered from \<open>n\<close>.\<close>

fun firstError :: "nat \<Rightarrow> gostr list \<Rightarrow> iniError option" where
  "firstError n [] = None"
| "firstError n (l # ls) = (case line_error n l of Some e \<Rightarrow> Some e | None \<Rightarrow> firstError (n + 1) ls)"

lemma iniLines_error:
  "(case firstError (rd_ln st + 1) ls of
      Some e \<Rightarrow> iniLines st ls = Inl e | None \<Rightarrow> (\<exists>st'. iniLines st ls = Inr st'))"
proof (induction ls arbitrary: st)
  case (Cons l ls)
  show ?case
  proof (cases "line_error (rd_ln st + 1) l")
    case None
    then obtain st' where st': "iniLine st l = Inr st'" using iniLine_error(2) [of st l] by auto
    with None Cons [of st'] iniLine_ln [OF st'] show ?thesis by (auto split: option.splits)
  next
    case (Some e)
    then show ?thesis using iniLine_error(1) [OF Some] by simp
  qed
qed simp

lemma firstError_Some:
  "firstError n ls = Some e \<longleftrightarrow>
     (\<exists>i<length ls. line_error (n + i) (ls ! i) = Some e \<and> (\<forall>j<i. line_error (n + j) (ls ! j) = None))"
proof (induction ls arbitrary: n)
  case (Cons l ls)
  then show ?case
    by (auto simp: Ex_less_Suc2 All_less_Suc2 split: option.splits)
qed simp

lemma firstError_None: "firstError n ls = None \<longleftrightarrow> (\<forall>j<length ls. line_error (n + j) (ls ! j) = None)"
  by (induction ls arbitrary: n) (auto simp: All_less_Suc2 split: option.splits)


subsection \<open>A sample configuration\<close>

definition demo_config :: Config where
  "demo_config = SectionSet (runes ''net'') (runes ''port'') (runes ''80'') (runes ''tcp'')
     (cfgSet (runes ''name'') (runes ''gw'') [] emptyConfig)"

lemma demo_wf: "config_wf demo_config"
  unfolding demo_config_def by (intro config_wf_SectionSet config_wf_cfgSet config_wf_empty)

lemma demo_config_eq:
  "demo_config = \<lparr>cfg_top = \<lparr>sec_name = [], sec_values = [runes ''name'' \<mapsto> runes ''gw''],
       commentSection = [], commentValues = [runes ''name'' \<mapsto> []], sec_keys = [runes ''name'']\<rparr>,
     cfg_sections = [runes ''net'' \<mapsto> \<lparr>sec_name = runes ''net'',
       sec_values = [runes ''port'' \<mapsto> runes ''80''], commentSection = [],
       commentValues = [runes ''port'' \<mapsto> runes ''#tcp''], sec_keys = [runes ''port'']\<rparr>],
     sectionkeys = [runes ''net''], cfg_path = []\<rparr>"
  by (simp add: demo_config_def SectionSet_def cfgSet_def sectionSetKey_def emptyConfig_def
      new_section_def runes_def)

lemma demo_printable: "printable demo_config"
  by (simp add: printable_def printable_section_def demo_config_eq runes_def key_ok_def value_ok_def
      comment_ok_def com_of_def trimmed_def isSpace_def configLines_def entryLines_def
      sectionLines_def utf8Len_def runeLen_def MaxScanTokenSize_def)


lemma edit_laws:
  "StringSection (SectionSet s k v com c) s' k' d =
     (if s' = s \<and> k' = k then v else StringSection c s' k' d)"
  "String (SectionSet s k v com c) k' d = String c k' d"
  "String (cfgSet k v com c) k' d = (if k' = k then v else String c k' d)"
  "StringSection (cfgSet k v com c) s' k' d = StringSection c s' k' d"
  "StringSection (DelSection s c) s' k' d = (if s' = s then d else StringSection c s' k' d)"
  by (simp_all add: StringSection_def SectionSet_def String_def cfgSet_def DelSection_def
      cfg_string_def split: option.split)


subsection \<open>The properties\<close>

text \<open>C8: a configuration that is well formed and whose texts the format can carry is read
  back by \<open>LoadINI\<close> after \<open>Save\<close>: loading succeeds, gives a well-formed
  configuration with the same values and comments at top level and the same sections, and so
  every getter answers as before.\<close>

theorem ini_save_load:
  assumes "config_wf c" and "printable c" and "can_create (cfg_path c)"
  shows "\<exists>d. Save can_create c fs = (None, fs(cfg_path c \<mapsto> saveText c))
    \<and> LoadINI (snd (Save can_create c fs)) (cfg_path c) = Inr d
    \<and> config_sim c d \<and> config_wf d \<and> cfg_path d = cfg_path c
    \<and> (\<forall>k e. String d k e = String c k e)
    \<and> (\<forall>s k e. StringSection d s k e = StringSection c s k e)
    \<and> (\<forall>s k e. IntegerSection d s k e = IntegerSection c s k e)"
proof -
  obtain r where r: "readIniFile (saveText c) = Inr r" and sim: "config_sim c r"
    using read_saveText [OF assms(2,1)] by blast
  let ?d = "r\<lparr>cfg_path := cfg_path c\<rparr>"
  let ?fs = "fs(cfg_path c \<mapsto> saveText c)"
  have S: "Save can_create c fs = (None, ?fs)" using assms(3) by (simp add: Save_def)
  have L: "LoadINI ?fs (cfg_path c) = Inr ?d" by (simp add: LoadINI_def r)
  have sim': "config_sim c ?d" using sim by (simp add: config_sim_def)
  then have rel: "rel_option sec_sim (cfg_sections c s) (cfg_sections ?d s)" for s
    by (simp add: config_sim_def)
  have "String ?d k e = String c k e" for k e using sim by (simp add: String_def config_sim_def)
  moreover have "StringSection ?d s k e = StringSection c s k e" for s k e
    using rel [of s] by (auto simp: StringSection_def option_rel_Some1 sec_sim_def split: option.splits)
  moreover have "IntegerSection ?d s k e = IntegerSection c s k e" for s k e
    using rel [of s] by (auto simp: IntegerSection_def option_rel_Some1 sec_sim_def split: option.splits)
  ultimately show ?thesis using S L sim' config_wf_LoadINI [OF L] by (intro exI [of _ ?d]) simp
qed

theorem ini_save_load_witness:
  "\<exists>d. LoadINI (snd (Save (\<lambda>_. True) demo_config Map.empty)) [] = Inr d
    \<and> IntegerSection d (runes ''net'') (runes ''port'') 0 = 80"
proof -
  have p: "cfg_path demo_config = []" by (simp add: demo_config_eq)
  have i: "IntegerSection demo_config (runes ''net'') (runes ''port'') 0 = 80"
    by (simp add: demo_config_eq IntegerSection_def cfg_integer_def runes_def ParseInt0_def
        ParseUint0_def digitVal_def Let_def)
  from ini_save_load [OF demo_wf demo_printable, of "\<lambda>_. True" Map.empty] show ?thesis
    unfolding p using i by auto
qed

text \<open>C30: loading reports exactly the first malformed line.  A line is malformed when, after
  trimming (and dropping a byte order mark on line 1), it is no comment and either opens a
  section without closing it or has no equals sign after its first character; the error
  carries its number.  Without such a line the only error is a line longer than the scanner
  accepts.\<close>

theorem ini_first_error:
  "readIniFile input = Inl e \<longleftrightarrow>
     (let (ls, long) = scanLines input in
      (\<exists>i<length ls. line_error (i + 1) (ls ! i) = Some e \<and> (\<forall>j<i. line_error (j + 1) (ls ! j) = None))
      \<or> (\<forall>j<length ls. line_error (j + 1) (ls ! j) = None) \<and> long \<and> e = TooLong)"
proof -
  obtain ls long where sc: "scanLines input = (ls, long)" by (cases "scanLines input")
  have "readIniFile input = Inl e \<longleftrightarrow>
      firstError 1 ls = Some e \<or> firstError 1 ls = None \<and> long \<and> e = TooLong"
    using iniLines_error [of startReader ls]
    by (auto simp: readIniFile_def sc startReader_def split: option.splits sum.splits)
  then show ?thesis by (simp add: sc firstError_Some firstError_None)
qed

theorem ini_first_error_witness: "readIniFile (runes ''a=1'' @ [10] @ runes ''bad'') = Inl (NoEquals 2)"
proof -
  have s: "scanLines (runes ''a=1'' @ [10] @ runes ''bad'') = ([runes ''a=1'', runes ''bad''], False)"
    by (simp add: scanLines.simps runes_def utf8Len_def runeLen_def MaxScanTokenSize_def dropCR_def)
  have "line_error 1 (runes ''a=1'') = None" "line_error 2 (runes ''bad'') = Some (NoEquals 2)"
    by (simp_all add: line_error_def dropBOM_def runes_def TrimSpace_trimmed trimmed_def isSpace_def)
  with s show ?thesis
    using ini_first_error [of "runes ''a=1'' @ [10] @ runes ''bad''" "NoEquals 2"]
    by (auto simp: numeral_2_eq_2)
qed

text \<open>editing is a map update: \<open>SectionSet\<close>, \<open>Set\<close> and \<open>DelSection\<close>
  change what the getters return at the named place and nowhere else, and keep the
  configuration well formed.\<close>

theorem ini_edit_laws:
  assumes "config_wf c"
  shows "config_wf (SectionSet s k v com c) \<and> config_wf (cfgSet k v com c) \<and> config_wf (DelSection s c)
    \<and> StringSection (SectionSet s k v com c) s' k' d = (if s' = s \<and> k' = k then v else StringSection c s' k' d)
    \<and> String (SectionSet s k v com c) k' d = String c k' d
    \<and> String (cfgSet k v com c) k' d = (if k' = k then v else String c k' d)
    \<and> StringSection (cfgSet k v com c) s' k' d = StringSection c s' k' d
    \<and> StringSection (DelSection s c) s' k' d = (if s' = s then d else StringSection c s' k' d)"
  by (intro conjI config_wf_SectionSet config_wf_cfgSet config_wf_DelSection assms edit_laws)

theorem ini_edit_laws_witness:
  "config_wf demo_config
   \<and> StringSection (SectionSet (runes ''net'') (runes ''port'') (runes ''9'') [] demo_config)
       (runes ''net'') (runes ''port'') [] = runes ''9''"
  using demo_wf ini_edit_laws [OF demo_wf, of "runes ''net''" "runes ''port''" "runes ''9''" "[]"
      "runes ''net''" "runes ''port''" "[]"] by simp

end
