(* ===== verification/Ssproxy.thy ===== *)
theory Ssproxy
  imports Rpc_Props Ini Gotext
begin

text \<open>
  The tunnelling proxy \<^verbatim>\<open>src/ssproxy\<close>: its message format (\<^verbatim>\<open>protocol.go\<close>), its four services
  (\<^verbatim>\<open>imp.go\<close>) and its configuration (\<^verbatim>\<open>loadconfig.go\<close>).

  A listening proxy (the services \<open>LLRaw\<close> and \<open>LLGpb\<close>) wraps what it reads from a client into a
  message with the number of the client's session and sends it through the one connection of the
  tunnel.  A connecting proxy (\<open>CCGpb\<close> and \<open>CCRaw\<close>) opens a connection of its own for every such
  number and keeps the assignment in \<open>SessId\<close>.  The answers go the same way back.

  The four services act on one state, \<open>proxyWorld\<close>: the registered sessions or connections of the
  raw service and of the tunnel's service in the order in which an iteration visits them, the table
  \<open>SessId\<close>, the numbers that \<open>rand.Int\<close> will draw, the number of the last session, and the events.
\<close>

subsection \<open>Messages\<close>

definition EncodeLength :: "bytes \<Rightarrow> u32 \<Rightarrow> bytes go" where
  "EncodeLength b i =
     (if length b < 4 then Panic
      else Ret (b[0 := ucast (drop_bit 24 i), 1 := ucast (drop_bit 16 i), 2 := ucast (drop_bit 8 i), 3 := ucast i]))"

definition DecodeLength :: "bytes \<Rightarrow> u32 go" where
  "DecodeLength b =
     (if length b < 4 then Panic
      else Ret (ucast (b ! 3) OR push_bit 8 (ucast (b ! 2)) OR push_bit 16 (ucast (b ! 1)) OR
                push_bit 24 (ucast (b ! 0))))"

definition PackSendProtocol :: "bytes \<Rightarrow> bytes go" where
  "PackSendProtocol data =
     (let msglen = length data + 4
      in go_map (\<lambda>buf. blit 4 data buf) (EncodeLength (replicate msglen 0) (of_nat msglen)))"

definition ProtocolMessage :: "u64 \<Rightarrow> u64 \<Rightarrow> bytes \<Rightarrow> goval" where
  "ProtocolMessage cmdId cmdSeq cmdData =
     VStruct [(no_tag, VUint64 cmdId), (no_tag, VUint64 cmdSeq), (no_tag, bytes_val cmdData)]"

fun protocolMessage_fields :: "goval \<Rightarrow> u64 \<times> u64 \<times> bytes" where
  "protocolMessage_fields (VPtr t (Some (VStruct [(_, VUint64 i), (_, VUint64 q), (_, d)]))) = (i, q, val_bytes d)"
| "protocolMessage_fields _ = (0, 0, [])"

abbreviation (input) ptrTo :: "goval \<Rightarrow> goval" where
  "ptrTo v \<equiv> VPtr (type_of v) (Some v)"

definition magicNumber :: u64 where "magicNumber = 3"

definition msgMaxLen :: u32 where "msgMaxLen = 1024 * 1024 * 10"

text \<open>The bytes \<open>SendRawGpb\<close> passes to \<open>Send\<close>.\<close>

definition SendRawGpb :: "json_lib \<Rightarrow> u64 \<Rightarrow> u64 \<Rightarrow> bytes \<Rightarrow> (bytes \<times> encerr option) go" where
  "SendRawGpb js cmdid cmdseq msg =
     go_bind (Marshal js (ptrTo (ProtocolMessage cmdid cmdseq msg)) EncodeTyepSpb)
       (\<lambda>(buf, e). if e \<noteq> None then Ret ([], e) else go_map (\<lambda>b. (b, None)) (PackSendProtocol buf))"


subsection \<open>The services\<close>

record proxyWorld =
  w_raw :: "u64 list"
  w_gpb :: "u64 list"
  SessId :: "u64 \<rightharpoonup> u64"
  rawUser :: "u64 \<rightharpoonup> u64"
  w_rand :: "nat \<Rightarrow> nat"
  lastSession :: u64
  w_ev :: "event list"

definition emit :: "event \<Rightarrow> proxyWorld \<Rightarrow> proxyWorld" where
  "emit e w = w\<lparr>w_ev := w_ev w @ [e]\<rparr>"

text \<open>An iteration whose callback calls \<open>SendRawGpb\<close> and returns false: the first session only.  The
  list \<open>w_gpb\<close> is in the order of the iteration.  For a listening service Go iterates over a map, in
  an order that may change from call to call: a tunnel with several sessions at once, which could
  then be served in turns, is described only as long as the order stays the same.\<close>

definition sendFirst :: "json_lib \<Rightarrow> (u64 \<Rightarrow> bytes \<Rightarrow> event) \<Rightarrow> u64 \<Rightarrow> bytes \<Rightarrow> proxyWorld \<Rightarrow> proxyWorld go" where
  "sendFirst js ev cmdid data w =
     (case w_gpb w of
        [] \<Rightarrow> Ret w
      | g # _ \<Rightarrow> go_map (\<lambda>(b, e). if e \<noteq> None then w else emit (ev g b) w) (SendRawGpb js cmdid magicNumber data))"

abbreviation (input) viaSession :: "u64 \<Rightarrow> bytes \<Rightarrow> event" where
  "viaSession \<equiv> \<lambda>g b. EvSend g b None"

text \<open>What a service returns after it has handled everything itself.\<close>

definition handledAll :: "int \<Rightarrow> parsed" where
  "handledAll n = \<lparr>lenParsed = n, pMsgID = -1, pMsg = MNil, pErr = None\<rparr>"

definition llRawUnmarshal :: "json_lib \<Rightarrow> sessRef \<Rightarrow> bytes \<Rightarrow> proxyWorld \<Rightarrow> (proxyWorld \<times> parsed) go" where
  "llRawUnmarshal js sess data w =
     go_map (\<lambda>w'. (w', handledAll (int (length data)))) (sendFirst js viaSession (sess_id sess) data w)"

definition llRawSessionClose :: "json_lib \<Rightarrow> sessRef \<Rightarrow> proxyWorld \<Rightarrow> proxyWorld go" where
  "llRawSessionClose js sess w = sendFirst js viaSession (sess_id sess) [] w"

text \<open>The part of the two tunnel services that reads a message; what each does with it is \<open>f\<close>.\<close>

definition gpbUnmarshal ::
  "json_lib \<Rightarrow> (u64 \<Rightarrow> bytes \<Rightarrow> proxyWorld \<Rightarrow> proxyWorld go) \<Rightarrow> bytes \<Rightarrow> proxyWorld \<Rightarrow> (proxyWorld \<times> parsed) go" where
  "gpbUnmarshal js f data w =
     (let bad = (\<lambda>e. (w, \<lparr>lenParsed = int (length data), pMsgID = 0, pMsg = MNil, pErr = Some e\<rparr>)) in
      if length data < 4 then Ret (w, \<lparr>lenParsed = 0, pMsgID = 0, pMsg = MNil, pErr = None\<rparr>)
      else go_bind (DecodeLength data)
        (\<lambda>ml. if ml < 4 \<or> ml > msgMaxLen then Ret (bad (EMsgLen ml))
           else if length data < unat ml then Ret (w, \<lparr>lenParsed = 0, pMsgID = 0, pMsg = MNil, pErr = None\<rparr>)
           else go_bind (Unmarshal js (subseg 4 (unat ml) data) (ptrTo (ProtocolMessage 0 0 [])) EncodeTyepSpb)
             (\<lambda>(m, e). case e of
                  Some err \<Rightarrow> Ret (bad err)
                | None \<Rightarrow>
                    let (cmdId, cmdSeq, cmdData) = protocolMessage_fields m in
                    if cmdSeq \<noteq> magicNumber then Ret (bad (EApp (''invalid magicnumber: '' @ decimal (unat cmdSeq))))
                    else go_map (\<lambda>w'. (w', handledAll (int (unat ml)))) (f cmdId cmdData w))))"

definition llGpbMessage :: "json_lib \<Rightarrow> sessRef \<Rightarrow> u64 \<Rightarrow> bytes \<Rightarrow> proxyWorld \<Rightarrow> proxyWorld go" where
  "llGpbMessage js sess cmdId cmdData w =
     (if cmdId \<in> set (w_raw w) then
        Ret (if cmdData = [] then emit (EvSessClose cmdId) w else emit (EvSend cmdId cmdData None) w)
      else go_map (\<lambda>(b, e). if e \<noteq> None then w else emit (EvSend (sess_id sess) b None) w) (SendRawGpb js cmdId magicNumber []))"

text \<open>\<open>service.raw.NewConnect\<close>: the new connection has the next session number and the message's
  id as its user data.\<close>

definition rawConnect :: "string \<Rightarrow> u64 \<Rightarrow> proxyWorld \<Rightarrow> u64 \<times> proxyWorld" where
  "rawConnect rip cmdId w =
     (let c = lastSession w + 1
      in (c, emit (EvNewConnect rip cmdId) (w\<lparr>lastSession := c, w_raw := w_raw w @ [c], rawUser := (rawUser w)(c \<mapsto> cmdId)\<rparr>)))"

text \<open>\<open>Connect.Close\<close> removes the connection from the registry.\<close>

definition rawClose :: "u64 \<Rightarrow> proxyWorld \<Rightarrow> proxyWorld" where
  "rawClose c w = emit (EvConnClose c) (w\<lparr>w_raw := filter (\<lambda>x. x \<noteq> c) (w_raw w)\<rparr>)"

definition ccGpbMessage :: "string list \<Rightarrow> int list \<Rightarrow> u64 \<Rightarrow> bytes \<Rightarrow> proxyWorld \<Rightarrow> proxyWorld go" where
  "ccGpbMessage remoteip weight cmdId cmdData w =
     (case SessId w cmdId of
        Some co \<Rightarrow>
          Ret (if cmdData = [] then rawClose co (w\<lparr>SessId := (SessId w)(cmdId := None)\<rparr>) else emit (EvConnSend co cmdData) w)
      | None \<Rightarrow>
          if cmdData = [] then Ret w
          else go_map (\<lambda>rip.
              let w1 = (if length weight > 1 then w\<lparr>w_rand := (\<lambda>i. w_rand w (Suc i))\<rparr> else w);
                  (c, w2) = rawConnect rip cmdId w1
              in emit (EvConnSend c cmdData) (w2\<lparr>SessId := (SessId w2)(cmdId \<mapsto> c)\<rparr>))
            (pickRemote (w_rand w 0) remoteip weight))"

text \<open>The end of the tunnel's connection closes every connection behind it.\<close>

fun closeConnects :: "u64 list \<Rightarrow> proxyWorld \<Rightarrow> proxyWorld go" where
  "closeConnects [] w = Ret w"
| "closeConnects (c # cs) w =
     (case rawUser w c of
        None \<Rightarrow> Panic
      | Some i \<Rightarrow> closeConnects cs (rawClose c (w\<lparr>SessId := (SessId w)(i := None)\<rparr>)))"

definition ccGpbSessionClose :: "proxyWorld \<Rightarrow> proxyWorld go" where
  "ccGpbSessionClose w = closeConnects (w_raw w) w"

definition ccRawUnmarshal :: "json_lib \<Rightarrow> sessRef \<Rightarrow> bytes \<Rightarrow> proxyWorld \<Rightarrow> (proxyWorld \<times> parsed) go" where
  "ccRawUnmarshal js sess data w =
     (case sess_user sess of
        NoUser \<Rightarrow> Ret (w, handledAll (int (length data)))
      | UNum i \<Rightarrow> go_map (\<lambda>w'. (w', handledAll (int (length data)))) (sendFirst js viaSession i data w)
      | _ \<Rightarrow> if w_gpb w = [] then Ret (w, handledAll (int (length data))) else Panic)"

text \<open>\<open>SessionClose\<close> of a raw connection; \<open>hasConn\<close> says whether the session has a connector, which
  is closed without being removed from the registry.\<close>

definition ccRawSessionClose :: "json_lib \<Rightarrow> bool \<Rightarrow> sessRef \<Rightarrow> proxyWorld \<Rightarrow> proxyWorld go" where
  "ccRawSessionClose js hasConnector sess w =
     go_map (\<lambda>w'. if hasConnector then emit (EvConnClose (sess_id sess)) w' else w')
       (case sess_user sess of
          NoUser \<Rightarrow> Ret w
        | UNum i \<Rightarrow> sendFirst js viaSession i [] (w\<lparr>SessId := (SessId w)(i := None)\<rparr>)
        | _ \<Rightarrow> Panic)"

text \<open>The four implementations; what they inherit from \<open>stnet.ServiceBase\<close> closes the session on an
  error and on a missed heart beat and does nothing otherwise.\<close>

definition asOutcome :: "'w \<Rightarrow> 'w go \<Rightarrow> 'w outcome" where
  "asOutcome w r = (case r of Ret w' \<Rightarrow> Done w' | Panic \<Rightarrow> Panicked w | Diverge \<Rightarrow> Stuck)"

definition onSess :: "(sessRef \<Rightarrow> proxyWorld \<Rightarrow> proxyWorld go) \<Rightarrow> sessRef option \<Rightarrow> proxyWorld \<Rightarrow> proxyWorld outcome" where
  "onSess f s w = (case s of None \<Rightarrow> Panicked w | Some r \<Rightarrow> asOutcome w (f r w))"

definition proxyBase :: "proxyWorld serviceImp" where
  "proxyBase =
     \<lparr>imp_Init = (\<lambda>w. (w, True)), imp_Loop = (\<lambda>w. Done w), imp_Destroy = (\<lambda>w. w),
      imp_HandleMessage = (\<lambda>cur i m w. Done w),
      imp_HandleError = (\<lambda>cur e w. onSess (\<lambda>r w. Ret (emit (EvSessClose (sess_id r)) w)) (Sess cur) (emit (EvLog e) w)),
      imp_SessionClose = (\<lambda>s w. Done w),
      imp_HeartBeatTimeOut = onSess (\<lambda>r w. Ret (emit (EvSessClose (sess_id r)) w)),
      imp_SessionOpen = (\<lambda>s w. Done w),
      imp_Unmarshal = (\<lambda>s d w. Ret (w, handledAll (int (length d)))),
      imp_HashProcessor = (\<lambda>cur i m. Ret (-1))\<rparr>"

definition ServiceProxyLLRaw :: "json_lib \<Rightarrow> proxyWorld serviceImp" where
  "ServiceProxyLLRaw js = proxyBase
     \<lparr>imp_SessionClose := onSess (llRawSessionClose js), imp_Unmarshal := llRawUnmarshal js, imp_HashProcessor := sessIdHash\<rparr>"

definition ServiceProxyLLGpb :: "json_lib \<Rightarrow> proxyWorld serviceImp" where
  "ServiceProxyLLGpb js = proxyBase\<lparr>imp_Unmarshal := (\<lambda>s. gpbUnmarshal js (llGpbMessage js s))\<rparr>"

definition ServiceProxyCCRaw :: "json_lib \<Rightarrow> proxyWorld serviceImp" where
  "ServiceProxyCCRaw js = proxyBase
     \<lparr>imp_SessionClose := onSess (ccRawSessionClose js True), imp_Unmarshal := ccRawUnmarshal js, imp_HashProcessor := sessIdHash\<rparr>"

definition ServiceProxyCCGpb :: "json_lib \<Rightarrow> string list \<Rightarrow> int list \<Rightarrow> proxyWorld serviceImp" where
  "ServiceProxyCCGpb js remoteip weight = proxyBase
     \<lparr>imp_SessionClose := (\<lambda>s w. asOutcome w (ccGpbSessionClose w)), imp_Unmarshal := (\<lambda>s. gpbUnmarshal js (ccGpbMessage remoteip weight))\<rparr>"

subsection \<open>A message on the wire\<close>

definition tunFrame :: "u64 \<times> bytes \<Rightarrow> bytes" where
  "tunFrame m = frame (enc 0 True (ProtocolMessage (fst m) magicNumber (snd m)))"

definition tunOk :: "u64 \<times> bytes \<Rightarrow> bool" where
  "tunOk m \<longleftrightarrow> length (snd m) \<le> 2 ^ 19"

lemma ucast_byte_at:
  assumes "n < 2 ^ 32"
  shows "ucast (drop_bit k (of_nat n :: u32)) = byte_at k n"
proof (rule bit_word_eqI)
  fix j assume "j < LENGTH(8)"
  have "bit n (k + j) \<longrightarrow> k + j < 32"
  proof (rule impI, rule ccontr)
    assume b: "bit n (k + j)" and "\<not> k + j < 32"
    then have "n < 2 ^ (k + j)" using assms by (meson less_le_trans not_less one_le_numeral power_increasing)
    with b show False by (simp add: bit_iff_odd)
  qed
  then show "bit (ucast (drop_bit k (of_nat n :: u32)) :: byte) j \<longleftrightarrow> bit (byte_at k n) j"
    using \<open>j < LENGTH(8)\<close>
    by (auto simp: byte_at_def bit_simps bit_of_nat_iff not_le simp flip: drop_bit_eq_div)
qed

lemma PackSendProtocol_frame:
  assumes "length d + 4 < 2 ^ 32"
  shows "PackSendProtocol d = Ret (frame d)"
proof -
  let ?n = "length d + 4"
  have r: "replicate ?n (0 :: byte) = 0 # 0 # 0 # 0 # replicate (length d) 0"
    by (simp add: numeral_eq_Suc)
  have u: "ucast (drop_bit k (of_nat ?n :: u32)) = byte_at k ?n" for k using assms by (rule ucast_byte_at)
  have z: "ucast (of_nat ?n :: u32) = byte_at 0 ?n" using u [of 0] by simp
  have "EncodeLength (replicate ?n 0) (of_nat ?n) =
      Ret ([byte_at 24 ?n, byte_at 16 ?n, byte_at 8 ?n, byte_at 0 ?n] @ replicate (length d) 0)"
    unfolding r EncodeLength_def u z by simp
  then show ?thesis by (simp add: PackSendProtocol_def frame_def blit_def Let_def)
qed

lemma DecodeLength_MsgLen: "DecodeLength = MsgLen"
  by (simp add: fun_eq_iff DecodeLength_def MsgLen_def)

lemma codable_message: "length d \<le> max_values \<Longrightarrow> codable (ProtocolMessage i q d)"
  using codable_bytes [of d]
  by (simp add: ProtocolMessage_def codable_simps tags_ok_def no_tag_def find_field_def field_tag_def)

lemma message_type: "zero_of (type_of (ProtocolMessage i q d)) = ProtocolMessage 0 0 []"
  "type_of (ProtocolMessage i q d) = type_of (ProtocolMessage 0 0 [])"
  by (simp_all add: ProtocolMessage_def bytes_val_def)

lemma SpbEncode_ptr: "SpbEncode (VPtr t (Some (VStruct fs))) = SpbEncode (VStruct fs)"
  by (simp add: SpbEncode_def pack.simps)

lemma message_size: "length (enc 0 True (ProtocolMessage i q d)) \<le> 200 + 3 * length d"
proof -
  obtain fs where fs: "ProtocolMessage i q d = VStruct fs"
      "fs = [(no_tag, VUint64 i), (no_tag, VUint64 q), (no_tag, bytes_val d)]"
    by (simp add: ProtocolMessage_def)
  have "length (body (VUint64 x)) \<le> 10" for x using length_varint_10 [of x] by (simp add: body.simps)
  from this [of i] this [of q] have "(\<Sum>e\<leftarrow>fs. 11 + length (body (snd e))) \<le> 63 + 3 * length d"
    using body_lengths(5) [of d] by (simp add: fs(2))
  moreover have "length (encFields 0 fs) \<le> (\<Sum>e\<leftarrow>fs. 11 + length (body (snd e)))"
    by (rule length_fields) (simp add: fs(2) bytes_val_def)
  ultimately show ?thesis using length_struct [of 0 fs] by (simp add: fs(1))
qed

lemma SendRawGpb_frame:
  assumes "tunOk m"
  shows "SendRawGpb js (fst m) magicNumber (snd m) = Ret (tunFrame m, None)" "length (tunFrame m) \<le> MaxMsgSize"
    "4 \<le> length (tunFrame m)"
proof -
  let ?v = "ProtocolMessage (fst m) magicNumber (snd m)"
  have l: "length (snd m) \<le> 2 ^ 19" using assms by (simp add: tunOk_def)
  then have c: "codable ?v" by (intro codable_message) (simp add: max_values_def)
  have s: "length (enc 0 True ?v) + 4 \<le> MaxMsgSize"
    using message_size [of "fst m" magicNumber "snd m"] l by (simp add: MaxMsgSize_def)
  have "SpbEncode (ptrTo ?v) = Ret (enc 0 True ?v, None)"
    using pack_enc [OF c] by (simp add: SpbEncode_ptr ProtocolMessage_def)
  then have "Marshal js (ptrTo ?v) EncodeTyepSpb = Ret (enc 0 True ?v, None)" by (simp add: Marshal_def)
  moreover have "PackSendProtocol (enc 0 True ?v) = Ret (frame (enc 0 True ?v))"
    using s by (intro PackSendProtocol_frame) (simp add: MaxMsgSize_def)
  ultimately show "SendRawGpb js (fst m) magicNumber (snd m) = Ret (tunFrame m, None)"
    by (simp add: SendRawGpb_def tunFrame_def)
  show "length (tunFrame m) \<le> MaxMsgSize" "4 \<le> length (tunFrame m)" using s by (simp_all add: tunFrame_def)
qed

lemma DecodeLength_tun:
  assumes "tunOk m"
  obtains w where "DecodeLength (tunFrame m @ rest) = Ret w" "unat w = length (tunFrame m)" "\<not> w < 4" "\<not> msgMaxLen < w"
proof -
  let ?b = "enc 0 True (ProtocolMessage (fst m) magicNumber (snd m))"
  have l: "length ?b + 4 \<le> MaxMsgSize" using SendRawGpb_frame(2) [OF assms] by (simp add: tunFrame_def)
  from MsgLen_frame [of ?b rest] l obtain w where
    w: "MsgLen (frame ?b @ rest) = Ret w" "unat w = length ?b + 4" by (auto simp: MaxMsgSize_def)
  have "\<not> w < 4" "\<not> msgMaxLen < w"
    using w(2) l by (simp_all add: word_less_nat_alt msgMaxLen_def MaxMsgSize_def)
  with w that show ?thesis by (simp add: DecodeLength_MsgLen tunFrame_def)
qed

lemma gpbUnmarshal_whole:
  assumes "tunOk m"
  shows "gpbUnmarshal js f (tunFrame m @ rest) w =
    go_map (\<lambda>w'. (w', handledAll (int (length (tunFrame m))))) (f (fst m) (snd m) w)"
proof -
  let ?v = "ProtocolMessage (fst m) magicNumber (snd m)"
  let ?b = "enc 0 True ?v"
  from assms obtain ml where ml: "DecodeLength (tunFrame m @ rest) = Ret ml" "unat ml = length (tunFrame m)"
    "\<not> ml < 4" "\<not> msgMaxLen < ml" by (rule DecodeLength_tun)
  have c: "codable ?v" using assms by (intro codable_message) (simp add: tunOk_def max_values_def)
  have len: "length ?b + 4 \<le> MaxMsgSize" using SendRawGpb_frame(2) [OF assms] by (simp add: tunFrame_def)
  have seg: "subseg 4 (unat ml) (tunFrame m @ rest) = ?b" by (simp add: subseg_def ml(2) tunFrame_def)
  have "SpbDecode ?b (ptrTo (ProtocolMessage 0 0 [])) = Ret (VPtr (type_of (ProtocolMessage 0 0 [])) (Some ?v), None)"
    using decode_enc [OF c, of "[]"] len message_type(1) [of "fst m" magicNumber "snd m"]
    unfolding message_type(2) [of "fst m" magicNumber "snd m"] by (simp add: MaxMsgSize_def)
  then have u: "Unmarshal js ?b (ptrTo (ProtocolMessage 0 0 [])) EncodeTyepSpb =
      Ret (VPtr (type_of (ProtocolMessage 0 0 [])) (Some ?v), None)" by (simp add: Unmarshal_def)
  have fl: "protocolMessage_fields (VPtr t (Some ?v)) = (fst m, magicNumber, snd m)" for t
    by (simp add: ProtocolMessage_def)
  show ?thesis using ml seg u fl by (simp add: gpbUnmarshal_def tunFrame_def)
qed

lemma gpbUnmarshal_part:
  assumes "tunOk m" "strict_prefix d (tunFrame m)"
  shows "gpbUnmarshal js f d w = Ret (w, \<lparr>lenParsed = 0, pMsgID = 0, pMsg = MNil, pErr = None\<rparr>)"
proof (cases "length d < 4")
  case False
  from assms(2) obtain y where y: "tunFrame m = d @ y" "length d < length (tunFrame m)"
    by (auto simp: strict_prefix_def prefix_def)
  from assms(1) obtain ml where ml: "DecodeLength (tunFrame m @ []) = Ret ml" "unat ml = length (tunFrame m)"
    "\<not> ml < 4" "\<not> msgMaxLen < ml" by (rule DecodeLength_tun)
  have "DecodeLength d = Ret ml" using ml(1) False y(1) by (simp add: DecodeLength_def nth_append split: if_splits)
  with False ml y(2) show ?thesis by (simp add: gpbUnmarshal_def)
qed (simp add: gpbUnmarshal_def)


subsection \<open>An end of the tunnel\<close>

text \<open>A service that reads tunnel messages and handles each one itself, with a handler that always
  returns when the service has been set up so that it is usable.\<close>

locale tunnel_end =
  fixes js :: json_lib
    and im :: "proxyWorld serviceImp"
    and handle :: "sessRef \<Rightarrow> u64 \<Rightarrow> bytes \<Rightarrow> proxyWorld \<Rightarrow> proxyWorld go"
    and usable :: bool
  assumes reads: "imp_Unmarshal im = (\<lambda>s. gpbUnmarshal js (handle s))"
    and total: "usable \<Longrightarrow> tunOk (i, d) \<Longrightarrow> \<exists>w'. handle s i d w = Ret w'"
begin

definition effect :: "sessRef \<Rightarrow> u64 \<times> bytes \<Rightarrow> proxyWorld \<Rightarrow> proxyWorld" where
  "effect s m w = (case handle s (fst m) (snd m) w of Ret w' \<Rightarrow> w' | _ \<Rightarrow> w)"

lemma handle_effect: "usable \<Longrightarrow> tunOk m \<Longrightarrow> handle s (fst m) (snd m) w = Ret (effect s m w)"
  using total [of "fst m" "snd m" s w] by (auto simp: effect_def)

end

sublocale tunnel_end \<subseteq> stream: framing svcParse tunFrame tunOk "\<lambda>p. usable \<and> imp (fst p) = im"
  "\<lambda>r m p. (fst p, fst (snd p), effect r m (snd (snd p)))"
proof
  fix p :: "proxyWorld svcState" and m r rest
  assume p: "usable \<and> imp (fst p) = im" and m: "tunOk m"
  obtain sv sig w where s: "p = (sv, sig, w)" by (cases p)
  have "imp_Unmarshal (imp sv) r (tunFrame m @ rest) w = Ret (effect r m w, handledAll (int (length (tunFrame m))))"
    using gpbUnmarshal_whole [OF m] handle_effect [OF _ m] p reads by (simp add: s)
  then show "svcParse p r (tunFrame m @ rest) =
      Ret ((fst p, fst (snd p), effect r m (snd (snd p))), int (length (tunFrame m)))"
    by (simp add: s svcParse_def ParseMsg_def handledAll_def)
next
  fix p :: "proxyWorld svcState" and m d r
  assume "usable \<and> imp (fst p) = im" "tunOk m" "strict_prefix d (tunFrame m)"
  then show "svcParse p r d = Ret (p, 0)"
    using gpbUnmarshal_part [of m d] reads by (cases p) (simp add: svcParse_def ParseMsg_def)
next
  fix m assume "tunOk m"
  then show "tunFrame m \<noteq> [] \<and> length (tunFrame m) \<le> MaxMsgSize" using SendRawGpb_frame(2,3) [of m] by auto
qed simp

context tunnel_end
begin

lemma handled_in_order:
  assumes "imp sv = im" usable "list_all tunOk ms" "\<not> isUdp s" "handing s" "tempBuf s = None"
    "concat (map fst segs) = concat (map tunFrame ms)" "\<forall>x \<in> set segs. fst x \<noteq> [] \<and> snd x = a"
  shows "\<exists>s'. handAll svcParse s (sv, sig, w) segs = Ret (s', sv, sig, fold (effect (sref (s\<lparr>peer := a\<rparr>))) ms w) \<and>
    pending s' = [] \<and> handing s' \<and> sockOpen s' = sockOpen s"
proof -
  have p: "pending s = []" using assms(6) by (simp add: pending_def)
  have b: "begins tunFrame tunOk []" by (simp add: begins_def)
  have f: "fold (\<lambda>m p. (fst p, fst (snd p), effect r m (snd (snd p)))) ms (sv, sig, w) = (sv, sig, fold (effect r) ms w)" for r
    by (induction ms arbitrary: w) simp_all
  show ?thesis
    using stream.handAll_stream [of "(sv, sig, w)" ms "[]" s segs a, unfolded p] assms b f by auto
qed

end

definition pickable :: "string list \<Rightarrow> int list \<Rightarrow> bool" where
  "pickable remoteip weight \<longleftrightarrow>
     remoteip \<noteq> [] \<and> (length weight > 1 \<longrightarrow> last weight \<noteq> 0 \<and> length weight \<le> length remoteip)"

lemma pickLoop_returns: "i + length ws \<le> length rs \<Longrightarrow> \<exists>a. pickLoop r i ws rs rip = Ret a"
  by (induction ws arbitrary: i) auto

lemma pickRemote_returns: "pickable remoteip weight \<Longrightarrow> \<exists>a. pickRemote rnd remoteip weight = Ret a"
  using pickLoop_returns [of 0 weight remoteip] by (auto simp: pickRemote_def pickable_def)

lemma llGpbMessage_returns: "\<exists>w'. llGpbMessage js s i d w = Ret w'"
  using SendRawGpb_frame(1) [of "(i, [])" js] by (auto simp: llGpbMessage_def tunOk_def)

lemma ccGpbMessage_returns: "pickable remoteip weight \<Longrightarrow> \<exists>w'. ccGpbMessage remoteip weight i d w = Ret w'"
  using pickRemote_returns [of remoteip weight "w_rand w 0"] by (auto simp: ccGpbMessage_def split: option.splits)

interpretation ll_end: tunnel_end js "ServiceProxyLLGpb js" "llGpbMessage js" True for js
  by standard (simp_all add: ServiceProxyLLGpb_def llGpbMessage_returns)

interpretation cc_end: tunnel_end js "ServiceProxyCCGpb js remoteip weight" "\<lambda>s. ccGpbMessage remoteip weight"
  "pickable remoteip weight" for js remoteip weight
  by standard (simp_all add: ServiceProxyCCGpb_def ccGpbMessage_returns)

subsection \<open>What a tunnel carries\<close>

text \<open>The bytes written to a connection and to a session, from the events.\<close>

definition connBytes :: "u64 \<Rightarrow> event list \<Rightarrow> bytes" where
  "connBytes c evs = concat (map (\<lambda>e. case e of EvConnSend c' d \<Rightarrow> if c' = c then d else [] | _ \<Rightarrow> []) evs)"

definition sessBytes :: "u64 \<Rightarrow> event list \<Rightarrow> bytes" where
  "sessBytes i evs = concat (map (\<lambda>e. case e of EvSend i' d _ \<Rightarrow> if i' = i then d else [] | _ \<Rightarrow> []) evs)"

lemma connBytes_append [simp]: "connBytes c (xs @ ys) = connBytes c xs @ connBytes c ys"
  by (simp add: connBytes_def)

lemma sessBytes_append [simp]: "sessBytes i (xs @ ys) = sessBytes i xs @ sessBytes i ys"
  by (simp add: sessBytes_def)

text \<open>What the connecting end has passed on for a session of the listening end.\<close>

definition forwarded :: "proxyWorld \<Rightarrow> u64 \<Rightarrow> bytes" where
  "forwarded w i = (case SessId w i of None \<Rightarrow> [] | Some c \<Rightarrow> connBytes c (w_ev w))"

text \<open>The table is one-to-one, and connections have numbers that have been given out.\<close>

definition ccInv :: "proxyWorld \<Rightarrow> bool" where
  "ccInv w \<longleftrightarrow> (\<forall>i j c. SessId w i = Some c \<and> SessId w j = Some c \<longrightarrow> i = j) \<and>
     (\<forall>i c. SessId w i = Some c \<longrightarrow> c \<le> lastSession w) \<and>
     (\<forall>c. lastSession w < c \<longrightarrow> connBytes c (w_ev w) = [])"

lemma word_Suc_less: "unat (x :: u64) + 1 < 2 ^ 64 \<Longrightarrow> x < x + 1 \<and> unat (x + 1) = unat x + 1"
  by (simp add: word_less_nat_alt unat_word_ariths)

lemma ccGpbMessage_data:
  assumes "ccInv w" "d \<noteq> []" "unat (lastSession w) + 1 < 2 ^ 64" "ccGpbMessage remoteip weight i d w = Ret w'"
  shows "ccInv w' \<and> forwarded w' j = forwarded w j @ (if j = i then d else []) \<and>
    unat (lastSession w') \<le> unat (lastSession w) + 1"
proof (cases "SessId w i")
  case (Some c)
  then have w': "w' = emit (EvConnSend c d) w" using assms(2,4) by (simp add: ccGpbMessage_def)
  have "SessId w j = Some c \<Longrightarrow> j = i" "\<not> lastSession w < c" using assms(1) Some unfolding ccInv_def by (blast, meson not_less)
  then show ?thesis
    using assms(1) Some unfolding w' by (auto simp: emit_def ccInv_def forwarded_def connBytes_def split: option.splits)
next
  case None
  let ?c = "lastSession w + 1"
  note lt = word_Suc_less [OF assms(3)]
  from assms(2,4) None obtain rip where w': "SessId w' = (SessId w)(i \<mapsto> ?c)" "lastSession w' = ?c"
      "w_ev w' = w_ev w @ [EvNewConnect rip i, EvConnSend ?c d]"
    by (auto simp: ccGpbMessage_def rawConnect_def emit_def Let_def split: if_splits)
  have old: "SessId w k = Some c \<Longrightarrow> c \<le> lastSession w \<and> c \<noteq> ?c" for k c using assms(1) lt unfolding ccInv_def by fastforce
  have new: "connBytes ?c (w_ev w) = []" using assms(1) lt unfolding ccInv_def by blast
  have ev: "connBytes c (w_ev w') = connBytes c (w_ev w) @ (if c = ?c then d else [])" for c
    by (simp add: w'(3) connBytes_def)
  have "connBytes c (w_ev w') = []" if "?c < c" for c
    using assms(1) that lt ev [of c] unfolding ccInv_def by (auto dest: order.strict_trans)
  moreover have "SessId w' k = Some c \<Longrightarrow> c \<le> ?c" for k c using old lt by (auto simp: w'(1) split: if_splits dest: order.trans less_imp_le)
  moreover have "SessId w' k = Some c \<Longrightarrow> SessId w' l = Some c \<Longrightarrow> k = l" for k l c
    using assms(1) old unfolding w'(1) ccInv_def by (metis fun_upd_apply option.inject)
  moreover have "forwarded w' j = forwarded w j @ (if j = i then d else [])"
    using old [of j] new None by (auto simp: forwarded_def w'(1) ev split: option.splits)
  ultimately show ?thesis using lt by (simp add: w'(2) ccInv_def)
qed

lemma cc_fold:
  assumes "ccInv w" "\<forall>m \<in> set ms. snd m \<noteq> [] \<and> tunOk m" "unat (lastSession w) + length ms < 2 ^ 64" "pickable remoteip weight"
  shows "ccInv (fold (cc_end.effect remoteip weight s) ms w) \<and>
    forwarded (fold (cc_end.effect remoteip weight s) ms w) j = forwarded w j @ concat (map snd (filter (\<lambda>m. fst m = j) ms))"
  using assms
proof (induction ms arbitrary: w)
  case (Cons m ms)
  let ?w = "cc_end.effect remoteip weight s m w"
  have e: "ccGpbMessage remoteip weight (fst m) (snd m) w = Ret ?w"
    using Cons.prems(2,4) by (intro cc_end.handle_effect) auto
  have d: "snd m \<noteq> []" "unat (lastSession w) + 1 < 2 ^ 64" using Cons.prems(2,3) by auto
  note a = ccGpbMessage_data [OF Cons.prems(1) d e]
  from Cons.IH [of ?w] a [of j] Cons.prems(2-4) show ?case by auto
qed simp

text \<open>A raw service that is given what its sessions read, one piece after the other.\<close>

fun readAll :: "(sessRef \<Rightarrow> bytes \<Rightarrow> proxyWorld \<Rightarrow> (proxyWorld \<times> parsed) go) \<Rightarrow> (sessRef \<times> bytes) list \<Rightarrow> proxyWorld \<Rightarrow> proxyWorld go" where
  "readAll um [] w = Ret w"
| "readAll um ((r, d) # xs) w = go_bind (um r d w) (\<lambda>(w', p). readAll um xs w')"

lemma sendFirst_event:
  assumes "w_gpb w = g # gs" "tunOk (i, d)"
  shows "sendFirst js viaSession i d w = Ret (emit (EvSend g (tunFrame (i, d)) None) w)"
  using SendRawGpb_frame(1) [OF assms(2), of js] assms(1) by (simp add: sendFirst_def)

lemma readAll_frames:
  assumes "w_gpb w = g # gs" "\<forall>x \<in> set xs. tunOk (key (fst x), snd x)"
    "\<And>r d w. r \<in> fst ` set xs \<Longrightarrow> um r d w = go_map (\<lambda>w'. (w', handledAll (int (length d)))) (sendFirst js viaSession (key r) d w)"
  shows "\<exists>w'. readAll um xs w = Ret w' \<and> w_gpb w' = g # gs \<and>
    sessBytes g (w_ev w') = sessBytes g (w_ev w) @ concat (map (\<lambda>x. tunFrame (key (fst x), snd x)) xs)"
  using assms
proof (induction xs arbitrary: w)
  case (Cons x xs)
  obtain r d where x: "x = (r, d)" by (cases x)
  let ?w = "emit (EvSend g (tunFrame (key r, d)) None) w"
  have "um r d w = Ret (?w, handledAll (int (length d)))"
    using Cons.prems(3) [of r d w] sendFirst_event [OF Cons.prems(1), of "key r" d js] Cons.prems(2) by (auto simp: x)
  moreover have "\<exists>w'. readAll um xs ?w = Ret w' \<and> w_gpb w' = g # gs \<and>
    sessBytes g (w_ev w') = sessBytes g (w_ev ?w) @ concat (map (\<lambda>x. tunFrame (key (fst x), snd x)) xs)"
  proof (rule Cons.IH)
    show "w_gpb ?w = g # gs" using Cons.prems(1) by (simp add: emit_def)
    show "\<forall>x \<in> set xs. tunOk (key (fst x), snd x)" using Cons.prems(2) by simp
  next
    fix r d w assume "r \<in> fst ` set xs"
    then show "um r d w = go_map (\<lambda>w'. (w', handledAll (int (length d)))) (sendFirst js viaSession (key r) d w)"
      using Cons.prems(3) [of r d w] by simp
  qed
  ultimately show ?case by (auto simp: x emit_def sessBytes_def)
qed simp

text \<open>C7: A tunnel delivers: whatever the clients of a listening proxy send is wrapped, cut by the
  network in any way, unwrapped by the connecting proxy and written to one connection per client,
  unchanged and in order, without mixing the clients, and the tunnel stays open.\<close>

theorem tunnel_delivers:
  assumes "w_gpb wl = g # gs" "w_ev wl = []" "\<forall>(r, d) \<in> set rds. d \<noteq> [] \<and> length d \<le> 2 ^ 19"
    "imp sv = ServiceProxyCCGpb js remoteip weight" "pickable remoteip weight" "ccInv w"
    "unat (lastSession w) + length rds < 2 ^ 64" "\<not> isUdp s" "handing s" "tempBuf s = None"
  shows "\<exists>wl'. readAll (imp_Unmarshal (ServiceProxyLLRaw js)) rds wl = Ret wl' \<and>
    (\<forall>segs a. concat (map fst segs) = sessBytes g (w_ev wl') \<and> (\<forall>x \<in> set segs. fst x \<noteq> [] \<and> snd x = a) \<longrightarrow>
      (\<exists>s' w'. handAll svcParse s (sv, sig, w) segs = Ret (s', sv, sig, w') \<and> pending s' = [] \<and> sockOpen s' = sockOpen s \<and>
        (\<forall>i. forwarded w' i = forwarded w i @ concat (map snd (filter (\<lambda>(r, d). sess_id r = i) rds)))))"
proof -
  let ?ms = "map (\<lambda>x. (sess_id (fst x), snd x)) rds"
  have ok: "\<forall>m \<in> set ?ms. snd m \<noteq> [] \<and> tunOk m" using assms(3) by (auto simp: tunOk_def)
  then have r: "\<forall>x \<in> set rds. tunOk (sess_id (fst x), snd x)" by auto
  have um: "imp_Unmarshal (ServiceProxyLLRaw js) r d w = go_map (\<lambda>w'. (w', handledAll (int (length d)))) (sendFirst js viaSession (sess_id r) d w)"
    for r d w by (simp add: ServiceProxyLLRaw_def llRawUnmarshal_def)
  from readAll_frames [OF assms(1) r, of "imp_Unmarshal (ServiceProxyLLRaw js)" js] um obtain wl' where
    wl: "readAll (imp_Unmarshal (ServiceProxyLLRaw js)) rds wl = Ret wl'" "sessBytes g (w_ev wl') = concat (map tunFrame ?ms)"
    using assms(2) by (auto simp: comp_def sessBytes_def)
  show ?thesis
  proof (rule exI [of _ wl'], intro conjI allI impI, rule wl(1))
    fix segs and a :: "addr option"
    assume g: "concat (map fst segs) = sessBytes g (w_ev wl') \<and> (\<forall>x \<in> set segs. fst x \<noteq> [] \<and> snd x = a)"
    let ?w = "fold (cc_end.effect remoteip weight (sref (s\<lparr>peer := a\<rparr>))) ?ms w"
    have "list_all tunOk ?ms" using ok by (simp add: list_all_iff)
    from cc_end.handled_in_order [OF assms(4,5) this assms(8-10), of segs a sig w] g wl(2) obtain s' where
      s': "handAll svcParse s (sv, sig, w) segs = Ret (s', sv, sig, ?w)" "pending s' = []" "sockOpen s' = sockOpen s" by auto
    have "unat (lastSession w) + length ?ms < 2 ^ 64" using assms(7) by simp
    note f = cc_fold [OF assms(6) ok this assms(5)]
    have "forwarded ?w i = forwarded w i @ concat (map snd (filter (\<lambda>(r, d). sess_id r = i) rds))" for i
      using f [of "sref (s\<lparr>peer := a\<rparr>)" i] by (simp add: filter_map comp_def case_prod_unfold)
    with s' show "\<exists>s' w'. handAll svcParse s (sv, sig, w) segs = Ret (s', sv, sig, w') \<and> pending s' = [] \<and> sockOpen s' = sockOpen s \<and>
        (\<forall>i. forwarded w' i = forwarded w i @ concat (map snd (filter (\<lambda>(r, d). sess_id r = i) rds)))" by blast
  qed
qed

definition sampleWorld :: proxyWorld where
  "sampleWorld = \<lparr>w_raw = [5, 6], w_gpb = [7], SessId = Map.empty, rawUser = Map.empty, w_rand = (\<lambda>_. 0), lastSession = 7, w_ev = []\<rparr>"

definition tunnelSession :: session where
  "tunnelSession = \<lparr>s_id = 7, writer = [], writerCap = 256, hander = [], handerCap = 256, closer = OpenChan,
     isclose = False, heartbeat = 0, hasConn = False, isUdp = False, peer = None, UserData = NoUser,
     sockOpen = True, sent = [], tempBuf = None, handing = True\<rparr>"

definition client :: "u64 \<Rightarrow> sessRef" where
  "client i = \<lparr>sess_id = i, sess_peer = None, sess_user = NoUser\<rparr>"

lemma singletons: "concat (map fst (map (\<lambda>b. ([b], None)) xs)) = xs" for xs :: bytes
  by (induction xs) auto

theorem tunnel_delivers_witness:
  "\<exists>wl' s' w'. readAll (imp_Unmarshal (ServiceProxyLLRaw no_json)) [(client 5, [1, 2]), (client 6, [9]), (client 5, [3])] sampleWorld = Ret wl' \<and>
    handAll svcParse tunnelSession (\<lparr>Name = [], imp = ServiceProxyCCGpb no_json [''10.0.0.1:80''] [], messageQ = [[]], threadId = 0, threadsNum = 1\<rparr>, [0], sampleWorld)
      (map (\<lambda>b. ([b], None)) (sessBytes 7 (w_ev wl'))) = Ret (s', \<lparr>Name = [], imp = ServiceProxyCCGpb no_json [''10.0.0.1:80''] [], messageQ = [[]], threadId = 0, threadsNum = 1\<rparr>, [0], w') \<and>
    forwarded w' 5 = [1, 2, 3] \<and> forwarded w' 6 = [9]"
proof -
  let ?sv = "\<lparr>Name = [], imp = ServiceProxyCCGpb no_json [''10.0.0.1:80''] [], messageQ = [[]], threadId = 0, threadsNum = 1\<rparr>"
  let ?rds = "[(client 5, [1, 2]), (client 6, [9]), (client 5, [3 :: byte])]"
  have inv: "ccInv sampleWorld" by (simp add: ccInv_def sampleWorld_def connBytes_def)
  have g: "w_gpb sampleWorld = 7 # []" "w_ev sampleWorld = []" "\<forall>(r, d) \<in> set ?rds. d \<noteq> [] \<and> length d \<le> 2 ^ 19"
      "imp ?sv = ServiceProxyCCGpb no_json [''10.0.0.1:80''] []" "pickable [''10.0.0.1:80''] []"
      "unat (lastSession sampleWorld) + length ?rds < 2 ^ 64" "\<not> isUdp tunnelSession" "handing tunnelSession" "tempBuf tunnelSession = None"
    by (simp_all add: sampleWorld_def pickable_def tunnelSession_def)
  from tunnel_delivers [OF g(1-5) inv g(6-9), of "[0]"] obtain wl' where
    wl: "readAll (imp_Unmarshal (ServiceProxyLLRaw no_json)) ?rds sampleWorld = Ret wl'"
    and d: "\<And>segs a. concat (map fst segs) = sessBytes 7 (w_ev wl') \<Longrightarrow> \<forall>x \<in> set segs. fst x \<noteq> [] \<and> snd x = a \<Longrightarrow>
      \<exists>s' w'. handAll svcParse tunnelSession (?sv, [0], sampleWorld) segs = Ret (s', ?sv, [0], w') \<and> pending s' = [] \<and>
        sockOpen s' = sockOpen tunnelSession \<and>
        (\<forall>i. forwarded w' i = forwarded sampleWorld i @ concat (map snd (filter (\<lambda>(r, d). sess_id r = i) ?rds)))" by blast
  from d [OF singletons, of None] obtain s' w' where
    "handAll svcParse tunnelSession (?sv, [0], sampleWorld) (map (\<lambda>b. ([b], None)) (sessBytes 7 (w_ev wl'))) = Ret (s', ?sv, [0], w')"
    "\<forall>i. forwarded w' i = forwarded sampleWorld i @ concat (map snd (filter (\<lambda>(r, d). sess_id r = i) ?rds))" by auto
  moreover have "forwarded sampleWorld i = []" for i by (simp add: forwarded_def sampleWorld_def)
  ultimately show ?thesis using wl by (intro exI [of _ wl'] exI [of _ s'] exI [of _ w']) (simp add: client_def)
qed


subsection \<open>The way back\<close>

lemma ll_effect:
  assumes "tunOk m" "sess_id s \<notin> set (w_raw w)" "j \<in> set (w_raw w)"
  shows "w_raw (ll_end.effect js s m w) = w_raw w \<and>
    sessBytes j (w_ev (ll_end.effect js s m w)) = sessBytes j (w_ev w) @ (if fst m = j then snd m else [])"
proof -
  have e: "llGpbMessage js s (fst m) (snd m) w = Ret (ll_end.effect js s m w)" using assms(1) by (intro ll_end.handle_effect) simp_all
  show ?thesis
  proof (cases "fst m \<in> set (w_raw w)")
    case True
    with e have "ll_end.effect js s m w = (if snd m = [] then emit (EvSessClose (fst m)) w else emit (EvSend (fst m) (snd m) None) w)"
      by (simp add: llGpbMessage_def)
    then show ?thesis by (simp add: emit_def sessBytes_def)
  next
    case False
    with e SendRawGpb_frame(1) [of "(fst m, [])" js]
    have "ll_end.effect js s m w = emit (EvSend (sess_id s) (tunFrame (fst m, [])) None) w" by (simp add: llGpbMessage_def tunOk_def)
    then show ?thesis using False assms(2,3) by (auto simp: emit_def sessBytes_def)
  qed
qed

lemma ll_fold:
  assumes "\<forall>m \<in> set ms. tunOk m" "sess_id s \<notin> set (w_raw w)" "j \<in> set (w_raw w)"
  shows "sessBytes j (w_ev (fold (ll_end.effect js s) ms w)) = sessBytes j (w_ev w) @ concat (map snd (filter (\<lambda>m. fst m = j) ms))"
  using assms
proof (induction ms arbitrary: w)
  case (Cons m ms)
  then show ?case using ll_effect [of m s w j js] by simp
qed simp

text \<open>C29: The answers come back: what the connecting proxy reads from its connections, each labelled
  with the client's session, reaches exactly these sessions of the listening proxy as far as they
  are still registered there, unchanged and in order, however the tunnel's stream is cut.\<close>

theorem tunnel_answers:
  assumes "w_gpb wc = g # gs" "w_ev wc = []" "\<forall>(r, d) \<in> set rds. length d \<le> 2 ^ 19 \<and> sess_user r = UNum (no r)"
    "imp sv = ServiceProxyLLGpb js" "\<not> isUdp s" "handing s" "tempBuf s = None" "s_id s \<notin> set (w_raw w)"
  shows "\<exists>wc'. readAll (imp_Unmarshal (ServiceProxyCCRaw js)) rds wc = Ret wc' \<and>
    (\<forall>segs a. concat (map fst segs) = sessBytes g (w_ev wc') \<and> (\<forall>x \<in> set segs. fst x \<noteq> [] \<and> snd x = a) \<longrightarrow>
      (\<exists>s' w'. handAll svcParse s (sv, sig, w) segs = Ret (s', sv, sig, w') \<and> pending s' = [] \<and> sockOpen s' = sockOpen s \<and>
        (\<forall>i \<in> set (w_raw w). sessBytes i (w_ev w') =
           sessBytes i (w_ev w) @ concat (map snd (filter (\<lambda>(r, d). no r = i) rds)))))"
proof -
  let ?ms = "map (\<lambda>x. (no (fst x), snd x)) rds"
  have ok: "\<forall>m \<in> set ?ms. tunOk m" using assms(3) by (auto simp: tunOk_def)
  then have r: "\<forall>x \<in> set rds. tunOk (no (fst x), snd x)" by auto
  have um: "imp_Unmarshal (ServiceProxyCCRaw js) r d w = go_map (\<lambda>w'. (w', handledAll (int (length d)))) (sendFirst js viaSession (no r) d w)"
    if "r \<in> fst ` set rds" for r d w
    using assms(3) that by (auto simp: ServiceProxyCCRaw_def ccRawUnmarshal_def)
  from readAll_frames [OF assms(1) r, of "imp_Unmarshal (ServiceProxyCCRaw js)" js] um obtain wc' where
    wc: "readAll (imp_Unmarshal (ServiceProxyCCRaw js)) rds wc = Ret wc'" "sessBytes g (w_ev wc') = concat (map tunFrame ?ms)"
    using assms(2) by (auto simp: comp_def sessBytes_def)
  show ?thesis
  proof (rule exI [of _ wc'], intro conjI allI impI, rule wc(1))
    fix segs and a :: "addr option"
    assume g: "concat (map fst segs) = sessBytes g (w_ev wc') \<and> (\<forall>x \<in> set segs. fst x \<noteq> [] \<and> snd x = a)"
    let ?r = "sref (s\<lparr>peer := a\<rparr>)"
    let ?w = "fold (ll_end.effect js ?r) ?ms w"
    have "list_all tunOk ?ms" using ok by (simp add: list_all_iff)
    from ll_end.handled_in_order [OF assms(4) TrueI this assms(5-7), of segs a sig w] g wc(2) obtain s' where
      s': "handAll svcParse s (sv, sig, w) segs = Ret (s', sv, sig, ?w)" "pending s' = []" "sockOpen s' = sockOpen s" by auto
    have "sess_id ?r \<notin> set (w_raw w)" using assms(8) by (simp add: sref_def)
    note f = ll_fold [OF ok this]
    have "sessBytes i (w_ev ?w) = sessBytes i (w_ev w) @ concat (map snd (filter (\<lambda>(r, d). no r = i) rds))"
      if "i \<in> set (w_raw w)" for i
      using f [OF that, of js] by (simp add: filter_map comp_def case_prod_unfold)
    with s' show "\<exists>s' w'. handAll svcParse s (sv, sig, w) segs = Ret (s', sv, sig, w') \<and> pending s' = [] \<and> sockOpen s' = sockOpen s \<and>
        (\<forall>i \<in> set (w_raw w). sessBytes i (w_ev w') =
           sessBytes i (w_ev w) @ concat (map snd (filter (\<lambda>(r, d). no r = i) rds)))" by blast
  qed
qed

theorem tunnel_answers_witness:
  "\<exists>wc' s' w'. readAll (imp_Unmarshal (ServiceProxyCCRaw no_json)) [(client 9\<lparr>sess_user := UNum 5\<rparr>, [4, 4])] sampleWorld = Ret wc' \<and>
    handAll svcParse tunnelSession (\<lparr>Name = [], imp = ServiceProxyLLGpb no_json, messageQ = [[]], threadId = 0, threadsNum = 1\<rparr>, [0], sampleWorld)
      (map (\<lambda>b. ([b], None)) (sessBytes 7 (w_ev wc'))) = Ret (s', \<lparr>Name = [], imp = ServiceProxyLLGpb no_json, messageQ = [[]], threadId = 0, threadsNum = 1\<rparr>, [0], w') \<and>
    sessBytes 5 (w_ev w') = [4, 4]"
proof -
  let ?sv = "\<lparr>Name = [], imp = ServiceProxyLLGpb no_json, messageQ = [[]], threadId = 0, threadsNum = 1\<rparr>"
  let ?rds = "[(client 9\<lparr>sess_user := UNum 5\<rparr>, [4, 4 :: byte])]"
  have g: "w_gpb sampleWorld = 7 # []" "w_ev sampleWorld = []"
      "\<forall>(r, d) \<in> set ?rds. length d \<le> 2 ^ 19 \<and> sess_user r = UNum ((\<lambda>r. 5) r)"
      "imp ?sv = ServiceProxyLLGpb no_json" "\<not> isUdp tunnelSession" "handing tunnelSession" "tempBuf tunnelSession = None"
      "s_id tunnelSession \<notin> set (w_raw sampleWorld)" "5 \<in> set (w_raw sampleWorld)"
    by (simp_all add: sampleWorld_def tunnelSession_def)
  from tunnel_answers [OF g(1-8), of "[0]"] obtain wc' where
    wc: "readAll (imp_Unmarshal (ServiceProxyCCRaw no_json)) ?rds sampleWorld = Ret wc'"
    and d: "\<And>segs a. concat (map fst segs) = sessBytes 7 (w_ev wc') \<Longrightarrow> \<forall>x \<in> set segs. fst x \<noteq> [] \<and> snd x = a \<Longrightarrow>
      \<exists>s' w'. handAll svcParse tunnelSession (?sv, [0], sampleWorld) segs = Ret (s', ?sv, [0], w') \<and> pending s' = [] \<and>
        sockOpen s' = sockOpen tunnelSession \<and>
        (\<forall>i \<in> set (w_raw sampleWorld). sessBytes i (w_ev w') =
           sessBytes i (w_ev sampleWorld) @ concat (map snd (filter (\<lambda>(r, d). 5 = i) ?rds)))" by blast
  from d [OF singletons, of None] obtain s' w' where
    s: "handAll svcParse tunnelSession (?sv, [0], sampleWorld) (map (\<lambda>b. ([b], None)) (sessBytes 7 (w_ev wc'))) = Ret (s', ?sv, [0], w')"
    "\<forall>i \<in> set (w_raw sampleWorld). sessBytes i (w_ev w') =
       sessBytes i (w_ev sampleWorld) @ concat (map snd (filter (\<lambda>(r, d). 5 = i) ?rds))" by auto
  have "sessBytes 5 (w_ev sampleWorld) = []" by (simp add: sessBytes_def sampleWorld_def)
  with s(2) g(9) have "sessBytes 5 (w_ev w') = [4, 4]" by auto
  with wc s(1) show ?thesis by blast
qed

end
