(* ===== verification/Ssproxy_Config.thy ===== *)
theory Ssproxy_Config
  imports Ssproxy Server
begin

text \<open>
  The configuration of the proxy (\<^verbatim>\<open>src/ssproxy/loadconfig.go\<close>) and the services it sets up
  (the first part of \<^verbatim>\<open>src/ssproxy/imp.go\<close>).  Go iterates over maps in any order; here the order is
  an argument, either the list of entries itself or a function \<open>ord\<close> that lists them.
\<close>

subsection \<open>Reading the configuration\<close>

record 'a proxyWeight =
  pw_address :: "'a list"
  pw_weight :: "int list"

record proxyCfg =
  listenConnect :: "gostr \<rightharpoonup> gostr proxyWeight"
  listenListen :: "gostr \<rightharpoonup> gostr proxyWeight"
  connectConnect :: "gostr \<rightharpoonup> gostr proxyWeight"

datatype cfgErr = CfgIni iniError | SameKey gostr | BadTransport gostr | BadWeight gostr | ListenWeight gostr

type_synonym addrMap = "gostr \<rightharpoonup> gostr"

definition getType :: "addrMap \<Rightarrow> addrMap \<Rightarrow> gostr \<Rightarrow> gostr \<Rightarrow> string" where
  "getType listenAddress connectAddress src dst =
     (let slok = listenAddress src \<noteq> None; dlok = listenAddress dst \<noteq> None;
          scok = connectAddress src \<noteq> None; dcok = connectAddress dst \<noteq> None
      in if slok \<and> dcok then ''lc'' else if slok \<and> dlok then ''ll'' else if scok \<and> dcok then ''cc'' else '''')"

text \<open>\<open>m[k]\<close> for a map of strings and for a map of \<open>proxyWeight\<close>, with Go's zero values.\<close>

definition mapGet :: "addrMap \<Rightarrow> gostr \<Rightarrow> gostr" where
  "mapGet m k = (case m k of Some v \<Rightarrow> v | None \<Rightarrow> [])"

definition weightGet :: "(gostr \<rightharpoonup> gostr proxyWeight) \<Rightarrow> gostr \<Rightarrow> gostr proxyWeight" where
  "weightGet m k = (case m k of Some v \<Rightarrow> v | None \<Rightarrow> \<lparr>pw_address = [], pw_weight = []\<rparr>)"

definition addTarget :: "gostr \<Rightarrow> gostr \<Rightarrow> int \<Rightarrow> (gostr \<rightharpoonup> gostr proxyWeight) \<Rightarrow> (gostr \<rightharpoonup> gostr proxyWeight)" where
  "addTarget k a n m =
     m(k \<mapsto> (weightGet m k)\<lparr>pw_address := pw_address (weightGet m k) @ [a], pw_weight := pw_weight (weightGet m k) @ [n]\<rparr>)"

definition atoiRunes :: "gostr \<Rightarrow> int option" where
  "atoiRunes s = (if list_all (\<lambda>r. r < 128) s then Atoi (map char_of s) else None)"

text \<open>The right side of a transport line: a key, and a weight after a colon.\<close>

definition splitWeight :: "gostr \<Rightarrow> cfgErr + gostr \<times> int" where
  "splitWeight dst =
     (if textIndex dst (runes '':'') > 0 then
        let tmps = textSplit dst (runes '':'') in
        (case atoiRunes (tmps ! 1) of None \<Rightarrow> Inl (BadWeight (tmps ! 1)) | Some n \<Rightarrow> Inr (tmps ! 0, n))
      else Inr (dst, 0))"

definition loadTransport :: "addrMap \<Rightarrow> addrMap \<Rightarrow> gostr \<Rightarrow> proxyCfg \<Rightarrow> cfgErr + proxyCfg" where
  "loadTransport la ca v cfg =
     (let ss = textSplit v (runes ''=>'') in
      if length ss \<noteq> 2 then Inl (BadTransport v)
      else let src = ss ! 0 in
        (case splitWeight (ss ! 1) of
           Inl e \<Rightarrow> Inl e
         | Inr (dst, weight) \<Rightarrow>
             let ty = getType la ca src dst in
             if ty = ''lc'' then
               Inr (cfg\<lparr>listenConnect := addTarget (mapGet la src) (mapGet ca dst) weight (listenConnect cfg)\<rparr>)
             else if ty = ''ll'' then
               (let pw = weightGet (listenListen cfg) (mapGet la src) in
                if pw_address pw \<noteq> [] then Inl (ListenWeight src)
                else Inr (cfg\<lparr>listenListen := (listenListen cfg)(mapGet la src \<mapsto> pw\<lparr>pw_address := pw_address pw @ [mapGet la dst]\<rparr>)\<rparr>))
             else if ty = ''cc'' then
               Inr (cfg\<lparr>connectConnect := addTarget (mapGet ca src) (mapGet ca dst) weight (connectConnect cfg)\<rparr>)
             else Inl (BadTransport v)))"

fun loadTransports :: "addrMap \<Rightarrow> addrMap \<Rightarrow> gostr list \<Rightarrow> proxyCfg \<Rightarrow> cfgErr + proxyCfg" where
  "loadTransports la ca [] cfg = Inr cfg"
| "loadTransports la ca (v # vs) cfg = (case loadTransport la ca v cfg of Inl e \<Rightarrow> Inl e | Inr cfg' \<Rightarrow> loadTransports la ca vs cfg')"

definition sectionMap :: "Config \<Rightarrow> string \<Rightarrow> addrMap" where
  "sectionMap c s = (case Section c (runes s) of Some m \<Rightarrow> m | None \<Rightarrow> Map.empty)"

definition LoadCfg :: "(gostr \<rightharpoonup> gostr) \<Rightarrow> (addrMap \<Rightarrow> (gostr \<times> gostr) list) \<Rightarrow> cfgErr + proxyCfg" where
  "LoadCfg fs ord =
     (case LoadINI fs (runes ''ss.ini'') of
        Inl e \<Rightarrow> Inl (CfgIni e)
      | Inr c \<Rightarrow>
          let la = sectionMap c ''listen''; ca = sectionMap c ''connect'' in
          (case filter (\<lambda>(k, v). ca k \<noteq> None) (ord la) of
             (k, v) # _ \<Rightarrow> Inl (SameKey k)
           | [] \<Rightarrow> loadTransports la ca (map snd (ord (sectionMap c ''transport'')))
                \<lparr>listenConnect = Map.empty, listenListen = Map.empty, connectConnect = Map.empty\<rparr>))"


subsection \<open>Setting up the services\<close>

type_synonym listenFun = "string \<Rightarrow> string \<Rightarrow> encerr option"

text \<open>\<open>threadIndex\<close> counts up a global variable, here the second part of the state.\<close>

fun AddLCProxy :: "listenFun \<Rightarrow> nat \<Rightarrow> (string \<times> string proxyWeight) list \<Rightarrow> event list server \<times> int \<Rightarrow> (event list server \<times> int) \<times> encerr option" where
  "AddLCProxy listen rnd [] st = (st, None)"
| "AddLCProxy listen rnd ((k, v) # lc) (svr, idx) =
     (case AddTcpProxyService listen rnd svr k (idx + 1) (pw_address v) (pw_weight v) of
        (svr', Some e) \<Rightarrow> ((svr', idx + 1), Some e)
      | (svr', None) \<Rightarrow> AddLCProxy listen rnd lc (svr', idx + 1))"

fun AddLLProxy :: "listenFun \<Rightarrow> json_lib \<Rightarrow> (string \<times> string proxyWeight) list \<Rightarrow> proxyWorld server \<times> int \<Rightarrow> (proxyWorld server \<times> int) \<times> encerr option" where
  "AddLLProxy listen js [] st = (st, None)"
| "AddLLProxy listen js ((k, v) # ll) (svr, idx) =
     (if length (pw_address v) \<noteq> 1 then ((svr, idx), Some (EApp (''error proxy param: '' @ k)))
      else case AddService listen svr '''' k (Some (ServiceProxyLLRaw js)) (idx + 1) of
        (svr1, Inl e) \<Rightarrow> ((svr1, idx + 1), Some e)
      | (svr1, Inr raw) \<Rightarrow>
          (case AddService listen svr1 '''' (pw_address v ! 0) (Some (ServiceProxyLLGpb js)) (idx + 2) of
             (svr2, Inl e) \<Rightarrow> ((svr2, idx + 2), Some e)
           | (svr2, Inr gpb) \<Rightarrow> AddLLProxy listen js ll (svr2, idx + 2)))"

text \<open>The last part of the result lists the addresses the tunnel's services connect to.\<close>

fun AddCCProxy :: "listenFun \<Rightarrow> json_lib \<Rightarrow> (string \<times> string proxyWeight) list \<Rightarrow> proxyWorld server \<times> int \<Rightarrow>
    (proxyWorld server \<times> int) \<times> encerr option \<times> string list" where
  "AddCCProxy listen js [] st = (st, None, [])"
| "AddCCProxy listen js ((k, v) # cc) (svr, idx) =
     (case AddService listen svr '''' '''' (Some (ServiceProxyCCRaw js)) (idx + 1) of
        (svr1, Inl e) \<Rightarrow> ((svr1, idx + 1), Some e, [])
      | (svr1, Inr raw) \<Rightarrow>
          (case AddService listen svr1 '''' '''' (Some (ServiceProxyCCGpb js (pw_address v) (pw_weight v))) (idx + 2) of
             (svr2, Inl e) \<Rightarrow> ((svr2, idx + 2), Some e, [])
           | (svr2, Inr gpb) \<Rightarrow>
               (case AddCCProxy listen js cc (svr2, idx + 2) of (st, e, cs) \<Rightarrow> (st, e, k # cs))))"


subsection \<open>Properties\<close>

definition cfgOk :: "proxyCfg \<Rightarrow> bool" where
  "cfgOk cfg \<longleftrightarrow>
     (\<forall>k v. listenConnect cfg k = Some v \<or> connectConnect cfg k = Some v \<longrightarrow>
        pw_address v \<noteq> [] \<and> length (pw_weight v) = length (pw_address v)) \<and>
     (\<forall>k v. listenListen cfg k = Some v \<longrightarrow> length (pw_address v) = 1)"

lemma addTarget_some:
  "addTarget k a n m j = Some v \<Longrightarrow> (\<forall>k v. m k = Some v \<longrightarrow> pw_address v \<noteq> [] \<and> length (pw_weight v) = length (pw_address v)) \<Longrightarrow>
    pw_address v \<noteq> [] \<and> length (pw_weight v) = length (pw_address v)"
  by (auto simp: addTarget_def weightGet_def split: if_splits option.splits)

lemma loadTransport_ok: "cfgOk cfg \<Longrightarrow> loadTransport la ca v cfg = Inr cfg' \<Longrightarrow> cfgOk cfg'"
proof -
  assume ok: "cfgOk cfg" and l: "loadTransport la ca v cfg = Inr cfg'"
  from l consider k a n where "cfg' = cfg\<lparr>listenConnect := addTarget k a n (listenConnect cfg)\<rparr>"
    | k a where "cfg' = cfg\<lparr>listenListen := (listenListen cfg)(k \<mapsto> (weightGet (listenListen cfg) k)\<lparr>pw_address := [a]\<rparr>)\<rparr>"
    | k a n where "cfg' = cfg\<lparr>connectConnect := addTarget k a n (connectConnect cfg)\<rparr>"
    by (fastforce simp: loadTransport_def Let_def split: if_splits sum.splits prod.splits)
  then show "cfgOk cfg'"
  proof cases
    case 1
    then show ?thesis using ok addTarget_some [of k a n "listenConnect cfg"] unfolding cfgOk_def by simp
  next
    case 2
    then show ?thesis using ok unfolding cfgOk_def by simp
  next
    case 3
    then show ?thesis using ok addTarget_some [of k a n "connectConnect cfg"] unfolding cfgOk_def by simp
  qed
qed

lemma loadTransports_ok: "cfgOk cfg \<Longrightarrow> loadTransports la ca vs cfg = Inr cfg' \<Longrightarrow> cfgOk cfg'"
  by (induction vs arbitrary: cfg) (auto split: sum.splits dest: loadTransport_ok)

text \<open>C31: A configuration that \<open>LoadCfg\<close> accepts is well formed, whatever the order of the map
  iterations: every listening-to-connecting and connecting-to-connecting route has at least one
  target and as many weights as targets, and every listening-to-listening route has exactly one,
  so that the parameter checks of \<open>AddTcpProxyService\<close> and \<open>AddLLProxy\<close> never fail.\<close>

theorem proxy_config_wellformed:
  assumes "LoadCfg fs ord = Inr cfg"
  shows "cfgOk cfg"
proof -
  have "cfgOk \<lparr>listenConnect = Map.empty, listenListen = Map.empty, connectConnect = Map.empty\<rparr>" by (simp add: cfgOk_def)
  from loadTransports_ok [OF this] assms show ?thesis
    by (auto simp: LoadCfg_def Let_def split: sum.splits list.splits prod.splits)
qed

text \<open>A small configuration file.\<close>

definition smallIni :: gostr where
  "smallIni = runes (''[connect]'' @ [CHR 0x0A] @ ''a=x'' @ [CHR 0x0A] @ ''b=y'' @ [CHR 0x0A] @ ''[transport]'' @ [CHR 0x0A] @ ''t=a=>b:7'')"

definition keyList :: "addrMap \<Rightarrow> (gostr \<times> gostr) list" where
  "keyList m = List.map_filter (\<lambda>k. map_option (\<lambda>v. (runes k, v)) (m (runes k))) [''a'', ''b'', ''t'']"

lemma smallIni_lines: "scanLines smallIni = (map runes [''[connect]'', ''a=x'', ''b=y'', ''[transport]'', ''t=a=>b:7''], False)"
  by (simp add: smallIni_def scanLines.simps runes_def utf8Len_def runeLen_def MaxScanTokenSize_def dropCR_def)

lemma smallIni_load:
  "case LoadINI [runes ''ss.ini'' \<mapsto> smallIni] (runes ''ss.ini'') of
     Inr c \<Rightarrow> sectionMap c ''listen'' = Map.empty \<and> sectionMap c ''connect'' = [runes ''a'' \<mapsto> runes ''x'', runes ''b'' \<mapsto> runes ''y''] \<and>
       sectionMap c ''transport'' = [runes ''t'' \<mapsto> runes ''a=>b:7'']
   | Inl _ \<Rightarrow> False"
  by (simp add: LoadINI_def readIniFile_def smallIni_lines startReader_def iniLine_def Let_def trimSpaceAndComment_def dropBOM_def
      runes_def TrimSpace_def TrimFunc_def TrimLeftFunc_def TrimRightFunc_def isSpace_def Trim_def strIndex_def subseg_def
      openSection_def putKey_def addKey_def new_section_def emptyConfig_def sectionMap_def Section_def)

lemma smallIni_loads:
  "case LoadCfg [runes ''ss.ini'' \<mapsto> smallIni] keyList of
     Inr cfg \<Rightarrow> connectConnect cfg (runes ''x'') = Some \<lparr>pw_address = [runes ''y''], pw_weight = [7]\<rparr>
   | Inl _ \<Rightarrow> False"
proof -
  from smallIni_load obtain c where c: "LoadINI [runes ''ss.ini'' \<mapsto> smallIni] (runes ''ss.ini'') = Inr c"
      "sectionMap c ''listen'' = Map.empty" "sectionMap c ''connect'' = [runes ''a'' \<mapsto> runes ''x'', runes ''b'' \<mapsto> runes ''y'']"
      "sectionMap c ''transport'' = [runes ''t'' \<mapsto> runes ''a=>b:7'']" by (auto split: sum.splits)
  have l: "keyList Map.empty = []" "keyList [runes ''t'' \<mapsto> runes ''a=>b:7''] = [(runes ''t'', runes ''a=>b:7'')]"
    by (simp_all add: keyList_def List.map_filter_def runes_def)
  have s: "textSplit (runes ''a=>b:7'') (runes ''=>'') = [runes ''a'', runes ''b:7'']"
    "textSplit (runes ''b:7'') (runes '':'') = [runes ''b'', runes ''7'']" "textIndex (runes ''b:7'') (runes '':'') = 1"
    by (simp_all add: textSplit.simps textIndex_def runes_def)
  have "char_of (55 :: nat) = CHR ''7''" by (simp add: char_of_eq_iff)
  then have "atoiRunes (runes ''7'') = Some 7" by (simp add: atoiRunes_def runes_def Atoi_def parseUint10_def Let_def)
  then have w: "splitWeight (runes ''b:7'') = Inr (runes ''b'', 7)" using s by (simp add: splitWeight_def)
  have "runes ''a'' \<noteq> runes ''b''" by (simp add: runes_def)
  then show ?thesis
    by (simp add: LoadCfg_def c l s w loadTransport_def Let_def getType_def addTarget_def weightGet_def mapGet_def)
qed

theorem proxy_config_wellformed_witness:
  "case LoadCfg [runes ''ss.ini'' \<mapsto> smallIni] keyList of
     Inr cfg \<Rightarrow> cfgOk cfg \<and> connectConnect cfg (runes ''x'') \<noteq> None | Inl _ \<Rightarrow> False"
proof -
  from smallIni_loads obtain cfg where cfg: "LoadCfg [runes ''ss.ini'' \<mapsto> smallIni] keyList = Inr cfg"
    "connectConnect cfg (runes ''x'') \<noteq> None" by (auto split: sum.splits)
  with proxy_config_wellformed [OF cfg(1)] show ?thesis by simp
qed

text \<open>The weights of a connecting-to-connecting route are compared as if they were cumulated, which
  only the TCP proxy does with them: when the last weight is positive and not larger than the first,
  every client is connected to the first target, whatever the random numbers and the weights of the
  other targets.\<close>

theorem cc_weights_ignored:
  assumes "1 < length ws" "0 < last ws" "last ws \<le> ws ! 0" "SessId w i = None" "d \<noteq> []"
  shows "\<exists>w'. ccGpbMessage (a # as) ws i d w = Ret w' \<and> w_ev w' = w_ev w @ [EvNewConnect a i, EvConnSend (lastSession w + 1) d]"
proof -
  obtain x xs where ws: "ws = x # xs" using assms(1) by (cases ws) auto
  have "int (w_rand w 0) mod \<bar>last ws\<bar> < ws ! 0" using assms(2,3) by (metis abs_of_pos pos_mod_bound less_le_trans)
  then have "pickRemote (w_rand w 0) (a # as) ws = Ret a" using assms(1,2) by (simp add: pickRemote_def ws)
  then show ?thesis using assms(1,4,5) by (simp add: ccGpbMessage_def rawConnect_def emit_def Let_def)
qed

theorem cc_weights_ignored_witness:
  "\<exists>w'. ccGpbMessage [''a'', ''b''] [10, 5] 1 [9] sampleWorld = Ret w' \<and> w_ev w' = [EvNewConnect ''a'' 1, EvConnSend 8 [9]]"
  using cc_weights_ignored [of "[10, 5]" sampleWorld 1 "[9]" "''a''" "[''b'']"] by (simp add: sampleWorld_def)

end
