(* ===== verification/Upgrade.thy ===== *)
theory Upgrade
  imports Gotext
begin

text \<open>
  The self-updating service \<^verbatim>\<open>src/upgrade\<close>: the version table of the server (\<^verbatim>\<open>version.go\<close>), its
  remote functions (\<^verbatim>\<open>net.go\<close>), the download loop of the client (\<^verbatim>\<open>client.go\<close>) and the exchange of
  the executable (\<^verbatim>\<open>update.go\<close>).

  A directory is the list of its file names in the order in which it is walked, a file system a map
  from names to contents.  The text of an error of the operating system is an argument
  (\<open>errText\<close>).  The remote calls of the client are a function \<open>ask\<close> of the number of the call, in the
  end \<open>callUpdateFile\<close>: what the server answers may change from call to call.
\<close>

subsection \<open>Versions\<close>

text \<open>A file \<open>name.v3\<close> is version 3 of \<open>name\<close>.\<close>

definition versionOf :: "string \<Rightarrow> (string \<times> int) option" where
  "versionOf fl =
     (let idx = lastIndex fl (CHR ''.'') in
      if idx > 0 \<and> idx < int (length fl) - 1 then
        let fname = take (nat idx) fl; fver = drop (nat idx + 1) fl in
        if fver ! 0 = CHR ''v'' then map_option (\<lambda>ver. (fname, ver)) (Atoi (drop 1 fver)) else None
      else None)"

definition addVersion :: "(string \<rightharpoonup> int) \<Rightarrow> string \<Rightarrow> (string \<rightharpoonup> int)" where
  "addVersion newVer fl =
     (case versionOf fl of
        None \<Rightarrow> newVer
      | Some (fname, ver) \<Rightarrow>
          (case newVer fname of
             Some v \<Rightarrow> if v < ver then newVer(fname \<mapsto> ver) else newVer
           | None \<Rightarrow> newVer(fname \<mapsto> ver)))"

text \<open>One round of \<open>versionMoniter\<close>.\<close>

definition scanVersions :: "string list \<Rightarrow> (string \<rightharpoonup> int)" where
  "scanVersions files = foldl addVersion Map.empty files"

definition getLastedFile :: "(string \<rightharpoonup> int) \<Rightarrow> string \<Rightarrow> int \<times> string" where
  "getLastedFile verMap name = (case verMap name of Some v \<Rightarrow> (v, name @ ''.v'' @ Itoa v) | None \<Rightarrow> (0, name))"

definition GetLastedVersion :: "(string \<rightharpoonup> int) \<Rightarrow> string \<Rightarrow> u32" where
  "GetLastedVersion verMap name = (case verMap name of Some v \<Rightarrow> word_of_int v | None \<Rightarrow> 0)"


subsection \<open>Serving and fetching a file\<close>

record fileContent =
  fcName :: string
  fcVersion :: u32
  fcIndex :: u64
  fcTotal :: u64
  fcContent :: bytes
  fcErr :: string

definition noContent :: fileContent where
  "noContent = \<lparr>fcName = [], fcVersion = 0, fcIndex = 0, fcTotal = 0, fcContent = [], fcErr = []\<rparr>"

definition serveSize :: nat where "serveSize = 1024 * 32"

definition UpdateFile :: "(string \<Rightarrow> string) \<Rightarrow> (string \<rightharpoonup> int) \<Rightarrow> (string \<rightharpoonup> bytes) \<Rightarrow> string \<Rightarrow> u64 \<Rightarrow> fileContent" where
  "UpdateFile errText verMap fs name index =
     (let (v, n) = getLastedFile verMap name in
      case fs n of
        None \<Rightarrow> noContent\<lparr>fcErr := n @ '': '' @ errText n\<rparr>
      | Some f \<Rightarrow>
          if sint index < 0 then noContent\<lparr>fcErr := n @ '': '' @ errText n\<rparr>
          else let got = take serveSize (drop (unat index) f) in
            if got = [] then noContent\<lparr>fcErr := n @ '' file read error''\<rparr>
            else \<lparr>fcName = name, fcVersion = word_of_int v, fcIndex = index, fcTotal = of_nat (length f), fcContent = got, fcErr = []\<rparr>)"

text \<open>The remote calls of the client, one after the other.  At call number \<open>k\<close> the version monitor has
  last seen the files \<open>dir k\<close>, the server's directory holds \<open>fs k\<close>, and \<open>ok k\<close> says whether the call
  succeeds; a call that fails leaves the zero value.\<close>

definition callUpdateFile :: "(string \<Rightarrow> string) \<Rightarrow> (nat \<Rightarrow> bool) \<Rightarrow> (nat \<Rightarrow> string list) \<Rightarrow> (nat \<Rightarrow> string \<rightharpoonup> bytes) \<Rightarrow>
    nat \<Rightarrow> string \<Rightarrow> u64 \<Rightarrow> fileContent" where
  "callUpdateFile errText ok dir fs k name index =
     (if ok k then UpdateFile errText (scanVersions (dir k)) (fs k) name index else noContent)"

text \<open>The loop of \<open>getRemoteFile\<close>; \<open>k\<close> is the number of the next call.\<close>

function fetchLoop :: "(nat \<Rightarrow> string \<Rightarrow> u64 \<Rightarrow> fileContent) \<Rightarrow> string \<Rightarrow> fileContent \<Rightarrow> nat \<Rightarrow> nat \<Rightarrow> bytes \<Rightarrow> nat \<times> bytes" where
  "fetchLoop ask name info k fileIdx fileBuf =
     (if fileIdx < unat (fcTotal info) then
        let content = ask k name (of_nat fileIdx) in
        if fcErr content \<noteq> [] then (fileIdx, fileBuf)
        else if fcName content \<noteq> name \<or> fcTotal content \<noteq> fcTotal info \<or> fcVersion content \<noteq> fcVersion info \<or>
                fcContent content = [] then (fileIdx, fileBuf)
        else fetchLoop ask name info (Suc k) (fileIdx + length (fcContent content)) (blit fileIdx (fcContent content) fileBuf)
      else (fileIdx, fileBuf))"
  by pat_completeness auto
termination
proof (relation "measure (\<lambda>(ask, name, info, k, i, b). unat (fcTotal info) - i)", goal_cases)
  case (2 ask name info k i b c)
  then have "0 < length (fcContent c)" by simp
  with 2(1) show ?case by (simp del: length_greater_0_conv)
qed simp

declare fetchLoop.simps [simp del]

text \<open>\<open>make\<close> panics for a size beyond the address space.\<close>

definition maxAlloc :: nat where "maxAlloc = 2 ^ 48"

definition getRemoteFile :: "(nat \<Rightarrow> string \<Rightarrow> u64 \<Rightarrow> fileContent) \<Rightarrow> string \<Rightarrow> bytes option go" where
  "getRemoteFile ask name =
     (let info = ask 0 name 0; total = unat (fcTotal info) in
      if fcErr info \<noteq> [] then Ret None
      else if 0 < total then
        if maxAlloc < total then Panic
        else let (fileIdx, fileBuf) = fetchLoop ask name info 1 (length (fcContent info)) (blit 0 (fcContent info) (replicate total 0))
             in Ret (if fileIdx = total then Some fileBuf else None)
      else Ret None)"


subsection \<open>Exchanging the executable\<close>

text \<open>\<open>Update\<close> up to the start of the new program; \<open>delOk\<close> and \<open>movOk\<close> say whether the system calls
  succeed.\<close>

definition swapBinary :: "bool \<Rightarrow> bool \<Rightarrow> string \<Rightarrow> (string \<rightharpoonup> bytes) \<Rightarrow> (string \<rightharpoonup> bytes) \<times> bool" where
  "swapBinary delOk movOk bin fs =
     (case fs (bin @ ''.new'') of
        None \<Rightarrow> (fs, False)
      | Some new \<Rightarrow>
          if \<not> delOk \<or> fs bin = None then (fs, False)
          else let fs1 = fs(bin := None) in
            if \<not> movOk then (fs1, False) else (fs1(bin \<mapsto> new, bin @ ''.new'' := None), True))"

subsection \<open>The newest version\<close>

definition versionsIn :: "string list \<Rightarrow> string \<Rightarrow> int set" where
  "versionsIn files name = {v. \<exists>f \<in> set files. versionOf f = Some (name, v)}"

lemma versionsIn_snoc:
  "versionsIn (files @ [f]) name = versionsIn files name \<union> {v. versionOf f = Some (name, v)}"
  by (auto simp: versionsIn_def)

lemma finite_versionsIn: "finite (versionsIn files name)"
proof -
  have "versionsIn files name \<subseteq> (snd \<circ> the \<circ> versionOf) ` set files" by (force simp: versionsIn_def)
  then show ?thesis by (rule finite_subset) simp
qed

text \<open>A round of the version monitor enters for every name the largest version number among the
  directory's files of that name, in whatever order the files are visited, and no entry for a name
  without versions.\<close>

theorem versions_max:
  "scanVersions files name = (if versionsIn files name = {} then None else Some (Max (versionsIn files name)))"
proof (induction files rule: rev_induct)
  case Nil
  then show ?case by (simp add: scanVersions_def versionsIn_def)
next
  case (snoc f files)
  have s: "scanVersions (files @ [f]) = addVersion (scanVersions files) f" by (simp add: scanVersions_def)
  show ?case
  proof (cases "\<exists>v. versionOf f = Some (name, v)")
    case True
    then obtain v where v: "versionOf f = Some (name, v)" by blast
    then have i: "versionsIn (files @ [f]) name = insert v (versionsIn files name)" by (auto simp: versionsIn_snoc)
    show ?thesis
    proof (cases "versionsIn files name = {}")
      case True
      then show ?thesis using snoc by (simp add: s addVersion_def v i)
    next
      case False
      then have "Max (insert v (versionsIn files name)) = max v (Max (versionsIn files name))"
        using finite_versionsIn by (intro Max_insert)
      then show ?thesis using snoc False by (simp add: s addVersion_def v i max_def)
    qed
  next
    case False
    then have "versionsIn (files @ [f]) name = versionsIn files name" by (auto simp: versionsIn_snoc)
    moreover have "addVersion m f name = m name" for m
      using False by (auto simp: addVersion_def split: option.splits prod.splits)
    ultimately show ?thesis using snoc s by simp
  qed
qed

text \<open>The name under which a version is published is recognised.\<close>

lemma versionOf_published:
  assumes "name \<noteq> []" "- (2 ^ 63) \<le> v" "v < 2 ^ 63"
  shows "versionOf (name @ ''.v'' @ Itoa v) = Some (name, v)"
proof -
  have "CHR ''.'' \<notin> set (''v'' @ Itoa v)" by (auto simp: Itoa_def decimal_no_char)
  then have "lastIndex (name @ CHR ''.'' # (''v'' @ Itoa v)) (CHR ''.'') = int (length name)" by (rule lastIndex_append)
  then show ?thesis using assms Atoi_Itoa [OF assms(2,3)] by (simp add: versionOf_def Let_def)
qed


subsection \<open>The download\<close>

text \<open>An answer is honest if it is an error, a failed call or a piece of the file of its version, at
  the place asked for.  This is shown of \<open>UpdateFile\<close> below.\<close>

definition honest :: "(u32 \<Rightarrow> bytes) \<Rightarrow> u64 \<Rightarrow> fileContent \<Rightarrow> bool" where
  "honest pub index c \<longleftrightarrow> fcErr c \<noteq> [] \<or> c = noContent \<or>
     unat (fcTotal c) = length (pub (fcVersion c)) \<and>
     (\<exists>n. fcContent c = take n (drop (unat index) (pub (fcVersion c))))"

definition prefixDone :: "bytes \<Rightarrow> nat \<Rightarrow> bytes \<Rightarrow> bool" where
  "prefixDone f i b \<longleftrightarrow> length b = length f \<and> i \<le> length f \<and> take i b = take i f"

lemma prefixDone_full: "prefixDone f (length f) b \<Longrightarrow> b = f"
  by (metis order_refl prefixDone_def take_all_iff)

lemma prefixDone_blit:
  assumes "prefixDone f i b" "c = take n (drop i f)"
  shows "prefixDone f (i + length c) (blit i c b)"
proof -
  have l: "length b = length f" "i \<le> length f" "take i b = take i f" using assms(1) by (auto simp: prefixDone_def)
  have c: "length c \<le> length f - i" using assms(2) by simp
  have "take (i + length c) (blit i c b) = take i b @ c" using l c by (simp add: blit_def Let_def)
  also have "take (length c) (drop i f) = c" using assms(2) by (cases "n \<le> length f - i") simp_all
  then have "take i b @ c = take i f @ take (length c) (drop i f)" using l(3) by simp
  also have "\<dots> = take (i + length c) f" by (simp add: take_add)
  finally show ?thesis using l c by (simp add: prefixDone_def)
qed

lemma fetchLoop_prefix:
  assumes "\<forall>k i. honest pub i (ask k name i)" "unat (fcTotal info) = length (pub (fcVersion info))"
    "prefixDone (pub (fcVersion info)) fileIdx fileBuf"
  shows "case fetchLoop ask name info k fileIdx fileBuf of (i, b) \<Rightarrow> prefixDone (pub (fcVersion info)) i b"
  using assms
proof (induction ask name info k fileIdx fileBuf rule: fetchLoop.induct)
  case (1 ask name info k i b)
  let ?c = "ask k name (of_nat i)" and ?f = "pub (fcVersion info)"
  show ?case
  proof (cases "i < unat (fcTotal info) \<and> fcErr ?c = [] \<and> fcName ?c = name \<and> fcTotal ?c = fcTotal info \<and>
      fcVersion ?c = fcVersion info \<and> fcContent ?c \<noteq> []")
    case False
    then have "fetchLoop ask name info k i b = (i, b)" by (subst fetchLoop.simps) (auto simp: Let_def)
    then show ?thesis using "1.prems"(3) by simp
  next
    case True
    have "unat (of_nat i :: u64) = i"
      using True unsigned_less [of "fcTotal info", where ?'a = nat] by (simp add: unat_of_nat take_bit_nat_eq_self)
    with "1.prems"(1) True obtain n where "fcContent ?c = take n (drop i ?f)"
      by (fastforce simp: honest_def noContent_def)
    then have p: "prefixDone ?f (i + length (fcContent ?c)) (blit i (fcContent ?c) b)"
      using prefixDone_blit [OF "1.prems"(3)] by blast
    have "fetchLoop ask name info k i b = fetchLoop ask name info (Suc k) (i + length (fcContent ?c)) (blit i (fcContent ?c) b)"
      using True by (subst fetchLoop.simps) (simp add: Let_def)
    with "1.IH" [OF _ refl] True p "1.prems" show ?thesis by simp
  qed
qed

text \<open>From honest answers the client puts together the file of one version.\<close>

lemma getRemoteFile_first:
  "getRemoteFile ask name = Ret (Some buf) \<Longrightarrow> fcErr (ask 0 name 0) = [] \<and> 0 < unat (fcTotal (ask 0 name 0))"
  by (auto simp: getRemoteFile_def Let_def split: if_splits)

lemma honest_download:
  assumes "\<forall>k i. honest pub i (ask k name i)" "getRemoteFile ask name = Ret (Some buf)"
  shows "buf = pub (fcVersion (ask 0 name 0))"
proof -
  let ?info = "ask 0 name 0"
  let ?f = "pub (fcVersion ?info)"
  from getRemoteFile_first [OF assms(2)] have e: "fcErr ?info = []" "0 < unat (fcTotal ?info)" by auto
  then have "?info \<noteq> noContent" by (auto simp: noContent_def)
  with assms(1) [rule_format, of 0 0] e obtain n where h: "unat (fcTotal ?info) = length ?f" "fcContent ?info = take n ?f"
    by (auto simp: honest_def)
  have "prefixDone ?f 0 (replicate (length ?f) 0)" by (simp add: prefixDone_def)
  from prefixDone_blit [OF this, of "fcContent ?info" n] h(2)
  have p: "prefixDone ?f (length (fcContent ?info)) (blit 0 (fcContent ?info) (replicate (length ?f) 0))" by simp
  obtain i b where l: "fetchLoop ask name ?info 1 (length (fcContent ?info)) (blit 0 (fcContent ?info) (replicate (length ?f) 0)) = (i, b)"
    by fastforce
  from fetchLoop_prefix [where pub = pub and ask = "ask" and name = "name" and info = "ask 0 name 0" and k = 1, OF assms(1)] h(1) p l
  have "prefixDone ?f i b" by fastforce
  moreover have "i = length ?f" "buf = b"
    using assms(2) e(1) l h(1) by (auto simp: getRemoteFile_def Let_def split: if_splits)
  ultimately show ?thesis using prefixDone_full by blast
qed

lemma UpdateFile_piece:
  assumes "getLastedFile verMap name = (v, n)" "fs n = Some f" "i < length f" "length f \<le> maxAlloc"
  shows "UpdateFile errText verMap fs name (of_nat i) =
    \<lparr>fcName = name, fcVersion = word_of_int v, fcIndex = of_nat i, fcTotal = of_nat (length f),
     fcContent = take serveSize (drop i f), fcErr = []\<rparr>"
proof -
  have u: "unat (of_nat i :: u64) = i" using assms(3,4) by (simp add: unat_of_nat take_bit_nat_eq_self maxAlloc_def)
  have "int i < 2 ^ 48" using assms(3,4) by (simp add: maxAlloc_def)
  then have "wrap64 (int i) = int i" by (intro wrap64_id) auto
  then have "sint (of_nat i :: u64) = int i" by (simp add: wrap64_def)
  moreover have "take serveSize (drop i f) \<noteq> []" using assms(3) by (simp add: serveSize_def)
  ultimately show ?thesis using assms(1,2) u by (simp add: UpdateFile_def)
qed

lemma fetchLoop_complete:
  assumes "getLastedFile verMap name = (v, n)" "fs n = Some f" "length f \<le> maxAlloc"
    "fcTotal info = of_nat (length f)" "fcVersion info = word_of_int v" "fileIdx \<le> length f"
  shows "fst (fetchLoop (\<lambda>k. UpdateFile errText verMap fs) name info k fileIdx b) = length f"
  using assms
proof (induction "\<lambda>k :: nat. UpdateFile errText verMap fs" name info k fileIdx b rule: fetchLoop.induct)
  case (1 name info k i b)
  have t: "unat (fcTotal info) = length f"
    using "1.prems"(3,4) by (simp add: unat_of_nat take_bit_nat_eq_self maxAlloc_def)
  show ?case
  proof (cases "i < length f")
    case False
    then show ?thesis using "1.prems"(6) t by (subst fetchLoop.simps) simp
  next
    case True
    note u = UpdateFile_piece [where fs = fs and errText = errText, OF "1.prems"(1,2) True "1.prems"(3)]
    let ?c = "take serveSize (drop i f)"
    have c: "?c \<noteq> []" "i + length ?c \<le> length f" using True by (simp_all add: serveSize_def)
    have "fetchLoop (\<lambda>k. UpdateFile errText verMap fs) name info k i b =
        fetchLoop (\<lambda>k. UpdateFile errText verMap fs) name info (Suc k) (i + length ?c) (blit i ?c b)"
      using True t c(1) u "1.prems"(4,5) by (subst fetchLoop.simps) (simp add: Let_def)
    with "1.hyps" [OF _ refl] True t u c "1.prems" show ?thesis by simp
  qed
qed

lemma UpdateFile_honest:
  assumes "getLastedFile verMap name = (v, n)" "\<And>f. fs n = Some f \<Longrightarrow> pub (word_of_int v) = f \<and> length f \<le> maxAlloc"
  shows "honest pub i (UpdateFile errText verMap fs name i)"
proof (cases "fs n")
  case None
  then show ?thesis using assms(1) by (simp add: honest_def UpdateFile_def)
next
  case (Some f)
  with assms(2) have p: "pub (word_of_int v) = f" and "length f \<le> maxAlloc" by auto
  then have t: "unat (of_nat (length f) :: u64) = length f" by (simp add: unat_of_nat take_bit_nat_eq_self maxAlloc_def)
  show ?thesis
  proof (cases "sint i < 0 \<or> take serveSize (drop (unat i) f) = []")
    case True
    then show ?thesis using assms(1) Some by (auto simp: honest_def UpdateFile_def Let_def)
  next
    case False
    then show ?thesis using assms(1) Some p t by (auto simp: honest_def UpdateFile_def Let_def)
  qed
qed

text \<open>While nothing changes on the server and every call succeeds, the file is downloaded completely, in
  as many pieces as it takes.\<close>

lemma download_complete:
  assumes g: "getLastedFile verMap name = (v, n)" and "fs n = Some f" "f \<noteq> []" "length f \<le> maxAlloc"
  shows "getRemoteFile (\<lambda>k. UpdateFile errText verMap fs) name = Ret (Some f)"
proof -
  let ?ask = "\<lambda>k :: nat. UpdateFile errText verMap fs"
  have pos: "0 < length f" using assms(3) by simp
  define info where "info = UpdateFile errText verMap fs name 0"
  have i: "info = \<lparr>fcName = name, fcVersion = word_of_int v, fcIndex = 0, fcTotal = of_nat (length f),
     fcContent = take serveSize f, fcErr = []\<rparr>"
    using UpdateFile_piece [where fs = fs and errText = errText, OF g assms(2) pos assms(4)] by (simp add: info_def)
  have t: "unat (of_nat (length f) :: u64) = length f" using assms(4) by (simp add: unat_of_nat take_bit_nat_eq_self maxAlloc_def)
  obtain k b where l: "fetchLoop ?ask name info 1 (length (fcContent info)) (blit 0 (fcContent info) (replicate (length f) 0)) = (k, b)"
    by fastforce
  moreover have "fst (fetchLoop ?ask name info 1 (length (fcContent info)) (blit 0 (fcContent info) (replicate (length f) 0))) = length f"
    using g assms(2,4) by (intro fetchLoop_complete) (simp_all add: i)
  ultimately have "getRemoteFile ?ask name = Ret (Some b)"
    using assms(4) pos t unfolding getRemoteFile_def info_def [symmetric] by (simp add: Let_def i)
  moreover have "\<forall>k j. honest (\<lambda>_. f) j (?ask k name j)"
    by (intro allI UpdateFile_honest [OF g]) (use assms(2,4) in auto)
  ultimately show ?thesis using honest_download [where pub = "\<lambda>_. f" and ask = ?ask and name = name] by blast
qed

text \<open>The file that a scan makes current: the newest version, or the plain file if there is none.\<close>

definition newestName :: "string list \<Rightarrow> string \<Rightarrow> string" where
  "newestName files name =
     (if versionsIn files name = {} then name else name @ ''.v'' @ Itoa (Max (versionsIn files name)))"

lemma getLasted_scan:
  "getLastedFile (scanVersions files) name =
     (if versionsIn files name = {} then 0 else Max (versionsIn files name), newestName files name)"
  by (simp add: getLastedFile_def versions_max newestName_def)

lemma version_word: "1 \<le> v \<Longrightarrow> v < 2 ^ 32 \<Longrightarrow> uint (word_of_int v :: u32) = v \<and> (word_of_int v :: u32) \<noteq> 0"
proof -
  assume "1 \<le> v" "v < 2 ^ 32"
  then have "uint (word_of_int v :: u32) = v" by (simp add: uint_word_of_int_eq take_bit_int_eq_self)
  with \<open>1 \<le> v\<close> show ?thesis by auto
qed

text \<open>The file that a version number of an answer stands for.\<close>

definition versionFile :: "string \<Rightarrow> u32 \<Rightarrow> string" where
  "versionFile name v = (if v = 0 then name else name @ ''.v'' @ Itoa (uint v))"

lemma versionFile_newest:
  assumes "versionsIn files name \<subseteq> {1..<2 ^ 32}"
  shows "versionFile name (word_of_int (if versionsIn files name = {} then 0 else Max (versionsIn files name))) = newestName files name"
proof (cases "versionsIn files name = {}")
  case False
  then have "Max (versionsIn files name) \<in> versionsIn files name" using finite_versionsIn by (rule Max_in [rotated])
  then have "1 \<le> Max (versionsIn files name)" "Max (versionsIn files name) < 2 ^ 32" using assms by auto
  with version_word False show ?thesis by (simp add: newestName_def versionFile_def)
qed (simp add: newestName_def versionFile_def)

text \<open>The server's answers are honest if files do not change once they are there and versions are
  numbered from 1.\<close>

lemma call_honest:
  assumes "\<forall>k n c. fs k n = Some c \<longrightarrow> c = pub n \<and> length c \<le> maxAlloc"
    and "\<forall>k. versionsIn (dir k) name \<subseteq> {1..<2 ^ 32}"
  shows "honest (\<lambda>v. pub (versionFile name v)) i (callUpdateFile errText ok dir fs k name i)"
proof (cases "ok k")
  case True
  have "honest (\<lambda>v. pub (versionFile name v)) i (UpdateFile errText (scanVersions (dir k)) (fs k) name i)"
    using assms(1) versionFile_newest [OF assms(2) [rule_format]] by (intro UpdateFile_honest [OF getLasted_scan]) simp
  with True show ?thesis by (simp add: callUpdateFile_def)
qed (simp add: callUpdateFile_def honest_def)

lemma call_total:
  assumes "\<forall>k n c. fs k n = Some c \<longrightarrow> c = pub n \<and> length c \<le> maxAlloc"
  shows "unat (fcTotal (callUpdateFile errText ok dir fs k name i)) \<le> maxAlloc"
proof -
  have "unat (of_nat (length f) :: u64) \<le> maxAlloc" if "fs k n = Some f" for n f
  proof -
    have "length f \<le> maxAlloc" using assms that by blast
    then show ?thesis by (simp add: unat_of_nat take_bit_nat_eq_self maxAlloc_def)
  qed
  then show ?thesis
    by (cases "ok k"; cases "getLastedFile (scanVersions (dir k)) name")
      (auto simp: callUpdateFile_def UpdateFile_def noContent_def Let_def split: option.split)
qed

lemma getRemoteFile_returns:
  assumes "fcErr (ask 0 name 0) = [] \<Longrightarrow> unat (fcTotal (ask 0 name 0)) \<le> maxAlloc"
  shows "\<exists>r. getRemoteFile ask name = Ret r"
  using assms by (auto simp: getRemoteFile_def Let_def split: prod.splits)

text \<open>C18: A download never mixes versions.  Let the directory of the server, what its version monitor has
  seen, and the success of the calls change in any way between the remote calls of one download,
  except that a file is not rewritten once it is there and that versions are numbered from 1 to
  \<open>2\<^sup>3\<^sup>2 - 1\<close>.  Then the client and the server's \<open>UpdateFile\<close> together give nothing or exactly the
  whole file that was current at the first call: the largest version of the name, or the plain file
  if it has no versions.  If nothing changes and every call succeeds, they give that file, unless it
  is empty.\<close>

theorem download_not_mixed:
  assumes "\<forall>k n c. fs k n = Some c \<longrightarrow> c = pub n \<and> length c \<le> maxAlloc"
    and "\<forall>k. versionsIn (dir k) name \<subseteq> {1..<2 ^ 32}"
  defines "file \<equiv> newestName (dir 0) name"
  shows "getRemoteFile (callUpdateFile errText ok dir fs) name \<in> {Ret None, Ret (Some (pub file))} \<and>
    ((\<forall>k. ok k \<and> dir k = dir 0 \<and> fs k = fs 0) \<and> fs 0 file = Some (pub file) \<and> pub file \<noteq> [] \<longrightarrow>
      getRemoteFile (callUpdateFile errText ok dir fs) name = Ret (Some (pub file)))"
proof -
  let ?ask = "callUpdateFile errText ok dir fs"
  have h: "\<forall>k i. honest (\<lambda>v. pub (versionFile name v)) i (?ask k name i)" using call_honest [OF assms(1,2)] by blast
  have current: "buf = pub file" if "getRemoteFile ?ask name = Ret (Some buf)" for buf
  proof -
    note first = getRemoteFile_first [OF that]
    then have "ok 0" by (cases "ok 0") (simp_all add: callUpdateFile_def noContent_def)
    with first have "fcVersion (?ask 0 name 0) =
        word_of_int (if versionsIn (dir 0) name = {} then 0 else Max (versionsIn (dir 0) name))"
      by (auto simp: callUpdateFile_def UpdateFile_def getLasted_scan Let_def split: option.splits if_splits)
    then show ?thesis
      using honest_download [OF h that] versionFile_newest [OF assms(2) [rule_format]] by (simp add: file_def)
  qed
  have "getRemoteFile ?ask name = Ret (Some (pub file))"
    if c: "\<forall>k. ok k \<and> dir k = dir 0 \<and> fs k = fs 0" and f: "fs 0 file = Some (pub file)" "pub file \<noteq> []"
  proof -
    have "?ask = (\<lambda>k. UpdateFile errText (scanVersions (dir 0)) (fs 0))"
      using c by (intro ext) (simp add: callUpdateFile_def, metis)
    moreover have "length (pub file) \<le> maxAlloc" using assms(1) f(1) by blast
    ultimately show ?thesis using download_complete [where fs = "fs 0" and errText = errText, OF getLasted_scan [of "dir 0" name]] f
      by (simp add: file_def)
  qed
  moreover have "\<exists>r. getRemoteFile ?ask name = Ret r"
  proof (rule getRemoteFile_returns)
    assume "fcErr (?ask 0 name 0) = []"
    then show "unat (fcTotal (?ask 0 name 0)) \<le> maxAlloc"
      using call_total [OF assms(1)] by blast
  qed
  then have "getRemoteFile ?ask name \<in> {Ret None, Ret (Some (pub file))}"
    using current by (metis insertCI option.exhaust)
  ultimately show ?thesis by blast
qed

definition demo_pub :: "string \<Rightarrow> bytes" where
  "demo_pub n = (if n = ''app.v12'' then [1, 2, 3] else [])"

definition demo_files :: "nat \<Rightarrow> string \<rightharpoonup> bytes" where
  "demo_files k = [''app.v12'' \<mapsto> [1, 2, 3]]"

lemma demo_versions: "versionsIn [''app.v1'', ''app.v12'', ''app.v9'', ''x''] ''app'' = {1, 12, 9}"
proof -
  have "versionOf ''app.v1'' = Some (''app'', 1)" "versionOf ''app.v12'' = Some (''app'', 12)"
    "versionOf ''app.v9'' = Some (''app'', 9)" "versionOf ''x'' = None"
    by (simp_all add: versionOf_def lastIndex_def Atoi_def parseUint10_def Let_def)
  then show ?thesis by (auto simp: versionsIn_def)
qed

theorem download_not_mixed_witness:
  "getRemoteFile (callUpdateFile (\<lambda>_. ''e'') (\<lambda>_. True) (\<lambda>_. [''app.v1'', ''app.v12'', ''app.v9'', ''x''])
     demo_files) ''app'' = Ret (Some [1, 2, 3])"
proof -
  have "char_of (49 :: nat) = CHR ''1''" "char_of (50 :: nat) = CHR ''2''" by (simp_all add: char_of_eq_iff)
  then have "Itoa 12 = ''12''" by (simp add: Itoa_def decimal.simps)
  then have n: "newestName [''app.v1'', ''app.v12'', ''app.v9'', ''x''] ''app'' = ''app.v12''"
    by (simp add: newestName_def demo_versions)
  have f: "\<forall>k n c. demo_files k n = Some c \<longrightarrow> c = demo_pub n \<and> length c \<le> maxAlloc"
    by (auto simp: demo_files_def demo_pub_def maxAlloc_def split: if_splits)
  have "demo_files k = demo_files 0" "demo_files k ''app.v12'' = Some [1, 2, 3]" for k by (simp_all add: demo_files_def)
  with download_not_mixed [OF f, of "\<lambda>_. [''app.v1'', ''app.v12'', ''app.v9'', ''x'']" "''app''" "\<lambda>_. ''e''" "\<lambda>_. True"]
  show ?thesis by (simp add: demo_versions n demo_pub_def)
qed

text \<open>Version 0 is an exception: the plain file and a file \<open>name.v0\<close> are both announced as version 0, so
  that a download during which the second one appears mixes them, if they have the same length.\<close>

lemma download_mixes_v0:
  assumes "length g = length f" "serveSize < length f" "length f \<le> 2 * serveSize"
  shows "getRemoteFile (callUpdateFile errText (\<lambda>_. True) (\<lambda>k. if k = 0 then [] else [''a.v0''])
      (\<lambda>_. [''a'' \<mapsto> f, ''a.v0'' \<mapsto> g])) ''a'' = Ret (Some (take serveSize f @ drop serveSize g))"
proof -
  let ?fs = "[''a'' \<mapsto> f, ''a.v0'' \<mapsto> g]"
  let ?ask = "callUpdateFile errText (\<lambda>_. True) (\<lambda>k. if k = 0 then [] else [''a.v0'']) (\<lambda>_. ?fs)"
  have max: "length f \<le> maxAlloc" using assms(3) by (simp add: serveSize_def maxAlloc_def)
  have t: "unat (of_nat (length f) :: u64) = length f" using max by (simp add: unat_of_nat take_bit_nat_eq_self maxAlloc_def)
  have "versionOf ''a.v0'' = Some (''a'', 0)" by (simp add: versionOf_def lastIndex_def Atoi_def parseUint10_def Let_def)
  moreover have "Itoa 0 = ''0''" by (simp add: Itoa_def decimal.simps char_of_eq_iff)
  ultimately have v: "getLastedFile (scanVersions []) ''a'' = (0, ''a'')" "getLastedFile (scanVersions [''a.v0'']) ''a'' = (0, ''a.v0'')"
    by (simp_all add: scanVersions_def addVersion_def getLastedFile_def)
  have pos: "0 < length f" using assms(2) by linarith
  let ?info = "?ask 0 ''a'' 0"
  have i: "?info = \<lparr>fcName = ''a'', fcVersion = 0, fcIndex = 0, fcTotal = of_nat (length f),
      fcContent = take serveSize f, fcErr = []\<rparr>"
    using UpdateFile_piece [where fs = ?fs and errText = errText and f = f, OF v(1) _ pos max] by (simp add: callUpdateFile_def)
  have c: "?ask 1 ''a'' (of_nat serveSize) = \<lparr>fcName = ''a'', fcVersion = 0, fcIndex = of_nat serveSize,
      fcTotal = of_nat (length f), fcContent = drop serveSize g, fcErr = []\<rparr>"
    using UpdateFile_piece [where fs = ?fs and errText = errText and f = g and i = serveSize, OF v(2)] assms max
    by (simp add: callUpdateFile_def)
  have b: "blit 0 (take serveSize f) (replicate (length f) 0) = take serveSize f @ replicate (length f - serveSize) 0"
    using assms(2) by (simp add: blit_def min_def)
  have e: "blit serveSize (drop serveSize g) (take serveSize f @ replicate (length f - serveSize) 0) = take serveSize f @ drop serveSize g"
    using assms(1,2) by (simp add: blit_def min_def)
  have "fetchLoop ?ask ''a'' ?info 1 serveSize (take serveSize f @ replicate (length f - serveSize) 0) =
      (length f, take serveSize f @ drop serveSize g)"
    using assms(1,2) c e t by (subst fetchLoop.simps) (simp add: i Let_def fetchLoop.simps [of _ _ _ _ "length f"])
  with i b t pos max assms(2) show ?thesis by (simp add: getRemoteFile_def Let_def min_def)
qed

lemma swapBinary_laws:
  assumes "fs (bin @ ''.new'') = Some new" "fs bin = Some old"
  shows "fst (swapBinary True True bin fs) bin = Some new" "fst (swapBinary False m bin fs) = fs"
    "fst (swapBinary True False bin fs) bin = None"
  using assms by (auto simp: swapBinary_def)

end
