(* ===== verification/Stutil.thy ===== *)
theory Stutil
  imports Spb_Wire Gotext "HOL-Library.Multiset"
begin

text \<open>
  Helpers of \<^verbatim>\<open>src/stutil\<close>: numbers and byte strings in a buffer (\<^verbatim>\<open>encode.go\<close>,
  \<^verbatim>\<open>unsafe.go\<close>), texts of key-value pairs (\<^verbatim>\<open>string.go\<close>), sorting of maps
  (\<^verbatim>\<open>sort.go\<close>) and running a function in parallel (\<^verbatim>\<open>lock.go\<close>).

  A function that writes into its argument returns the buffer.  A panic in the middle of writing
  loses the buffer here, while in Go the bytes written so far stay in it.
\<close>

subsection \<open>Numbers of fixed width\<close>

text \<open>The readers and writers of \<open>n\<close> bytes, least significant first, of which the code has one
  copy for each width.\<close>

definition readLE :: "nat \<Rightarrow> bytes \<Rightarrow> 'a::len word go" where
  "readLE n b = (if length b < n then Panic else Ret (le_word (take n b)))"

definition writeLE :: "nat \<Rightarrow> bytes \<Rightarrow> 'a::len word \<Rightarrow> bytes go" where
  "writeLE n b x = (if length b < n then Panic else Ret (blit 0 (le_bytes n x) b))"

definition RUint16 :: "bytes \<Rightarrow> u16 go" where "RUint16 b = readLE 2 b"
definition WUint16 :: "bytes \<Rightarrow> u16 \<Rightarrow> bytes go" where "WUint16 b x = writeLE 2 b x"
definition RInt16 :: "bytes \<Rightarrow> int go" where "RInt16 b = go_map sint (RUint16 b)"
definition WInt16 :: "bytes \<Rightarrow> int \<Rightarrow> bytes go" where "WInt16 b x = WUint16 b (word_of_int x)"
definition RUint32 :: "bytes \<Rightarrow> u32 go" where "RUint32 b = readLE 4 b"
definition WUint32 :: "bytes \<Rightarrow> u32 \<Rightarrow> bytes go" where "WUint32 b x = writeLE 4 b x"
definition RInt32 :: "bytes \<Rightarrow> int go" where "RInt32 b = go_map sint (RUint32 b)"
definition WInt32 :: "bytes \<Rightarrow> int \<Rightarrow> bytes go" where "WInt32 b x = WUint32 b (word_of_int x)"
definition RUint64 :: "bytes \<Rightarrow> u64 go" where "RUint64 b = readLE 8 b"
definition WUint64 :: "bytes \<Rightarrow> u64 \<Rightarrow> bytes go" where "WUint64 b x = writeLE 8 b x"
definition RInt64 :: "bytes \<Rightarrow> int go" where "RInt64 b = go_map sint (RUint64 b)"
definition WInt64 :: "bytes \<Rightarrow> int \<Rightarrow> bytes go" where "WInt64 b x = WUint64 b (word_of_int x)"

text \<open>A float is the word of its bits.\<close>

definition RFloat32 :: "bytes \<Rightarrow> u32 go" where "RFloat32 b = RUint32 b"
definition WFloat32 :: "bytes \<Rightarrow> u32 \<Rightarrow> bytes go" where "WFloat32 b x = WUint32 b x"
definition RFloat64 :: "bytes \<Rightarrow> u64 go" where "RFloat64 b = RUint64 b"
definition WFloat64 :: "bytes \<Rightarrow> u64 \<Rightarrow> bytes go" where "WFloat64 b x = WUint64 b x"

definition EncodeFixed32 :: "bytes \<Rightarrow> u32 \<Rightarrow> bytes go" where "EncodeFixed32 b x = writeLE 4 b x"
definition DecodeFixed32 :: "bytes \<Rightarrow> u32 go" where "DecodeFixed32 b = readLE 4 b"


subsection \<open>Numbers of variable width\<close>

text \<open>The loop of \<open>EncodeVarint\<close> and \<open>RVarint\<close> (which writes, in spite of its name); \<open>None\<close> when the
  buffer is too short.\<close>

function encodeLoop :: "bytes \<Rightarrow> nat \<Rightarrow> u64 \<Rightarrow> (bytes \<times> nat) option" where
  "encodeLoop b n x =
     (if x > 127 then
        if n \<ge> length b then None else encodeLoop (b[n := 0x80 OR ucast (x AND 0x7F)]) (Suc n) (drop_bit 7 x)
      else if n \<ge> length b then None else Some (b[n := ucast x], Suc n))"
  by pat_completeness auto
termination
  by (relation "measure (\<lambda>(b, n, x). unat x)") (auto intro!: drop_bit_7_less simp: word_less_nat_alt word_le_nat_alt)

declare encodeLoop.simps [simp del]

definition EncodeVarint :: "bytes \<Rightarrow> u64 \<Rightarrow> (bytes \<times> nat) go" where
  "EncodeVarint b x = (case encodeLoop b 0 x of Some r \<Rightarrow> Ret r | None \<Rightarrow> Panic)"

definition RVarint :: "bytes \<Rightarrow> u64 \<Rightarrow> (bytes \<times> nat) option" where
  "RVarint b x = encodeLoop b 0 x"

function decodeLoop :: "bytes \<Rightarrow> nat \<Rightarrow> nat \<Rightarrow> u64 \<Rightarrow> (u64 \<times> nat) option" where
  "decodeLoop b n shift x =
     (if shift < 64 then
        if n \<ge> length b then None
        else let c = (ucast (b ! n) :: u64); x' = x OR push_bit shift (c AND 0x7F) in
          if c AND 0x80 = 0 then Some (x', Suc n) else decodeLoop b (Suc n) (shift + 7) x'
      else None)"
  by pat_completeness auto
termination
  by (relation "measure (\<lambda>(b, n, shift, x). 64 - shift)") auto

declare decodeLoop.simps [simp del]

definition DecodeVarint :: "bytes \<Rightarrow> (u64 \<times> nat) go" where
  "DecodeVarint b = (case decodeLoop b 0 0 0 of Some r \<Rightarrow> Ret r | None \<Rightarrow> Panic)"

definition WVarint :: "bytes \<Rightarrow> (u64 \<times> nat) option" where
  "WVarint b = decodeLoop b 0 0 0"

definition EncodeRawBytes :: "bytes \<Rightarrow> bytes \<Rightarrow> (bytes \<times> nat) go" where
  "EncodeRawBytes b s =
     go_bind (EncodeVarint b (of_nat (length s)))
       (\<lambda>(b1, n). if n + length s \<ge> length b1 then Panic else Ret (blit n s b1, n + length s))"

text \<open>Without \<open>alloc\<close> the result is a part of the buffer, with it a copy.\<close>

definition DecodeRawBytes :: "bytes \<Rightarrow> bool \<Rightarrow> (bytes \<times> int) go" where
  "DecodeRawBytes b alloc =
     go_bind (DecodeVarint b)
       (\<lambda>(x, n). let nb = sint x; allocLen = wrap64 (nb + int n) in
          if nb < 0 then Panic
          else if allocLen > int (length b) then Panic
          else if allocLen < int n then Panic
          else if \<not> alloc then Ret (subseg n (nat allocLen) b, allocLen)
          else Ret (blit 0 (subseg n (nat allocLen) b) (replicate (nat nb) 0), allocLen))"


subsection \<open>Texts\<close>

fun kvPairs :: "string \<Rightarrow> string list \<Rightarrow> (string \<rightharpoonup> string) \<Rightarrow> (string \<rightharpoonup> string)" where
  "kvPairs sep1 [] mp = mp"
| "kvPairs sep1 (v # sl) mp =
     (let km = textSplit v sep1 in if length km \<noteq> 2 then mp else kvPairs sep1 sl (mp(km ! 0 \<mapsto> km ! 1)))"

definition StringToKVMap :: "string \<Rightarrow> string \<Rightarrow> string \<Rightarrow> (string \<rightharpoonup> string)" where
  "StringToKVMap s sep1 sep2 = kvPairs sep1 (textSplit s sep2) Map.empty"

definition IntToString :: "int \<Rightarrow> string" where
  "IntToString i = Itoa i"

definition UintToString :: "u64 \<Rightarrow> string" where
  "UintToString i = decimal (unat i)"


subsection \<open>Sorting a map\<close>

fun bytesLess :: "bytes \<Rightarrow> bytes \<Rightarrow> bool" where
  "bytesLess [] ys = (ys \<noteq> [])"
| "bytesLess (x # xs) [] = False"
| "bytesLess (x # xs) (y # ys) = (x < y \<or> x = y \<and> bytesLess xs ys)"

text \<open>\<open>less\<close> on values of the same type; the order of floats is an argument.  The values are those of the
  predeclared types: for a named type of a basic kind the type assertion in \<open>less\<close> would panic.\<close>

definition less :: "(u32 \<Rightarrow> u32 \<Rightarrow> bool) \<Rightarrow> (u64 \<Rightarrow> u64 \<Rightarrow> bool) \<Rightarrow> goval \<Rightarrow> goval \<Rightarrow> bool" where
  "less f32 f64 a b =
     (case a of
        VInt x \<Rightarrow> (case b of VInt y \<Rightarrow> sint x < sint y | _ \<Rightarrow> False)
      | VInt8 x \<Rightarrow> (case b of VInt8 y \<Rightarrow> sint x < sint y | _ \<Rightarrow> False)
      | VInt16 x \<Rightarrow> (case b of VInt16 y \<Rightarrow> sint x < sint y | _ \<Rightarrow> False)
      | VInt32 x \<Rightarrow> (case b of VInt32 y \<Rightarrow> sint x < sint y | _ \<Rightarrow> False)
      | VInt64 x \<Rightarrow> (case b of VInt64 y \<Rightarrow> sint x < sint y | _ \<Rightarrow> False)
      | VUint x \<Rightarrow> (case b of VUint y \<Rightarrow> x < y | _ \<Rightarrow> False)
      | VUint8 x \<Rightarrow> (case b of VUint8 y \<Rightarrow> x < y | _ \<Rightarrow> False)
      | VUint16 x \<Rightarrow> (case b of VUint16 y \<Rightarrow> x < y | _ \<Rightarrow> False)
      | VUint32 x \<Rightarrow> (case b of VUint32 y \<Rightarrow> x < y | _ \<Rightarrow> False)
      | VUint64 x \<Rightarrow> (case b of VUint64 y \<Rightarrow> x < y | _ \<Rightarrow> False)
      | VFloat32 x \<Rightarrow> (case b of VFloat32 y \<Rightarrow> f32 x y | _ \<Rightarrow> False)
      | VFloat64 x \<Rightarrow> (case b of VFloat64 y \<Rightarrow> f64 x y | _ \<Rightarrow> False)
      | VString x \<Rightarrow> (case b of VString y \<Rightarrow> bytesLess x y | _ \<Rightarrow> False)
      | _ \<Rightarrow> False)"

text \<open>The loop that reverses the result.\<close>

function reverseLoop :: "nat \<Rightarrow> nat \<Rightarrow> 'a list \<Rightarrow> 'a list" where
  "reverseLoop i j res =
     (if i < j then reverseLoop (i + 1) (j - 1) (res[i := res ! j, j := res ! i]) else res)"
  by pat_completeness auto
termination
  by (relation "measure (\<lambda>(i, j, r). j - i)") auto

declare reverseLoop.simps [simp del]

text \<open>\<open>SortMap\<close> on a value that may be no map; the algorithm of \<open>sort.Sort\<close> is an argument, which is
  given \<open>Less\<close> as a function of two elements.\<close>

type_synonym sorter = "((goval \<times> goval) \<Rightarrow> (goval \<times> goval) \<Rightarrow> bool) \<Rightarrow> (goval \<times> goval) list \<Rightarrow> (goval \<times> goval) list"

definition SortMap ::
  "sorter \<Rightarrow> (goval \<Rightarrow> goval \<Rightarrow> bool) \<Rightarrow> goval \<Rightarrow> bool \<Rightarrow> bool \<Rightarrow> (goval \<times> goval) list" where
  "SortMap sortSort ls mp byKey isDesc =
     (case mp of
        VMap k t entries \<Rightarrow>
          let res = sortSort (if byKey then (\<lambda>a b. ls (fst a) (fst b)) else (\<lambda>a b. ls (snd a) (snd b))) entries
          in if isDesc then reverseLoop 0 (length res - 1) res else res
      | _ \<Rightarrow> [])"


subsection \<open>Parallel runs\<close>

text \<open>\<open>LockWaitGroup\<close>: the goroutines store their results in the order \<open>ord\<close> in which they finish.\<close>

definition LockWaitGroup :: "int \<Rightarrow> (nat \<Rightarrow> int) \<Rightarrow> nat list \<Rightarrow> int list go" where
  "LockWaitGroup num f ord =
     (if num < 0 then Panic else Ret (foldl (\<lambda>r i. r[i := f i]) (replicate (nat num) 0) ord))"

subsection \<open>Numbers and byte strings survive\<close>

lemma fixed_roundtrip:
  assumes "n \<le> length b" "8 * n = LENGTH('a::len)"
  shows "\<exists>b'. writeLE n b (x :: 'a word) = Ret b' \<and> readLE n b' = Ret x \<and> length b' = length b \<and> drop n b' = drop n b"
proof -
  let ?b = "blit 0 (le_bytes n x) b"
  have "take n ?b = le_bytes n x" "drop n ?b = drop n b" using assms(1) by (simp_all add: blit_def Let_def)
  moreover have "take_bit (8 * n) x = x" unfolding assms(2) by (rule bit_word_eqI) (simp add: bit_simps)
  ultimately show ?thesis using assms(1) by (simp add: writeLE_def readLE_def le_word_le_bytes)
qed

lemma varint_byte: "0x80 OR ucast (x AND 0x7F) = (ucast ((x AND 0x7F) OR 0x80) :: byte)" for x :: u64
  by (rule bit_word_eqI) (auto simp: bit_simps)

lemma encodeLoop_varint:
  assumes "n \<le> length b"
  shows "encodeLoop b n x =
    (if n + length (varint x) \<le> length b then Some (take n b @ varint x @ drop (n + length (varint x)) b, n + length (varint x)) else None)"
  using assms
proof (induction x arbitrary: b n rule: varint.induct)
  case (1 x)
  show ?case
  proof (cases "x \<ge> 128")
    case False
    then have x: "\<not> 127 < x" "varint x = [ucast x]" by (simp_all add: varint.simps [of x] word_less_nat_alt word_le_nat_alt)
    then show ?thesis
      using "1.prems" by (subst encodeLoop.simps) (auto simp: upd_conv_take_nth_drop Suc_le_eq)
  next
    case True
    let ?c = "0x80 OR ucast (x AND 0x7F) :: byte"
    have x: "127 < x" "varint x = ?c # varint (drop_bit 7 x)"
      using True by (simp_all add: varint.simps [of x] varint_byte word_less_nat_alt word_le_nat_alt)
    show ?thesis
    proof (cases "n < length b")
      case False
      then show ?thesis using x "1.prems" by (subst encodeLoop.simps) simp
    next
      case n: True
      have "encodeLoop b n x = encodeLoop (b[n := ?c]) (Suc n) (drop_bit 7 x)"
        using x n by (subst encodeLoop.simps) simp
      moreover have "take (Suc n) (b[n := ?c]) = take n b @ [?c]" using n by (simp add: take_Suc_conv_app_nth)
      ultimately show ?thesis using "1.IH" [OF True, of "Suc n" "b[n := ?c]"] n x(2) by simp
    qed
  qed
qed

lemma and_0x80: "(ucast b AND 0x80 = (0 :: u64)) = (b < 0x80)" for b :: byte
proof -
  have m: "(0x80 :: u64) = 2 ^ 7" by simp
  have "(ucast b AND 0x80 = (0 :: u64)) \<longleftrightarrow> \<not> bit b 7"
    unfolding m and_exp_eq_0_iff_not_bit by (simp add: bit_simps)
  also have "bit b 7 = bit (unat b) 7" by (simp add: bit_unsigned_iff)
  also have "\<not> bit (unat b) 7 \<longleftrightarrow> unat b div 128 = 0"
    using unat_byte_less [of b] by (auto simp: bit_iff_odd less_mult_imp_div_less elim!: oddE)
  also have "\<dots> \<longleftrightarrow> b < 0x80" by (simp add: word_less_nat_alt div_eq_0_iff)
  finally show ?thesis .
qed

lemma decodeLoop_unpack:
  "decodeLoop (buf s) n shift x =
     (case unpackNumberLoop s n shift x of (s', y, None) \<Rightarrow> Some (y, index s') | _ \<Rightarrow> None)"
proof (induction "buf s" n shift x rule: decodeLoop.induct)
  case (1 n shift x)
  show ?case
  proof (cases "shift < 64 \<and> n < length (buf s)")
    case False
    then show ?thesis by (subst decodeLoop.simps, subst unpackNumberLoop.simps) auto
  next
    case True
    show ?thesis
    proof (cases "buf s ! n < 0x80")
      case True
      then show ?thesis using \<open>shift < 64 \<and> n < length (buf s)\<close>
        by (subst decodeLoop.simps, subst unpackNumberLoop.simps) (simp add: and_0x80 Let_def)
    next
      case False
      with 1 [OF _ _ refl refl] \<open>shift < 64 \<and> n < length (buf s)\<close> show ?thesis
        by (subst decodeLoop.simps, subst unpackNumberLoop.simps) (simp add: and_0x80 Let_def)
    qed
  qed
qed

lemma DecodeVarint_varint: "DecodeVarint (varint y @ rest) = Ret (y, length (varint y))"
proof -
  let ?s = "\<lparr>buf = varint y @ rest, index = 0\<rparr>"
  have "unpackNumberLoop ?s 0 0 0 = (?s\<lparr>index := length (varint y)\<rparr>, y, None)"
    using unpackNumberLoop_varint [of 0 ?s y rest 0 0] unsigned_less [of y, where ?'a = nat] by simp
  then show ?thesis using decodeLoop_unpack [of ?s 0 0 0] by (simp add: DecodeVarint_def)
qed

lemma EncodeVarint_varint:
  "EncodeVarint b x = (if length (varint x) \<le> length b then Ret (varint x @ drop (length (varint x)) b, length (varint x)) else Panic)"
  by (simp add: EncodeVarint_def encodeLoop_varint)

text \<open>C33: Byte strings survive the trip through a buffer: \<open>EncodeRawBytes\<close> returns exactly when the
  length field and the string need less than the whole buffer (one byte too many is asked for), it
  leaves the rest of the buffer alone, and \<open>DecodeRawBytes\<close> gives the string back, with and without
  a copy, and the number of bytes it took.\<close>

theorem raw_bytes_roundtrip:
  assumes "length s < 2 ^ 62"
  shows "EncodeRawBytes b s \<noteq> Diverge \<and>
    (returns (EncodeRawBytes b s) \<longleftrightarrow> length (varint (of_nat (length s))) + length s < length b) \<and>
    (\<forall>b' n. EncodeRawBytes b s = Ret (b', n) \<longrightarrow>
       n = length (varint (of_nat (length s))) + length s \<and> length b' = length b \<and> drop n b' = drop n b \<and>
       DecodeRawBytes b' alloc = Ret (s, int n))"
proof -
  let ?v = "varint (of_nat (length s) :: u64)"
  let ?n = "length ?v + length s"
  have e: "EncodeRawBytes b s = (if ?n < length b then Ret (?v @ s @ drop ?n b, ?n) else Panic)"
    by (auto simp: EncodeRawBytes_def EncodeVarint_varint blit_def Let_def add.commute)
  have l: "int (length s) < 2 ^ 62" using assms by (metis of_nat_less_iff of_nat_numeral of_nat_power)
  have sl: "sint (of_nat (length s) :: u64) = int (length s)"
    using wrap64_id [of "int (length s)"] l by (simp add: wrap64_def)
  have "length ?v \<le> 10" by (rule length_varint_10)
  then have w: "wrap64 (int (length s) + int (length ?v)) = int ?n" using l by (subst wrap64_id) auto
  have d: "DecodeRawBytes (?v @ s @ drop ?n b) alloc = Ret (s, int ?n)" if "?n < length b"
    using that w sl by (simp add: DecodeRawBytes_def DecodeVarint_varint Let_def subseg_def blit_def)
  show ?thesis using e d by (auto simp: returns_def)
qed

theorem raw_bytes_roundtrip_witness:
  "EncodeRawBytes [0, 0, 0, 0] [7, 8] = Ret ([2, 7, 8, 0], 3) \<and> DecodeRawBytes [2, 7, 8, 0] True = Ret ([7, 8], 3) \<and>
   EncodeRawBytes [0, 0, 0] [7, 8] = Panic"
proof -
  have v: "varint (of_nat (length [7, 8 :: byte])) = [2]" by (simp add: varint.simps)
  have e: "EncodeRawBytes [0, 0, 0, 0] [7, 8] = Ret ([2, 7, 8, 0], 3)"
    by (simp add: EncodeRawBytes_def EncodeVarint_varint varint.simps blit_def)
  moreover have "\<not> returns (EncodeRawBytes [0, 0, 0] [7, 8])" "EncodeRawBytes [0, 0, 0] [7, 8] \<noteq> Diverge"
    using raw_bytes_roundtrip [of "[7, 8]" "[0, 0, 0]" True] v by simp_all
  then have "EncodeRawBytes [0, 0, 0] [7, 8] = Panic" by (cases "EncodeRawBytes [0, 0, 0] [7, 8]") (auto simp: returns_def)
  ultimately show ?thesis using raw_bytes_roundtrip [of "[7, 8]" "[0, 0, 0, 0]" True] by simp
qed

subsection \<open>Sorting a map\<close>

lemma reverseLoop_nth:
  assumes "j < length xs" "k < length xs"
  shows "length (reverseLoop i j xs) = length xs \<and>
    reverseLoop i j xs ! k = (if i \<le> k \<and> k \<le> j then xs ! (i + j - k) else xs ! k)"
  using assms
proof (induction i j xs rule: reverseLoop.induct)
  case (1 i j xs)
  show ?case
  proof (cases "i < j")
    case False
    then have "i \<le> k \<Longrightarrow> k \<le> j \<Longrightarrow> i + j - k = k" by simp
    then show ?thesis using False by (subst (1 2) reverseLoop.simps) auto
  next
    case True
    let ?ys = "xs[i := xs ! j, j := xs ! i]"
    have r: "reverseLoop i j xs = reverseLoop (i + 1) (j - 1) ?ys" using True by (subst reverseLoop.simps) simp
    have ih: "length (reverseLoop (i + 1) (j - 1) ?ys) = length xs \<and> reverseLoop (i + 1) (j - 1) ?ys ! k =
        (if i + 1 \<le> k \<and> k \<le> j - 1 then ?ys ! (i + 1 + (j - 1) - k) else ?ys ! k)"
      using "1.IH" [OF True] "1.prems" by simp
    consider "k < i \<or> j < k" | "k = i" | "k = j" | "i < k" "k < j" by linarith
    then show ?thesis
    proof cases
      case 4
      then have "i + 1 \<le> k \<and> k \<le> j - 1" "i + 1 + (j - 1) - k = i + j - k" "i + j - k \<noteq> i" "i + j - k \<noteq> j" using True by auto
      then show ?thesis using ih r 4 "1.prems" True by simp
    qed (use ih r "1.prems" True in auto)
  qed
qed

lemma reverseLoop_rev: "reverseLoop 0 (length xs - 1) xs = rev xs"
proof (cases xs)
  case Nil
  then show ?thesis by (subst reverseLoop.simps) simp
next
  case (Cons a as)
  then have l: "length xs - 1 < length xs" by simp
  show ?thesis
  proof (rule nth_equalityI)
    show "length (reverseLoop 0 (length xs - 1) xs) = length (rev xs)" using reverseLoop_nth [OF l l, of 0] by simp
    fix k assume "k < length (reverseLoop 0 (length xs - 1) xs)"
    then have k: "k < length xs" using reverseLoop_nth [OF l l, of 0] by simp
    then have "0 \<le> k \<and> k \<le> length xs - 1" "0 + (length xs - 1) - k = length xs - Suc k" by auto
    with reverseLoop_nth [OF l k, of 0] show "reverseLoop 0 (length xs - 1) xs ! k = rev xs ! k" using k by (simp add: rev_nth)
  qed
qed

text \<open>What the documentation of \<open>sort.Sort\<close> promises: the same elements, and no element less than an
  earlier one if \<open>Less\<close> is a strict weak order on them.\<close>

definition weakOrder :: "'a set \<Rightarrow> ('a \<Rightarrow> 'a \<Rightarrow> bool) \<Rightarrow> bool" where
  "weakOrder A lt \<longleftrightarrow> (\<forall>x \<in> A. \<not> lt x x) \<and> (\<forall>x \<in> A. \<forall>y \<in> A. \<forall>z \<in> A. lt x y \<longrightarrow> lt y z \<longrightarrow> lt x z) \<and>
     (\<forall>x \<in> A. \<forall>y \<in> A. \<forall>z \<in> A. lt x z \<longrightarrow> lt x y \<or> lt y z)"

definition sorts :: "sorter \<Rightarrow> bool" where
  "sorts srt \<longleftrightarrow> (\<forall>lt xs. mset (srt lt xs) = mset xs \<and>
     (weakOrder (set xs) lt \<longrightarrow> sorted_wrt (\<lambda>a b. \<not> lt b a) (srt lt xs)))"

lemma bytesLess_irrefl: "\<not> bytesLess x x"
  by (induction x) auto

lemma bytesLess_trans: "bytesLess x y \<Longrightarrow> bytesLess y z \<Longrightarrow> bytesLess x z"
proof (induction x y arbitrary: z rule: bytesLess.induct)
  case (3 x xs y ys)
  then show ?case by (cases z) (auto dest: less_trans)
qed (auto elim: bytesLess.elims)

lemma bytesLess_linear: "bytesLess x y \<or> x = y \<or> bytesLess y x"
  by (induction x y rule: bytesLess.induct) auto

text \<open>The types \<open>less\<close> orders, without the floats.\<close>

definition sortable :: "gotype \<Rightarrow> bool" where
  "sortable t \<longleftrightarrow> t \<in> {TInt, TInt8, TInt16, TInt32, TInt64, TUint, TUint8, TUint16, TUint32, TUint64, TString}"

lemma type_of_iff:
  "(type_of b = TInt) = (\<exists>y. b = VInt y)"
  "(type_of b = TInt8) = (\<exists>y. b = VInt8 y)"
  "(type_of b = TInt16) = (\<exists>y. b = VInt16 y)"
  "(type_of b = TInt32) = (\<exists>y. b = VInt32 y)"
  "(type_of b = TInt64) = (\<exists>y. b = VInt64 y)"
  "(type_of b = TUint) = (\<exists>y. b = VUint y)"
  "(type_of b = TUint8) = (\<exists>y. b = VUint8 y)"
  "(type_of b = TUint16) = (\<exists>y. b = VUint16 y)"
  "(type_of b = TUint32) = (\<exists>y. b = VUint32 y)"
  "(type_of b = TUint64) = (\<exists>y. b = VUint64 y)"
  "(type_of b = TString) = (\<exists>y. b = VString y)"
  by (cases b; simp)+

lemma less_irrefl: "sortable (type_of a) \<Longrightarrow> \<not> less f32 f64 a a"
  by (cases a) (simp_all add: less_def sortable_def bytesLess_irrefl)

lemma less_trans_val:
  assumes "sortable t" "type_of a = t" "type_of b = t" "type_of c = t" "less f32 f64 a b" "less f32 f64 b c"
  shows "less f32 f64 a c"
  using assms unfolding sortable_def
  by (elim insertE emptyE) (auto simp: type_of_iff less_def intro: bytesLess_trans)

lemma bytesLess_total: "\<not> bytesLess x y \<Longrightarrow> \<not> bytesLess y x \<Longrightarrow> x = y"
  using bytesLess_linear [of x y] by blast

lemma less_linear:
  assumes "sortable t" "type_of a = t" "type_of b = t"
  shows "less f32 f64 a b \<or> a = b \<or> less f32 f64 b a"
proof -
  have s: "(sint x = sint y) = (x = y)" for x y :: "'b::len word" by (rule word_eq_iff_signed [symmetric])
  show ?thesis
    using assms unfolding sortable_def
    by (elim insertE emptyE) (auto simp: type_of_iff less_def neq_iff s dest: bytesLess_total)
qed

lemma weakOrder_less:
  assumes "sortable t" "\<forall>x \<in> A. type_of (key x) = t"
  shows "weakOrder A (\<lambda>a b. less f32 f64 (key a) (key b))"
  unfolding weakOrder_def
proof (intro conjI ballI impI)
  show "\<not> less f32 f64 (key x) (key x)" if "x \<in> A" for x using assms that less_irrefl by metis
  show "less f32 f64 (key x) (key z)" if "x \<in> A" "y \<in> A" "z \<in> A" "less f32 f64 (key x) (key y)" "less f32 f64 (key y) (key z)" for x y z
    using assms that less_trans_val [of t "key x" "key y" "key z"] by blast
  show "less f32 f64 (key x) (key y) \<or> less f32 f64 (key y) (key z)"
    if "x \<in> A" "y \<in> A" "z \<in> A" "less f32 f64 (key x) (key z)" for x y z
    using assms that less_linear [of t "key x" "key y" f32 f64] less_trans_val [of t "key y" "key x" "key z" f32 f64] by metis
qed

text \<open>What the values stand for: the integer, signed or unsigned, or the bytes of the string; they are
  compared in the lexicographic order of the library.\<close>

definition valueOf :: "goval \<Rightarrow> int list" where
  "valueOf v =
     (case v of
        VInt x \<Rightarrow> [sint x] | VInt8 x \<Rightarrow> [sint x] | VInt16 x \<Rightarrow> [sint x] | VInt32 x \<Rightarrow> [sint x] | VInt64 x \<Rightarrow> [sint x]
      | VUint x \<Rightarrow> [uint x] | VUint8 x \<Rightarrow> [uint x] | VUint16 x \<Rightarrow> [uint x] | VUint32 x \<Rightarrow> [uint x] | VUint64 x \<Rightarrow> [uint x]
      | VString s \<Rightarrow> map uint s | _ \<Rightarrow> [])"

lemma bytesLess_lexordp: "bytesLess x y \<longleftrightarrow> ord_class.lexordp (map uint x) (map uint y)"
  by (induction x y rule: bytesLess.induct) (auto simp: word_less_def word_uint_eq_iff neq_Nil_conv)

lemma less_valueOf:
  assumes "sortable t" "type_of a = t" "type_of b = t"
  shows "less f32 f64 a b \<longleftrightarrow> ord_class.lexordp (valueOf a) (valueOf b)"
  using assms unfolding sortable_def
  by (elim insertE emptyE) (auto simp: type_of_iff less_def valueOf_def word_less_def bytesLess_lexordp)

lemma valueOf_inj:
  assumes "sortable t" "type_of a = t" "type_of b = t" "valueOf a = valueOf b"
  shows "a = b"
proof -
  have "\<not> ord_class.lexordp xs xs" for xs :: "int list" by (induction xs) auto
  with assms less_linear [OF assms(1-3)] less_valueOf show ?thesis by metis
qed

lemma not_lexordp: "\<not> ord_class.lexordp ys xs \<longleftrightarrow> ord_class.lexordp_eq xs (ys :: 'a :: linorder list)"
  using lexordp_conv_lexordp_eq [of ys xs] lexordp_eq_linear [of xs ys] by blast

text \<open>C32: \<open>SortMap\<close> returns every pair of the map once, ordered by the keys or by the values, and in the
  opposite order if asked to: integers by their signed or unsigned value, strings by their bytes in
  lexicographic order; the order of the keys of a map is strict.  This holds for maps whose keys or
  values are integers or strings of one type and for any sorting algorithm that keeps what the
  documentation of \<open>sort.Sort\<close> promises (it leaves the order of equal values open).\<close>

theorem sort_map_sorted:
  fixes f32 f64 isDesc
  assumes "sorts srt" "sortable (if byKey then k else t)" "\<forall>e \<in> set es. type_of (fst e) = k \<and> type_of (snd e) = t"
  defines "r \<equiv> SortMap srt (less f32 f64) (VMap k t es) byKey isDesc"
    and "val \<equiv> \<lambda>e. valueOf (if byKey then fst e else snd e)"
  shows "mset r = mset es \<and>
    sorted_wrt (\<lambda>a b. if isDesc then ord_class.lexordp_eq (val b) (val a) else ord_class.lexordp_eq (val a) (val b)) r \<and>
    (byKey \<longrightarrow> distinct (map fst es) \<longrightarrow>
      sorted_wrt (\<lambda>a b. if isDesc then ord_class.lexordp (val b) (val a) else ord_class.lexordp (val a) (val b)) r)"
proof -
  let ?key = "\<lambda>e :: goval \<times> goval. if byKey then fst e else snd e"
  let ?lt = "\<lambda>a b. less f32 f64 (?key a) (?key b)"
  have f: "(if byKey then (\<lambda>a b. less f32 f64 (fst a) (fst b)) else (\<lambda>a b. less f32 f64 (snd a) (snd b))) = ?lt"
    by (cases byKey) simp_all
  have "weakOrder (set es) ?lt" using assms(2,3) by (intro weakOrder_less) auto
  with assms(1) have s: "mset (srt ?lt es) = mset es" "sorted_wrt (\<lambda>a b. \<not> ?lt b a) (srt ?lt es)"
    by (auto simp: sorts_def)
  have r: "r = (if isDesc then rev (srt ?lt es) else srt ?lt es)"
    unfolding r_def SortMap_def goval.case Let_def f reverseLoop_rev by (rule refl)
  have m: "mset r = mset es" using r s(1) by simp
  have v: "?lt a b \<longleftrightarrow> ord_class.lexordp (val a) (val b)" if "a \<in> set es" "b \<in> set es" for a b
  proof -
    have "type_of (?key a) = (if byKey then k else t)" "type_of (?key b) = (if byKey then k else t)"
      using that assms(3) by (cases byKey; simp)+
    from less_valueOf [OF assms(2) this] show ?thesis unfolding val_def .
  qed
  have set: "set (srt ?lt es) = set es" using s(1) by (rule mset_eq_setD)
  have le: "sorted_wrt (\<lambda>a b. ord_class.lexordp_eq (val a) (val b)) (srt ?lt es)"
    using s(2) by (rule sorted_wrt_mono_rel [rotated]) (simp add: set v not_lexordp)
  then have le': "sorted_wrt (\<lambda>a b. if isDesc then ord_class.lexordp_eq (val b) (val a) else ord_class.lexordp_eq (val a) (val b)) r"
    unfolding r by (simp add: sorted_wrt_rev)
  have "sorted_wrt (\<lambda>a b. if isDesc then ord_class.lexordp (val b) (val a) else ord_class.lexordp (val a) (val b)) r"
    if *: "byKey" "distinct (map fst es)"
  proof -
    have "distinct (map fst r)" using m * by (metis mset_map mset_eq_imp_distinct_iff)
    then have "sorted_wrt (\<lambda>a b. fst a \<noteq> fst b) r" by (simp add: distinct_conv_nth sorted_wrt_iff_nth_less)
    with le' have "sorted_wrt (\<lambda>a b. (if isDesc then ord_class.lexordp_eq (val b) (val a) else ord_class.lexordp_eq (val a) (val b)) \<and> fst a \<noteq> fst b) r"
      by (simp add: sorted_wrt_iff_nth_less)
    moreover have "val a \<noteq> val b" if "a \<in> set r" "b \<in> set r" "fst a \<noteq> fst b" for a b
    proof -
      have "a \<in> set es" "b \<in> set es" using that mset_eq_setD [OF m] by simp_all
      then show ?thesis using valueOf_inj [of k "fst a" "fst b"] assms(2,3) * that(3) by (auto simp: val_def)
    qed
    ultimately show ?thesis
      by (elim sorted_wrt_mono_rel [rotated]) (auto simp: lexordp_conv_lexordp_eq split: if_splits dest: lexordp_eq_antisym)
  qed
  with m le' show ?thesis by blast
qed

text \<open>Insertion sort is such an algorithm.\<close>

fun insertBy :: "('a \<Rightarrow> 'a \<Rightarrow> bool) \<Rightarrow> 'a \<Rightarrow> 'a list \<Rightarrow> 'a list" where
  "insertBy lt x [] = [x]"
| "insertBy lt x (y # ys) = (if lt y x then y # insertBy lt x ys else x # y # ys)"

definition insertionSort :: "('a \<Rightarrow> 'a \<Rightarrow> bool) \<Rightarrow> 'a list \<Rightarrow> 'a list" where
  "insertionSort lt xs = foldr (insertBy lt) xs []"

lemma insertBy_mset: "mset (insertBy lt x ys) = add_mset x (mset ys)"
  by (induction ys) auto

lemma insertBy_sorted:
  assumes "weakOrder A lt" "x \<in> A" "set ys \<subseteq> A" "sorted_wrt (\<lambda>a b. \<not> lt b a) ys"
  shows "sorted_wrt (\<lambda>a b. \<not> lt b a) (insertBy lt x ys)"
  using assms(3,4)
proof (induction ys)
  case (Cons y ys)
  have m: "set (insertBy lt x ys) = insert x (set ys)" using insertBy_mset [of lt x ys] by (metis set_mset_mset set_mset_add_mset_insert)
  have asym: "\<not> lt x y" if "lt y x" using assms(1,2) Cons.prems(1) that unfolding weakOrder_def by (meson list.set_intros(1) subsetD)
  have "\<not> lt z x" if "\<not> lt y x" "z \<in> set ys" for z
  proof
    assume "lt z x"
    moreover have "z \<in> A" "y \<in> A" "\<not> lt z y" using Cons.prems that by auto
    ultimately show False using assms(1,2) that(1) unfolding weakOrder_def by blast
  qed
  with Cons m asym show ?case by auto
qed simp

lemma insertionSort_sorts: "sorts insertionSort"
  unfolding sorts_def
proof (intro allI conjI impI)
  fix lt and xs :: "(goval \<times> goval) list"
  show m: "mset (insertionSort lt xs) = mset xs" by (induction xs) (simp_all add: insertionSort_def insertBy_mset)
  assume w: "weakOrder (set xs) lt"
  have "set ys \<subseteq> set xs \<Longrightarrow> sorted_wrt (\<lambda>a b. \<not> lt b a) (insertionSort lt ys) \<and> set (insertionSort lt ys) = set ys" for ys
  proof (induction ys)
    case (Cons y ys)
    have "set (insertBy lt y zs) = insert y (set zs)" for zs using insertBy_mset [of lt y zs] by (metis set_mset_mset set_mset_add_mset_insert)
    with Cons insertBy_sorted [OF w, of y "insertionSort lt ys"] show ?case by (simp add: insertionSort_def)
  qed (simp add: insertionSort_def)
  then show "sorted_wrt (\<lambda>a b. \<not> lt b a) (insertionSort lt xs)" by blast
qed

theorem sort_map_sorted_witness:
  "sorts insertionSort \<and>
    (let l = SortMap insertionSort (less (\<lambda>_ _. False) (\<lambda>_ _. False)) (VMap TInt8 TString [(VInt8 1, VString [98]), (VInt8 255, VString [97])]) True True
     in mset l = {#(VInt8 1, VString [98]), (VInt8 255, VString [97])#} \<and>
       sorted_wrt (\<lambda>a b. ord_class.lexordp (valueOf (fst b)) (valueOf (fst a))) l)"
  using sort_map_sorted [OF insertionSort_sorts, where byKey = True and isDesc = True and k = TInt8 and t = TString and
      es = "[(VInt8 1, VString [98]), (VInt8 255, VString [97])]" and ?f32.0 = "\<lambda>_ _. False" and ?f64.0 = "\<lambda>_ _. False"]
    insertionSort_sorts
  by (simp add: sortable_def Let_def)

subsection \<open>Parallel runs collect every result\<close>

lemma stores_nth:
  "i < length r \<Longrightarrow> foldl (\<lambda>r i. r[i := f i]) r ord ! i = (if i \<in> set ord then f i else r ! i)"
  by (induction ord arbitrary: r) (auto simp: nth_list_update)

lemma stores_length: "length (foldl (\<lambda>r i. r[i := f i]) r ord) = length r"
  by (induction ord arbitrary: r) auto

text \<open>Whatever the order in which the goroutines finish, \<open>LockWaitGroup\<close> returns \<open>f\<close> of every index at
  that index.\<close>

lemma parallel_results:
  assumes "0 \<le> num" "mset ord = mset [0..<nat num]"
  shows "LockWaitGroup num f ord = Ret (map f [0..<nat num])"
proof -
  have "set ord = {0..<nat num}" using assms(2) by (metis atLeastLessThan_upt set_mset_mset)
  then show ?thesis using assms(1)
    by (auto simp: LockWaitGroup_def stores_length stores_nth intro!: nth_equalityI)
qed

end
