(* ===== verification/Stfile.thy ===== *)
theory Stfile
  imports Gotext
begin

text \<open>
  Reading and writing of files line by line, \<^verbatim>\<open>src/stutil/file.go\<close>.

  The functions read through a \<open>bufio.Reader\<close>, whose \<open>ReadLine\<close> returns a part of the reader's
  buffer; the part is overwritten by the next call.  So the reader is modelled with its memory, and
  a line that has not been copied is a reference into it (\<open>InBuf\<close>).  The operating system
  delivers a file in pieces (\<open>rdSrc\<close>); an empty piece is what Go reports as the end of the file.
  Errors other than the end of the file are not modelled.
\<close>

subsection \<open>The buffered reader of the Go library\<close>

record bufReader =
  mem :: bytes
  rdR :: nat
  rdW :: nat
  rdErr :: bool
  rdSrc :: "bytes list"

definition newReader :: "nat \<Rightarrow> bytes list \<Rightarrow> bufReader" where
  "newReader n src = \<lparr>mem = replicate n 0, rdR = 0, rdW = 0, rdErr = False, rdSrc = src\<rparr>"

abbreviation (input) defaultSize :: nat where "defaultSize \<equiv> 4096"

definition osRead :: "nat \<Rightarrow> bytes list \<Rightarrow> bytes \<times> bool \<times> bytes list" where
  "osRead n src =
     (case src of
        [] \<Rightarrow> ([], True, [])
      | c # cs \<Rightarrow> if c = [] then ([], True, cs) else if length c \<le> n then (c, False, cs) else (take n c, False, drop n c # cs))"

definition bufFill :: "bufReader \<Rightarrow> bufReader" where
  "bufFill b =
     (let m = (if 0 < rdR b then blit 0 (subseg (rdR b) (rdW b) (mem b)) (mem b) else mem b);
          w = rdW b - rdR b;
          (got, eof, src) = osRead (length m - w) (rdSrc b)
      in \<lparr>mem = blit w got m, rdR = 0, rdW = w + length got, rdErr = eof, rdSrc = src\<rparr>)"

datatype sliceErr = SliceOk | SliceFull | SliceEof

text \<open>\<open>ReadSlice('\n')\<close>: the line as offset and length; the first \<open>s\<close> bytes have been searched.\<close>

function readSlice :: "nat \<Rightarrow> bufReader \<Rightarrow> bufReader \<times> nat \<times> nat \<times> sliceErr" where
  "readSlice s b =
     (let i = textIndex (subseg (rdR b + s) (rdW b) (mem b)) [10] in
      if i \<ge> 0 then let n = nat i + s + 1 in (b\<lparr>rdR := rdR b + n\<rparr>, rdR b, n, SliceOk)
      else if rdErr b then (b\<lparr>rdR := rdW b, rdErr := False\<rparr>, rdR b, rdW b - rdR b, SliceEof)
      else if rdW b - rdR b \<ge> length (mem b) then (b\<lparr>rdR := rdW b\<rparr>, 0, length (mem b), SliceFull)
      else readSlice (rdW b - rdR b) (bufFill b))"
  by pat_completeness auto

lemma osRead_cases:
  obtains (eof) cs where "osRead n src = ([], True, cs)" "length (concat cs) = length (concat src)" "length cs \<le> length src"
        "[] \<notin> set src \<longrightarrow> src = [] \<and> cs = []"
  | (got) g cs where "osRead n src = (g, False, cs)" "length g \<le> n" "0 < n \<longrightarrow> g \<noteq> []" "concat src = g @ concat cs"
        "length cs \<le> length src" "[] \<notin> set src \<longrightarrow> [] \<notin> set cs"
proof (cases src)
  case Nil
  then show thesis using eof [of "[]"] by (simp add: osRead_def)
next
  case (Cons c cs)
  consider "c = []" | "c \<noteq> []" "length c \<le> n" | "c \<noteq> []" "n < length c" by linarith
  then show thesis
  proof cases
    case 1
    with Cons show thesis using eof [of cs] by (simp add: osRead_def)
  next
    case 2
    with Cons show thesis using got [of c cs] by (simp add: osRead_def)
  next
    case 3
    then have "drop n c \<noteq> []" by simp
    with 3 Cons show thesis using got [of "take n c" "drop n c # cs"] by (simp add: osRead_def)
  qed
qed

lemma bufFill_shape:
  assumes "rdW b - rdR b < length (mem b)"
  shows "length (mem (bufFill b)) = length (mem b) \<and> rdR (bufFill b) = 0 \<and> rdW (bufFill b) \<le> length (mem b) \<and>
    (if rdErr (bufFill b) then rdW (bufFill b) = rdW b - rdR b else rdW b - rdR b < rdW (bufFill b))"
proof -
  let ?m = "if 0 < rdR b then blit 0 (subseg (rdR b) (rdW b) (mem b)) (mem b) else mem b"
  let ?w = "rdW b - rdR b"
  have m: "length ?m = length (mem b)" by simp
  show ?thesis
  proof (cases rule: osRead_cases [of "length ?m - ?w" "rdSrc b"])
    case (eof cs)
    then show ?thesis using assms m by (simp add: bufFill_def Let_def)
  next
    case (got g cs)
    then have "0 < length g" using assms m by simp
    with got show ?thesis using assms m by (simp add: bufFill_def Let_def del: length_greater_0_conv)
  qed
qed

termination readSlice
proof (relation "measure (\<lambda>(s, b). (length (mem b) - (rdW b - rdR b)) + (if rdErr b then 0 else 1))", goal_cases)
  case (2 s b i)
  then have lt: "rdW b - rdR b < length (mem b)" and "\<not> rdErr b" by auto
  with bufFill_shape [OF lt] show ?case by (auto split: if_splits)
qed simp

declare readSlice.simps [simp del]

text \<open>\<open>ReadLine\<close>: offset, length, whether the line goes on, and whether the file has ended.\<close>

definition byteAt :: "bufReader \<Rightarrow> nat \<Rightarrow> byte" where
  "byteAt b i = mem b ! i"

definition bufReadLine :: "bufReader \<Rightarrow> bufReader \<times> nat \<times> nat \<times> bool \<times> bool" where
  "bufReadLine b =
     (case readSlice 0 b of
        (b1, off, n, SliceFull) \<Rightarrow>
          if 0 < n \<and> byteAt b1 (off + n - 1) = 13 then (b1\<lparr>rdR := rdR b1 - 1\<rparr>, off, n - 1, True, False)
          else (b1, off, n, True, False)
      | (b1, off, n, e) \<Rightarrow>
          if n = 0 then (b1, off, 0, False, e = SliceEof)
          else if byteAt b1 (off + n - 1) = 10 then
            (b1, off, n - (if 1 < n \<and> byteAt b1 (off + n - 2) = 13 then 2 else 1), False, False)
          else (b1, off, n, False, False))"


subsection \<open>Lines of a file\<close>

datatype lineRef = InBuf nat nat | Own bytes

fun lineBytes :: "bufReader \<Rightarrow> lineRef \<Rightarrow> bytes" where
  "lineBytes b (InBuf off n) = subseg off (off + n) (mem b)"
| "lineBytes b (Own xs) = xs"

text \<open>\<open>line = append(line, next...)\<close>: in place while the capacity of the slice allows it.\<close>

fun appendLine :: "bufReader \<Rightarrow> lineRef \<Rightarrow> bytes \<Rightarrow> bufReader \<times> lineRef" where
  "appendLine b (Own xs) nx = (b, Own (xs @ nx))"
| "appendLine b (InBuf off n) nx =
     (if off + n + length nx \<le> length (mem b) then (b\<lparr>mem := blit (off + n) nx (mem b)\<rparr>, InBuf off (n + length nx))
      else (b, Own (lineBytes b (InBuf off n) @ nx)))"

text \<open>The loop over the parts of a long line, and reading of one line.  The loops have fuel; \<open>None\<close> is
  running out of it.\<close>

fun prefixLoop :: "nat \<Rightarrow> bufReader \<Rightarrow> lineRef \<Rightarrow> (bufReader \<times> lineRef \<times> bool) option" where
  "prefixLoop 0 b line = None"
| "prefixLoop (Suc fuel) b line =
     (let (b1, off, n, isPrefix, eof) = bufReadLine b;
          (b2, line') = appendLine b1 line (subseg off (off + n) (mem b1))
      in if isPrefix then prefixLoop fuel b2 line' else Some (b2, line', eof))"

definition readWholeLine :: "nat \<Rightarrow> bufReader \<Rightarrow> (bufReader \<times> lineRef \<times> bool) option" where
  "readWholeLine fuel b =
     (let (b1, off, n, isPrefix, eof) = bufReadLine b
      in if isPrefix then prefixLoop fuel b1 (InBuf off n) else Some (b1, InBuf off n, eof))"

text \<open>The byte order mark is dropped from the first line.\<close>

definition dropMark :: "nat \<Rightarrow> bytes \<Rightarrow> bytes" where
  "dropMark n line =
     (if n = 1 \<and> 2 < length line \<and> line ! 0 = 239 \<and> line ! 1 = 187 \<and> line ! 2 = 191 then drop 3 line else line)"

fun lineLoop :: "nat \<Rightarrow> nat \<Rightarrow> bufReader \<Rightarrow> (nat \<Rightarrow> bytes \<Rightarrow> 's \<Rightarrow> 's \<times> bool) \<Rightarrow> 's \<Rightarrow> 's option" where
  "lineLoop 0 n b callback s = None"
| "lineLoop (Suc fuel) n b callback s =
     (case readWholeLine fuel b of
        None \<Rightarrow> None
      | Some (b1, line, eof) \<Rightarrow>
          if eof then Some s
          else let (s', goOn) = callback (Suc n) (dropMark (Suc n) (lineBytes b1 line)) s
               in if goOn then lineLoop fuel (Suc n) b1 callback s' else Some s')"

text \<open>Enough fuel for a file that is delivered in the pieces \<open>src\<close>.\<close>

definition lineFuel :: "bytes list \<Rightarrow> nat" where
  "lineFuel src = length (concat src) + length src + 2"

type_synonym files = "string \<rightharpoonup> bytes"

text \<open>\<open>FileIterateLine\<close>; \<open>deliver\<close> says how the operating system delivers the file.  The outer option is
  \<open>None\<close> if the loop runs out of fuel, the inner one if the file cannot be opened.\<close>

definition FileIterateLine ::
  "(bytes \<Rightarrow> bytes list) \<Rightarrow> files \<Rightarrow> string \<Rightarrow> (nat \<Rightarrow> bytes \<Rightarrow> 's \<Rightarrow> 's \<times> bool) \<Rightarrow> 's \<Rightarrow> 's option option" where
  "FileIterateLine deliver fs path callback s =
     (case fs path of
        None \<Rightarrow> Some None
      | Some content \<Rightarrow> map_option Some
          (lineLoop (lineFuel (deliver content)) 0 (newReader defaultSize (deliver content)) callback s))"

definition FileReadLine :: "(bytes \<Rightarrow> bytes list) \<Rightarrow> files \<Rightarrow> string \<Rightarrow> int \<Rightarrow> bytes list option option" where
  "FileReadLine deliver fs path line0 =
     (let line = (if line0 \<le> 0 then 1 else line0)
      in FileIterateLine deliver fs path (\<lambda>n l content. if int n \<le> line then (content @ [l], True) else (content, False)) [])"

fun skipLoop :: "nat \<Rightarrow> bufReader \<Rightarrow> (bufReader \<times> bool) option" where
  "skipLoop 0 b = None"
| "skipLoop (Suc fuel) b =
     (let (b1, off, n, isPrefix, eof) = bufReadLine b in if isPrefix then skipLoop fuel b1 else Some (b1, eof))"

fun countLoop :: "nat \<Rightarrow> bufReader \<Rightarrow> int \<Rightarrow> int option" where
  "countLoop 0 b num = None"
| "countLoop (Suc fuel) b num =
     (case skipLoop (Suc fuel) b of
        None \<Rightarrow> None
      | Some (b1, eof) \<Rightarrow> if eof then Some num else countLoop fuel b1 (num + 1))"

definition FileLineNum :: "(bytes \<Rightarrow> bytes list) \<Rightarrow> files \<Rightarrow> string \<Rightarrow> int option" where
  "FileLineNum deliver fs path =
     (case fs path of
        None \<Rightarrow> Some 0
      | Some content \<Rightarrow> countLoop (lineFuel (deliver content)) (newReader defaultSize (deliver content)) 0)"

record stFile =
  stOpen :: bool
  stBuf :: bufReader
  stLine :: int

definition NewSTFile :: "(bytes \<Rightarrow> bytes list) \<Rightarrow> files \<Rightarrow> bytes list \<Rightarrow> string \<Rightarrow> stFile option" where
  "NewSTFile deliver fs stdin path =
     (if path = ''stdin'' then Some \<lparr>stOpen = True, stBuf = newReader defaultSize stdin, stLine = 0\<rparr>
      else map_option (\<lambda>content. \<lparr>stOpen = True, stBuf = newReader defaultSize (deliver content), stLine = 0\<rparr>) (fs path))"

definition stReadLine :: "nat \<Rightarrow> stFile \<Rightarrow> (stFile \<times> bytes \<times> int) option" where
  "stReadLine fuel f =
     (if \<not> stOpen f then Some (f, [], - 1)
      else case readWholeLine fuel (stBuf f) of
        None \<Rightarrow> None
      | Some (b1, line, eof) \<Rightarrow>
          let f1 = f\<lparr>stBuf := b1, stLine := stLine f + 1\<rparr>
          in Some (f1, if eof then ([], - 1) else (lineBytes b1 line, stLine f1)))"

definition stClose :: "stFile \<Rightarrow> stFile" where
  "stClose f = f\<lparr>stOpen := False\<rparr>"


subsection \<open>Writing whole files\<close>

text \<open>\<open>room\<close> is the number of bytes the disk takes; the result says whether there was no error.\<close>

definition FileCreateAndWrite :: "bool \<Rightarrow> nat \<Rightarrow> files \<Rightarrow> string \<Rightarrow> bytes \<Rightarrow> files \<times> bool" where
  "FileCreateAndWrite createOk room fs path content =
     (if \<not> createOk then (fs, False) else (fs(path \<mapsto> take room content), length content \<le> room))"

definition FileCreateAndWriteWithBom :: "bool \<Rightarrow> nat \<Rightarrow> files \<Rightarrow> string \<Rightarrow> bytes \<Rightarrow> files \<times> bool" where
  "FileCreateAndWriteWithBom createOk room fs path content =
     (if \<not> createOk then (fs, False)
      else if room < 3 then (fs(path \<mapsto> take room [0xEF, 0xBB, 0xBF]), False)
      else (fs(path \<mapsto> [0xEF, 0xBB, 0xBF] @ take (room - 3) content), 3 + length content \<le> room))"

definition FileWriteAndAppend :: "bool \<Rightarrow> nat \<Rightarrow> files \<Rightarrow> string \<Rightarrow> bytes \<Rightarrow> files \<times> bool" where
  "FileWriteAndAppend openOk room fs path content =
     (case fs path of
        Some old \<Rightarrow> if \<not> openOk then (fs, False) else (fs(path \<mapsto> old @ take room content), length content \<le> room)
      | None \<Rightarrow> FileCreateAndWrite openOk room fs path content)"

definition FileReadAll :: "files \<Rightarrow> string \<Rightarrow> bytes option" where
  "FileReadAll fs path = fs path"

subsection \<open>What the reader returns\<close>

definition buffered :: "bufReader \<Rightarrow> bytes" where
  "buffered b = subseg (rdR b) (rdW b) (mem b)"

text \<open>The bytes that have not been read yet.\<close>

definition pend :: "bufReader \<Rightarrow> bytes" where
  "pend b = buffered b @ concat (rdSrc b)"

definition rdWf :: "bufReader \<Rightarrow> bool" where
  "rdWf b \<longleftrightarrow> rdR b \<le> rdW b \<and> rdW b \<le> length (mem b) \<and> [] \<notin> set (rdSrc b) \<and> 
     (rdErr b \<longrightarrow> rdSrc b = [] \<and> rdW b - rdR b < length (mem b))"

lemma length_buffered: "rdWf b \<Longrightarrow> length (buffered b) = rdW b - rdR b"
  by (auto simp: buffered_def rdWf_def)

lemma subseg_blit: "i + length g \<le> length m \<Longrightarrow> subseg 0 (i + length g) (blit i g m) = take i m @ g"
  by (simp add: subseg_def blit_def)

lemma bufFill_spec:
  assumes "rdWf b" "\<not> rdErr b" "rdW b - rdR b < length (mem b)"
  shows "rdWf (bufFill b)" "pend (bufFill b) = pend b" "\<exists>g. buffered (bufFill b) = buffered b @ g"
    "length (mem (bufFill b)) = length (mem b)"
proof -
  let ?m = "if 0 < rdR b then blit 0 (subseg (rdR b) (rdW b) (mem b)) (mem b) else mem b"
  let ?w = "rdW b - rdR b"
  have m: "length ?m = length (mem b)" by simp
  have t: "take ?w ?m = buffered b" using assms(1) by (auto simp: buffered_def rdWf_def blit_def subseg_def Let_def)
  have src: "[] \<notin> set (rdSrc b)" using assms(1) by (simp add: rdWf_def)
  have "rdWf (bufFill b) \<and> pend (bufFill b) = pend b \<and> (\<exists>g. buffered (bufFill b) = buffered b @ g)"
  proof (cases rule: osRead_cases [of "length ?m - ?w" "rdSrc b"])
    case (eof cs)
    then have f: "bufFill b = \<lparr>mem = blit ?w [] ?m, rdR = 0, rdW = ?w + length ([] :: bytes), rdErr = True, rdSrc = cs\<rparr>"
      by (simp add: bufFill_def Let_def)
    have "buffered (bufFill b) = buffered b"
      using subseg_blit [of ?w "[]" ?m] assms(3) m t unfolding f buffered_def by simp
    with eof src f assms(3) m show ?thesis by (auto simp: pend_def rdWf_def)
  next
    case (got g cs)
    then have f: "bufFill b = \<lparr>mem = blit ?w g ?m, rdR = 0, rdW = ?w + length g, rdErr = False, rdSrc = cs\<rparr>"
      by (simp add: bufFill_def Let_def)
    have "buffered (bufFill b) = buffered b @ g"
      using subseg_blit [of ?w g ?m] assms(3) m t got(2) unfolding f buffered_def by simp
    with got src f assms(3) m show ?thesis by (auto simp: pend_def rdWf_def)
  qed
  then show "rdWf (bufFill b)" "pend (bufFill b) = pend b" "\<exists>g. buffered (bufFill b) = buffered b @ g" by auto
  show "length (mem (bufFill b)) = length (mem b)" using bufFill_shape [OF assms(3)] by simp
qed

lemma textIndex_single:
  "textIndex xs [c] = int (length (takeWhile (\<lambda>x. x \<noteq> c) xs)) \<or> c \<notin> set xs \<and> textIndex xs [c] < 0"
proof (cases "c \<in> set xs")
  case True
  then obtain a r where x: "xs = a @ c # r" "c \<notin> set a" by (meson split_list_first)
  then have "takeWhile (\<lambda>x. x \<noteq> c) a = a" by (auto simp: takeWhile_eq_all_conv)
  with x show ?thesis using textIndex_hd [of c a "[]" r] by (simp add: takeWhile_tail)
qed (simp add: textIndex_without)

lemma subseg_skip: "subseg (rdR b + s) (rdW b) (mem b) = drop s (buffered b)"
  by (simp add: buffered_def subseg_def drop_take add.commute)

lemma not_found: "10 \<notin> set (buffered b) \<Longrightarrow> \<not> 0 \<le> textIndex (subseg (rdR b + s) (rdW b) (mem b)) [10]"
  by (metis in_set_dropD not_less subseg_skip textIndex_without)

text \<open>One round of the search, with the bytes that were searched before taken into account.\<close>

lemma readSlice_unfold:
  assumes "rdWf b" "s \<le> length (buffered b)" "10 \<notin> set (take s (buffered b))"
  shows "readSlice s b =
     (if 10 \<in> set (buffered b) then
        let n = Suc (length (takeWhile (\<lambda>x. x \<noteq> 10) (buffered b))) in (b\<lparr>rdR := rdR b + n\<rparr>, rdR b, n, SliceOk)
      else if rdErr b then (b\<lparr>rdR := rdW b, rdErr := False\<rparr>, rdR b, length (buffered b), SliceEof)
      else if length (buffered b) \<ge> length (mem b) then (b\<lparr>rdR := rdW b\<rparr>, 0, length (mem b), SliceFull)
      else readSlice (length (buffered b)) (bufFill b))"
proof -
  let ?d = "subseg (rdR b + s) (rdW b) (mem b)"
  have d: "?d = drop s (buffered b)" by (rule subseg_skip)
  have split: "buffered b = take s (buffered b) @ drop s (buffered b)" by simp
  have mem_iff: "10 \<in> set ?d \<longleftrightarrow> 10 \<in> set (buffered b)" unfolding d using assms(3) split by (metis Un_iff set_append)
  have "length (takeWhile (\<lambda>x. x \<noteq> 10) (buffered b)) = s + length (takeWhile (\<lambda>x. x \<noteq> 10) ?d)" if "10 \<in> set ?d"
  proof -
    have "takeWhile (\<lambda>x. x \<noteq> 10) (buffered b) = take s (buffered b) @ takeWhile (\<lambda>x. x \<noteq> 10) (drop s (buffered b))"
      by (subst split, subst takeWhile_append2) (use assms(3) in auto)
    then show ?thesis using assms(2) d by simp
  qed
  then show ?thesis
    using textIndex_single [of ?d 10] mem_iff length_buffered [OF assms(1)] textIndex_without [of "10" ?d "[]"]
    by (subst readSlice.simps) (auto simp: Let_def)
qed

lemma split_unique: "a @ c # r = l @ c # rest \<Longrightarrow> c \<notin> set a \<Longrightarrow> c \<notin> set l \<Longrightarrow> a = l \<and> r = rest"
proof (induction a arbitrary: l)
  case Nil
  then show ?case by (cases l) auto
next
  case (Cons x a)
  then show ?case by (cases l) auto
qed

text \<open>A newline within reach, the end of the file within reach, and neither.\<close>

definition searched :: "nat \<Rightarrow> bufReader \<Rightarrow> bool" where
  "searched s b \<longleftrightarrow> rdWf b \<and> s \<le> length (buffered b) \<and> 10 \<notin> set (take s (buffered b))"

text \<open>Induction over the rounds of the search.\<close>

lemma search_induct [consumes 1, case_names round]:
  assumes "searched s b"
    and "\<And>s b. searched s b \<Longrightarrow>
      (10 \<notin> set (buffered b) \<Longrightarrow> \<not> rdErr b \<Longrightarrow> length (buffered b) < length (mem b) \<Longrightarrow>
        readSlice s b = readSlice (length (buffered b)) (bufFill b) \<and> pend (bufFill b) = pend b \<and>
        length (mem (bufFill b)) = length (mem b) \<and> P (length (buffered b)) (bufFill b)) \<Longrightarrow> P s b"
  shows "P s b"
  using assms(1)
proof (induction s b rule: readSlice.induct)
  case (1 s b)
  show ?case
  proof (rule assms(2) [OF "1.prems"])
    assume no: "10 \<notin> set (buffered b)" and ne: "\<not> rdErr b" and lt: "length (buffered b) < length (mem b)"
    from "1.prems" have w: "rdWf b" by (simp add: searched_def)
    note lb = length_buffered [OF w]
    note f = bufFill_spec [OF w ne lt [unfolded lb]]
    have "searched (length (buffered b)) (bufFill b)" using f no by (auto simp: searched_def)
    then have "P (length (buffered b)) (bufFill b)"
      using "1.IH" [OF refl not_found [OF no] ne] lt by (simp add: lb)
    moreover have "readSlice s b = readSlice (length (buffered b)) (bufFill b)"
      using readSlice_unfold [of b s] "1.prems" no ne lt by (simp add: searched_def)
    ultimately show "readSlice s b = readSlice (length (buffered b)) (bufFill b) \<and> pend (bufFill b) = pend b \<and>
        length (mem (bufFill b)) = length (mem b) \<and> P (length (buffered b)) (bufFill b)"
      using f by simp
  qed
qed

lemma readSlice_line:
  assumes "searched s b" "pend b = l @ 10 # rest" "10 \<notin> set l" "length l < length (mem b)"
  shows "\<exists>b' off. readSlice s b = (b', off, Suc (length l), SliceOk) \<and> rdWf b' \<and> pend b' = rest \<and>
    length (mem b') = length (mem b) \<and> off + Suc (length l) \<le> length (mem b') \<and> subseg off (off + Suc (length l)) (mem b') = l @ [10]"
  using assms
proof (induction s b rule: search_induct)
  case (round s b)
  then have w: "rdWf b" by (simp add: searched_def)
  note u = readSlice_unfold [OF round(1) [unfolded searched_def, THEN conjunct1]]
  show ?case
  proof (cases "10 \<in> set (buffered b)")
    case True
    then obtain a r where a: "buffered b = a @ 10 # r" "10 \<notin> set a" by (meson split_list_first)
    then have al: "a = l" "rest = r @ concat (rdSrc b)"
      using round.prems split_unique [of a 10 "r @ concat (rdSrc b)" l rest] by (auto simp: pend_def)
    then have tw: "takeWhile (\<lambda>x. x \<noteq> 10) (buffered b) = l" using a by (auto simp: takeWhile_tail takeWhile_eq_all_conv)
    let ?b = "b\<lparr>rdR := rdR b + Suc (length l)\<rparr>"
    have len: "rdR b + Suc (length l) \<le> rdW b" using a(1) al length_buffered [OF w] by auto
    have "buffered ?b = drop (Suc (length l)) (buffered b)" by (simp add: buffered_def subseg_def drop_take add.commute)
    then have "buffered ?b = r" using a(1) al by simp
    then have "rdWf ?b \<and> pend ?b = rest" using w len al by (auto simp: rdWf_def pend_def)
    moreover have "subseg (rdR b) (rdR b + Suc (length l)) (mem b) = take (Suc (length l)) (buffered b)"
      using len by (simp add: buffered_def subseg_def min_def)
    ultimately show ?thesis using u [of s] round(1) True tw a al len w by (auto simp: Let_def rdWf_def searched_def)
  next
    case False
    have "\<not> rdErr b" using False w round.prems by (auto simp: rdWf_def pend_def)
    moreover have "pend b ! length l = 10" using round.prems by simp
    then have "\<not> length l < length (buffered b)" using False by (metis nth_append nth_mem pend_def)
    ultimately show ?thesis using round(2) [OF False] round.prems by (auto simp: not_less)
  qed
qed

lemma readSlice_eof:
  assumes "searched s b" "10 \<notin> set (pend b)" "length (pend b) < length (mem b)"
  shows "\<exists>b' off. readSlice s b = (b', off, length (pend b), SliceEof) \<and> rdWf b' \<and> pend b' = [] \<and>
    length (mem b') = length (mem b) \<and> off + length (pend b) \<le> length (mem b') \<and> subseg off (off + length (pend b)) (mem b') = pend b"
  using assms
proof (induction s b rule: search_induct)
  case (round s b)
  then have w: "rdWf b" by (simp add: searched_def)
  note lb = length_buffered [OF w]
  have no: "10 \<notin> set (buffered b)" "length (buffered b) < length (mem b)" using round.prems by (auto simp: pend_def)
  show ?case
  proof (cases "rdErr b")
    case True
    then have p: "pend b = buffered b" using w by (auto simp: rdWf_def pend_def)
    have "readSlice s b = (b\<lparr>rdR := rdW b, rdErr := False\<rparr>, rdR b, length (buffered b), SliceEof)"
      using readSlice_unfold [of b s] round(1) no True by (simp add: searched_def)
    moreover have "rdR b + length (pend b) = rdW b" using w lb p by (simp add: rdWf_def)
    ultimately show ?thesis using w p True by (auto simp: rdWf_def pend_def buffered_def subseg_def)
  next
    case False
    with round(2) [OF no(1) _ no(2)] round.prems show ?thesis by auto
  qed
qed

lemma readSlice_full:
  assumes "searched s b" "10 \<notin> set (take (length (mem b)) (pend b))" "length (mem b) \<le> length (pend b)"
  shows "\<exists>b'. readSlice s b = (b', 0, length (mem b), SliceFull) \<and> rdWf b' \<and> pend b' = drop (length (mem b)) (pend b) \<and>
    mem b' = take (length (mem b)) (pend b) \<and> rdR b' = length (mem b) \<and> rdW b' = length (mem b)"
  using assms
proof (induction s b rule: search_induct)
  case (round s b)
  then have w: "rdWf b" by (simp add: searched_def)
  note lb = length_buffered [OF w]
  have le: "length (buffered b) \<le> length (mem b)" using w lb by (auto simp: rdWf_def)
  then have no: "10 \<notin> set (buffered b)" using round.prems(1) by (auto simp: pend_def)
  show ?case
  proof (cases "length (buffered b) < length (mem b)")
    case True
    then have "\<not> rdErr b" using w round.prems by (auto simp: rdWf_def pend_def)
    with round(2) [OF no _ True] round.prems show ?thesis by auto
  next
    case False
    then have full: "rdR b = 0" "rdW b = length (mem b)" using lb le w by (auto simp: rdWf_def)
    then have bm: "buffered b = mem b" by (simp add: buffered_def subseg_def)
    show ?thesis
    proof -
      have ne: "\<not> rdErr b" using w full by (auto simp: rdWf_def)
      then have "readSlice s b = (b\<lparr>rdR := rdW b\<rparr>, 0, length (mem b), SliceFull)"
        using readSlice_unfold [of b s] round(1) no bm by (simp add: searched_def)
      then show ?thesis using w full bm ne by (auto simp: rdWf_def pend_def buffered_def subseg_def)
    qed
  qed
qed

lemma searched_0: "rdWf b \<Longrightarrow> searched 0 b"
  by (simp add: searched_def)

definition trimCR :: "bytes \<Rightarrow> bytes" where
  "trimCR l = (if l \<noteq> [] \<and> last l = 13 then butlast l else l)"

lemma subseg_take: "i + k \<le> i + n \<Longrightarrow> subseg i (i + k) xs = take k (subseg i (i + n) xs)"
  by (simp add: subseg_def)

lemma subseg_nth: "subseg i (i + n) xs = ys \<Longrightarrow> k < n \<Longrightarrow> i + n \<le> length xs \<Longrightarrow> xs ! (i + k) = ys ! k"
  by (auto simp: subseg_def)

lemma bufReadLine_line:
  assumes "rdWf b" "pend b = l @ 10 # rest" "10 \<notin> set l" "length l < length (mem b)"
  shows "\<exists>b' off n. bufReadLine b = (b', off, n, False, False) \<and> rdWf b' \<and> pend b' = rest \<and> length (mem b') = length (mem b) \<and>
    subseg off (off + n) (mem b') = trimCR l"
proof -
  from readSlice_line [OF searched_0 [OF assms(1)] assms(2-)] obtain b' off where
    r: "readSlice 0 b = (b', off, Suc (length l), SliceOk)" and w: "rdWf b'" "pend b' = rest" "length (mem b') = length (mem b)"
    and o: "off + Suc (length l) \<le> length (mem b')" "subseg off (off + Suc (length l)) (mem b') = l @ [10]" by blast
  have at: "mem b' ! (off + k) = (l @ [10]) ! k" if "k < Suc (length l)" for k using subseg_nth [OF o(2) that o(1)] .
  have nl: "byteAt b' (off + length l) = 10" using at [of "length l"] by (simp add: byteAt_def)
  have cr: "1 < Suc (length l) \<and> byteAt b' (off + Suc (length l) - 2) = 13 \<longleftrightarrow> l \<noteq> [] \<and> last l = 13"
  proof (cases "l = []")
    case False
    then have "off + Suc (length l) - 2 = off + (length l - 1)" by (cases l) auto
    moreover have "(l @ [10]) ! (length l - 1) = last l" using False by (simp add: nth_append last_conv_nth)
    ultimately show ?thesis using at [of "length l - 1"] False by (simp add: byteAt_def)
  qed simp
  let ?n = "Suc (length l) - (if l \<noteq> [] \<and> last l = 13 then 2 else 1)"
  have "bufReadLine b = (b', off, ?n, False, False)" unfolding bufReadLine_def r using nl cr by simp
  moreover have "subseg off (off + ?n) (mem b') = take ?n (l @ [10])" using subseg_take [of off ?n "Suc (length l)" "mem b'"] o(2) by simp
  moreover have "take ?n (l @ [10]) = trimCR l" by (auto simp: trimCR_def butlast_conv_take)
  ultimately show ?thesis using w by auto
qed

lemma bufReadLine_last:
  assumes "rdWf b" "10 \<notin> set (pend b)" "length (pend b) < length (mem b)"
  shows "\<exists>b' off. bufReadLine b = (b', off, length (pend b), False, pend b = []) \<and> rdWf b' \<and> pend b' = [] \<and> length (mem b') = length (mem b) \<and>
    subseg off (off + length (pend b)) (mem b') = pend b"
proof -
  from readSlice_eof [OF searched_0 [OF assms(1)] assms(2-)] obtain b' off where
    r: "readSlice 0 b = (b', off, length (pend b), SliceEof)" and w: "rdWf b'" "pend b' = []" "length (mem b') = length (mem b)"
    and o: "off + length (pend b) \<le> length (mem b')" "subseg off (off + length (pend b)) (mem b') = pend b" by blast
  show ?thesis
  proof (cases "pend b = []")
    case True
    then show ?thesis using r w by (auto simp: bufReadLine_def subseg_def)
  next
    case False
    then have "mem b' ! (off + (length (pend b) - 1)) = last (pend b)"
      using subseg_nth [OF o(2) _ o(1), of "length (pend b) - 1"] by (simp add: last_conv_nth)
    then have "byteAt b' (off + length (pend b) - 1) \<noteq> 10"
      using False assms(2) last_in_set [OF False] by (cases "pend b") (auto simp: byteAt_def)
    then show ?thesis using r w o False by (auto simp: bufReadLine_def)
  qed
qed


subsection \<open>Lines that fit into the buffer\<close>

text \<open>The lines of a content: the parts between the newlines, without a carriage return before the
  newline; an empty part after the last newline is no line.\<close>

definition textLines :: "bytes \<Rightarrow> bytes list" where
  "textLines xs = (let segs = textSplit xs [10] in map trimCR (butlast segs) @ (if last segs = [] then [] else [last segs]))"

definition shortLines :: "nat \<Rightarrow> bytes \<Rightarrow> bool" where
  "shortLines n xs \<longleftrightarrow> (\<forall>seg \<in> set (textSplit xs [10]). length seg < n)"

fun visit :: "(nat \<Rightarrow> bytes \<Rightarrow> 's \<Rightarrow> 's \<times> bool) \<Rightarrow> nat \<Rightarrow> bytes list \<Rightarrow> 's \<Rightarrow> 's" where
  "visit callback n [] s = s"
| "visit callback n (l # ls) s =
     (let (s', goOn) = callback (Suc n) (dropMark (Suc n) l) s in if goOn then visit callback (Suc n) ls s' else s')"

lemma textLines_step:
  assumes "10 \<notin> set l"
  shows "textLines (l @ 10 # rest) = trimCR l # textLines rest" "shortLines n (l @ 10 # rest) \<longleftrightarrow> length l < n \<and> shortLines n rest"
  using assms by (simp_all add: textLines_def shortLines_def textSplit_piece Let_def)

lemma textLines_last:
  assumes "10 \<notin> set l"
  shows "textLines l = (if l = [] then [] else [l])" "shortLines n l \<longleftrightarrow> length l < n"
  using assms by (simp_all add: textLines_def shortLines_def textSplit_last)

lemma textLines_Nil [simp]: "textLines [] = []"
  by (simp add: textLines_last)

lemma lineLoop_visit:
  assumes "rdWf b" "shortLines (length (mem b)) (pend b)" "length (textLines (pend b)) < fuel"
  shows "lineLoop fuel n b callback s = Some (visit callback n (textLines (pend b)) s)"
  using assms
proof (induction fuel arbitrary: n b s)
  case (Suc fuel)
  show ?case
  proof (cases "10 \<in> set (pend b)")
    case True
    then obtain l rest where p: "pend b = l @ 10 # rest" "10 \<notin> set l" by (meson split_list_first)
    note t = textLines_step [OF p(2)]
    from Suc.prems(2) have sh: "length l < length (mem b)" "shortLines (length (mem b)) rest" by (auto simp: p t)
    from bufReadLine_line [OF Suc.prems(1) p sh(1)] obtain b' off k where
      r: "bufReadLine b = (b', off, k, False, False)" "rdWf b'" "pend b' = rest" "length (mem b') = length (mem b)"
        "subseg off (off + k) (mem b') = trimCR l" by blast
    obtain s' g where c: "callback (Suc n) (dropMark (Suc n) (trimCR l)) s = (s', g)" by fastforce
    have "lineLoop fuel (Suc n) b' callback s' = Some (visit callback (Suc n) (textLines rest) s')"
      using Suc.IH [of b' "Suc n" s'] r sh(2) Suc.prems(3) by (simp add: p t)
    then show ?thesis by (simp add: readWholeLine_def r(1,5) c p t)
  next
    case False
    note t = textLines_last [OF False]
    have "length (pend b) < length (mem b)" using Suc.prems(2) by (simp add: t)
    from bufReadLine_last [OF Suc.prems(1) False this] obtain b' off where
      r: "bufReadLine b = (b', off, length (pend b), False, pend b = [])" "rdWf b'" "pend b' = []" "length (mem b') = length (mem b)"
        "subseg off (off + length (pend b)) (mem b') = pend b" by blast
    have e: "lineLoop fuel (Suc n) b' callback s' = Some s'" if "pend b \<noteq> []" for s'
      using Suc.IH [of b' "Suc n" s'] r Suc.prems(3) that t textLines_last [of "[]"] Suc.prems(2)
      by (cases "mem b") auto
    show ?thesis
    proof (cases "pend b = []")
      case True
      then show ?thesis by (simp add: readWholeLine_def r(1) t)
    next
      case False
      then show ?thesis using e by (simp add: readWholeLine_def r(1,5) t split: prod.split)
    qed
  qed
qed simp

lemma newReader_wf: "[] \<notin> set src \<Longrightarrow> rdWf (newReader k src) \<and> pend (newReader k src) = concat src \<and> length (mem (newReader k src)) = k"
  by (simp add: rdWf_def newReader_def pend_def buffered_def subseg_def)

lemma textLines_length: "length (textLines xs) \<le> length xs"
proof (induction xs rule: length_induct)
  case (1 xs)
  show ?case
  proof (cases "10 \<in> set xs")
    case True
    then obtain l rest where p: "xs = l @ 10 # rest" "10 \<notin> set l" by (meson split_list_first)
    have "length (textLines rest) \<le> length rest" using 1 p by simp
    then show ?thesis by (simp add: p textLines_step)
  next
    case False
    then show ?thesis by (auto simp: textLines_last Suc_le_eq)
  qed
qed

text \<open>The way in which the operating system delivers the content of a file.\<close>

definition delivers :: "(bytes \<Rightarrow> bytes list) \<Rightarrow> bool" where
  "delivers deliver \<longleftrightarrow> (\<forall>c. concat (deliver c) = c \<and> [] \<notin> set (deliver c))"

lemma iterate_visit:
  assumes "delivers deliver" "fs path = Some content" "shortLines defaultSize content"
  shows "FileIterateLine deliver fs path callback s = Some (Some (visit callback 0 (textLines content) s))"
proof -
  have d: "concat (deliver content) = content" "[] \<notin> set (deliver content)" using assms(1) by (auto simp: delivers_def)
  note w = newReader_wf [OF d(2), of defaultSize]
  have "length (textLines content) < lineFuel (deliver content)" using textLines_length [of content] d(1) by (simp add: lineFuel_def)
  with w d assms(3) have "lineLoop (lineFuel (deliver content)) 0 (newReader defaultSize (deliver content)) callback s =
      Some (visit callback 0 (textLines content) s)" by (subst lineLoop_visit) simp_all
  then show ?thesis by (simp add: FileIterateLine_def assms(2))
qed

definition marked :: "bytes list \<Rightarrow> bytes list" where
  "marked ls = (case ls of [] \<Rightarrow> [] | l # r \<Rightarrow> dropMark 1 l # r)"

lemma dropMark_later [simp]: "dropMark (Suc (Suc n)) l = l"
  by (simp add: dropMark_def)

lemma visit_collect:
  "visit (\<lambda>n l content. if int n \<le> k then (content @ [l], True) else (content, False)) (Suc n) ls acc =
     acc @ take (nat (k - int (Suc n))) ls"
proof (induction ls arbitrary: n acc)
  case (Cons l ls)
  show ?case
  proof (cases "int (Suc (Suc n)) \<le> k")
    case True
    then have "nat (k - int (Suc n)) = Suc (nat (k - int (Suc (Suc n))))" by simp
    with True Cons show ?thesis by simp
  qed simp
qed simp

lemma collect_marked:
  assumes "1 \<le> k"
  shows "visit (\<lambda>n l content. if int n \<le> k then (content @ [l], True) else (content, False)) 0 ls [] = take (nat k) (marked ls)"
proof (cases ls)
  case (Cons l r)
  have "nat k = Suc (nat (k - 1))" using assms by simp
  with Cons assms visit_collect [of k 0 r "[dropMark 1 l]"] show ?thesis by (simp add: marked_def)
qed (simp add: marked_def)

lemma countLoop_lines:
  assumes "rdWf b" "shortLines (length (mem b)) (pend b)" "length (textLines (pend b)) < fuel"
  shows "countLoop fuel b num = Some (num + int (length (textLines (pend b))))"
  using assms
proof (induction fuel arbitrary: b num)
  case (Suc fuel)
  show ?case
  proof (cases "10 \<in> set (pend b)")
    case True
    then obtain l rest where p: "pend b = l @ 10 # rest" "10 \<notin> set l" by (meson split_list_first)
    note t = textLines_step [OF p(2)]
    from Suc.prems(2) have sh: "length l < length (mem b)" "shortLines (length (mem b)) rest" by (auto simp: p t)
    from bufReadLine_line [OF Suc.prems(1) p sh(1)] obtain b' off k where
      r: "bufReadLine b = (b', off, k, False, False)" "rdWf b'" "pend b' = rest" "length (mem b') = length (mem b)" by blast
    then show ?thesis using Suc.IH [of b' "num + 1"] sh(2) Suc.prems(3) by (simp add: p t)
  next
    case False
    note t = textLines_last [OF False]
    have "length (pend b) < length (mem b)" using Suc.prems(2) by (simp add: t)
    from bufReadLine_last [OF Suc.prems(1) False this] obtain b' off where
      r: "bufReadLine b = (b', off, length (pend b), False, pend b = [])" "rdWf b'" "pend b' = []" "length (mem b') = length (mem b)" by blast
    have "countLoop fuel b' (num + 1) = Some (num + 1)" if "pend b \<noteq> []"
      using Suc.IH [of b' "num + 1"] r Suc.prems(2,3) that t textLines_last(2) [of "[]"] by (cases "mem b") auto
    then show ?thesis using r t by simp
  qed
qed simp

lemma read_first_lines:
  assumes "delivers deliver" "fs path = Some content" "shortLines defaultSize content"
  shows "FileReadLine deliver fs path k = Some (Some (take (nat (max 1 k)) (marked (textLines content))))"
proof -
  have "(if k \<le> 0 then 1 else k) = max 1 k" by simp
  then show ?thesis
    unfolding FileReadLine_def Let_def iterate_visit [where fs = fs and path = path, OF assms] by (simp add: collect_marked)
qed

text \<open>C19: A file all of whose lines are shorter than the reader's buffer is read line by line, however
  the operating system delivers it: the callback gets every line once, in order, numbered from 1, without
  its line end and without a byte order mark, until it returns false; \<open>FileReadLine\<close> returns the
  first lines, \<open>FileLineNum\<close> their number.\<close>

theorem file_lines_read:
  assumes "delivers deliver" "fs path = Some content" "shortLines 4096 content"
  shows "FileIterateLine deliver fs path callback s = Some (Some (visit callback 0 (textLines content) s)) \<and>
    FileReadLine deliver fs path k = Some (Some (take (nat (max 1 k)) (marked (textLines content)))) \<and>
    FileLineNum deliver fs path = Some (int (length (textLines content)))"
proof -
  have d: "concat (deliver content) = content" "[] \<notin> set (deliver content)" using assms(1) by (auto simp: delivers_def)
  note w = newReader_wf [OF d(2), of defaultSize]
  have "length (textLines content) < lineFuel (deliver content)" using textLines_length [of content] d(1) by (simp add: lineFuel_def)
  with w d assms have "FileLineNum deliver fs path = Some (int (length (textLines content)))"
    by (simp add: FileLineNum_def countLoop_lines)
  then show ?thesis
    using iterate_visit [where fs = fs and path = path, OF assms] read_first_lines [where fs = fs and path = path, OF assms] by simp
qed

lemma whole_delivers: "delivers (\<lambda>c. if c = [] then [] else [c])"
  by (simp add: delivers_def)

theorem file_lines_read_witness:
  "FileReadLine (\<lambda>c. if c = [] then [] else [c]) [''f'' \<mapsto> [239, 187, 191, 97, 13, 10, 98]] ''f'' 2 = Some (Some [[97], [98]])"
proof -
  let ?c = "[239, 187, 191, 97, 13, 10, 98] :: bytes"
  have "textLines ?c = [[239, 187, 191, 97], [98]]" "shortLines 4096 ?c"
    using textLines_step(1) [of "[239, 187, 191, 97, 13]" "[98]"] textLines_step(2) [of "[239, 187, 191, 97, 13]" 4096 "[98]"]
    by (simp_all add: textLines_last trimCR_def)
  then show ?thesis
    using file_lines_read [OF whole_delivers, of "[''f'' \<mapsto> ?c]" "''f''" ?c "\<lambda>_ _ s. (s, True)" "()" 2]
    by (simp add: marked_def dropMark_def numeral_2_eq_2)
qed

text \<open>A file written with a byte order mark is read back without it.\<close>

lemma bom_roundtrip:
  assumes "delivers deliver" "3 + length content \<le> room" "content \<noteq> []" "shortLines 4096 ([0xEF, 0xBB, 0xBF] @ content)"
  shows "FileReadLine deliver (fst (FileCreateAndWriteWithBom True room fs path content)) path (int (length content)) =
    Some (Some (textLines content))"
proof -
  let ?bom = "[0xEF, 0xBB, 0xBF] :: bytes"
  have m: "marked (textLines (?bom @ content)) = textLines content"
  proof (cases "10 \<in> set content")
    case True
    then obtain l rest where p: "content = l @ 10 # rest" "10 \<notin> set l" by (meson split_list_first)
    have "textLines ((?bom @ l) @ 10 # rest) = trimCR (?bom @ l) # textLines rest" using p(2) by (intro textLines_step) simp
    moreover have "trimCR (?bom @ l) = ?bom @ trimCR l" by (auto simp: trimCR_def butlast_append)
    ultimately show ?thesis using p by (simp add: marked_def dropMark_def textLines_step)
  next
    case False
    then show ?thesis using textLines_last [of "?bom @ content"] textLines_last [of content] assms(3)
      by (simp add: marked_def dropMark_def)
  qed
  have f: "fst (FileCreateAndWriteWithBom True room fs path content) path = Some (?bom @ content)"
    using assms(2) by (simp add: FileCreateAndWriteWithBom_def)
  have "int (length content) = max 1 (int (length content))" using assms(3) by (cases content) auto
  then show ?thesis
    using read_first_lines [where fs = "fst (FileCreateAndWriteWithBom True room fs path content)" and path = path, OF assms(1) f assms(4)]
      textLines_length [of content] by (metis m nat_int take_all)
qed

subsection \<open>Lines that do not fit\<close>

text \<open>The states of the reader while it reads a line of more than its size: after the first part, and
  after the second, which has overwritten the beginning of the first.\<close>

lemma first_part:
  assumes "length x = N" "0 < N" "10 \<notin> set x" "last x \<noteq> 13"
  shows "bufReadLine (newReader N [x @ rest]) =
    (\<lparr>mem = x, rdR = N, rdW = N, rdErr = False, rdSrc = (if rest = [] then [] else [rest])\<rparr>, 0, N, True, False)"
proof -
  let ?b0 = "newReader N [x @ rest]"
  let ?b1 = "\<lparr>mem = x, rdR = 0, rdW = N, rdErr = False, rdSrc = (if rest = [] then [] else [rest])\<rparr>"
  have ne: "x \<noteq> []" using assms(1,2) by auto
  have w0: "rdWf ?b0" "buffered ?b0 = []" using newReader_wf [of "[x @ rest]" N] ne
    by (auto simp: newReader_def buffered_def subseg_def)
  have "bufFill ?b0 = ?b1" using assms(1) ne by (auto simp: bufFill_def newReader_def osRead_def blit_def Let_def)
  then have "readSlice 0 ?b0 = readSlice 0 ?b1"
    using readSlice_unfold [OF w0(1), of 0] w0(2) assms(2) by (simp add: newReader_def)
  moreover have w1: "rdWf ?b1" "buffered ?b1 = x" using assms(1) by (auto simp: rdWf_def buffered_def subseg_def)
  have "readSlice 0 ?b1 = (?b1\<lparr>rdR := N\<rparr>, 0, N, SliceFull)"
    using readSlice_unfold [OF w1(1), of 0] w1(2) assms(1,3) by simp
  ultimately have "readSlice 0 ?b0 = (?b1\<lparr>rdR := N\<rparr>, 0, N, SliceFull)" by simp
  moreover have "x ! (N - 1) = last x" using ne assms(1) by (simp add: last_conv_nth)
  ultimately show ?thesis using assms(2,4) by (simp add: bufReadLine_def byteAt_def)
qed

lemma second_part:
  assumes "length x = N" "0 < N" "10 \<notin> set y" "Suc (length y) \<le> N" "y = [] \<or> last y \<noteq> 13"
  shows "bufReadLine \<lparr>mem = x, rdR = N, rdW = N, rdErr = False, rdSrc = [y @ [10]]\<rparr> =
    (\<lparr>mem = y @ 10 # drop (Suc (length y)) x, rdR = Suc (length y), rdW = Suc (length y), rdErr = False, rdSrc = []\<rparr>, 0, length y, False, False)"
proof -
  let ?b1 = "\<lparr>mem = x, rdR = N, rdW = N, rdErr = False, rdSrc = [y @ [10]]\<rparr>"
  let ?b2 = "\<lparr>mem = y @ 10 # drop (Suc (length y)) x, rdR = 0, rdW = Suc (length y), rdErr = False, rdSrc = []\<rparr>"
  have w1: "rdWf ?b1" "buffered ?b1 = []" using assms(1) by (auto simp: rdWf_def buffered_def subseg_def)
  have "bufFill ?b1 = ?b2" using assms(1,4) by (simp add: bufFill_def osRead_def blit_def subseg_def Let_def)
  then have r: "readSlice 0 ?b1 = readSlice 0 ?b2"
    using readSlice_unfold [OF w1(1), of 0] w1(2) assms(1,2) by simp
  have w2: "rdWf ?b2" "buffered ?b2 = y @ [10]" using assms(1,4) by (auto simp: rdWf_def buffered_def subseg_def)
  have "takeWhile (\<lambda>c. c \<noteq> 10) (y @ [10]) = y" using assms(3) by (auto simp: takeWhile_tail takeWhile_eq_all_conv)
  then have "readSlice 0 ?b1 = (?b2\<lparr>rdR := Suc (length y)\<rparr>, 0, Suc (length y), SliceOk)"
    unfolding r using readSlice_unfold [OF w2(1), of 0] w2(2) by (simp add: Let_def)
  moreover have "\<not> (1 < Suc (length y) \<and> (y @ 10 # drop (Suc (length y)) x) ! (Suc (length y) - 2) = 13)"
    using assms(5) by (cases y rule: rev_cases) (auto simp: nth_append)
  ultimately show ?thesis by (auto simp: bufReadLine_def byteAt_def)
qed

text \<open>For a file of one such line that is read by full reads, the text that is passed is known exactly.\<close>

lemma long_line_exact:
  assumes "fs path = Some (x @ y @ [10])" "length x = 4096" "0 < length y" "length y < 4096" "10 \<notin> set (x @ y)" "13 \<notin> set (x @ y)"
  shows "FileReadLine (\<lambda>c. [c]) fs path 1 = Some (Some [dropMark 1 ((y @ 10 # drop (Suc (length y)) x) @ y)])"
proof -
  let ?m = "y @ 10 # drop (Suc (length y)) x"
  let ?b1 = "\<lparr>mem = x, rdR = 4096, rdW = 4096, rdErr = False, rdSrc = [y @ [10]]\<rparr>"
  let ?b2 = "\<lparr>mem = ?m, rdR = Suc (length y), rdW = Suc (length y), rdErr = False, rdSrc = []\<rparr>"
  let ?cb = "\<lambda>n l content. if int n \<le> 1 then (content @ [l], True) else (content, False)"
  have ne: "x \<noteq> []" "y \<noteq> []" using assms(2,3) by auto
  have l: "last x \<noteq> 13" "last y \<noteq> 13" using last_in_set [OF ne(1)] last_in_set [OF ne(2)] assms(6) by (metis Un_iff set_append)+
  have r1: "bufReadLine (newReader 4096 [x @ y @ [10]]) = (?b1, 0, 4096, True, False)"
    using first_part [of x 4096 "y @ [10]"] assms l by simp
  have r2: "bufReadLine ?b1 = (?b2, 0, length y, False, False)"
    using second_part [of x 4096 y] assms l by simp
  have m: "length ?m = 4096" using assms(2,4) by simp
  have sub: "subseg 0 (length y) ?m = y" "subseg 0 4096 ?m = ?m" using m by (simp_all add: subseg_def)
  have p: "prefixLoop (Suc k) ?b1 (InBuf 0 4096) = Some (?b2, Own (?m @ y), False)" for k
    using assms(3) m sub by (simp add: r2)
  have w: "rdWf ?b2" "pend ?b2 = []" "length (mem ?b2) = 4096" using m assms(2,4) by (auto simp: rdWf_def pend_def buffered_def subseg_def)
  have eof: "lineLoop (Suc k) 1 ?b2 ?cb s = Some s" for k s
    using lineLoop_visit [OF w(1), of "Suc k" 1 ?cb s] w(2,3) textLines_last(2) [of "[]" 4096] by simp
  obtain k where k: "lineFuel [x @ y @ [10]] = Suc (Suc (Suc k))" by (simp add: lineFuel_def)
  have "lineLoop (Suc (Suc (Suc k))) 0 (newReader 4096 [x @ y @ [10]]) ?cb [] = Some [dropMark 1 (?m @ y)]"
    using eof [of "Suc k"] by (subst lineLoop.simps) (simp add: readWholeLine_def r1 p del: lineLoop.simps prefixLoop.simps)
  then show ?thesis by (simp add: FileReadLine_def FileIterateLine_def assms(1) k del: lineLoop.simps)
qed

text \<open>If the last line of a file has no newline and is exactly as long as the buffer, it is lost: neither
  read nor counted.\<close>

theorem full_last_line_lost:
  assumes "fs path = Some x" "length x = 4096" "10 \<notin> set x" "13 \<notin> set x"
  shows "FileReadLine (\<lambda>c. [c]) fs path k = Some (Some []) \<and> FileLineNum (\<lambda>c. [c]) fs path = Some 0"
proof -
  let ?b1 = "\<lparr>mem = x, rdR = 4096, rdW = 4096, rdErr = False, rdSrc = []\<rparr>"
  have ne: "x \<noteq> []" using assms(2) by auto
  have l: "last x \<noteq> 13" using last_in_set [OF ne] assms(4) by metis
  have r1: "bufReadLine (newReader 4096 [x]) = (?b1, 0, 4096, True, False)"
    using first_part [of x 4096 "[]"] assms l by simp
  have w: "rdWf ?b1" "pend ?b1 = []" using assms(2) by (auto simp: rdWf_def pend_def buffered_def subseg_def)
  from bufReadLine_last [OF w(1)] w(2) assms(2) obtain b2 off where
    r2: "bufReadLine ?b1 = (b2, off, 0, False, True)" "length (mem b2) = 4096" by auto
  have p: "prefixLoop (Suc k) ?b1 (InBuf 0 4096) = Some (b2\<lparr>mem := blit 4096 [] (mem b2)\<rparr>, InBuf 0 4096, True)" for k
    by (simp add: r2 subseg_def)
  have q: "skipLoop (Suc (Suc k)) (newReader 4096 [x]) = Some (b2, True)" for k by (simp add: r1 r2)
  obtain f where f: "lineFuel [x] = Suc (Suc f)" by (simp add: lineFuel_def)
  have "lineLoop (Suc (Suc f)) 0 (newReader 4096 [x]) cb s = Some s" for cb and s :: "bytes list"
    by (subst lineLoop.simps) (simp add: readWholeLine_def r1 p del: prefixLoop.simps)
  moreover have "countLoop (Suc (Suc f)) (newReader 4096 [x]) 0 = Some 0"
    by (subst countLoop.simps) (simp add: q del: skipLoop.simps)
  ultimately show ?thesis by (simp add: FileReadLine_def FileIterateLine_def FileLineNum_def assms(1) f Let_def
      del: lineLoop.simps countLoop.simps)
qed

theorem full_last_line_lost_witness:
  "FileReadLine (\<lambda>c. [c]) [''f'' \<mapsto> replicate 4096 97] ''f'' 1 = Some (Some [])"
  using full_last_line_lost [of "[''f'' \<mapsto> replicate 4096 97]" "''f''" "replicate 4096 97" 1] by simp

subsection \<open>Reading ends on every file\<close>

lemma bufReadLine_progress:
  assumes "rdWf b" "2 \<le> length (mem b)"
  shows "\<exists>b' off n pre eof. bufReadLine b = (b', off, n, pre, eof) \<and> rdWf b' \<and> length (mem b') = length (mem b) \<and>
    (eof \<or> length (pend b') < length (pend b)) \<and> (pre \<longrightarrow> \<not> eof) \<and> length (pend b') \<le> length (pend b)"
proof -
  let ?N = "length (mem b)"
  consider (line) l rest where "pend b = l @ 10 # rest" "10 \<notin> set l" "length l < ?N"
    | (last) "10 \<notin> set (pend b)" "length (pend b) < ?N" | (full) "10 \<notin> set (take ?N (pend b))" "?N \<le> length (pend b)"
  proof (cases "10 \<in> set (pend b)")
    case True
    then obtain l rest where p: "pend b = l @ 10 # rest" "10 \<notin> set l" by (meson split_list_first)
    show ?thesis
    proof (cases "length l < ?N")
      case False
      then show ?thesis using p by (intro full) (auto dest: in_set_takeD)
    qed (use line p in blast)
  next
    case False
    then show ?thesis using last full by (metis in_set_takeD not_le)
  qed
  then show ?thesis
  proof cases
    case line
    from bufReadLine_line [OF assms(1) line] obtain b' off n where
      "bufReadLine b = (b', off, n, False, False)" "rdWf b'" "pend b' = rest" "length (mem b') = length (mem b)" by blast
    then show ?thesis using line(1) by auto
  next
    case last
    from bufReadLine_last [OF assms(1) last] obtain b' off where
      "bufReadLine b = (b', off, length (pend b), False, pend b = [])" "rdWf b'" "pend b' = []" "length (mem b') = length (mem b)" by blast
    then show ?thesis by (cases "pend b = []") auto
  next
    case full
    from readSlice_full [OF searched_0 [OF assms(1)] full] obtain b' where
      r: "readSlice 0 b = (b', 0, ?N, SliceFull)" and w: "rdWf b'" "pend b' = drop ?N (pend b)" "mem b' = take ?N (pend b)"
        "rdR b' = ?N" "rdW b' = ?N" by blast
    let ?b = "b'\<lparr>rdR := ?N - 1\<rparr>"
    have m: "length (mem b') = ?N" using w(3) full(2) by simp
    have "length (buffered ?b) = 1" using m assms(2) w(5) by (simp add: buffered_def)
    moreover have "concat (rdSrc b') = pend b'" using w(4,5) by (simp add: pend_def buffered_def subseg_def)
    ultimately have "length (pend ?b) < length (pend b)" using w(2) full(2) assms(2) by (simp add: pend_def)
    moreover have "rdWf ?b" using w m assms(2) by (auto simp: rdWf_def)
    moreover have "length (pend b') < length (pend b)" using w(2) full(2) assms(2) by auto
    moreover have "bufReadLine b = (?b, 0, ?N - 1, True, False) \<or> bufReadLine b = (b', 0, ?N, True, False)"
      using r w(4) by (simp add: bufReadLine_def)
    ultimately show ?thesis using w(1) m by (elim disjE) auto
  qed
qed

lemma appendLine_keeps:
  assumes "rdWf b" "appendLine b line nx = (b', line')"
  shows "rdWf b' \<and> length (mem b') = length (mem b) \<and> length (pend b') = length (pend b)"
  using assms by (cases line) (auto simp: rdWf_def pend_def buffered_def split: if_splits)

lemma prefixLoop_ends:
  assumes "rdWf b" "2 \<le> length (mem b)" "length (pend b) < fuel"
  shows "\<exists>b' line' eof. prefixLoop fuel b line = Some (b', line', eof) \<and> rdWf b' \<and> length (mem b') = length (mem b) \<and>
    length (pend b') \<le> length (pend b)"
  using assms
proof (induction fuel arbitrary: b line)
  case (Suc fuel)
  from bufReadLine_progress [OF Suc.prems(1,2)] obtain b1 off n pre eof where
    r: "bufReadLine b = (b1, off, n, pre, eof)" "rdWf b1" "length (mem b1) = length (mem b)"
      "eof \<or> length (pend b1) < length (pend b)" "pre \<longrightarrow> \<not> eof" "length (pend b1) \<le> length (pend b)" by blast
  obtain b2 line2 where a: "appendLine b1 line (subseg off (off + n) (mem b1)) = (b2, line2)" by fastforce
  note k = appendLine_keeps [OF r(2) a]
  show ?case
  proof (cases pre)
    case True
    with Suc.IH [of b2 line2] k r Suc.prems show ?thesis by (auto simp: r(1) a)
  next
    case False
    with k r show ?thesis by (simp add: r(1) a)
  qed
qed simp

lemma lineLoop_ends:
  assumes "rdWf b" "2 \<le> length (mem b)" "length (pend b) + 2 \<le> fuel"
  shows "\<exists>s'. lineLoop fuel n b callback s = Some s'"
  using assms
proof (induction fuel arbitrary: n b s)
  case (Suc fuel)
  from bufReadLine_progress [OF Suc.prems(1,2)] obtain b1 off k pre eof where
    r: "bufReadLine b = (b1, off, k, pre, eof)" "rdWf b1" "length (mem b1) = length (mem b)"
      "eof \<or> length (pend b1) < length (pend b)" "pre \<longrightarrow> \<not> eof" "length (pend b1) \<le> length (pend b)" by blast
  have "\<exists>b2 line2 eof2. readWholeLine fuel b = Some (b2, line2, eof2) \<and>
      (eof2 \<or> rdWf b2 \<and> length (mem b2) = length (mem b) \<and> length (pend b2) + 2 \<le> fuel)"
  proof (cases pre)
    case True
    have lt: "length (pend b1) < fuel" using True r(4,5) Suc.prems(3) by auto
    from prefixLoop_ends [OF r(2) _ lt, of "InBuf off k"] r(3) Suc.prems(2) obtain b2 line2 eof2 where
      "prefixLoop fuel b1 (InBuf off k) = Some (b2, line2, eof2)" "rdWf b2" "length (mem b2) = length (mem b1)"
        "length (pend b2) \<le> length (pend b1)" by auto
    then show ?thesis using True r Suc.prems(3) by (auto simp: readWholeLine_def)
  next
    case False
    then show ?thesis using r Suc.prems(3) by (auto simp: readWholeLine_def)
  qed
  then obtain b2 line2 eof2 where w: "readWholeLine fuel b = Some (b2, line2, eof2)"
      "eof2 \<or> rdWf b2 \<and> length (mem b2) = length (mem b) \<and> length (pend b2) + 2 \<le> fuel" by blast
  obtain s' g where c: "callback (Suc n) (dropMark (Suc n) (lineBytes b2 line2)) s = (s', g)" by fastforce
  show ?case
  proof (cases "eof2 \<or> \<not> g")
    case True
    then show ?thesis by (auto simp: w(1) c)
  next
    case False
    with Suc.IH [of b2 "Suc n" s'] w(2) Suc.prems(2) show ?thesis by (simp add: w(1) c)
  qed
qed simp

text \<open>C34: Reading a file line by line comes to an end on every file and for every callback, with lines of any
  length, and whatever the pieces in which the file is delivered.\<close>

theorem file_lines_terminate:
  assumes "delivers deliver"
  shows "\<exists>r. FileIterateLine deliver fs path callback s = Some r"
proof (cases "fs path")
  case (Some content)
  have d: "concat (deliver content) = content" "[] \<notin> set (deliver content)" using assms by (auto simp: delivers_def)
  note w = newReader_wf [OF d(2), of defaultSize]
  have "\<exists>s'. lineLoop (lineFuel (deliver content)) 0 (newReader defaultSize (deliver content)) callback s = Some s'"
    using w d(1) by (intro lineLoop_ends) (auto simp: lineFuel_def)
  then show ?thesis by (auto simp: FileIterateLine_def Some)
qed (simp add: FileIterateLine_def)

theorem file_lines_terminate_witness:
  "\<exists>r. FileIterateLine (\<lambda>c. if c = [] then [] else [c]) [''f'' \<mapsto> replicate 9000 97] ''f'' (\<lambda>n l s. (s + length l, True)) 0 = Some r"
  by (rule file_lines_terminate [OF whole_delivers])

subsection \<open>A long line is corrupted\<close>

text \<open>The second part of a line of more than the buffer: wherever it lies in the buffer, the newline
  that ends it lies there as well.\<close>

lemma second_part_newline:
  assumes "rdWf b" "pend b = y @ 10 # rest" "10 \<notin> set y" "length y < length (mem b)" "13 \<notin> set y"
  shows "\<exists>b' off. bufReadLine b = (b', off, length y, False, False) \<and> rdWf b' \<and> pend b' = rest \<and>
    length (mem b') = length (mem b) \<and> subseg off (off + length y) (mem b') = y \<and> 10 \<in> set (mem b')"
proof -
  from readSlice_line [OF searched_0 [OF assms(1)] assms(2-4)] obtain b' off where
    r: "readSlice 0 b = (b', off, Suc (length y), SliceOk)" and w: "rdWf b'" "pend b' = rest" "length (mem b') = length (mem b)"
    and o: "off + Suc (length y) \<le> length (mem b')" "subseg off (off + Suc (length y)) (mem b') = y @ [10]" by blast
  have at: "mem b' ! (off + k) = (y @ [10]) ! k" if "k < Suc (length y)" for k using subseg_nth [OF o(2) that o(1)] .
  have nl: "mem b' ! (off + length y) = 10" using at [of "length y"] by simp
  have cr: "\<not> (1 < Suc (length y) \<and> byteAt b' (off + Suc (length y) - 2) = 13)"
  proof (cases y rule: rev_cases)
    case (snoc z a)
    with at [of "length z"] assms(5) show ?thesis by (auto simp: byteAt_def nth_append)
  qed simp
  have "bufReadLine b = (b', off, length y, False, False)"
    unfolding bufReadLine_def r using nl cr by (auto simp: byteAt_def)
  moreover have "10 \<in> set (mem b')" using nl o(1) by (metis add_Suc_right less_eq_Suc_le nth_mem)
  moreover have "subseg off (off + length y) (mem b') = y" using subseg_take [of off "length y" "Suc (length y)" "mem b'"] o(2) by simp
  ultimately show ?thesis using w by blast
qed

lemma first_line_long:
  assumes "rdWf b" "pend b = l @ 10 # rest" "10 \<notin> set l" "13 \<notin> set l"
    "length (mem b) < length l" "length l < 2 * length (mem b)"
  shows "\<exists>b' m. readWholeLine (Suc fuel) b = Some (b', Own (m @ drop (length (mem b)) l), False) \<and> rdWf b' \<and> pend b' = rest \<and>
    length (mem b') = length (mem b) \<and> length m = length (mem b) \<and> 10 \<in> set m"
proof -
  let ?N = "length (mem b)"
  let ?y = "drop ?N l"
  have tk: "take ?N (pend b) = take ?N l" "drop ?N (pend b) = ?y @ 10 # rest" using assms(2,5) by simp_all
  have "10 \<notin> set (take ?N (pend b))" "?N \<le> length (pend b)" using tk(1) assms(2,3,5) by (auto dest: in_set_takeD)
  from readSlice_full [OF searched_0 [OF assms(1)] this] obtain b1 where
    r: "readSlice 0 b = (b1, 0, ?N, SliceFull)" and w: "rdWf b1" "pend b1 = ?y @ 10 # rest" "mem b1 = take ?N l"
    using tk by auto
  have m1: "length (mem b1) = ?N" using w(3) assms(5) by simp
  have "byteAt b1 (?N - 1) \<noteq> 13" if "0 < ?N"
  proof -
    have "byteAt b1 (?N - 1) = l ! (?N - 1)" using that w(3) by (simp add: byteAt_def)
    moreover have "l ! (?N - 1) \<in> set l" using assms(5) by (intro nth_mem) simp
    ultimately show ?thesis using assms(4) by metis
  qed
  then have r1: "bufReadLine b = (b1, 0, ?N, True, False)" using r by (auto simp: bufReadLine_def)
  have "10 \<notin> set ?y" "length ?y < length (mem b1)" "13 \<notin> set ?y" using assms(3-6) m1 by (auto dest: in_set_dropD)
  from second_part_newline [OF w(1,2) this] obtain b2 off where
    r2: "bufReadLine b1 = (b2, off, length ?y, False, False)" "rdWf b2" "pend b2 = rest" "length (mem b2) = ?N"
      "subseg off (off + length ?y) (mem b2) = ?y" "10 \<in> set (mem b2)"
    unfolding m1 by blast
  have "\<not> 0 + ?N + length ?y \<le> length (mem b2)" using r2(4) assms(5) by simp
  then have "appendLine b2 (InBuf 0 ?N) ?y = (b2, Own (mem b2 @ ?y))" using r2(4) by (simp add: subseg_def)
  then have "prefixLoop (Suc fuel) b1 (InBuf 0 ?N) = Some (b2, Own (mem b2 @ ?y), False)"
    using r2(1,5) by (simp del: appendLine.simps)
  then have "readWholeLine (Suc fuel) b = Some (b2, Own (mem b2 @ ?y), False)"
    by (simp add: readWholeLine_def r1 del: prefixLoop.simps)
  with r2 show ?thesis by blast
qed

lemma dropMark_newline: "10 \<in> set l \<Longrightarrow> 10 \<in> set (dropMark n l)"
proof -
  assume l: "10 \<in> set l"
  show ?thesis
  proof (cases "n = 1 \<and> 2 < length l \<and> l ! 0 = 239 \<and> l ! 1 = 187 \<and> l ! 2 = 191")
    case True
    then obtain a b c r where "l = a # b # c # r" by (metis (no_types) One_nat_def Suc_1 length_0_conv length_Cons less_Suc0 less_Suc_eq list.exhaust not_less_zero)
    with True l show ?thesis by (simp add: dropMark_def)
  qed (use l in \<open>auto simp: dropMark_def\<close>)
qed

text \<open>The callback of \<open>FileReadLine\<close> for one line ends the loop at the second.\<close>

lemma one_line_ends:
  assumes "rdWf b" "2 \<le> length (mem b)" "length (pend b) + 2 \<le> fuel"
  shows "lineLoop fuel 1 b (\<lambda>n l content. if int n \<le> 1 then (content @ [l], True) else (content, False)) s = Some s"
proof -
  obtain k where k: "fuel = Suc k" using assms(3) by (cases fuel) auto
  let ?cb = "\<lambda>n l content. if int n \<le> 1 then (content @ [l], True) else (content, False)"
  from lineLoop_ends [OF assms, of 1 ?cb s] obtain s' where "lineLoop fuel 1 b ?cb s = Some s'" by blast
  moreover from this have "s' = s" unfolding k by (auto split: option.splits prod.splits if_splits)
  ultimately show ?thesis by simp
qed

text \<open>C38: A line that is longer than the buffer of 4096 bytes, and ends with a newline before it has filled the
  buffer twice, is passed to the callback with a wrong text: its first part is a slice of the buffer
  that the second part overwrites before the two are joined.  So the first line of any file whose
  first line has 4097 to 8191 bytes, none of them a carriage return, comes out with a newline in it,
  whatever follows and in whatever pieces the file is delivered.\<close>

theorem long_line_corrupted:
  assumes "delivers deliver" "fs path = Some (l @ 10 # rest)" "10 \<notin> set l" "13 \<notin> set l" "4096 < length l" "length l < 8192"
  shows "\<exists>m. FileReadLine deliver fs path 1 = Some (Some [dropMark 1 (m @ drop 4096 l)]) \<and> length m = 4096 \<and>
    10 \<in> set (dropMark 1 (m @ drop 4096 l)) \<and> dropMark 1 (m @ drop 4096 l) \<noteq> dropMark 1 l"
proof -
  let ?src = "deliver (l @ 10 # rest)"
  let ?b = "newReader 4096 ?src"
  let ?cb = "\<lambda>n l content. if int n \<le> 1 then (content @ [l], True) else (content, False)"
  have d: "concat ?src = l @ 10 # rest" "[] \<notin> set ?src" using assms(1) by (auto simp: delivers_def)
  note w = newReader_wf [OF d(2), of 4096]
  obtain k where k: "lineFuel ?src = Suc (Suc k)" "length rest + 2 \<le> Suc k" using d(1) assms(5) by (simp add: lineFuel_def)
  from first_line_long [of ?b l rest k] w d(1) assms(3-6) obtain b' m where
    r: "readWholeLine (Suc k) ?b = Some (b', Own (m @ drop 4096 l), False)" "rdWf b'" "pend b' = rest"
      "length (mem b') = 4096" "length m = 4096" "10 \<in> set m" by auto
  have "lineLoop (Suc k) 1 b' ?cb s = Some s" for s using r k(2) by (intro one_line_ends) auto
  then have "lineLoop (lineFuel ?src) 0 ?b ?cb [] = Some [dropMark 1 (m @ drop 4096 l)]"
    unfolding k(1) by (subst lineLoop.simps) (simp add: r(1) del: lineLoop.simps)
  then have "FileReadLine deliver fs path 1 = Some (Some [dropMark 1 (m @ drop 4096 l)])"
    by (simp add: FileReadLine_def FileIterateLine_def assms(2) del: lineLoop.simps)
  moreover have n: "10 \<in> set (dropMark 1 (m @ drop 4096 l))" using r(6) by (intro dropMark_newline) simp
  moreover have "10 \<notin> set (dropMark 1 l)" using assms(3) by (auto simp: dropMark_def dest: in_set_dropD)
  ultimately show ?thesis using r(5) by metis
qed

theorem long_line_corrupted_witness:
  "\<exists>w. FileReadLine (\<lambda>c. if c = [] then [] else [c]) [''f'' \<mapsto> replicate 5000 97 @ 10 # [98, 10]] ''f'' 1 = Some (Some [w]) \<and>
     10 \<in> set w \<and> w \<noteq> replicate 5000 97"
proof -
  have "dropMark 1 (replicate 5000 97) = replicate 5000 97" by (simp add: dropMark_def)
  with long_line_corrupted [OF whole_delivers, of "[''f'' \<mapsto> replicate 5000 97 @ 10 # [98, 10]]" "''f''" "replicate 5000 97" "[98, 10]"]
  show ?thesis by auto
qed

text \<open>An \<open>STFile\<close> returns the next line with its number.\<close>

lemma stReadLine_next:
  assumes "stOpen f" "rdWf (stBuf f)" "pend (stBuf f) = l @ 10 # rest" "10 \<notin> set l" "length l < length (mem (stBuf f))"
  shows "\<exists>f'. stReadLine fuel f = Some (f', trimCR l, stLine f + 1) \<and> stOpen f' \<and> stLine f' = stLine f + 1 \<and>
    rdWf (stBuf f') \<and> pend (stBuf f') = rest"
proof -
  from bufReadLine_line [OF assms(2-)] obtain b' off n where
    "bufReadLine (stBuf f) = (b', off, n, False, False)" "rdWf b'" "pend b' = rest" "subseg off (off + n) (mem b') = trimCR l" by blast
  then show ?thesis using assms(1) by (simp add: stReadLine_def readWholeLine_def Let_def)
qed

end
