(* ===== verification/Stdir.thy ===== *)
theory Stdir
  imports Gotext
begin

text \<open>
  Walking through directories, \<^verbatim>\<open>src/stutil/file.go\<close>.  A directory is a tree whose children are in the
  order in which \<open>filepath.Walk\<close> and \<open>ioutil.ReadDir\<close> list them; joining of path names in \<open>Walk\<close> is an
  argument (\<open>join\<close>).
\<close>

datatype dirNode = FileNode string | DirNode string "dirNode list"

fun nodeName :: "dirNode \<Rightarrow> string" where
  "nodeName (FileNode n) = n"
| "nodeName (DirNode n es) = n"

definition hasSuffix :: "string \<Rightarrow> string \<Rightarrow> bool" where
  "hasSuffix s p \<longleftrightarrow> hasPrefix (rev s) (rev p)"

text \<open>The filter \<^verbatim>\<open>txt|jpg\<close> of \<open>FileIterateDir\<close>.\<close>

definition matches :: "string \<Rightarrow> string \<Rightarrow> bool" where
  "matches filt path \<longleftrightarrow> filt = [] \<or> (\<exists>v \<in> set (textSplit filt ''|''). hasSuffix path v)"

text \<open>The state of the walk: whether the next directory is the root, the state of the callback, and
  whether the callback has stopped the walk.\<close>

record 's walkState =
  isSelf :: bool
  acc :: 's
  stopped :: bool

definition visitFile :: "string \<Rightarrow> (string \<Rightarrow> 's \<Rightarrow> 's \<times> bool) \<Rightarrow> string \<Rightarrow> 's walkState \<Rightarrow> 's walkState" where
  "visitFile filt callback path w =
     (if matches filt path then let (s, goOn) = callback path (acc w) in w\<lparr>acc := s, stopped := \<not> goOn\<rparr> else w)"

fun walkNode :: "(string \<Rightarrow> string \<Rightarrow> string) \<Rightarrow> string \<Rightarrow> bool \<Rightarrow> (string \<Rightarrow> 's \<Rightarrow> 's \<times> bool) \<Rightarrow> string \<Rightarrow> dirNode \<Rightarrow> 's walkState \<Rightarrow> 's walkState"
  and walkNodes :: "(string \<Rightarrow> string \<Rightarrow> string) \<Rightarrow> string \<Rightarrow> bool \<Rightarrow> (string \<Rightarrow> 's \<Rightarrow> 's \<times> bool) \<Rightarrow> string \<Rightarrow> dirNode list \<Rightarrow> 's walkState \<Rightarrow> 's walkState" where
  "walkNode join filt childrendir callback path (FileNode n) w = visitFile filt callback path w"
| "walkNode join filt childrendir callback path (DirNode n es) w =
     (if childrendir \<or> isSelf w then walkNodes join filt childrendir callback path es (w\<lparr>isSelf := False\<rparr>) else w)"
| "walkNodes join filt childrendir callback path [] w = w"
| "walkNodes join filt childrendir callback path (e # es) w =
     (let w1 = walkNode join filt childrendir callback (join path (nodeName e)) e w in
      if stopped w1 then w1 else walkNodes join filt childrendir callback path es w1)"

text \<open>The result is the state of the callback and whether the walk returned no error.\<close>

definition FileIterateDir ::
  "(string \<Rightarrow> string \<Rightarrow> string) \<Rightarrow> string \<Rightarrow> dirNode \<Rightarrow> string \<Rightarrow> bool \<Rightarrow> (string \<Rightarrow> 's \<Rightarrow> 's \<times> bool) \<Rightarrow> 's \<Rightarrow> 's \<times> bool" where
  "FileIterateDir join path root filt childrendir callback s =
     (let w = walkNode join filt childrendir callback path root \<lparr>isSelf = True, acc = s, stopped = False\<rparr>
      in (acc w, \<not> stopped w))"

definition FileIsHidden :: "string \<Rightarrow> bool" where
  "FileIsHidden path \<longleftrightarrow> (\<exists>s \<in> set (textSplit path ''/''). hasPrefix s ''.'')"

text \<open>\<open>FileReadDir\<close> enters the files and directories below a path into a map, which says of each whether
  it is a directory.\<close>

fun readNodes :: "string \<Rightarrow> bool \<Rightarrow> dirNode list \<Rightarrow> (string \<rightharpoonup> bool) \<Rightarrow> (string \<rightharpoonup> bool)" where
  "readNodes path noHidden [] m = m"
| "readNodes path noHidden (FileNode n # es) m =
     (let f = path @ ''/'' @ n in
      readNodes path noHidden es (if m f \<noteq> None \<or> noHidden \<and> FileIsHidden f then m else m(f \<mapsto> False)))"
| "readNodes path noHidden (DirNode n sub # es) m =
     (let f = path @ ''/'' @ n in
      readNodes path noHidden es
        (if m f \<noteq> None \<or> noHidden \<and> FileIsHidden f then m else readNodes f noHidden sub (m(f \<mapsto> True))))"

definition FileReadDir :: "string \<Rightarrow> bool \<Rightarrow> dirNode list \<Rightarrow> (string \<rightharpoonup> bool) \<Rightarrow> (string \<rightharpoonup> bool)" where
  "FileReadDir path noHidden entries m = readNodes path noHidden entries m"


subsection \<open>What a walk visits\<close>

text \<open>The files below a node in order, and the files directly in it.\<close>

fun filesBelow :: "(string \<Rightarrow> string \<Rightarrow> string) \<Rightarrow> string \<Rightarrow> dirNode \<Rightarrow> string list" where
  "filesBelow join path (FileNode n) = [path]"
| "filesBelow join path (DirNode n es) = concat (map (\<lambda>e. filesBelow join (join path (nodeName e)) e) es)"

definition filesIn :: "(string \<Rightarrow> string \<Rightarrow> string) \<Rightarrow> string \<Rightarrow> dirNode list \<Rightarrow> string list" where
  "filesIn join path es = concat (map (\<lambda>e. case e of FileNode n \<Rightarrow> [join path n] | DirNode n sub \<Rightarrow> []) es)"

text \<open>The callback along a list of files.\<close>

fun along :: "string \<Rightarrow> (string \<Rightarrow> 's \<Rightarrow> 's \<times> bool) \<Rightarrow> string list \<Rightarrow> 's walkState \<Rightarrow> 's walkState" where
  "along filt callback [] w = w"
| "along filt callback (p # ps) w = (let w1 = visitFile filt callback p w in if stopped w1 then w1 else along filt callback ps w1)"

lemma along_append:
  "\<not> stopped w \<Longrightarrow> along filt cb (ps @ qs) w = (let w1 = along filt cb ps w in if stopped w1 then w1 else along filt cb qs w1)"
  by (induction ps arbitrary: w) (auto simp: Let_def)

lemma visitFile_self [simp]: "isSelf (visitFile filt cb p w) = isSelf w"
  by (simp add: visitFile_def split: prod.split)

lemma along_self [simp]: "isSelf (along filt cb ps w) = isSelf w"
  by (induction ps arbitrary: w) (simp_all add: Let_def)

lemma self_off: "\<not> isSelf w \<Longrightarrow> w\<lparr>isSelf := False\<rparr> = w"
  by (cases w) simp

lemma walk_all:
  "\<not> stopped w \<Longrightarrow> \<not> isSelf w \<Longrightarrow> walkNode join filt True cb path e w = along filt cb (filesBelow join path e) w"
proof (induction e arbitrary: path w)
  case (FileNode n)
  then show ?case by (simp add: Let_def)
next
  case (DirNode n es)
  have "walkNodes join filt True cb path us w = along filt cb (concat (map (\<lambda>e. filesBelow join (join path (nodeName e)) e) us)) w"
    if "set us \<subseteq> set es" "\<not> stopped w" "\<not> isSelf w" for us and w
    using that
  proof (induction us arbitrary: w)
    case (Cons u us)
    then have "walkNode join filt True cb (join path (nodeName u)) u w = along filt cb (filesBelow join (join path (nodeName u)) u) w"
      using DirNode.IH by simp
    with Cons show ?case by (simp add: Let_def along_append)
  qed simp
  from this [of es w] DirNode.prems show ?case by (simp add: self_off)
qed

lemma walk_children:
  "\<not> stopped w \<Longrightarrow> \<not> isSelf w \<Longrightarrow> walkNodes join filt False cb path es w = along filt cb (filesIn join path es) w"
proof (induction es arbitrary: w)
  case (Cons e es)
  then show ?case by (cases e) (simp_all add: filesIn_def Let_def)
qed (simp add: filesIn_def)

text \<open>A walk through a directory passes the files that match the filter to the callback in order,
  until it returns false: all files below the directory, or only those directly in it.\<close>

theorem iterate_dir_visits:
  "FileIterateDir join path (DirNode n es) filt childrendir cb s =
     (let files = (if childrendir then filesBelow join path (DirNode n es) else filesIn join path es);
          w = along filt cb files \<lparr>isSelf = False, acc = s, stopped = False\<rparr>
      in (acc w, \<not> stopped w))"
proof (cases childrendir)
  case True
  then show ?thesis
    using walk_all [of "\<lparr>isSelf = False, acc = s, stopped = False\<rparr>" join filt cb path "DirNode n es"]
    by (simp add: FileIterateDir_def)
next
  case False
  then show ?thesis by (simp add: FileIterateDir_def walk_children)
qed

text \<open>\<open>FileReadDir\<close> without hidden files finds nothing when it is called for the current directory:
  every path it looks at begins with the component \<^verbatim>\<open>.\<close>, which counts as hidden.\<close>

theorem hidden_finds_nothing:
  "FileReadDir ''.'' True entries m = m"
proof -
  have "FileIsHidden (''.'' @ ''/'' @ n)" for n
    using textSplit_piece [of "CHR ''/''" "''.''" n] by (simp add: FileIsHidden_def)
  then have "readNodes ''.'' True es m = m" for es
    by (induction "''.''" True es m rule: readNodes.induct) (simp_all add: Let_def)
  then show ?thesis by (simp add: FileReadDir_def)
qed

end
