(* ===== verification/Mysqlgen.thy ===== *)
theory Mysqlgen
  imports Gotext
begin

text \<open>
  The generator of Go source files from a MySQL schema, \<^verbatim>\<open>src/stmysqlgen\<close>: reading of the schema
  (\<^verbatim>\<open>readdbcfg.go\<close>), the text of the generated functions (\<^verbatim>\<open>tablereader.go\<close>, \<^verbatim>\<open>dbreader.go\<close>) and the
  generator (\<^verbatim>\<open>gensql.go\<close>).

  Texts are strings of single bytes, and the types of columns are taken to be ASCII, on which
  \<open>strings.ToLower\<close> works byte by byte.  The database is a function from the name of a schema and a
  query to the rows or an error; a row that cannot be scanned is an error as well.  The package
  variable \<open>Tables\<close> is passed to the functions that read it.
\<close>

subsection \<open>The schema\<close>

record msColumn =
  colName :: string
  colType :: string
  colKey :: string
  colNull :: bool

record msTable =
  tblName :: string
  tblDB :: string
  tblCols :: "msColumn list"
  CreateCmd :: string
  PriKeyNum :: int
  PriKey :: msColumn

definition noColumn :: msColumn where
  "noColumn = \<lparr>colName = [], colType = [], colKey = [], colNull = False\<rparr>"

type_synonym dberr = string
type_synonym dbrow = "dberr + string list"
type_synonym database = "string \<Rightarrow> string \<Rightarrow> dberr + dbrow list"

text \<open>The rows of \<^verbatim>\<open>SHOW COLUMNS\<close>: field, type, null, key, default, extra.\<close>

definition scanArity :: "nat \<Rightarrow> string list \<Rightarrow> dberr" where
  "scanArity n row = ''sql: expected '' @ decimal (length row) @ '' destination arguments in Scan, not '' @ decimal n"

definition scanColumn :: "dbrow \<Rightarrow> dberr + msColumn" where
  "scanColumn r =
     (case r of
        Inl e \<Rightarrow> Inl e
      | Inr [field, typ', null, key, defau, extra] \<Rightarrow>
          Inr \<lparr>colName = field, colType = typ', colKey = key, colNull = (null = ''YES'')\<rparr>
      | Inr row \<Rightarrow> Inl (scanArity 6 row))"

definition addColumn :: "msTable \<Rightarrow> msColumn \<Rightarrow> msTable" where
  "addColumn table col =
     (let table' = (if colKey col = ''PRI'' then table\<lparr>PriKeyNum := PriKeyNum table + 1, PriKey := col\<rparr> else table)
      in table'\<lparr>tblCols := tblCols table' @ [col]\<rparr>)"

fun readColumns :: "msTable \<Rightarrow> dbrow list \<Rightarrow> dberr + msTable" where
  "readColumns table [] = Inr table"
| "readColumns table (r # rs) =
     (case scanColumn r of Inl e \<Rightarrow> Inl e | Inr col \<Rightarrow> readColumns (addColumn table col) rs)"

definition readColumn :: "database \<Rightarrow> msTable \<Rightarrow> dberr + msTable" where
  "readColumn db table =
     (case db (tblDB table) (''SHOW COLUMNS FROM '' @ tblName table) of Inl e \<Rightarrow> Inl e | Inr rows \<Rightarrow> readColumns table rows)"

fun readCreates :: "msTable \<Rightarrow> dbrow list \<Rightarrow> dberr + msTable" where
  "readCreates table [] = Inr table"
| "readCreates table (r # rs) =
     (case r of
        Inl e \<Rightarrow> Inl e
      | Inr [name, createstr] \<Rightarrow> readCreates (table\<lparr>CreateCmd := filter (\<lambda>c. c \<noteq> CHR 0x60) createstr\<rparr>) rs
      | Inr row \<Rightarrow> Inl (scanArity 2 row))"

definition readCreateCmd :: "database \<Rightarrow> msTable \<Rightarrow> dberr + msTable" where
  "readCreateCmd db table =
     (case db (tblDB table) (''SHOW CREATE TABLE '' @ tblName table) of Inl e \<Rightarrow> Inl e | Inr rows \<Rightarrow> readCreates table rows)"

text \<open>The name in a row of \<^verbatim>\<open>show tables\<close> or \<^verbatim>\<open>show databases\<close>; errors of this \<open>Scan\<close> are ignored.\<close>

definition scanName :: "dbrow \<Rightarrow> string" where
  "scanName r = (case r of Inr [name] \<Rightarrow> name | _ \<Rightarrow> [])"

fun readTables :: "database \<Rightarrow> string \<Rightarrow> msTable list \<Rightarrow> dbrow list \<Rightarrow> dberr option \<times> msTable list" where
  "readTables db dbname tables [] = (None, tables)"
| "readTables db dbname tables (r # rs) =
     (let table = \<lparr>tblName = scanName r, tblDB = dbname, tblCols = [], CreateCmd = [], PriKeyNum = 0, PriKey = noColumn\<rparr> in
      case readColumn db table of
        Inl e \<Rightarrow> (Some e, tables)
      | Inr table1 \<Rightarrow>
          (case readCreateCmd db table1 of
             Inl e \<Rightarrow> (Some e, tables)
           | Inr table2 \<Rightarrow> readTables db dbname (tables @ [table2]) rs))"

text \<open>\<open>readDB\<close> with \<open>readTable\<close>; \<open>sql.Open\<close> does not connect, so that only the queries can fail.\<close>

definition readDB :: "database \<Rightarrow> string \<Rightarrow> msTable list \<Rightarrow> dberr option \<times> msTable list" where
  "readDB db dbname tables =
     (case db dbname ''show tables'' of Inl e \<Rightarrow> (Some e, tables) | Inr rows \<Rightarrow> readTables db dbname tables rows)"

definition showDB :: "database \<Rightarrow> dberr + string list" where
  "showDB db = (case db [] ''show databases'' of Inl e \<Rightarrow> Inl e | Inr rows \<Rightarrow> Inr (map scanName rows))"


subsection \<open>Types\<close>

definition lowerChar :: "char \<Rightarrow> char" where
  "lowerChar c = (if (65 :: nat) \<le> of_char c \<and> of_char c \<le> (90 :: nat) then char_of ((of_char c :: nat) + 32) else c)"

definition ToLower :: "string \<Rightarrow> string" where
  "ToLower s = map lowerChar s"

definition contains :: "string \<Rightarrow> string \<Rightarrow> bool" where
  "contains s sub \<longleftrightarrow> 0 \<le> textIndex s sub"

definition getGOType :: "string \<Rightarrow> string" where
  "getGOType typ0 =
     (let t = ToLower typ0 in
      if t = ''bool'' then ''bool''
      else if contains t ''int'' then
        let ret = (if contains t ''tiny'' then ''int8'' else if contains t ''small'' then ''int16''
                   else if contains t ''medium'' then ''int32'' else if contains t ''big'' then ''int64'' else ''int32'')
        in if contains t ''unsigned'' then ''u'' @ ret else ret
      else if contains t ''float'' then ''float32''
      else if contains t ''double'' \<or> contains t ''decimal'' then ''float64''
      else if contains t ''char'' \<or> contains t ''text'' then ''string''
      else if contains t ''bit'' \<or> contains t ''blob'' \<or> contains t ''binary'' then ''[]byte''
      else if t = ''datetime'' \<or> t = ''date'' \<or> t = ''time'' \<or> t = ''timestamp'' then ''time.Time''
      else ''sql.RawBytes'')"


subsection \<open>The texts for a table\<close>

text \<open>The fixed parts of the generated functions.\<close>

definition countCode :: string where \<open>
  countCode =
     ''	if len(whereArgs) > 0 {\<newline>'' @
     ''		sqlcmd += whereArgs[0].(string)\<newline>'' @
     ''	}\<newline>'' @
     ''	var (\<newline>'' @
     ''		rows *sql.Rows\<newline>'' @
     ''		err  error\<newline>'' @
     ''	)\<newline>'' @
     ''	if len(whereArgs) > 1 {\<newline>'' @
     ''		rows, err = t.DB.Query(sqlcmd, whereArgs[1:]...)\<newline>'' @
     ''	} else {\<newline>'' @
     ''		rows, err = t.DB.Query(sqlcmd)\<newline>'' @
     ''	}\<newline>'' @
     ''	defer func() {\<newline>'' @
     ''        if rows != nil {\<newline>'' @
     ''            rows.Close()\<newline>'' @
     ''        }\<newline>'' @
     ''     }()\<newline>'' @
     ''	if err != nil {\<newline>'' @
     ''		return 0, err\<newline>'' @
     ''	}\<newline>'' @
     ''	for rows.Next() {\<newline>'' @
     ''		var num int\<newline>'' @
     ''		err = rows.Scan(&num)\<newline>'' @
     ''		return num, err\<newline>'' @
     ''	}\<newline>'' @
     ''	return 0, nil\<newline>''\<close>

definition maxCode :: string where \<open>
  maxCode =
     ''	if len(whereArgs) > 0 {\<newline>'' @
     ''		sqlcmd += whereArgs[0].(string)\<newline>'' @
     ''	}\<newline>'' @
     ''	sqlcmd += " order by c desc limit 1"\<newline>'' @
     ''	var (\<newline>'' @
     ''		rows *sql.Rows\<newline>'' @
     ''		err  error\<newline>'' @
     ''	)\<newline>'' @
     ''	if len(whereArgs) > 1 {\<newline>'' @
     ''		rows, err = t.DB.Query(sqlcmd, whereArgs[1:]...)\<newline>'' @
     ''	} else {\<newline>'' @
     ''		rows, err = t.DB.Query(sqlcmd)\<newline>'' @
     ''	}\<newline>'' @
     ''	defer func() {\<newline>'' @
     ''        if rows != nil {\<newline>'' @
     ''            rows.Close()\<newline>'' @
     ''        }\<newline>'' @
     ''     }()\<newline>'' @
     ''	if err != nil {\<newline>'' @
     ''		return "", err\<newline>'' @
     ''	}\<newline>'' @
     ''	for rows.Next() {\<newline>'' @
     ''		var max string\<newline>'' @
     ''		err = rows.Scan(&max)\<newline>'' @
     ''		return max, err\<newline>'' @
     ''	}\<newline>'' @
     ''	return "", nil\<newline>''\<close>

definition selectOneCode :: string where \<open>
  selectOneCode =
     ''	if len(whereArgs) > 0 {\<newline>'' @
     ''		sqlcmd += whereArgs[0].(string)\<newline>'' @
     ''	}\<newline>'' @
     ''	sqlcmd += " limit 1"\<newline>'' @
     ''	var (\<newline>'' @
     ''		rows *sql.Rows\<newline>'' @
     ''		err  error\<newline>'' @
     ''	)\<newline>'' @
     ''	if len(whereArgs) > 1 {\<newline>'' @
     ''		rows, err = t.DB.Query(sqlcmd, whereArgs[1:]...)\<newline>'' @
     ''	} else {\<newline>'' @
     ''		rows, err = t.DB.Query(sqlcmd)\<newline>'' @
     ''	}\<newline>'' @
     ''	defer func() {\<newline>'' @
     ''        if rows != nil {\<newline>'' @
     ''            rows.Close()\<newline>'' @
     ''        }\<newline>'' @
     ''     }()\<newline>'' @
     ''	if err != nil {\<newline>'' @
     ''		return nil, err\<newline>'' @
     ''	}\<newline>''\<close>

definition priKeyCode :: string where \<open>
  priKeyCode =
     ''\<newline>'' @
     ''	var (\<newline>'' @
     ''		rows *sql.Rows\<newline>'' @
     ''		err  error\<newline>'' @
     ''	)\<newline>'' @
     ''	rows, err = t.DB.Query(sqlcmd, key)\<newline>'' @
     ''	defer func() {\<newline>'' @
     ''        if rows != nil {\<newline>'' @
     ''            rows.Close()\<newline>'' @
     ''        }\<newline>'' @
     ''     }()\<newline>'' @
     ''	if err != nil {\<newline>'' @
     ''		return nil, err\<newline>'' @
     ''	}\<newline>''\<close>

definition selectCode :: string where \<open>
  selectCode =
     ''	if len(whereArgs) > 0 {\<newline>'' @
     ''		sqlcmd += whereArgs[0].(string)\<newline>'' @
     ''	}\<newline>'' @
     ''	var (\<newline>'' @
     ''		rows *sql.Rows\<newline>'' @
     ''		err  error\<newline>'' @
     ''	)\<newline>'' @
     ''	if len(whereArgs) > 1 {\<newline>'' @
     ''		rows, err = t.DB.Query(sqlcmd, whereArgs[1:]...)\<newline>'' @
     ''	} else {\<newline>'' @
     ''		rows, err = t.DB.Query(sqlcmd)\<newline>'' @
     ''	}\<newline>'' @
     ''	defer func() {\<newline>'' @
     ''        if rows != nil {\<newline>'' @
     ''            rows.Close()\<newline>'' @
     ''        }\<newline>'' @
     ''     }()\<newline>'' @
     ''	if err != nil {\<newline>'' @
     ''		return nil, err\<newline>'' @
     ''	}\<newline>''\<close>

definition allPriKeyScan :: string where \<open>
  allPriKeyScan =
     ''\<newline>'' @
     ''		err = rows.Scan(&result)\<newline>'' @
     ''		if err != nil {\<newline>'' @
     ''			return nil, err\<newline>'' @
     ''		}\<newline>'' @
     ''		results = append(results, result)\<newline>'' @
     ''	}\<newline>'' @
     ''	return results, nil\<newline>'' @
     ''}\<newline>''\<close>

text \<open>The names of the generated types, and the loop over the columns that writes a separator after all but the last.\<close>

definition tname :: "msTable \<Rightarrow> string" where
  "tname table = ''T_'' @ tblDB table @ ''_'' @ tblName table"

definition dname :: "msTable \<Rightarrow> string" where
  "dname table = ''D_'' @ tblDB table @ ''_'' @ tblName table"

fun colLoop :: "nat \<Rightarrow> nat \<Rightarrow> (msColumn \<Rightarrow> string) \<Rightarrow> msColumn list \<Rightarrow> string" where
  "colLoop n i f [] = []"
| "colLoop n i f (c # cs) = f c @ (if int i \<noteq> int n - 1 then '', '' else []) @ colLoop n (Suc i) f cs"

definition eachCol :: "msTable \<Rightarrow> (msColumn \<Rightarrow> string) \<Rightarrow> string" where
  "eachCol table f = colLoop (length (tblCols table)) 0 f (tblCols table)"

definition genTableSqlStruct :: "msTable \<Rightarrow> string" where \<open>
  genTableSqlStruct table =
     ''type '' @ tname table @ '' struct{\<newline>'' @
     ''	DB *sql.DB\<newline>'' @
     ''}\<newline>''\<close>

definition dataField :: "msColumn \<Rightarrow> string" where \<open>
  dataField c =
     ''	F_'' @ colName c @ '' '' @ getGOType (colType c) @ '' `field:'' @ colName c @ '' type:'' @ colType c @ '' key:'' @ colKey c @ ''`\<newline>''\<close>

definition genTableDataStruct :: "msTable \<Rightarrow> string" where \<open>
  genTableDataStruct table =
     ''type '' @ dname table @ '' struct{\<newline>'' @
     concat (map dataField (tblCols table)) @ ''}\<newline>''\<close>

definition genTableRecordCount :: "msTable \<Rightarrow> string" where \<open>
  genTableRecordCount table =
     ''//select count(*) as num from '' @ tblDB table @ ''.'' @ tblName table @ '' where x=?\<newline>'' @
     ''func (t *'' @ tname table @ '') Count(whereArgs ...interface{}) (int, error) {\<newline>'' @
     ''	sqlcmd := "select count(*) as num from '' @ tblName table @ '' "\<newline>'' @
     countCode @ ''}\<newline>''\<close>

definition genTableRecordMax :: "msTable \<Rightarrow> string" where \<open>
  genTableRecordMax table =
     ''//select column as c from '' @ tblDB table @ ''.'' @ tblName table @ '' where x=? order by c desc limit 1\<newline>'' @
     ''func (t *'' @ tname table @ '') Max(column string, whereArgs ...interface{}) (string, error) {\<newline>'' @
     ''	sqlcmd := "select " + column + " as c from '' @ tblName table @ '' "\<newline>'' @
     maxCode @ ''}\<newline>''\<close>

definition texty :: "string \<Rightarrow> bool" where
  "texty t \<longleftrightarrow> contains t ''bit'' \<or> contains t ''char'' \<or> contains t ''text'' \<or> contains t ''blob'' \<or> contains t ''binary''"

definition timey :: "string \<Rightarrow> bool" where
  "timey t \<longleftrightarrow> t = ''datetime'' \<or> t = ''date'' \<or> t = ''time'' \<or> t = ''timestamp''"

definition nullDefault :: "string \<Rightarrow> string" where \<open>
  nullDefault typ0 =
     (let t = ToLower typ0 in
      if texty t then [CHR 0x27, CHR 0x27] else if timey t then ''DATE('1970-01-01 00:00:00')'' else ''0'')\<close>

definition selectCol :: "msColumn \<Rightarrow> string" where
  "selectCol c = (if colNull c then ''IFNULL('' @ colName c @ '', '' @ nullDefault (colType c) @ '')'' else colName c)"

definition genSelectAllCols :: "msTable \<Rightarrow> string" where
  "genSelectAllCols table = eachCol table selectCol"

definition scanTarget :: "msColumn \<Rightarrow> string" where
  "scanTarget c = ''&result.F_'' @ colName c"

definition genSelectOneScan :: "msTable \<Rightarrow> string" where \<open>
  genSelectOneScan table =
     ''	for rows.Next() {\<newline>'' @
     ''		var result '' @ dname table @ ''\<newline>'' @
     ''		err = rows.Scan('' @ eachCol table scanTarget @ '')\<newline>'' @
     ''		return &result, err\<newline>'' @
     ''	}\<newline>''\<close>

definition genTableSelectOne :: "msTable \<Rightarrow> string" where \<open>
  genTableSelectOne table =
     ''//select * from '' @ tblDB table @ ''.'' @ tblName table @ '' where x=? limit 1\<newline>'' @
     ''func (t *'' @ tname table @ '') SelectOne(whereArgs ...interface{}) (*'' @ dname table @ '', error) {\<newline>'' @
     ''	sqlcmd := "select '' @ genSelectAllCols table @ '' from '' @ tblName table @ '' "\<newline>'' @
     selectOneCode @ genSelectOneScan table @ ''	return nil, nil\<newline>'' @
     ''}\<newline>''\<close>

definition genTableSelectPriKey :: "msTable \<Rightarrow> string" where \<open>
  genTableSelectPriKey table =
     (if PriKeyNum table \<noteq> 1 then [] else
     ''//select * from '' @ tblDB table @ ''.'' @ tblName table @ '' where '' @ colName (PriKey table) @ ''=? limit 1\<newline>'' @
     ''func (t *'' @ tname table @ '') SelectPriKey(key '' @ getGOType (colType (PriKey table)) @ '') (*'' @ dname table @ '', error) {\<newline>'' @
     ''	sqlcmd := "select '' @ genSelectAllCols table @ '' from '' @ tblName table @ '' where '' @ colName (PriKey table) @ ''=?  limit 1"\<newline>'' @
     priKeyCode @ genSelectOneScan table @ ''	return nil, nil\<newline>'' @
     ''}\<newline>'')\<close>

definition genSelectAllScan :: "msTable \<Rightarrow> string" where \<open>
  genSelectAllScan table =
     ''	var results []'' @ dname table @ ''\<newline>'' @
     ''	for rows.Next() {\<newline>'' @
     ''		var result '' @ dname table @ ''\<newline>'' @
     ''		err = rows.Scan('' @ eachCol table scanTarget @ '')\<newline>'' @
     ''		if err != nil {\<newline>'' @
     ''			return nil,err\<newline>'' @
     ''		}\<newline>'' @
     ''		results = append(results, result)\<newline>'' @
     ''	}\<newline>''\<close>

definition genTableSelectAll :: "msTable \<Rightarrow> string" where \<open>
  genTableSelectAll table =
     ''//select * from '' @ tblDB table @ ''.'' @ tblName table @ '' where x=?\<newline>'' @
     ''func (t *'' @ tname table @ '') Select(whereArgs ...interface{}) ([]'' @ dname table @ '', error) {\<newline>'' @
     ''	sqlcmd := "select '' @ genSelectAllCols table @ '' from '' @ tblName table @ '' "\<newline>'' @
     selectCode @ genSelectAllScan table @ ''	return results, nil\<newline>'' @
     ''}\<newline>''\<close>

definition genTableAllPriKey :: "msTable \<Rightarrow> string" where \<open>
  genTableAllPriKey table =
     ''//select '' @ colName (PriKey table) @ '' from '' @ tblDB table @ ''.'' @ tblName table @ '' where x=?\<newline>'' @
     ''func (t *'' @ tname table @ '') AllPriKey(whereArgs ...interface{}) ([]'' @ getGOType (colType (PriKey table)) @ '', error) {\<newline>'' @
     ''	sqlcmd := "select '' @ colName (PriKey table) @ '' from '' @ tblName table @ '' "\<newline>'' @
     selectCode @ ''	var results []'' @ getGOType (colType (PriKey table)) @ ''\<newline>'' @
     ''	for rows.Next() {\<newline>'' @
     ''		var result '' @ getGOType (colType (PriKey table)) @ allPriKeyScan\<close>

definition genReplaceValue :: "msTable \<Rightarrow> string" where \<open>
  genReplaceValue table =
     ''('' @ eachCol table (\<lambda>c. ''?'') @ '')''\<close>

definition dataArg :: "msColumn \<Rightarrow> string" where
  "dataArg c = ''data.F_'' @ colName c"

definition genTableReplaceOne :: "msTable \<Rightarrow> string \<Rightarrow> string \<Rightarrow> string" where \<open>
  genTableReplaceOne table fn oper =
     ''//replace into '' @ tblDB table @ ''.'' @ tblName table @ '' (x, y, z)values(?, ?, ?)\<newline>'' @
     ''func (t *'' @ tname table @ '') '' @ fn @ ''(data '' @ dname table @ '') (sql.Result, error) {\<newline>'' @
     ''	sqlcmd := "'' @ oper @ '' into '' @ tblName table @ '' ('' @ eachCol table colName @ '')values'' @ genReplaceValue table @ ''"\<newline>'' @
     ''	return t.DB.Exec(sqlcmd, '' @ eachCol table dataArg @ '')\<newline>'' @
     ''}\<newline>''\<close>

definition batchArg :: "msColumn \<Rightarrow> string" where \<open>
  batchArg c =
     ''		valins = append(valins, d.F_'' @ colName c @ '')\<newline>''\<close>

definition genReplaceBatchValue :: "msTable \<Rightarrow> string" where \<open>
  genReplaceBatchValue table =
     ''	valins := make([]interface{}, 0, len(data))\<newline>'' @
     ''	for _,d:=range data{\<newline>'' @
     concat (map batchArg (tblCols table)) @ ''	}\<newline>''\<close>

definition genTableReplaceBatch :: "msTable \<Rightarrow> string \<Rightarrow> string \<Rightarrow> string" where \<open>
  genTableReplaceBatch table fn oper =
     ''//replace into '' @ tblDB table @ ''.'' @ tblName table @ '' (x, y)values(?, ?),(?, ?)\<newline>'' @
     ''func (t *'' @ tname table @ '') '' @ fn @ ''(data []'' @ dname table @ '') (sql.Result, error) {\<newline>'' @
     ''	var sqlcmd strings.Builder\<newline>'' @
     ''	sqlcmd.WriteString("'' @ oper @ '' into '' @ tblName table @ '' ('' @ eachCol table colName @ '')values")\<newline>'' @
     ''	vals := "'' @ genReplaceValue table @ ''"\<newline>'' @
     ''	for i:=0;i<len(data);i++{\<newline>'' @
     ''		sqlcmd.WriteString(vals)\<newline>'' @
     ''		if i!=len(data)-1{\<newline>'' @
     ''			sqlcmd.WriteString(", ")\<newline>'' @
     ''		}\<newline>'' @
     ''	}\<newline>'' @
     genReplaceBatchValue table @ ''\<newline>'' @
     ''	return t.DB.Exec(sqlcmd.String(), valins...)\<newline>'' @
     ''}\<newline>''\<close>

definition genTableCreate :: "msTable \<Rightarrow> string" where \<open>
  genTableCreate table =
     ''//create table '' @ tblDB table @ ''.'' @ tblName table @ ''\<newline>'' @
     ''func (t *'' @ tname table @ '') Create() (sql.Result, error) {\<newline>'' @
     ''	sqlcmd := `'' @ CreateCmd table @ ''`\<newline>'' @
     ''	return t.DB.Exec(sqlcmd)\<newline>'' @
     ''}\<newline>''\<close>

definition genTableDelete :: "msTable \<Rightarrow> string" where \<open>
  genTableDelete table =
     ''//delete from '' @ tblDB table @ ''.'' @ tblName table @ '' where x=?\<newline>'' @
     ''func (t *'' @ tname table @ '') Delete(where string, whereArgs ...interface{}) (sql.Result, error) {\<newline>'' @
     ''	sqlcmd := "delete from '' @ tblName table @ '' " + where\<newline>'' @
     ''	return t.DB.Exec(sqlcmd, whereArgs...)\<newline>'' @
     ''}\<newline>''\<close>

definition genTableDeletePriKey :: "msTable \<Rightarrow> string" where \<open>
  genTableDeletePriKey table =
     (if PriKeyNum table \<noteq> 1 then [] else
     ''//delete from '' @ tblDB table @ ''.'' @ tblName table @ '' where '' @ colName (PriKey table) @ ''=?\<newline>'' @
     ''func (t *'' @ tname table @ '') DeletePriKey(key '' @ getGOType (colType (PriKey table)) @ '') (sql.Result, error) {\<newline>'' @
     ''	sqlcmd := "delete from '' @ tblName table @ '' where '' @ colName (PriKey table) @ ''=?"\<newline>'' @
     ''	return t.DB.Exec(sqlcmd, key)\<newline>'' @
     ''}\<newline>'')\<close>

definition genTableUpdate :: "msTable \<Rightarrow> string" where \<open>
  genTableUpdate table =
     ''//update '' @ tblDB table @ ''.'' @ tblName table @ '' set x=?,y=? where w=?\<newline>'' @
     ''func (t *'' @ tname table @ '') Update(data map[string]interface{},where string, whereArgs ...interface{}) (sql.Result, error) {\<newline>'' @
     ''	var sqlcmd strings.Builder\<newline>'' @
     ''	sqlcmd.WriteString("update '' @ tblName table @ '' set ")\<newline>'' @
     ''	isfirst:=true\<newline>'' @
     ''	valins := make([]interface{}, 0, len(data)+len(whereArgs))\<newline>'' @
     ''	for k,v:=range data{\<newline>'' @
     ''		if !isfirst{\<newline>'' @
     ''			sqlcmd.WriteString(",")\<newline>'' @
     ''		}\<newline>'' @
     ''		sqlcmd.WriteString(k)\<newline>'' @
     ''		sqlcmd.WriteString("=? ")\<newline>'' @
     ''		isfirst=false\<newline>'' @
     ''		valins = append(valins, v)\<newline>'' @
     ''	}\<newline>'' @
     ''	valins = append(valins, whereArgs...)\<newline>'' @
     ''	sqlcmd.WriteString(where)\<newline>'' @
     ''	return t.DB.Exec(sqlcmd.String(), valins...)\<newline>'' @
     ''}\<newline>''\<close>

definition genTableUpdatePriKey :: "msTable \<Rightarrow> string" where \<open>
  genTableUpdatePriKey table =
     ''//update '' @ tblDB table @ ''.'' @ tblName table @ '' set x=?,y=? where '' @ colName (PriKey table) @ ''=?\<newline>'' @
     ''func (t *'' @ tname table @ '') UpdatePriKey(data map[string]interface{},key '' @ getGOType (colType (PriKey table)) @ '') (sql.Result, error) {\<newline>'' @
     ''	var sqlcmd strings.Builder\<newline>'' @
     ''	sqlcmd.WriteString("update '' @ tblName table @ '' set ")\<newline>'' @
     ''	isfirst:=true\<newline>'' @
     ''	valins := make([]interface{}, 0, len(data)+1)\<newline>'' @
     ''	for k,v:=range data{\<newline>'' @
     ''		if !isfirst{\<newline>'' @
     ''			sqlcmd.WriteString(",")\<newline>'' @
     ''		}\<newline>'' @
     ''		sqlcmd.WriteString(k)\<newline>'' @
     ''		sqlcmd.WriteString("=? ")\<newline>'' @
     ''		isfirst=false\<newline>'' @
     ''		valins = append(valins, v)\<newline>'' @
     ''	}\<newline>'' @
     ''	valins = append(valins, key)\<newline>'' @
     ''	sqlcmd.WriteString(" where '' @ colName (PriKey table) @ ''=?")\<newline>'' @
     ''	return t.DB.Exec(sqlcmd.String(), valins...)\<newline>'' @
     ''}\<newline>''\<close>


subsection \<open>The texts for a database\<close>

definition createCode :: string where \<open>
  createCode =
     ''	var conurl strings.Builder\<newline>'' @
     ''	fmt.Fprintf(&conurl, "%s:%s@tcp(%s:%d)/", user, pwd, ip, port)\<newline>'' @
     ''\<newline>'' @
     ''	var err error\<newline>'' @
     ''	db, err := sql.Open("mysql", conurl.String())\<newline>'' @
     ''	if err != nil {\<newline>'' @
     ''		return nil, err\<newline>'' @
     ''	}\<newline>'' @
     ''	defer db.Close()\<newline>''\<close>

definition genDBImport :: "string \<Rightarrow> string" where \<open>
  genDBImport packagename =
     ''package '' @ packagename @ ''\<newline>'' @
     ''import (\<newline>'' @
     ''	"fmt"\<newline>'' @
     ''	"strings"\<newline>'' @
     ''	"time"\<newline>'' @
     ''	"database/sql"\<newline>'' @
     ''	_ "github.com/go-sql-driver/mysql"\<newline>'' @
     '')\<newline>'' @
     ''var _ time.Time\<newline>''\<close>

definition genDBCreate :: "msTable list \<Rightarrow> string" where \<open>
  genDBCreate tables =
     (if tables = [] then [] else let table = hd tables in
     ''func DB_'' @ tblDB table @ ''_Create(user, pwd, ip string, port int) (sql.Result, error) {\<newline>'' @
     createCode @ ''	sqlcmd := "CREATE DATABASE IF NOT EXISTS '' @ tblDB table @ '';"\<newline>'' @
     ''	return db.Exec(sqlcmd)\<newline>'' @
     ''}\<newline>'')\<close>

definition structLine :: "msTable \<Rightarrow> string" where \<open>
  structLine t =
     ''	T_'' @ tblName t @ '' *'' @ tname t @ ''\<newline>''\<close>

definition genDBStruct :: "msTable list \<Rightarrow> string" where \<open>
  genDBStruct tables =
     (if tables = [] then [] else let table = hd tables in
     ''type DB_'' @ tblDB table @ '' struct{\<newline>'' @
     ''	DB *sql.DB\<newline>'' @
     ''	Charset string\<newline>'' @
     ''	ConnectTimeout uint32\<newline>'' @
     ''	ReadTimeout uint32\<newline>'' @
     ''	WriteTimeout uint32\<newline>'' @
     concat (map structLine tables) @ ''}\<newline>'')\<close>

definition genDBConfig :: "msTable list \<Rightarrow> string" where \<open>
  genDBConfig tables =
     (if tables = [] then [] else let table = hd tables in
     ''func (db *DB_'' @ tblDB table @ '') SetCharset(c string) {\<newline>'' @
     ''	 db.Charset = c\<newline>'' @
     ''}\<newline>'' @
     ''func (db *DB_'' @ tblDB table @ '') SetConnectTimeout(t uint32) {\<newline>'' @
     ''	 db.ConnectTimeout = t\<newline>'' @
     ''}\<newline>'' @
     ''func (db *DB_'' @ tblDB table @ '') SetReadTimeout(t uint32) {\<newline>'' @
     ''	 db.ReadTimeout = t\<newline>'' @
     ''}\<newline>'' @
     ''func (db *DB_'' @ tblDB table @ '') SetWriteTimeout(t uint32) {\<newline>'' @
     ''	 db.WriteTimeout = t\<newline>'' @
     ''}\<newline>'')\<close>

definition connectLine :: "msTable \<Rightarrow> string" where \<open>
  connectLine t =
     ''	db.T_'' @ tblName t @ '' = &'' @ tname t @ ''{DB:db.DB}\<newline>''\<close>

definition genDBConnect :: "msTable list \<Rightarrow> string" where \<open>
  genDBConnect tables =
     (if tables = [] then [] else let table = hd tables in
     ''func (db *DB_'' @ tblDB table @ '') Open(user, pwd, addr string) error {\<newline>'' @
     ''	if db.ConnectTimeout == 0 {\<newline>'' @
     ''		db.ConnectTimeout = 5\<newline>'' @
     ''	}\<newline>'' @
     ''	var conurl strings.Builder\<newline>'' @
     ''	fmt.Fprintf(&conurl, "%s:%s@tcp(%s)/%s?parseTime=true&timeout=%ds", user, pwd, addr, "'' @ tblDB table @ ''", db.ConnectTimeout)\<newline>'' @
     ''	if db.Charset != "" {\<newline>'' @
     ''		fmt.Fprintf(&conurl, "&charset=%s", db.Charset)\<newline>'' @
     ''	}\<newline>'' @
     ''	if db.ReadTimeout != 0 {\<newline>'' @
     ''		fmt.Fprintf(&conurl, "&readTimeout=%ds", db.ReadTimeout)\<newline>'' @
     ''	}\<newline>'' @
     ''	if db.WriteTimeout != 0 {\<newline>'' @
     ''		fmt.Fprintf(&conurl, "&writeTimeout=%ds", db.WriteTimeout)\<newline>'' @
     ''	}\<newline>'' @
     ''	\<newline>'' @
     ''	var err error\<newline>'' @
     ''	db.DB, err = sql.Open("mysql", conurl.String())\<newline>'' @
     ''	if err != nil {\<newline>'' @
     ''		return err\<newline>'' @
     ''	}\<newline>'' @
     concat (map connectLine tables) @ ''	return nil\<newline>'' @
     ''}\<newline>'' @
     ''func (db *DB_'' @ tblDB table @ '') Close() {\<newline>'' @
     ''	 db.DB.Close()\<newline>'' @
     ''}\<newline>'')\<close>


subsection \<open>The generator\<close>

definition tableText :: "msTable \<Rightarrow> string" where
  "tableText v =
     genTableSqlStruct v @ genTableDataStruct v @ genTableRecordCount v @ genTableRecordMax v @
     genTableSelectOne v @ genTableSelectPriKey v @ genTableSelectAll v @ genTableAllPriKey v @
     genTableReplaceOne v ''InsertOne'' ''insert'' @ genTableReplaceBatch v ''InsertBatch'' ''insert'' @
     genTableReplaceOne v ''ReplaceOne'' ''replace'' @ genTableReplaceBatch v ''ReplaceBatch'' ''replace'' @
     genTableCreate v @ genTableDelete v @ genTableDeletePriKey v @ genTableUpdate v @ genTableUpdatePriKey v"

definition fileText :: "string \<Rightarrow> msTable list \<Rightarrow> string" where
  "fileText packagename tables =
     genDBImport packagename @ genDBCreate tables @ genDBStruct tables @ genDBConfig tables @ genDBConnect tables @
     concat (map tableText tables)"

text \<open>The state of the generator is the package variable and the files; \<open>create\<close> is the error of
  creating a file, if any.  \<open>GenGOFile\<close> for the name of one schema, and the loop over all of them.\<close>

record genState =
  Tables :: "msTable list"
  goFiles :: "string \<rightharpoonup> string"

definition genOne :: "database \<Rightarrow> (string \<Rightarrow> dberr option) \<Rightarrow> string \<Rightarrow> string \<Rightarrow> genState \<Rightarrow> dberr option \<times> genState" where
  "genOne db create dbname packagename st =
     (case readDB db dbname [] of
        (Some e, tables) \<Rightarrow> (Some e, st\<lparr>Tables := tables\<rparr>)
      | (None, tables) \<Rightarrow>
          if tables = [] then (None, st\<lparr>Tables := tables\<rparr>)
          else let name = ''db_'' @ tblDB (hd tables) @ ''.go'' in
            (case create name of
               Some e \<Rightarrow> (Some e, st\<lparr>Tables := tables\<rparr>)
             | None \<Rightarrow> (None, st\<lparr>Tables := tables, goFiles := (goFiles st)(name \<mapsto> fileText packagename tables)\<rparr>)))"

fun genAll :: "database \<Rightarrow> (string \<Rightarrow> dberr option) \<Rightarrow> string list \<Rightarrow> string \<Rightarrow> genState \<Rightarrow> dberr option \<times> genState" where
  "genAll db create [] packagename st = (None, st)"
| "genAll db create (v # dbs) packagename st =
     (if v \<noteq> [] \<and> v \<noteq> ''information_schema'' then
        case genOne db create v packagename st of
          (Some e, st') \<Rightarrow> (Some e, st')
        | (None, st') \<Rightarrow> genAll db create dbs packagename st'
      else genAll db create dbs packagename st)"

definition GenGOFile :: "database \<Rightarrow> (string \<Rightarrow> dberr option) \<Rightarrow> string \<Rightarrow> string \<Rightarrow> genState \<Rightarrow> dberr option \<times> genState" where
  "GenGOFile db create dbname packagename st =
     (let st0 = st\<lparr>Tables := []\<rparr> in
      if dbname = [] then
        case showDB db of Inl e \<Rightarrow> (Some e, st0) | Inr dbs \<Rightarrow> genAll db create dbs packagename st0
      else genOne db create dbname packagename st0)"

end
