(* ===== verification/Mysqlgen_Props.thy ===== *)
theory Mysqlgen_Props
  imports Mysqlgen
begin

text \<open>
  What the generator of \<^verbatim>\<open>src/stmysqlgen\<close> promises: the generated inserts bind every column to its field,
  replacements of \<^verbatim>\<open>NULL\<close> have the type of their column, the tables are read with the right number of key
  columns, every schema gets its file, and a defect of the generated updates by key.
\<close>

subsection \<open>The loop over the columns\<close>

text \<open>It writes the items with a comma between them.\<close>

lemma colLoop_join: "n = i + length cs \<Longrightarrow> colLoop n i f cs = textJoin '', '' (map f cs)"
proof (induction cs arbitrary: i)
  case (Cons c cs)
  have "int i \<noteq> int n - 1 \<longleftrightarrow> cs \<noteq> []" using Cons.prems by auto
  with Cons show ?case by (cases cs) auto
qed simp

lemma eachCol_join: "eachCol t f = textJoin '', '' (map f (tblCols t))"
  by (simp add: eachCol_def colLoop_join)


subsection \<open>What a generated statement binds\<close>

text \<open>Unquoted MySQL identifiers.\<close>

definition identChar :: "char \<Rightarrow> bool" where
  "identChar c \<longleftrightarrow> (48 \<le> (of_char c :: nat) \<and> (of_char c :: nat) \<le> 57) \<or> (65 \<le> (of_char c :: nat) \<and> (of_char c :: nat) \<le> 90) \<or>
     (97 \<le> (of_char c :: nat) \<and> (of_char c :: nat) \<le> 122) \<or> c = CHR ''_'' \<or> c = CHR ''$''"

definition ident :: "string \<Rightarrow> bool" where
  "ident s \<longleftrightarrow> s \<noteq> [] \<and> (\<forall>c \<in> set s. identChar c)"

definition plainTable :: "msTable \<Rightarrow> bool" where
  "plainTable t \<longleftrightarrow> ident (tblName t) \<and> ident (tblDB t) \<and> tblCols t \<noteq> [] \<and> (\<forall>c \<in> set (tblCols t). ident (colName c))"

text \<open>The reader of a generated text: its string literals, and the parenthesised lists in a text.\<close>

fun everySecond :: "'a list \<Rightarrow> 'a list" where
  "everySecond (a # b # xs) = b # everySecond xs"
| "everySecond xs = []"

definition goLiterals :: "string \<Rightarrow> string list" where
  "goLiterals s = everySecond (textSplit s [CHR 0x22])"

definition parenLists :: "string \<Rightarrow> string list list" where
  "parenLists s = map (\<lambda>p. textSplit (takeWhile (\<lambda>c. c \<noteq> CHR '')'') p) '', '') (tl (textSplit s ''(''))"

lemma ident_no: "ident s \<Longrightarrow> \<not> identChar c \<Longrightarrow> c \<notin> set s"
  by (auto simp: ident_def)

lemma not_identChar:
  "\<not> identChar (CHR 0x22)" "\<not> identChar (CHR ''('')" "\<not> identChar (CHR '')'')" "\<not> identChar (CHR '','')" "\<not> identChar (CHR ''?'')"
  "\<not> identChar (CHR 0x60)"
  by (simp_all add: identChar_def)

lemma join_no:
  assumes "c \<noteq> CHR '',''" "c \<noteq> CHR '' ''" "\<forall>x \<in> set xs. c \<notin> set x"
  shows "c \<notin> set (textJoin '', '' xs)"
  using assms set_textJoin [of "'', ''" xs] by auto

lemma takeWhile_paren: "CHR '')'' \<notin> set x \<Longrightarrow> takeWhile (\<lambda>c. c \<noteq> CHR '')'') (x @ CHR '')'' # y) = x"
  by (subst takeWhile_append2) auto

lemma parenLists_step:
  assumes "CHR ''('' \<notin> set a" "CHR ''('' \<notin> set b" "CHR '')'' \<notin> set b"
  shows "parenLists (a @ CHR ''('' # b @ CHR '')'' # rest) = textSplit b '', '' # parenLists rest"
proof -
  have "textSplit (a @ CHR ''('' # b @ CHR '')'' # rest) ''('' =
      a # ((b @ [CHR '')'']) @ hd (textSplit rest ''('')) # tl (textSplit rest ''('')"
    using assms textSplit_pre [of "CHR ''(''" "b @ [CHR '')'']" rest] by (simp add: textSplit_piece)
  then show ?thesis using assms(3) by (simp add: parenLists_def takeWhile_paren)
qed

lemma parenLists_none: "CHR ''('' \<notin> set a \<Longrightarrow> parenLists a = []"
  by (simp add: parenLists_def textSplit_last)

lemmas noted = ident_no not_identChar plainTable_def

lemma split_cols:
  assumes "tblCols t \<noteq> []" "\<forall>c \<in> set (tblCols t). CHR '','' \<notin> set (f c)"
  shows "textSplit (eachCol t f) '', '' = map f (tblCols t)"
  using assms by (simp add: eachCol_join textSplit_textJoin)

lemma cols_no:
  assumes "c \<noteq> CHR '',''" "c \<noteq> CHR '' ''" "\<forall>x \<in> set (tblCols t). c \<notin> set (f x)"
  shows "c \<notin> set (eachCol t f)"
  using assms by (simp add: eachCol_join join_no)

text \<open>C23: The generated functions \<open>InsertOne\<close> and \<open>ReplaceOne\<close> of a table with unquoted names have one
  string literal, the statement; it lists the columns of the table in order, and one placeholder
  for each; and the call passes the fields of the data in the same order after the statement.\<close>

theorem insert_binds_columns:
  assumes "plainTable t" "ident fn" "ident oper"
  shows "\<exists>front sql rest. textSplit (genTableReplaceOne t fn oper) [CHR 0x22] = [front, sql, rest] \<and>
    goLiterals (genTableReplaceOne t fn oper) = [sql] \<and>
    parenLists sql = [map colName (tblCols t), replicate (length (tblCols t)) ''?''] \<and>
    parenLists rest = [''sqlcmd'' # map dataArg (tblCols t)]"
proof -
  let ?front = \<open>''//replace into '' @ tblDB t @ ''.'' @ tblName t @ '' (x, y, z)values(?, ?, ?)\<newline>'' @
     ''func (t *'' @ tname t @ '') '' @ fn @ ''(data '' @ dname t @ '') (sql.Result, error) {\<newline>'' @ ''	sqlcmd := ''\<close>
  let ?sql = "(oper @ '' into '' @ tblName t @ '' '') @ CHR ''('' # eachCol t colName @ CHR '')'' #
      ''values'' @ CHR ''('' # eachCol t (\<lambda>c. ''?'') @ CHR '')'' # []"
  let ?rest = \<open>''\<newline>	return t.DB.Exec'' @ CHR ''('' # (''sqlcmd, '' @ eachCol t dataArg) @ CHR '')'' # ''\<newline>}\<newline>''\<close>
  have e: "genTableReplaceOne t fn oper = ?front @ CHR 0x22 # ?sql @ CHR 0x22 # ?rest"
    by (simp add: genTableReplaceOne_def genReplaceValue_def)
  have no: "c \<notin> set (tblDB t)" "c \<notin> set (tblName t)" "c \<notin> set fn" "c \<notin> set oper"
    "c \<notin> set (tname t)" "c \<notin> set (dname t)" "\<forall>x \<in> set (tblCols t). c \<notin> set (colName x)" if "\<not> identChar c" for c
    using assms that by (auto simp: noted tname_def dname_def identChar_def)
  have q: "CHR 0x22 \<notin> set ?front" "CHR 0x22 \<notin> set ?sql" "CHR 0x22 \<notin> set ?rest"
    using no [of "CHR 0x22"] by (simp_all add: not_identChar cols_no dataArg_def)
  have s: "textSplit (genTableReplaceOne t fn oper) [CHR 0x22] = [?front, ?sql, ?rest]"
    unfolding e using q by (simp only: textSplit_piece textSplit_last not_False_eq_True)
  have l1: "parenLists ?sql = [map colName (tblCols t), replicate (length (tblCols t)) ''?'']"
  proof -
    have "parenLists ?sql = textSplit (eachCol t colName) '', '' # textSplit (eachCol t (\<lambda>c. ''?'')) '', '' # parenLists []"
      using no [of "CHR ''(''"] no [of "CHR '')''"]
      by (subst parenLists_step, simp_all add: not_identChar cols_no del: append.simps,
          subst parenLists_step) (simp_all add: cols_no)
    then show ?thesis using no [of "CHR '',''"] assms(1)
      by (simp add: not_identChar split_cols plainTable_def parenLists_none map_replicate_const)
  qed
  have l2: "parenLists ?rest = [''sqlcmd'' # map dataArg (tblCols t)]"
  proof -
    have a: "parenLists ?rest = textSplit (''sqlcmd, '' @ eachCol t dataArg) '', '' # parenLists ''\<newline>}\<newline>''"
      using no [of "CHR ''(''"] no [of "CHR '')''"]
      by (subst parenLists_step) (simp_all add: not_identChar cols_no dataArg_def)
    have b: "''sqlcmd, '' @ eachCol t dataArg = textJoin '', '' (''sqlcmd'' # map dataArg (tblCols t))"
      using assms(1) by (cases "map dataArg (tblCols t)") (auto simp: eachCol_join plainTable_def)
    have c: "textSplit (textJoin '', '' (''sqlcmd'' # map dataArg (tblCols t))) '', '' = ''sqlcmd'' # map dataArg (tblCols t)"
      using no [of "CHR '',''"] by (intro textSplit_textJoin) (auto simp: dataArg_def not_identChar)
    show ?thesis unfolding a unfolding b c by (simp add: parenLists_none)
  qed
  show ?thesis using s l1 l2 by (auto simp: goLiterals_def)
qed

theorem insert_binds_columns_witness:
  "\<exists>front sql rest. textSplit (genTableReplaceOne
      \<lparr>tblName = ''role'', tblDB = ''game'', tblCols = [\<lparr>colName = ''id'', colType = ''int(11)'', colKey = ''PRI'', colNull = False\<rparr>,
        \<lparr>colName = ''name'', colType = ''varchar(32)'', colKey = [], colNull = True\<rparr>], CreateCmd = [], PriKeyNum = 1, PriKey = noColumn\<rparr>
      ''InsertOne'' ''insert'') [CHR 0x22] = [front, sql, rest] \<and>
    parenLists sql = [[''id'', ''name''], [''?'', ''?'']] \<and> parenLists rest = [[''sqlcmd'', ''data.F_id'', ''data.F_name'']]"
  using insert_binds_columns [of "\<lparr>tblName = ''role'', tblDB = ''game'', tblCols = [\<lparr>colName = ''id'', colType = ''int(11)'', colKey = ''PRI'', colNull = False\<rparr>,
        \<lparr>colName = ''name'', colType = ''varchar(32)'', colKey = [], colNull = True\<rparr>], CreateCmd = [], PriKeyNum = 1, PriKey = noColumn\<rparr>"
      "''InsertOne''" "''insert''"]
  by (force simp: plainTable_def ident_def identChar_def dataArg_def numeral_2_eq_2)

text \<open>The selected expressions and the destinations of \<open>Scan\<close> are the same columns in the same order.\<close>

lemma select_scan_aligned:
  "genSelectAllCols t = textJoin '', '' (map selectCol (tblCols t))"
  "eachCol t scanTarget = textJoin '', '' (map scanTarget (tblCols t))"
  by (simp_all add: genSelectAllCols_def eachCol_join)


subsection \<open>Nullable columns\<close>

text \<open>Whether the value that replaces \<^verbatim>\<open>NULL\<close> can be scanned into a variable of the Go type: any value
  into bytes and texts, numbers into numbers and truth values, dates into times.  (Of the conversions
  of \<^verbatim>\<open>database/sql\<close> these are the ones the three replacements of the generator need.)\<close>

definition scannable :: "string \<Rightarrow> string \<Rightarrow> bool" where
  "scannable goType dflt \<longleftrightarrow>
     (if goType \<in> {''string'', ''[]byte'', ''sql.RawBytes''} then True
      else if goType = ''time.Time'' then take 5 dflt = ''DATE(''
      else dflt = ''0'')"

definition numeric :: "string \<Rightarrow> bool" where
  "numeric t \<longleftrightarrow> t = ''bool'' \<or> contains t ''int'' \<or> contains t ''float'' \<or> contains t ''double'' \<or> contains t ''decimal''"

lemma timey_not_texty: "timey t \<Longrightarrow> \<not> texty t \<and> \<not> numeric t"
  unfolding timey_def texty_def numeric_def contains_def textIndex_def by (elim disjE) (simp_all)

lemma getGOType_numeric:
  assumes "numeric (ToLower ty)"
  shows "getGOType ty \<in> {''bool'', ''int8'', ''int16'', ''int32'', ''int64'', ''uint8'', ''uint16'', ''uint32'', ''uint64'', ''float32'', ''float64''}"
proof -
  let ?t = "ToLower ty"
  consider "?t = ''bool''" | "?t \<noteq> ''bool''" "contains ?t ''int''" |
    "?t \<noteq> ''bool''" "\<not> contains ?t ''int''" "contains ?t ''float'' \<or> contains ?t ''double'' \<or> contains ?t ''decimal''"
    using assms unfolding numeric_def by blast
  then show ?thesis
  proof cases
    case 2
    then show ?thesis unfolding getGOType_def Let_def by (simp split: if_split)
  next
    case 3
    then show ?thesis by (cases "contains ?t ''float''") (simp_all add: getGOType_def Let_def)
  qed (simp add: getGOType_def)
qed

text \<open>C40: The replacement of \<^verbatim>\<open>NULL\<close> in the generated selects fits the Go type of the column exactly if the
  text of the type does not hold the name of a numeric type and of a text type at once, as
  \<^verbatim>\<open>enum('int','char')\<close> does.\<close>

theorem null_default_fits:
  "scannable (getGOType ty) (nullDefault ty) \<longleftrightarrow> \<not> (numeric (ToLower ty) \<and> texty (ToLower ty))"
proof -
  let ?t = "ToLower ty"
  consider "numeric ?t" | "\<not> numeric ?t" "timey ?t" | "\<not> numeric ?t" "\<not> timey ?t" by blast
  then show ?thesis
  proof cases
    case 1
    note getGOType_numeric [OF 1]
    moreover have "\<not> timey ?t" using 1 timey_not_texty by blast
    ultimately show ?thesis using 1 unfolding scannable_def nullDefault_def Let_def by (elim insertE emptyE) simp_all
  next
    case 2
    then have "getGOType ty = ''time.Time''" using timey_not_texty [OF 2(2)]
      by (auto simp: getGOType_def numeric_def texty_def timey_def Let_def)
    with 2 timey_not_texty [OF 2(2)] show ?thesis by (simp add: scannable_def nullDefault_def Let_def)
  next
    case 3
    then have "getGOType ty \<in> {''string'', ''[]byte'', ''sql.RawBytes''}"
      by (auto simp: getGOType_def numeric_def timey_def Let_def)
    with 3 show ?thesis by (auto simp: scannable_def)
  qed
qed

text \<open>The geometric type \<^verbatim>\<open>POINT\<close> holds the letters of an integer type and is mapped to one; times with a
  precision are not recognised as times.\<close>

lemma type_misread: "getGOType ''point'' = ''int32''" "getGOType ''datetime(6)'' = ''sql.RawBytes''"
  by (simp_all add: getGOType_def ToLower_def lowerChar_def contains_def textIndex_def)


subsection \<open>Reading the schema\<close>

definition isPri :: "msColumn \<Rightarrow> bool" where
  "isPri c \<longleftrightarrow> colKey c = ''PRI''"

text \<open>What the tables of a read schema keep: the number of the key columns, the last of them, and no
  back quote in the statement that creates the table.\<close>

definition tableInv :: "string \<Rightarrow> msTable \<Rightarrow> bool" where
  "tableInv dbname t \<longleftrightarrow> tblDB t = dbname \<and> PriKeyNum t = int (length (filter isPri (tblCols t))) \<and>
     (filter isPri (tblCols t) \<noteq> [] \<longrightarrow> PriKey t = last (filter isPri (tblCols t))) \<and> CHR 0x60 \<notin> set (CreateCmd t)"

lemma addColumn_inv: "tableInv d t \<Longrightarrow> tableInv d (addColumn t c)"
  by (auto simp: tableInv_def addColumn_def isPri_def Let_def)

lemma readColumns_inv: "tableInv d t \<Longrightarrow> readColumns t rs = Inr t' \<Longrightarrow> tableInv d t'"
  by (induction t rs rule: readColumns.induct) (auto split: sum.splits intro: addColumn_inv)

lemma readCreates_inv: "tableInv d t \<Longrightarrow> readCreates t rs = Inr t' \<Longrightarrow> tableInv d t'"
proof (induction t rs rule: readCreates.induct)
  case (2 t r rs)
  from 2(3) obtain nm cr where r: "r = Inr [nm, cr]" and rec: "readCreates (t\<lparr>CreateCmd := filter (\<lambda>c. c \<noteq> CHR 0x60) cr\<rparr>) rs = Inr t'"
    by (auto split: sum.splits list.splits)
  have "tableInv d (t\<lparr>CreateCmd := filter (\<lambda>c. c \<noteq> CHR 0x60) cr\<rparr>)" using 2(2) by (simp add: tableInv_def)
  from 2(1) [OF r _ _ _ this rec] show ?case by simp
qed simp

lemma readTables_inv:
  "\<forall>t \<in> set ts. tableInv d t \<Longrightarrow> readTables db d ts rs = (e, ts') \<Longrightarrow> \<forall>t \<in> set ts'. tableInv d t"
proof (induction db d ts rs rule: readTables.induct)
  case (2 db d ts r rs)
  let ?t = "\<lparr>tblName = scanName r, tblDB = d, tblCols = [], CreateCmd = [], PriKeyNum = 0, PriKey = noColumn\<rparr>"
  have t: "tableInv d ?t" by (simp add: tableInv_def)
  show ?case
  proof (cases "readColumn db ?t")
    case (Inr t1)
    then have t1: "tableInv d t1" using readColumns_inv [OF t] by (auto simp: readColumn_def split: sum.splits)
    show ?thesis
    proof (cases "readCreateCmd db t1")
      case (Inr t2)
      then have "tableInv d t2" using readCreates_inv [OF t1] by (auto simp: readCreateCmd_def split: sum.splits)
      with 2 \<open>readColumn db ?t = Inr t1\<close> Inr show ?thesis by auto
    qed (use 2 Inr in auto)
  qed (use 2 in auto)
qed simp

lemma readDB_inv: "readDB db d [] = (e, ts) \<Longrightarrow> \<forall>t \<in> set ts. tableInv d t"
  by (auto simp: readDB_def split: sum.splits dest: readTables_inv [rotated])

text \<open>What the answers of the database say about a table: its name is in the row of \<^verbatim>\<open>show tables\<close>, it has
  a column for every row of \<^verbatim>\<open>SHOW COLUMNS\<close> in their order, and its statement is that of the last row
  of \<^verbatim>\<open>SHOW CREATE TABLE\<close> without the back quotes.\<close>

definition rowColumn :: "dbrow \<Rightarrow> msColumn \<Rightarrow> bool" where
  "rowColumn r c \<longleftrightarrow> (\<exists>field ty null key defau extra. r = Inr [field, ty, null, key, defau, extra] \<and>
     colName c = field \<and> colType c = ty \<and> colKey c = key \<and> colNull c = (null = ''YES''))"

definition rowsCreate :: "dbrow list \<Rightarrow> string \<Rightarrow> bool" where
  "rowsCreate rs cmd \<longleftrightarrow> (if rs = [] then cmd = []
     else \<exists>name s. last rs = Inr [name, s] \<and> cmd = filter (\<lambda>c. c \<noteq> CHR 0x60) s)"

definition describes :: "database \<Rightarrow> string \<Rightarrow> dbrow \<Rightarrow> msTable \<Rightarrow> bool" where
  "describes db d r t \<longleftrightarrow> (\<forall>name. r = Inr [name] \<longrightarrow> tblName t = name) \<and> tableInv d t \<and>
     (\<exists>rows. db d (''SHOW COLUMNS FROM '' @ tblName t) = Inr rows \<and> list_all2 rowColumn rows (tblCols t)) \<and>
     (\<exists>rows. db d (''SHOW CREATE TABLE '' @ tblName t) = Inr rows \<and> rowsCreate rows (CreateCmd t))"

lemma scanColumn_row: "scanColumn r = Inr c \<Longrightarrow> rowColumn r c"
  by (auto simp: scanColumn_def rowColumn_def split: sum.splits list.splits)

lemma addColumn_fields [simp]:
  "tblName (addColumn t c) = tblName t" "tblDB (addColumn t c) = tblDB t" "CreateCmd (addColumn t c) = CreateCmd t"
  "tblCols (addColumn t c) = tblCols t @ [c]"
  by (simp_all add: addColumn_def Let_def)

lemma readColumns_rows:
  "readColumns t rs = Inr t' \<Longrightarrow> tblName t' = tblName t \<and> tblDB t' = tblDB t \<and> CreateCmd t' = CreateCmd t \<and>
     (\<exists>cs. tblCols t' = tblCols t @ cs \<and> list_all2 rowColumn rs cs)"
proof (induction t rs rule: readColumns.induct)
  case (2 t r rs)
  from 2(2) obtain c where c: "scanColumn r = Inr c" "readColumns (addColumn t c) rs = Inr t'" by (auto split: sum.splits)
  from 2(1) [OF c] scanColumn_row [OF c(1)] show ?case by fastforce
qed simp

lemma readCreates_rows:
  "readCreates t rs = Inr t' \<Longrightarrow> tblName t' = tblName t \<and> tblDB t' = tblDB t \<and> tblCols t' = tblCols t \<and>
     (if rs = [] then CreateCmd t' = CreateCmd t else rowsCreate rs (CreateCmd t'))"
proof (induction t rs rule: readCreates.induct)
  case (2 t r rs)
  from 2(2) obtain nm cr where r: "r = Inr [nm, cr]" and rec: "readCreates (t\<lparr>CreateCmd := filter (\<lambda>c. c \<noteq> CHR 0x60) cr\<rparr>) rs = Inr t'"
    by (auto split: sum.splits list.splits)
  from 2(1) [OF r _ _ _ rec] r show ?case by (auto simp: rowsCreate_def split: if_splits)
qed simp

text \<open>A schema is read completely: one table for every row of \<^verbatim>\<open>show tables\<close>, in their order.\<close>

lemma readTables_all:
  "readTables db d ts rs = (None, ts') \<Longrightarrow> \<exists>new. ts' = ts @ new \<and> list_all2 (describes db d) rs new"
proof (induction db d ts rs rule: readTables.induct)
  case (2 db d ts r rs)
  let ?t = "\<lparr>tblName = scanName r, tblDB = d, tblCols = [], CreateCmd = [], PriKeyNum = 0, PriKey = noColumn\<rparr>"
  from 2(2) obtain t1 t2 where 1: "readColumn db ?t = Inr t1" and 2: "readCreateCmd db t1 = Inr t2"
    and rec: "readTables db d (ts @ [t2]) rs = (None, ts')"
    by (auto simp: Let_def split: sum.splits)
  have inv: "tableInv d ?t" by (simp add: tableInv_def)
  from 1 obtain crows where c: "db d (''SHOW COLUMNS FROM '' @ scanName r) = Inr crows" "readColumns ?t crows = Inr t1"
    by (auto simp: readColumn_def split: sum.splits)
  from readColumns_rows [OF c(2)] have f1: "tblName t1 = scanName r" "tblDB t1 = d" "CreateCmd t1 = []" "list_all2 rowColumn crows (tblCols t1)"
    by auto
  from 2 f1 obtain srows where s: "db d (''SHOW CREATE TABLE '' @ scanName r) = Inr srows" "readCreates t1 srows = Inr t2"
    by (auto simp: readCreateCmd_def split: sum.splits)
  from readCreates_rows [OF s(2)] f1 have f2: "tblName t2 = scanName r" "tblCols t2 = tblCols t1" "rowsCreate srows (CreateCmd t2)"
    by (auto simp: rowsCreate_def split: if_splits)
  have "tableInv d t2" by (rule readCreates_inv [OF readColumns_inv [OF inv c(2)] s(2)])
  then have "describes db d r t2" using f1 f2 c(1) s(1) by (auto simp: describes_def scanName_def)
  with "2.IH" [OF refl 1 2 rec] show ?case by auto
qed simp

text \<open>So the text of \<open>Create\<close> has the statement as its only raw string literal.\<close>

lemma create_literal:
  assumes "tableInv d t" "ident (tblName t)" "ident d"
  shows "everySecond (textSplit (genTableCreate t) [CHR 0x60]) = [CreateCmd t]"
proof -
  have e: "genTableCreate t = (''//create table '' @ tblDB t @ ''.'' @ tblName t @ ''\<newline>'' @
     ''func (t *'' @ tname t @ '') Create() (sql.Result, error) {\<newline>'' @ ''	sqlcmd := '') @ CHR 0x60 # CreateCmd t @ CHR 0x60 #
     (''\<newline>'' @ ''	return t.DB.Exec(sqlcmd)\<newline>'' @ ''}\<newline>'')"
    by (simp add: genTableCreate_def)
  have "CHR 0x60 \<notin> set (tblDB t)" "CHR 0x60 \<notin> set (tblName t)" "CHR 0x60 \<notin> set (CreateCmd t)"
    using assms by (auto simp: noted tableInv_def)
  then show ?thesis unfolding e by (simp add: textSplit_piece textSplit_last tname_def del: append.simps append_assoc)
qed


subsection \<open>The generated files\<close>

definition goName :: "string \<Rightarrow> string" where
  "goName d = ''db_'' @ d @ ''.go''"

lemma goName_inj: "goName a = goName b \<longleftrightarrow> a = b"
  by (simp add: goName_def)

text \<open>A schema with its tables, as its answers say.\<close>

definition schemaTables :: "database \<Rightarrow> string \<Rightarrow> msTable list \<Rightarrow> bool" where
  "schemaTables db d ts \<longleftrightarrow> (\<exists>rows. db d ''show tables'' = Inr rows \<and> list_all2 (describes db d) rows ts)"

lemma readDB_all: "readDB db d [] = (None, ts) \<Longrightarrow> schemaTables db d ts"
  by (auto simp: readDB_def schemaTables_def split: sum.splits dest: readTables_all)

lemma genOne_ok:
  assumes "genOne db create d pkg st = (None, st')"
  shows "\<exists>ts. schemaTables db d ts \<and>
    goFiles st' = (if ts = [] then goFiles st else (goFiles st)(goName d \<mapsto> fileText pkg ts))"
proof -
  obtain e ts where r: "readDB db d [] = (e, ts)" by (cases "readDB db d []")
  then have "e = None" using assms by (auto simp: genOne_def split: option.splits)
  with r have all: "schemaTables db d ts" using readDB_all by simp
  have "ts \<noteq> [] \<Longrightarrow> tblDB (hd ts) = d" using readDB_inv [OF r] by (simp add: tableInv_def)
  then have "goFiles st' = (if ts = [] then goFiles st else (goFiles st)(goName d \<mapsto> fileText pkg ts))"
    using assms r \<open>e = None\<close>
    by (cases "ts = []"; cases "create (goName d)") (auto simp: genOne_def goName_def Let_def)
  with all show ?thesis by blast
qed

text \<open>The schemas that are generated.\<close>

definition wanted :: "string list \<Rightarrow> string \<Rightarrow> bool" where
  "wanted dbs v \<longleftrightarrow> v \<in> set dbs \<and> v \<noteq> [] \<and> v \<noteq> ''information_schema''"

lemma genAll_files:
  "genAll db create dbs pkg st = (None, st') \<Longrightarrow>
    (\<forall>v. wanted dbs v \<longrightarrow> (\<exists>ts. schemaTables db v ts \<and> (ts \<noteq> [] \<longrightarrow> goFiles st' (goName v) = Some (fileText pkg ts)))) \<and>
    (\<forall>f. (\<forall>v. wanted dbs v \<longrightarrow> f \<noteq> goName v) \<longrightarrow> goFiles st' f = goFiles st f)"
proof (induction dbs arbitrary: st)
  case Nil
  then show ?case by (simp add: wanted_def)
next
  case (Cons v dbs)
  show ?case
  proof (cases "v \<noteq> [] \<and> v \<noteq> ''information_schema''")
    case False
    with Cons.prems have "genAll db create dbs pkg st = (None, st')" by (simp only: genAll.simps if_False)
    moreover have "wanted (v # dbs) = wanted dbs" using False by (auto simp: wanted_def)
    ultimately show ?thesis using Cons.IH by simp
  next
    case True
    then have c: "genAll db create (v # dbs) pkg st =
        (case genOne db create v pkg st of (Some e, st') \<Rightarrow> (Some e, st') | (None, st') \<Rightarrow> genAll db create dbs pkg st')"
      by simp
    obtain st1 where one: "genOne db create v pkg st = (None, st1)" and rest: "genAll db create dbs pkg st1 = (None, st')"
      using Cons.prems unfolding c by (auto split: option.splits prod.splits)
    from genOne_ok [OF one] obtain ts where ts: "schemaTables db v ts"
        "goFiles st1 = (if ts = [] then goFiles st else (goFiles st)(goName v \<mapsto> fileText pkg ts))" by blast
    note ih = Cons.IH [OF rest]
    have w: "wanted (v # dbs) u \<longleftrightarrow> u = v \<or> wanted dbs u" for u using True by (auto simp: wanted_def)
    have "\<exists>ts. schemaTables db v ts \<and> (ts \<noteq> [] \<longrightarrow> goFiles st' (goName v) = Some (fileText pkg ts))"
    proof (cases "wanted dbs v")
      case False
      then have "goFiles st' (goName v) = goFiles st1 (goName v)" using ih by (metis goName_inj)
      then show ?thesis using ts by (intro exI [of _ ts]) simp
    qed (use ih in blast)
    moreover have "goFiles st' f = goFiles st f" if "\<forall>u. wanted (v # dbs) u \<longrightarrow> f \<noteq> goName u" for f
      using that ih ts(2) by (simp add: w)
    ultimately show ?thesis using ih by (auto simp: w)
  qed
qed

text \<open>The functions that are generated for a table.\<close>

definition tableParts :: "(msTable \<Rightarrow> string) list" where
  "tableParts = [genTableSqlStruct, genTableDataStruct, genTableRecordCount, genTableRecordMax, genTableSelectOne,
     genTableSelectPriKey, genTableSelectAll, genTableAllPriKey, \<lambda>t. genTableReplaceOne t ''InsertOne'' ''insert'',
     \<lambda>t. genTableReplaceBatch t ''InsertBatch'' ''insert'', \<lambda>t. genTableReplaceOne t ''ReplaceOne'' ''replace'',
     \<lambda>t. genTableReplaceBatch t ''ReplaceBatch'' ''replace'', genTableCreate, genTableDelete, genTableDeletePriKey,
     genTableUpdate, genTableUpdatePriKey]"

lemma tableText_parts: "tableText t = concat (map (\<lambda>g. g t) tableParts)"
  by (simp add: tableText_def tableParts_def)

text \<open>C24: If the generator runs over all schemas without an error, then every schema that the server
  lists, except \<^verbatim>\<open>information_schema\<close>, has been read completely: there is one table for every row of its
  \<^verbatim>\<open>show tables\<close>, in this order, with a column for every row of \<^verbatim>\<open>SHOW COLUMNS\<close> and the statement of
  \<^verbatim>\<open>SHOW CREATE TABLE\<close>, and its key columns are counted right.  Each schema with tables has its file:
  the parts for the database, followed by the seventeen generated parts of
  every table in order.  No other file is touched.\<close>

theorem all_schemas_generated:
  assumes "GenGOFile db create [] pkg st = (None, st')"
    and "db [] ''show databases'' = Inr (map (\<lambda>v. Inr [v]) dbs)"
  shows "(\<forall>v. v \<in> set dbs \<and> v \<noteq> [] \<and> v \<noteq> ''information_schema'' \<longrightarrow>
      (\<exists>rows ts. db v ''show tables'' = Inr rows \<and> list_all2 (describes db v) rows ts \<and>
        (ts \<noteq> [] \<longrightarrow> goFiles st' (''db_'' @ v @ ''.go'') = Some (genDBImport pkg @ genDBCreate ts @ genDBStruct ts @
          genDBConfig ts @ genDBConnect ts @ concat (map (\<lambda>t. concat (map (\<lambda>g. g t) tableParts)) ts))))) \<and>
    (\<forall>f. (\<forall>v. v \<in> set dbs \<and> v \<noteq> [] \<and> v \<noteq> ''information_schema'' \<longrightarrow> f \<noteq> ''db_'' @ v @ ''.go'') \<longrightarrow> goFiles st' f = goFiles st f)"
proof -
  have "showDB db = Inr dbs" using assms(2) by (simp add: showDB_def scanName_def comp_def)
  then have "genAll db create dbs pkg (st\<lparr>Tables := []\<rparr>) = (None, st')" using assms(1) by (simp add: GenGOFile_def)
  from genAll_files [OF this] show ?thesis
    by (simp add: wanted_def schemaTables_def goName_def fileText_def tableText_parts [abs_def]) blast
qed

definition oneTableDb :: database where
  "oneTableDb d q =
     (if q = ''show databases'' then Inr [Inr [''information_schema''], Inr [''game'']]
      else if q = ''show tables'' then Inr [Inr [''role'']]
      else if q = ''SHOW COLUMNS FROM role'' then
        Inr [Inr [''id'', ''int(11)'', ''NO'', ''PRI'', [], []], Inr [''slot'', ''int(11)'', ''NO'', ''PRI'', [], []]]
      else Inr [Inr [''role'', ''CREATE TABLE'']])"

lemma oneTable_read:
  "readDB oneTableDb ''game'' [] = (None, [\<lparr>tblName = ''role'', tblDB = ''game'',
     tblCols = [\<lparr>colName = ''id'', colType = ''int(11)'', colKey = ''PRI'', colNull = False\<rparr>,
       \<lparr>colName = ''slot'', colType = ''int(11)'', colKey = ''PRI'', colNull = False\<rparr>],
     CreateCmd = ''CREATE TABLE'', PriKeyNum = 2, PriKey = \<lparr>colName = ''slot'', colType = ''int(11)'', colKey = ''PRI'', colNull = False\<rparr>\<rparr>])"
  by (simp add: readDB_def oneTableDb_def scanName_def readColumn_def readCreateCmd_def scanColumn_def addColumn_def Let_def)

theorem all_schemas_generated_witness:
  "\<exists>st' t. GenGOFile oneTableDb (\<lambda>_. None) [] ''main'' \<lparr>Tables = [], goFiles = Map.empty\<rparr> = (None, st') \<and>
     describes oneTableDb ''game'' (Inr [''role'']) t \<and>
     goFiles st' ''db_game.go'' = Some (genDBImport ''main'' @ genDBCreate [t] @ genDBStruct [t] @
       genDBConfig [t] @ genDBConnect [t] @ concat (map (\<lambda>g. g t) tableParts))"
proof -
  have dbs: "oneTableDb [] ''show databases'' = Inr (map (\<lambda>v. Inr [v]) [''information_schema'', ''game''])"
    by (simp add: oneTableDb_def)
  have sh: "showDB oneTableDb = Inr [''information_schema'', ''game'']" by (simp add: showDB_def oneTableDb_def scanName_def)
  have "\<exists>st'. GenGOFile oneTableDb (\<lambda>_. None) [] ''main'' \<lparr>Tables = [], goFiles = Map.empty\<rparr> = (None, st')"
    by (simp add: GenGOFile_def sh genOne_def oneTable_read)
  then obtain st' where g: "GenGOFile oneTableDb (\<lambda>_. None) [] ''main'' \<lparr>Tables = [], goFiles = Map.empty\<rparr> = (None, st')" ..
  have "oneTableDb ''game'' ''show tables'' = Inr [Inr [''role'']]" by (simp add: oneTableDb_def)
  with all_schemas_generated [OF g dbs] obtain t where "describes oneTableDb ''game'' (Inr [''role'']) t"
      "goFiles st' (''db_'' @ ''game'' @ ''.go'') = Some (genDBImport ''main'' @ genDBCreate [t] @ genDBStruct [t] @
        genDBConfig [t] @ genDBConnect [t] @ concat (map (\<lambda>t. concat (map (\<lambda>g. g t) tableParts)) [t]))"
    by (force simp: list_all2_Cons1)
  with g show ?thesis by auto
qed

lemma goLiterals_step:
  "CHR 0x22 \<notin> set a \<Longrightarrow> CHR 0x22 \<notin> set b \<Longrightarrow> goLiterals (a @ CHR 0x22 # b @ CHR 0x22 # rest) = b # goLiterals rest"
  by (simp add: goLiterals_def textSplit_piece)

lemma goLiterals_none: "CHR 0x22 \<notin> set a \<Longrightarrow> goLiterals a = []"
  by (simp add: goLiterals_def textSplit_last)

lemma getGOType_range:
  "getGOType ty \<in> {''bool'', ''int8'', ''int16'', ''int32'', ''int64'', ''uint8'', ''uint16'', ''uint32'', ''uint64'', ''float32'', ''float64'',
     ''string'', ''[]byte'', ''time.Time'', ''sql.RawBytes''}"
proof (cases "numeric (ToLower ty)")
  case True
  from getGOType_numeric [OF this] show ?thesis by blast
next
  case False
  then show ?thesis by (simp add: getGOType_def numeric_def Let_def)
qed

lemma getGOType_no_quote: "CHR 0x22 \<notin> set (getGOType ty)"
  using getGOType_range [of ty] by (elim insertE emptyE) simp_all

text \<open>For a table whose key has several columns the generator leaves out \<open>SelectPriKey\<close> and
  \<open>DeletePriKey\<close>, but not \<open>UpdatePriKey\<close>, whose condition is on the last key column alone: the
  generated function changes every row that agrees with the argument in that column.\<close>

theorem update_prikey_partial:
  assumes "tableInv d t" "1 < length (filter isPri (tblCols t))" "plainTable t"
  shows "genTableSelectPriKey t = [] \<and> genTableDeletePriKey t = [] \<and>
    goLiterals (genTableUpdatePriKey t) =
      [''update '' @ tblName t @ '' set '', '','', ''=? '', '' where '' @ colName (last (filter isPri (tblCols t))) @ ''=?'']"
proof -
  let ?k = "last (filter isPri (tblCols t))"
  let ?head = "''//update '' @ tblDB t @ ''.'' @ tblName t @ '' set x=?,y=? where '' @ colName ?k @ ''=?\<newline>func (t *'' @ tname t @
     '') UpdatePriKey(data map[string]interface{},key '' @ getGOType (colType ?k) @
     '') (sql.Result, error) {\<newline>	var sqlcmd strings.Builder\<newline>	sqlcmd.WriteString(''"
  have ne: "filter isPri (tblCols t) \<noteq> []" using assms(2) by auto
  then have "?k \<in> set (tblCols t)" using last_in_set by fastforce
  then have no: "CHR 0x22 \<notin> set (colName ?k)" "CHR 0x22 \<notin> set (tblDB t)" "CHR 0x22 \<notin> set (tblName t)" "CHR 0x22 \<notin> set (tname t)"
    using assms(3) by (auto simp: noted tname_def)
  have k: "PriKey t = ?k" "PriKeyNum t \<noteq> 1" using assms(1,2) ne by (auto simp: tableInv_def)
  have e: "genTableUpdatePriKey t = ?head @ CHR 0x22 # (''update '' @ tblName t @ '' set '') @ CHR 0x22 #
     ('')\<newline>	isfirst:=true\<newline>	valins := make([]interface{}, 0, len(data)+1)\<newline>	for k,v:=range data{\<newline>		if !isfirst{\<newline>			sqlcmd.WriteString('' @ CHR 0x22 # '','' @ CHR 0x22 #
     '')\<newline>		}\<newline>		sqlcmd.WriteString(k)\<newline>		sqlcmd.WriteString('' @ CHR 0x22 # ''=? '' @ CHR 0x22 #
     '')\<newline>		isfirst=false\<newline>		valins = append(valins, v)\<newline>	}\<newline>	valins = append(valins, key)\<newline>	sqlcmd.WriteString('' @ CHR 0x22 #
     ('' where '' @ colName ?k @ ''=?'') @ CHR 0x22 # '')\<newline>	return t.DB.Exec(sqlcmd.String(), valins...)\<newline>}\<newline>'')"
    unfolding genTableUpdatePriKey_def k(1) by simp
  have "goLiterals (genTableUpdatePriKey t) =
      [''update '' @ tblName t @ '' set '', '','', ''=? '', '' where '' @ colName ?k @ ''=?'']"
    unfolding e using no getGOType_no_quote by (subst goLiterals_step, simp, simp)+ (simp add: goLiterals_none)
  then show ?thesis using k(2) by (simp add: genTableSelectPriKey_def genTableDeletePriKey_def)
qed

theorem update_prikey_partial_witness:
  "\<exists>t. readDB oneTableDb ''game'' [] = (None, [t]) \<and> map colName (filter isPri (tblCols t)) = [''id'', ''slot''] \<and>
     last (goLiterals (genTableUpdatePriKey t)) = '' where slot=?''"
proof -
  obtain t where t: "readDB oneTableDb ''game'' [] = (None, [t])"
      "tblCols t = [\<lparr>colName = ''id'', colType = ''int(11)'', colKey = ''PRI'', colNull = False\<rparr>,
       \<lparr>colName = ''slot'', colType = ''int(11)'', colKey = ''PRI'', colNull = False\<rparr>]" "tblName t = ''role''" "tblDB t = ''game''"
    using oneTable_read by simp
  have "tableInv ''game'' t" using readDB_inv [OF t(1)] by simp
  moreover have "plainTable t" using t(2-) by (simp add: plainTable_def ident_def identChar_def)
  ultimately show ?thesis using update_prikey_partial [of "''game''" t] t by (simp add: isPri_def)
qed

end
