(* ===== verification/Spec2Isabelle.thy ===== *)
theory Spec2Isabelle
  imports Spb_Props Kvbuffer_Main Rpc_Props Listener Http Stlog_Props Ini_Props Ssproxy_Config Upgrade Stutil Stfile Stdir Mysqlgen_Props
begin

text \<open>
  A verification development for gotools, a collection of Go libraries and programs for network
  servers: a binary codec and a server framework (\<^verbatim>\<open>src/stnet\<close>), a key-value store in one byte array
  (\<^verbatim>\<open>src/stkvbuffer\<close>), a logger (\<^verbatim>\<open>src/stlog\<close>), a configuration reader (\<^verbatim>\<open>src/stconfig\<close>), helpers
  (\<^verbatim>\<open>src/stutil\<close>), a generator of database code (\<^verbatim>\<open>src/stmysqlgen\<close>), and two programs built on
  these: a tunnelling proxy (\<^verbatim>\<open>src/ssproxy\<close>) and a self-updating service (\<^verbatim>\<open>src/upgrade\<close>).

  \<^bold>\<open>How the parts interact.\<close>  A \<open>Server\<close> owns \<open>Services\<close>; a listener or connector makes a
  \<open>Session\<close> for every socket; the session's goroutines read bytes, cut them into messages with the
  service's \<open>Unmarshal\<close>, and put each message into the queue of one of the server's threads, which
  calls the service implementation.  Messages are framed by a length and encoded by the codec \<open>spb\<close>
  (or JSON), or are HTTP requests; remote calls (\<open>ServiceRpc\<close>) are messages with a sequence number.
  The proxy is four services of this framework, configured by an ini file; the updater calls remote
  functions of its server.  The key-value buffer, the logger, the configuration reader and the
  generator stand on their own; the server framework logs through a copy of the logger.

  \<^bold>\<open>Conventions\<close> (theory \<open>Prelude\<close>).  A Go call is a value of type \<open>'a go\<close>: it returns, panics, or
  (only for loops modelled with fuel) has not finished.  Go errors are ordinary results.  Integers
  whose width matters are words or integers with the wrap-around written out (\<open>wrap64\<close>); others are
  \<open>int\<close> or \<open>nat\<close>.  Structs are records, pointers are positions or names in an explicit store where
  sharing matters.  Goroutines are step functions, one per stretch between two blocking points, and
  what the scheduler, the network, the clock and the operating system decide is an argument of the
  step.  \<open>Gotext\<close> holds the text functions of the Go library that the components share (decimal
  numbers, searching, splitting, joining) with their laws.

  \<^bold>\<open>The codec\<close> (\<^verbatim>\<open>spb.go\<close>).  \<open>Spb\<close>: Go types and typed values, \<open>pack\<close> and \<open>unpack\<close> with their
  helpers, as the source has them.  \<open>Spb_Wire\<close>: the numbers and headers on the wire.  \<open>Spb_Total\<close>:
  decoding ends on every input; the fuel is one unit a byte and one more, and is proved to be enough
  because every header consumes a byte.  \<open>Spb_Format\<close>, \<open>Spb_Roundtrip\<close>, \<open>Spb_Compat\<close>,
  \<open>Spb_Typing\<close>: the format as a relation, decoding of encoded values, messages of older and newer
  struct versions, types.  \<open>Spb_Props\<close> states the properties, among them three defects (floats,
  pointer fields, crafted counts).

  \<^bold>\<open>The server framework.\<close>  \<open>Frame\<close> (\<^verbatim>\<open>encode.go\<close> and the encoders of \<^verbatim>\<open>rpc.go\<close>): framing and its
  defect for large frames.  \<open>Service\<close> (\<^verbatim>\<open>service.go\<close>, \<^verbatim>\<open>serviceimp.go\<close>): queues, choice of thread,
  dispatch.  \<open>Session\<close> (\<^verbatim>\<open>session.go\<close>, \<^verbatim>\<open>close.go\<close>): the three goroutines of a session.
  \<open>Session_Stream\<close>: a locale \<open>framing\<close> of parsers that recognise frames, and the proof that
  reassembly delivers the frames of a stream however it was cut.  \<open>Delivery\<close>: the locale
  \<open>message_frames\<close> of services whose messages are such frames, a sublocale of \<open>framing\<close>; every
  message reaches the queue of its thread.  \<open>Services\<close> (\<^verbatim>\<open>simpleimp.go\<close>): the ready-made services.
  \<open>Spb_Service\<close> and \<open>Http\<close> interpret \<open>message_frames\<close> with the codec's service and the HTTP
  service.  \<open>Http_Mux\<close> and \<open>Http\<close> (\<^verbatim>\<open>servicehttp.go\<close>): the routing table, which serves the longest
  matching pattern; parsing of requests, writing of responses, and defects (patterns with hosts,
  chunked bodies, announced lengths near the largest integer).  \<open>Server\<close> (\<^verbatim>\<open>server.go\<close>):
  registration, threads, queues.  \<open>Rpc\<close> and \<open>Rpc_Props\<close> (\<^verbatim>\<open>rpc.go\<close>): requests, responses,
  time-outs; a call runs the method once with the caller's arguments and the callback once with its
  results.  \<open>Connector\<close> (\<^verbatim>\<open>connector.go\<close>) and \<open>Listener\<close> (\<^verbatim>\<open>listener.go\<close>, and the registry of
  connections of \<^verbatim>\<open>service.go\<close>): the reconnecting client and the accepting server as step relations
  over the session model, with invariants by rule induction and the proofs that \<open>Close\<close> returns.
  There the steps that the program makes by itself (\<open>ownstep\<close>, \<open>lown\<close>) are kept apart from those
  that the network may or may not cause (\<open>netstep\<close>, \<open>lnet\<close>): all of them together are bounded, and
  progress is shown by the former alone, so that it rests on \<open>Close\<close> closing the sockets.

  \<^bold>\<open>The key-value buffer\<close> (\<^verbatim>\<open>kvbuffer.go\<close>, \<^verbatim>\<open>util.go\<close>, \<^verbatim>\<open>lru.go\<close>).  \<open>Lru\<close>: the cache with its list
  and map.  \<open>Kvbuffer\<close>: chunks, free list, nodes, and \<open>Get\<close>, \<open>Set\<close>, \<open>Del\<close>, \<open>Stat\<close> and opening.
  \<open>Kvbuffer_Layout\<close>, \<open>Kvbuffer_Write\<close>, \<open>Kvbuffer_Own\<close>, \<open>Kvbuffer_Set\<close>: how a node lies in the
  array, the write loops against a plain stream, who owns which chunk, the effect of \<open>Set\<close>.
  \<open>Kvbuffer_Props\<close>, \<open>Kvbuffer_Open\<close>, \<open>Kvbuffer_Main\<close>: the buffer refines a finite map, for single
  operations and for every sequence of them; opening ends on every array because it visits each
  chunk once (the fuel is the number of chunks and one more).

  \<^bold>\<open>The logger\<close> (\<^verbatim>\<open>stlog.go\<close>, \<^verbatim>\<open>filelog.go\<close>; \<^verbatim>\<open>stnet\<close> has copies).  \<open>Filelog\<close>: the rotating writer
  over a file system that is a map.  \<open>Filelog_Props\<close>: the exact effect of a write, which appends or shifts
  the generations by one, and the contract of a log file as the locale \<open>log_sink\<close>, interpreted with
  the writer.  \<open>Stlog\<close>: callers, channel and goroutine.
  \<open>Stlog_Props\<close>: whatever the interleaving, the printed records reach the file in order, at the
  latest on \<open>Close\<close>.

  \<^bold>\<open>The configuration reader\<close> (\<^verbatim>\<open>ini.go\<close>).  \<open>Gostring\<close>: the string and number functions of the Go
  library that it uses, and the line scanner with its limit of 64 KiB.  \<open>Ini\<close>: reading, writing,
  editing, getters.  \<open>Ini_Props\<close>: saving and loading again gives the same configuration, the first
  malformed line is reported, edits are map updates.

  \<^bold>\<open>The proxy.\<close>  \<open>Ssproxy\<close> (\<^verbatim>\<open>imp.go\<close>, \<^verbatim>\<open>protocol.go\<close>): the four services; both ends of a tunnel
  interpret the locale \<open>tunnel_end\<close>, a sublocale of \<open>framing\<close>; what clients send arrives per
  client, complete and in order, and so do the answers.  \<open>Ssproxy_Config\<close> (\<^verbatim>\<open>loadconfig.go\<close>): a
  configuration that loads is well formed; the weights of one kind of proxy have no effect.

  \<^bold>\<open>The updater\<close> (\<open>Upgrade\<close>).  The version table holds the largest version of every name; client
  and server together give a file of one version even if versions appear and calls fail meanwhile,
  provided that published files are not rewritten and versions are numbered from 1 (with version 0
  they do mix files).

  \<^bold>\<open>The helpers\<close> of \<^verbatim>\<open>stutil\<close>.  \<open>Stutil\<close>: numbers and byte strings in buffers, sorting of maps,
  parallel runs.  \<open>Stfile\<close>: reading by lines through the buffer of \<open>bufio\<close>, which is modelled with
  its memory, because long lines are corrupted through it; reading is right for short lines and ends
  for all (the fuel of the loops is the number of bytes and pieces and two, enough because every
  line that is read consumes a byte).  \<open>Stdir\<close>: walking through directories.

  \<^bold>\<open>The generator.\<close>  \<open>Mysqlgen\<close> (\<^verbatim>\<open>readdbcfg.go\<close>, \<^verbatim>\<open>tablereader.go\<close>, \<^verbatim>\<open>dbreader.go\<close>,
  \<^verbatim>\<open>gensql.go\<close>): reading of a schema and the text of the generated functions, letter by letter.
  \<open>Mysqlgen_Props\<close>: the generated inserts bind every column to its field, every schema is read
  completely and gets its file, replacements of \<^verbatim>\<open>NULL\<close> have the type of their column, and updates by a key of several columns
  look at the last one only.

  \<^bold>\<open>Parameters.\<close>  Code outside the repository is an argument: the JSON package (\<open>json_lib\<close>), the HTTP
  parser (\<open>http_lib\<close>), the database, user implementations of services, \<open>fmt\<close> and the formatting of
  times, \<open>ParseFloat\<close>, \<open>sort.Sort\<close>, random numbers, the clock, dialling, the texts of system errors
  and file access.  Hypotheses on them are named definitions (\<open>fmt_millis\<close>, \<open>env_ok\<close>, \<open>sorts\<close>,
  \<open>delivers\<close>, \<open>httpOk\<close>) and hold for the witnesses' instances.  The order in which Go iterates over
  a map is that of a list; the proxy's choice among several tunnel sessions is fixed by it.

  \<^bold>\<open>Not modelled.\<close>  \<^verbatim>\<open>stmmap\<close> and \<^verbatim>\<open>stshm\<close> are system calls; of \<^verbatim>\<open>stutil\<close> the HTTP and SSH clients,
  cryptography, profiling, times, reflection helpers, regular expressions, number parsers with
  prefixes and the one-line wrappers of \<open>os\<close> and \<open>filepath\<close> are calls into other packages; starting
  and stopping of processes in \<^verbatim>\<open>upgrade\<close>, \<^verbatim>\<open>main.go\<close> and \<^verbatim>\<open>proxy.go\<close> of \<^verbatim>\<open>ssproxy\<close> and the package
  logger of \<^verbatim>\<open>stnet/log.go\<close> are glue.  Daily log rotation is modelled, but its file names are
  outside the laws; reopening a key-value buffer is proved to end, not to restore the map.
\<close>

end
